(* ===== verification/Vsfs_Prelude.thy ===== *)
theory Vsfs_Prelude
  imports Main "HOL-Library.Word" "HOL-Library.Char_ord" "HOL-Library.List_Lexorder"
    "HOL-Library.Sublist"
begin

text \<open>
  Shared vocabulary of the development: the status and fault values every component
  returns, the POSIX constants the sources use, the operations of \<open>std::string\<close>,
  \<open>std::map\<close> and \<open>std::set\<close> that the sources call, and the generic lemmas on them.

  Strings are compared as \<open>std::string\<close> compares them, byte by byte, which is the
  lexicographic order of \<open>HOL-Library.List_Lexorder\<close> over \<open>Char_ord\<close>.
\<close>

section \<open>Collections of facts\<close>

named_theorems status_simps \<open>evaluation of status values\<close>
named_theorems smap_simps \<open>lookup laws of ordered maps\<close>
named_theorems smap_intros \<open>sortedness preservation of ordered maps and sets\<close>

section \<open>Types of the sources\<close>

text \<open>
  \<open>vsfs/common/types.h\<close>: an object id is only compared and masked, so it is a word; a hash
  value is a position on a ring and is ordered as a signed number.
\<close>

type_synonym ObjectId = "64 word"
type_synonym HashValueType = int

definition int64_min :: int where
  "int64_min = - (2 ^ 63)"

definition int64_max :: int where
  "int64_max = 2 ^ 63 - 1"

definition in_int64 :: "int \<Rightarrow> bool" where
  "in_int64 x \<longleftrightarrow> int64_min \<le> x \<and> x \<le> int64_max"

text \<open>
  A \<open>vobla::Status\<close> is kept as the constructor call that built it: \<open>Status::OK\<close>,
  \<open>Status(code, message)\<close> or \<open>Status::system_error(errno)\<close>.
\<close>

datatype Status = OK | Err int string | SysErr int

definition ok :: "Status \<Rightarrow> bool" where
  "ok s \<longleftrightarrow> s = OK"

lemma ok_simps [simp, status_simps]: "ok OK" "\<not> ok (Err c m)" "\<not> ok (SysErr e)"
  by (simp_all add: ok_def)

lemma ok_iff: "ok s \<longleftrightarrow> s = OK"
  by (simp add: ok_def)

text \<open>
  A call either returns or ends the process or raises: a failed \<open>CHECK\<close> aborts, an uncaught
  exception unwinds, a loop may never end, and a call with no defined result is marked as such.
\<close>

datatype fault = CheckFailed | OutOfRange | LengthError | BadLexicalCast | Undefined | UncaughtException | NoReturn

datatype 'a outcome = Done 'a | Fail fault

primrec bindo :: "'a outcome \<Rightarrow> ('a \<Rightarrow> 'b outcome) \<Rightarrow> 'b outcome" where
  "bindo (Done a) f = f a"
| "bindo (Fail e) f = Fail e"

lemma bindo_Done_iff [simp]: "bindo m f = Done b \<longleftrightarrow> (\<exists>a. m = Done a \<and> f a = Done b)"
  by (cases m) auto

lemma bindo_Fail_iff: "bindo m f = Fail e \<longleftrightarrow> m = Fail e \<or> (\<exists>a. m = Done a \<and> f a = Fail e)"
  by (cases m) auto

lemma bindo_cong [fundef_cong]:
  "m = m' \<Longrightarrow> (\<And>a. m' = Done a \<Longrightarrow> f a = f' a) \<Longrightarrow> bindo m f = bindo m' f'"
  by (cases m) auto

section \<open>Constants of errno.h, string.h and sys/stat.h\<close>

definition ENOENT :: int where "ENOENT = 2"
definition EEXIST :: int where "EEXIST = 17"
definition ENOTDIR :: int where "ENOTDIR = 20"
definition EISDIR :: int where "EISDIR = 21"
definition EINVAL :: int where "EINVAL = 22"
definition ENOTEMPTY :: int where "ENOTEMPTY = 39"

lemmas errno_defs = ENOENT_def EEXIST_def ENOTDIR_def EISDIR_def EINVAL_def ENOTEMPTY_def

definition strerror :: "int \<Rightarrow> string" where
  "strerror e =
     (if e = ENOENT then ''No such file or directory''
      else if e = EEXIST then ''File exists''
      else if e = ENOTDIR then ''Not a directory''
      else if e = EISDIR then ''Is a directory''
      else if e = EINVAL then ''Invalid argument''
      else if e = ENOTEMPTY then ''Directory not empty''
      else ''Unknown error'')"

unbundle bit_operations_syntax

definition S_IFMT :: "32 word" where "S_IFMT = 0xF000"
definition S_IFREG :: "32 word" where "S_IFREG = 0x8000"
definition S_IFDIR :: "32 word" where "S_IFDIR = 0x4000"
definition S_IFLNK :: "32 word" where "S_IFLNK = 0xA000"

lemmas mode_defs = S_IFMT_def S_IFREG_def S_IFDIR_def S_IFLNK_def

definition S_ISDIR :: "32 word \<Rightarrow> bool" where
  "S_ISDIR m \<longleftrightarrow> m AND S_IFMT = S_IFDIR"

definition S_ISLNK :: "32 word \<Rightarrow> bool" where
  "S_ISLNK m \<longleftrightarrow> m AND S_IFMT = S_IFLNK"

text \<open>A mode that carries the regular-file bit is never a directory.\<close>

lemma regular_not_dir [simp]: "\<not> S_ISDIR (m OR S_IFREG)"
proof
  assume "S_ISDIR (m OR S_IFREG)"
  then have "bit ((m OR S_IFREG) AND S_IFMT) 15 = bit S_IFDIR 15"
    by (simp add: S_ISDIR_def)
  then show False
    by (simp add: bit_and_iff bit_or_iff mode_defs)
qed

lemma S_ISDIR_mkdir: "m AND S_IFMT = 0 \<or> m AND S_IFMT = S_IFDIR \<Longrightarrow> S_ISDIR (m OR S_IFDIR)"
  by (auto simp: S_ISDIR_def bit.conj_disj_distrib2 mode_defs)

section \<open>std::string\<close>

text \<open>
  Positions are natural numbers and \<open>npos\<close> is \<^const>\<open>None\<close>. A search starts at a position,
  as \<open>find(c, pos)\<close> does, and a position past the end finds nothing.
\<close>

fun find_idx :: "('a \<Rightarrow> bool) \<Rightarrow> 'a list \<Rightarrow> nat option" where
  "find_idx P [] = None"
| "find_idx P (x # xs) = (if P x then Some 0 else map_option Suc (find_idx P xs))"

definition str_find_if :: "(char \<Rightarrow> bool) \<Rightarrow> string \<Rightarrow> nat \<Rightarrow> nat option" where
  "str_find_if P s pos = map_option (\<lambda>i. pos + i) (find_idx P (drop pos s))"

definition str_find :: "char \<Rightarrow> string \<Rightarrow> nat \<Rightarrow> nat option" where
  "str_find c = str_find_if (\<lambda>x. x = c)"

definition find_first_of :: "string \<Rightarrow> string \<Rightarrow> nat \<Rightarrow> nat option" where
  "find_first_of cs = str_find_if (\<lambda>x. x \<in> set cs)"

definition find_first_not_of :: "string \<Rightarrow> string \<Rightarrow> nat \<Rightarrow> nat option" where
  "find_first_not_of cs = str_find_if (\<lambda>x. x \<notin> set cs)"

definition find_last_of :: "char \<Rightarrow> string \<Rightarrow> nat option" where
  "find_last_of c s = map_option (\<lambda>i. length s - 1 - i) (find_idx (\<lambda>x. x = c) (rev s))"

definition starts_with :: "string \<Rightarrow> string \<Rightarrow> bool" where
  "starts_with s p \<longleftrightarrow> take (length p) s = p"

fun find_sub :: "string \<Rightarrow> string \<Rightarrow> nat option" where
  "find_sub p s =
     (if starts_with s p then Some 0
      else case s of [] \<Rightarrow> None | x # xs \<Rightarrow> map_option Suc (find_sub p xs))"

declare find_sub.simps [simp del]

definition substr :: "string \<Rightarrow> nat \<Rightarrow> nat \<Rightarrow> string" where
  "substr s pos n = take n (drop pos s)"

definition substr_from :: "string \<Rightarrow> nat \<Rightarrow> string" where
  "substr_from s pos = drop pos s"

lemmas str_defs = str_find_def str_find_if_def find_first_of_def find_first_not_of_def
  substr_def substr_from_def starts_with_def

lemma find_idx_SomeD:
  "find_idx P s = Some i \<Longrightarrow> i < length s \<and> P (s ! i) \<and> (\<forall>j<i. \<not> P (s ! j))"
proof (induction s arbitrary: i)
  case (Cons x xs)
  show ?case
  proof (cases "P x")
    case False
    with Cons.prems obtain j where j: "find_idx P xs = Some j" "i = Suc j" by auto
    from Cons.IH [OF j(1)] j(2) False show ?thesis
      by (auto simp: less_Suc_eq_0_disj)
  qed (use Cons.prems in auto)
qed simp

lemma find_idx_None_iff: "find_idx P s = None \<longleftrightarrow> (\<forall>x\<in>set s. \<not> P x)"
  by (induction s) auto

lemma find_idx_takeWhile:
  "find_idx P s = Some i \<Longrightarrow> take i s = takeWhile (\<lambda>x. \<not> P x) s"
  by (induction s arbitrary: i) (auto split: if_splits)

lemma find_idx_append:
  "(\<forall>x\<in>set xs. \<not> P x) \<Longrightarrow> P y \<Longrightarrow> find_idx P (xs @ y # ys) = Some (length xs)"
  by (induction xs) auto

lemma str_find_if_SomeD:
  assumes "str_find_if P s pos = Some i"
  shows "pos \<le> i" "i < length s" "P (s ! i)" "\<And>j. pos \<le> j \<Longrightarrow> j < i \<Longrightarrow> \<not> P (s ! j)"
proof -
  from assms obtain k where k: "find_idx P (drop pos s) = Some k" "i = pos + k"
    by (auto simp: str_find_if_def)
  note d = find_idx_SomeD [OF k(1)]
  show "pos \<le> i" using k(2) by simp
  show "i < length s" using d k(2) by auto
  show "P (s ! i)" using d k(2) by auto
  fix j assume "pos \<le> j" "j < i"
  then have "j - pos < k" "drop pos s ! (j - pos) = s ! j"
    using d k(2) by auto
  with d show "\<not> P (s ! j)" by metis
qed

lemmas str_find_SomeD = str_find_if_SomeD [where P = "\<lambda>x. x = c" for c, folded str_find_def]

lemma find_last_of_SomeD:
  assumes "find_last_of c s = Some i"
  shows "i < length s" "s ! i = c"
proof -
  from assms obtain k where k: "find_idx (\<lambda>x. x = c) (rev s) = Some k" "i = length s - 1 - k"
    by (auto simp: find_last_of_def)
  from find_idx_SomeD [OF k(1)] have "k < length s" "rev s ! k = c" by auto
  then show "i < length s" "s ! i = c"
    using k(2) by (auto simp: rev_nth)
qed

lemma starts_with_prefix: "starts_with s p \<longleftrightarrow> prefix p s"
  by (metis append_eq_conv_conj prefix_def starts_with_def)

lemma starts_with_append [simp]: "starts_with (p @ s) p"
  by (simp add: starts_with_def)

lemma starts_with_Cons_simps [simp]:
  "starts_with s []"
  "\<not> starts_with [] (c # p)"
  "starts_with (x # s) (c # p) \<longleftrightarrow> x = c \<and> starts_with s p"
  by (auto simp: starts_with_def)

text \<open>
  The keys that start with a string form one block of the ordered map: from the string on,
  the first key that does not start with it ends the block.
\<close>

lemma starts_with_le: "starts_with s p \<Longrightarrow> p \<le> (s :: string)"
proof (induction p arbitrary: s)
  case (Cons c p)
  then show ?case by (cases s) auto
qed simp

lemma starts_with_block:
  "(p :: string) \<le> a \<Longrightarrow> a \<le> b \<Longrightarrow> starts_with b p \<Longrightarrow> starts_with a p"
proof (induction p arbitrary: a b)
  case (Cons c p)
  then obtain b' where b: "b = c # b'" "starts_with b' p" by (cases b) auto
  with Cons.prems obtain x a' where a: "a = x # a'" by (cases a) auto
  with Cons.prems b have "x = c" "p \<le> a'" "a' \<le> b'" by (auto split: if_splits)
  with Cons.IH b a show ?case by auto
qed simp

section \<open>std::to\_string\<close>

definition digit_char :: "nat \<Rightarrow> char" where
  "digit_char d = char_of (48 + d)"

fun nat_to_string :: "nat \<Rightarrow> string" where
  "nat_to_string n =
     (if n < 10 then [digit_char n] else nat_to_string (n div 10) @ [digit_char (n mod 10)])"

declare nat_to_string.simps [simp del]

definition int_to_string :: "int \<Rightarrow> string" where
  "int_to_string i =
     (if i < 0 then CHR ''-'' # nat_to_string (nat (- i)) else nat_to_string (nat i))"

definition is_digit :: "char \<Rightarrow> bool" where
  "is_digit c \<longleftrightarrow> 48 \<le> (of_char c :: nat) \<and> (of_char c :: nat) \<le> 57"

definition is_space :: "char \<Rightarrow> bool" where
  "is_space c \<longleftrightarrow> (of_char c :: nat) \<in> {9, 10, 11, 12, 13, 32}"

definition dec_value :: "string \<Rightarrow> nat" where
  "dec_value s = foldl (\<lambda>a c. 10 * a + (of_char c - 48)) 0 s"

lemma of_char_digit [simp]: "d < 10 \<Longrightarrow> (of_char (digit_char d) :: nat) = 48 + d"
  by (simp add: digit_char_def)

lemma is_digit_digit [simp]: "d < 10 \<Longrightarrow> is_digit (digit_char d)"
  by (simp add: is_digit_def)

lemma nat_to_string_digits: "c \<in> set (nat_to_string n) \<Longrightarrow> is_digit c"
proof (induction n rule: nat_to_string.induct)
  case (1 n)
  then show ?case by (subst (asm) (2) nat_to_string.simps) (auto split: if_splits)
qed

lemma nat_to_string_nonempty [simp]: "nat_to_string n \<noteq> []"
  by (subst nat_to_string.simps) simp

lemma dec_value_nat_to_string [simp]: "dec_value (nat_to_string n) = n"
proof (induction n rule: nat_to_string.induct)
  case (1 n)
  show ?case
  proof (cases "n < 10")
    case True
    then show ?thesis by (subst nat_to_string.simps) (simp add: dec_value_def)
  next
    case False
    with 1 have IH: "dec_value (nat_to_string (n div 10)) = n div 10" by blast
    from False show ?thesis
      by (subst nat_to_string.simps) (use IH in \<open>simp add: dec_value_def\<close>)
  qed
qed

lemma nat_to_string_inject: "nat_to_string a = nat_to_string b \<longleftrightarrow> a = b"
  by (metis dec_value_nat_to_string)

lemma hd_nat_to_string_digit: "is_digit (hd (nat_to_string n))"
  by (rule nat_to_string_digits) (rule hd_in_set, simp)

lemma int_to_string_inject: "int_to_string a = int_to_string b \<longleftrightarrow> a = b"
proof
  assume eq: "int_to_string a = int_to_string b"
  have dash: "\<not> is_digit (CHR ''-'')" by (simp add: is_digit_def)
  have no_dash: "hd (nat_to_string n) \<noteq> CHR ''-''" for n
    using dash hd_nat_to_string_digit by metis
  show "a = b"
  proof (cases "a < 0 \<longleftrightarrow> b < 0")
    case True
    with eq show ?thesis
      by (auto simp: int_to_string_def nat_to_string_inject split: if_splits)
  next
    case False
    with eq no_dash show ?thesis
      by (auto simp: int_to_string_def split: if_splits) (metis list.sel(1))+
  qed
qed simp

section \<open>std::map and std::set\<close>

text \<open>
  An ordered map is its association list in key order, an ordered set its list in order:
  iterating from \<open>begin()\<close> to \<open>end()\<close> is going through the list.
\<close>

fun smap_put :: "'k::linorder \<Rightarrow> 'v \<Rightarrow> ('k \<times> 'v) list \<Rightarrow> ('k \<times> 'v) list" where
  "smap_put k v [] = [(k, v)]"
| "smap_put k v (p # m) =
     (if fst p < k then p # smap_put k v m
      else if fst p = k then (k, v) # m
      else (k, v) # p # m)"

definition smap_erase :: "'k \<Rightarrow> ('k \<times> 'v) list \<Rightarrow> ('k \<times> 'v) list" where
  "smap_erase k m = filter (\<lambda>p. fst p \<noteq> k) m"

definition smap_ok :: "('k::linorder \<times> 'v) list \<Rightarrow> bool" where
  "smap_ok m \<longleftrightarrow> sorted_wrt (<) (map fst m)"

definition lower_bound :: "'k::linorder \<Rightarrow> ('k \<times> 'v) list \<Rightarrow> ('k \<times> 'v) list" where
  "lower_bound k m = dropWhile (\<lambda>p. fst p < k) m"

definition upper_bound :: "'k::linorder \<Rightarrow> ('k \<times> 'v) list \<Rightarrow> ('k \<times> 'v) list" where
  "upper_bound k m = dropWhile (\<lambda>p. fst p \<le> k) m"

lemma map_of_smap_put [simp, smap_simps]: "map_of (smap_put k v m) = (map_of m)(k \<mapsto> v)"
  by (induction m) auto

lemma map_of_smap_erase [simp, smap_simps]: "map_of (smap_erase k m) = (map_of m)(k := None)"
  by (induction m) (auto simp: smap_erase_def)

lemma smap_ok_Nil [simp, smap_intros]: "smap_ok []"
  by (simp add: smap_ok_def)

lemma smap_ok_Cons: "smap_ok (p # m) \<longleftrightarrow> (\<forall>q\<in>set m. fst p < fst q) \<and> smap_ok m"
  by (auto simp: smap_ok_def)

lemma fst_set_smap_put: "fst ` set (smap_put k v m) = insert k (fst ` set m)"
  by (induction m) auto

lemma smap_ok_put [smap_intros]: "smap_ok m \<Longrightarrow> smap_ok (smap_put k v m)"
proof (induction m)
  case (Cons p m)
  then have sub: "fst ` set (smap_put k v m) = insert k (fst ` set m)"
    by (simp add: fst_set_smap_put)
  have "\<forall>q\<in>set (smap_put k v m). fst p < fst q" if "fst p < k"
  proof
    fix q assume "q \<in> set (smap_put k v m)"
    then have "fst q \<in> insert k (fst ` set m)" using sub by blast
    with that Cons.prems show "fst p < fst q" by (auto simp: smap_ok_Cons)
  qed
  with Cons show ?case
    by (auto simp: smap_ok_Cons not_less le_less)
qed (simp add: smap_ok_def)

lemma smap_put_put [simp, smap_simps]: "smap_put k v (smap_put k w m) = smap_put k v m"
  by (induction m) auto

lemma smap_put_last: "\<forall>q\<in>set m. fst q < k \<Longrightarrow> smap_put k v m = m @ [(k, v)]"
  by (induction m) auto

lemma smap_ok_filter [smap_intros]: "smap_ok m \<Longrightarrow> smap_ok (filter P m)"
  by (induction m) (auto simp: smap_ok_Cons)

lemma smap_ok_erase [smap_intros]: "smap_ok m \<Longrightarrow> smap_ok (smap_erase k m)"
  by (simp add: smap_erase_def smap_ok_filter)

lemma smap_ok_distinct: "smap_ok m \<Longrightarrow> distinct (map fst m)"
  by (auto simp: smap_ok_def dest: strict_sorted_iff [THEN iffD1])

lemma smap_ok_map_of: "smap_ok m \<Longrightarrow> (k, v) \<in> set m \<longleftrightarrow> map_of m k = Some v"
  by (auto simp: smap_ok_distinct dest: map_of_SomeD)

lemma dropWhile_sorted_filter:
  assumes "smap_ok m" and "\<And>a b. a < b \<Longrightarrow> P b \<Longrightarrow> P a"
  shows "dropWhile (\<lambda>p. P (fst p)) m = filter (\<lambda>p. \<not> P (fst p)) m"
  using assms(1)
proof (induction m)
  case (Cons p m)
  show ?case
  proof (cases "P (fst p)")
    case False
    with Cons.prems have "\<forall>q\<in>set m. \<not> P (fst q)"
      using assms(2) by (auto simp: smap_ok_Cons)
    with False show ?thesis by simp
  qed (use Cons in \<open>simp add: smap_ok_Cons\<close>)
qed simp

lemma lower_bound_filter: "smap_ok m \<Longrightarrow> lower_bound k m = filter (\<lambda>p. k \<le> fst p) m"
  unfolding lower_bound_def
  by (subst dropWhile_sorted_filter) (auto simp: not_less)

lemma upper_bound_filter: "smap_ok m \<Longrightarrow> upper_bound k m = filter (\<lambda>p. k < fst p) m"
  unfolding upper_bound_def
  by (subst dropWhile_sorted_filter) (auto simp: not_le)

fun sset_insert :: "'a::linorder \<Rightarrow> 'a list \<Rightarrow> 'a list" where
  "sset_insert x [] = [x]"
| "sset_insert x (y # ys) =
     (if y < x then y # sset_insert x ys else if y = x then y # ys else x # y # ys)"

definition sset_erase :: "'a \<Rightarrow> 'a list \<Rightarrow> 'a list" where
  "sset_erase x xs = filter (\<lambda>y. y \<noteq> x) xs"

definition sset_ok :: "'a::linorder list \<Rightarrow> bool" where
  "sset_ok xs \<longleftrightarrow> sorted_wrt (<) xs"

lemma set_sset_insert [simp]: "set (sset_insert x xs) = insert x (set xs)"
  by (induction xs) auto

lemma set_sset_erase [simp]: "set (sset_erase x xs) = set xs - {x}"
  by (auto simp: sset_erase_def)

lemma sset_ok_Nil [simp, smap_intros]: "sset_ok []"
  by (simp add: sset_ok_def)

lemma sset_ok_insert [smap_intros]: "sset_ok xs \<Longrightarrow> sset_ok (sset_insert x xs)"
  by (induction xs) (auto simp: sset_ok_def not_less le_less)

lemma sset_ok_erase [smap_intros]: "sset_ok xs \<Longrightarrow> sset_ok (sset_erase x xs)"
  by (induction xs) (auto simp: sset_ok_def sset_erase_def)

lemma sset_eqI: "sset_ok xs \<Longrightarrow> sset_ok ys \<Longrightarrow> set xs = set ys \<Longrightarrow> xs = ys"
  by (metis sset_ok_def strict_sorted_equal)

lemma sset_erase_insert: "sset_ok xs \<Longrightarrow> x \<notin> set xs \<Longrightarrow> sset_erase x (sset_insert x xs) = xs"
  by (rule sset_eqI) (auto intro: smap_intros)

lemma sset_insert_erase: "sset_ok xs \<Longrightarrow> x \<in> set xs \<Longrightarrow> sset_insert x (sset_erase x xs) = xs"
  by (rule sset_eqI) (auto intro: smap_intros)

section \<open>The dictionary interface\<close>

text \<open>
  What every keyed container of the sources promises: an insert is seen by the next lookup of
  its key and by no other, an erase removes its key only, and both keep the representation
  invariant. Sequences of updates then act on the abstract map.
\<close>

datatype ('k, 'v) dict_op = DPut 'k 'v | DErase 'k

fun dict_spec :: "('k, 'v) dict_op list \<Rightarrow> ('k \<Rightarrow> 'v option) \<Rightarrow> 'k \<Rightarrow> 'v option" where
  "dict_spec [] f = f"
| "dict_spec (DPut k v # os) f = dict_spec os (f(k \<mapsto> v))"
| "dict_spec (DErase k # os) f = dict_spec os (f(k := None))"

locale dictionary =
  fixes invar :: "'m \<Rightarrow> bool"
    and alpha :: "'m \<Rightarrow> 'k \<Rightarrow> 'v option"
    and put :: "'k \<Rightarrow> 'v \<Rightarrow> 'm \<Rightarrow> 'm"
    and erase :: "'k \<Rightarrow> 'm \<Rightarrow> 'm"
  assumes put_alpha: "invar m \<Longrightarrow> alpha (put k v m) = (alpha m)(k \<mapsto> v)"
    and erase_alpha: "invar m \<Longrightarrow> alpha (erase k m) = (alpha m)(k := None)"
    and put_invar: "invar m \<Longrightarrow> invar (put k v m)"
    and erase_invar: "invar m \<Longrightarrow> invar (erase k m)"
begin

fun run :: "('k, 'v) dict_op list \<Rightarrow> 'm \<Rightarrow> 'm" where
  "run [] m = m"
| "run (DPut k v # os) m = run os (put k v m)"
| "run (DErase k # os) m = run os (erase k m)"

lemma run_refines: "invar m \<Longrightarrow> invar (run os m) \<and> alpha (run os m) = dict_spec os (alpha m)"
  by (induction os m rule: run.induct)
     (simp_all add: put_alpha erase_alpha put_invar erase_invar)

lemma put_put_same: "invar m \<Longrightarrow> alpha (put k v (put k w m)) = alpha (put k v m)"
  by (simp add: put_alpha put_invar)

lemma erase_put: "invar m \<Longrightarrow> alpha m k = None \<Longrightarrow> alpha (erase k (put k v m)) = alpha m"
  by (auto simp: put_alpha put_invar erase_alpha fun_eq_iff)

lemma updates_commute:
  "invar m \<Longrightarrow> j \<noteq> k \<Longrightarrow> alpha (put j u (put k v m)) = alpha (put k v (put j u m))"
  by (simp add: put_alpha put_invar fun_upd_twist)

end

interpretation smap: dictionary smap_ok map_of smap_put smap_erase
  by unfold_locales (auto intro: smap_intros)

end
