(* ===== verification/Kv_Store.thy ===== *)
theory Kv_Store
  imports Vsfs_Prelude
begin

text \<open>
  The persistent key-value store under the master's components: the \<open>KeyValueStore\<close> interface
  (\<open>vsfs/common/key_value_store.h\<close>), its implementation \<open>LevelDBStore\<close>
  (\<open>vsfs/common/leveldb_store.cpp\<close>) over the LevelDB library, and the in-memory
  \<open>TestLevelDBStore\<close> (\<open>vsfs/common/test_leveldb_store.cpp\<close>).

  The virtual functions are the record \<open>kv_api\<close>, passed to every component that holds a
  store. LevelDB itself is not part of the sources: its calls are the record \<open>leveldb_api\<close>.
\<close>

section \<open>The interface\<close>

record 's kv_api =
  kv_open :: "'s \<Rightarrow> 's \<times> Status"
  kv_get :: "'s \<Rightarrow> string \<Rightarrow> (Status \<times> string option) outcome"
  kv_put :: "'s \<Rightarrow> string \<Rightarrow> string \<Rightarrow> ('s \<times> Status) outcome"
  kv_remove :: "'s \<Rightarrow> string \<Rightarrow> ('s \<times> Status) outcome"
  kv_scan :: "'s \<Rightarrow> (string \<times> string) list outcome"

text \<open>
  \<open>kv_scan\<close> is the sequence a loop from \<open>begin()\<close> to \<open>end()\<close> visits. A call on a store that
  has not been opened dereferences a null pointer.
\<close>

section \<open>LevelDBStore\<close>

datatype leveldb_status = LOk | LError string

record 'db leveldb_api =
  DB_Open :: "bool \<Rightarrow> int option \<Rightarrow> string \<Rightarrow> string + 'db"
  DB_Get :: "'db \<Rightarrow> string \<Rightarrow> leveldb_status \<times> string"
  DB_Put :: "'db \<Rightarrow> string \<Rightarrow> string \<Rightarrow> 'db \<times> leveldb_status"
  DB_Delete :: "'db \<Rightarrow> string \<Rightarrow> 'db \<times> leveldb_status"
  DB_Items :: "'db \<Rightarrow> (string \<times> string) list"

record 'db LevelDBStore =
  db_path :: string
  bufsize_mb :: int
  db_ptr :: "'db option"

definition to_status :: "leveldb_status \<Rightarrow> Status" where
  "to_status l = (case l of LOk \<Rightarrow> OK | LError m \<Rightarrow> Err (-1) m)"

definition LevelDBStore_new :: "string \<Rightarrow> int \<Rightarrow> 'db LevelDBStore" where
  "LevelDBStore_new path bufsize = \<lparr>db_path = path, bufsize_mb = bufsize, db_ptr = None\<rparr>"

definition LevelDBStore_open ::
  "'db leveldb_api \<Rightarrow> 'db LevelDBStore \<Rightarrow> 'db LevelDBStore \<times> Status" where
  "LevelDBStore_open L st =
     (let kMB = 1024 * 1024 in
      case DB_Open L True (Some (bufsize_mb st * kMB)) (db_path st) of
        Inl m \<Rightarrow> (st, to_status (LError m))
      | Inr db \<Rightarrow> (st\<lparr>db_ptr := Some db\<rparr>, OK))"

definition LevelDBStore_create ::
  "'db leveldb_api \<Rightarrow> 'db LevelDBStore \<Rightarrow> 'db LevelDBStore \<times> Status" where
  "LevelDBStore_create L st =
     (case DB_Open L True None (db_path st) of
        Inl m \<Rightarrow> (st, to_status (LError m))
      | Inr db \<Rightarrow> (st\<lparr>db_ptr := Some db\<rparr>, OK))"

definition LevelDBStore_get ::
  "'db leveldb_api \<Rightarrow> 'db LevelDBStore \<Rightarrow> string \<Rightarrow> (Status \<times> string option) outcome" where
  "LevelDBStore_get L st key =
     (case db_ptr st of
        None \<Rightarrow> Fail Undefined
      | Some db \<Rightarrow>
          (case DB_Get L db key of (s, v) \<Rightarrow>
             Done (to_status s, if s = LOk then Some v else None)))"

definition LevelDBStore_put ::
  "'db leveldb_api \<Rightarrow> 'db LevelDBStore \<Rightarrow> string \<Rightarrow> string \<Rightarrow>
     ('db LevelDBStore \<times> Status) outcome" where
  "LevelDBStore_put L st key value =
     (case db_ptr st of
        None \<Rightarrow> Fail Undefined
      | Some db \<Rightarrow>
          (case DB_Put L db key value of (db', s) \<Rightarrow> Done (st\<lparr>db_ptr := Some db'\<rparr>, to_status s)))"

definition LevelDBStore_remove ::
  "'db leveldb_api \<Rightarrow> 'db LevelDBStore \<Rightarrow> string \<Rightarrow> ('db LevelDBStore \<times> Status) outcome" where
  "LevelDBStore_remove L st key =
     (case db_ptr st of
        None \<Rightarrow> Fail Undefined
      | Some db \<Rightarrow>
          (case DB_Delete L db key of (db', s) \<Rightarrow> Done (st\<lparr>db_ptr := Some db'\<rparr>, to_status s)))"

text \<open>
  An iterator of a store is what is left to visit: \<open>Valid()\<close> is that something is left,
  \<open>begin()\<close> and \<open>search(prefix)\<close> position it, and \<open>end()\<close> is LevelDB's empty iterator. Two
  iterators are equal when neither is valid.
\<close>

type_synonym ldb_iterator = "(string \<times> string) list"

definition LevelDBStore_begin ::
  "'db leveldb_api \<Rightarrow> 'db LevelDBStore \<Rightarrow> ldb_iterator outcome" where
  "LevelDBStore_begin L st =
     (case db_ptr st of None \<Rightarrow> Fail Undefined | Some db \<Rightarrow> Done (DB_Items L db))"

definition LevelDBStore_search ::
  "'db leveldb_api \<Rightarrow> 'db LevelDBStore \<Rightarrow> string \<Rightarrow> ldb_iterator outcome" where
  "LevelDBStore_search L st p =
     (case db_ptr st of None \<Rightarrow> Fail Undefined | Some db \<Rightarrow> Done (lower_bound p (DB_Items L db)))"

definition iterator_end :: ldb_iterator where
  "iterator_end = []"

definition iterator_increment :: "ldb_iterator \<Rightarrow> ldb_iterator" where
  "iterator_increment it = (if it \<noteq> [] then tl it else it)"

text \<open>\<open>Prev()\<close> from the first entry leaves the iterator invalid; \<open>entries\<close> is all there is to visit.\<close>

definition iterator_decrement :: "(string \<times> string) list \<Rightarrow> ldb_iterator \<Rightarrow> ldb_iterator" where
  "iterator_decrement entries it =
     (if it = [] then it
      else if length it = length entries then []
      else drop (length entries - length it - 1) entries)"

definition iterator_key :: "ldb_iterator \<Rightarrow> string" where
  "iterator_key it = (if it \<noteq> [] then fst (hd it) else [])"

definition iterator_value :: "ldb_iterator \<Rightarrow> string" where
  "iterator_value it = (if it \<noteq> [] then snd (hd it) else [])"

definition iterator_dereference :: "ldb_iterator \<Rightarrow> (string \<times> string) outcome" where
  "iterator_dereference it = (if it \<noteq> [] then Done (iterator_key it, iterator_value it) else Fail CheckFailed)"

definition iterator_equal :: "ldb_iterator \<Rightarrow> ldb_iterator \<Rightarrow> bool" where
  "iterator_equal a b \<longleftrightarrow> a = [] \<and> b = []"

definition iterator_starts_with :: "ldb_iterator \<Rightarrow> string \<Rightarrow> bool" where
  "iterator_starts_with it p \<longleftrightarrow> it \<noteq> [] \<and> starts_with (fst (hd it)) p"

text \<open>The range-based \<open>for\<close> of the clients: advance until the iterator equals \<open>end()\<close>.\<close>

function iterate :: "ldb_iterator \<Rightarrow> (string \<times> string) list outcome" where
  "iterate it =
     (if iterator_equal it iterator_end then Done []
      else bindo (iterator_dereference it)
             (\<lambda>kv. bindo (iterate (iterator_increment it)) (\<lambda>rest. Done (kv # rest))))"
  by pat_completeness auto
termination
  by (relation "measure length")
     (auto simp: iterator_equal_def iterator_end_def iterator_increment_def)

declare iterate.simps [simp del]

text \<open>The prefix scan of the documentation of \<open>search()\<close>: advance while the key has the prefix.\<close>

function search_loop :: "string \<Rightarrow> ldb_iterator \<Rightarrow> (string \<times> string) list outcome" where
  "search_loop p it =
     (if iterator_starts_with it p
      then bindo (iterator_dereference it)
             (\<lambda>kv. bindo (search_loop p (iterator_increment it)) (\<lambda>rest. Done (kv # rest)))
      else Done [])"
  by pat_completeness auto
termination
  by (relation "measure (\<lambda>(p, it). length it)")
     (auto simp: iterator_starts_with_def iterator_increment_def)

declare search_loop.simps [simp del]

lemmas iterator_defs = iterator_end_def iterator_increment_def iterator_dereference_def
  iterator_key_def iterator_value_def iterator_equal_def iterator_starts_with_def

text \<open>Going back undoes going on, as long as there was an entry to go on to.\<close>

lemma decrement_increment:
  assumes "suffix it entries" "iterator_increment it \<noteq> []"
  shows "iterator_decrement entries (iterator_increment it) = it"
proof -
  from assms(2) obtain kv rest where it: "it = kv # rest" "rest \<noteq> []" by (cases it) (auto simp: iterator_increment_def split: if_splits)
  from assms(1) obtain before where "entries = before @ it" by (auto simp: suffix_def)
  with it show ?thesis by (simp add: iterator_decrement_def iterator_increment_def)
qed

lemma iterate_visits_all: "iterate it = Done it"
proof (induction it rule: iterate.induct)
  case (1 it)
  show ?case
  proof (cases it)
    case (Cons p ps)
    with 1 have "iterate ps = Done ps"
      by (simp add: iterator_defs)
    with Cons show ?thesis
      by (subst iterate.simps) (simp add: iterator_defs)
  qed (simp add: iterate.simps iterator_defs)
qed

lemma search_loop_takeWhile: "search_loop p it = Done (takeWhile (\<lambda>kv. starts_with (fst kv) p) it)"
proof (induction p it rule: search_loop.induct)
  case (1 p it)
  show ?case
  proof (cases "iterator_starts_with it p")
    case True
    with 1 show ?thesis
      by (subst search_loop.simps, cases it) (auto simp: iterator_defs)
  next
    case False
    then show ?thesis
      by (subst search_loop.simps, cases it) (auto simp: iterator_defs)
  qed
qed

text \<open>On an ordered sequence the prefix scan from \<open>search(p)\<close> visits exactly the keys with prefix \<open>p\<close>.\<close>

lemma takeWhile_lower_bound_prefix:
  assumes "smap_ok m"
  shows "takeWhile (\<lambda>kv. starts_with (fst kv) p) (lower_bound p m)
       = filter (\<lambda>kv. starts_with (fst kv) p) m"
  using assms
proof (induction m)
  case (Cons q m)
  then have m: "smap_ok m" and gt: "\<forall>r\<in>set m. fst q < fst r" by (auto simp: smap_ok_Cons)
  consider "fst q < p" | "p \<le> fst q" "starts_with (fst q) p" | "p \<le> fst q" "\<not> starts_with (fst q) p"
    by force
  then show ?case
  proof cases
    case 1
    then have "\<not> starts_with (fst q) p" using starts_with_le by fastforce
    with 1 Cons.IH m show ?thesis by (simp add: lower_bound_def)
  next
    case 2
    then have "lower_bound p m = m"
      using gt m by (auto simp: lower_bound_filter intro!: filter_True)
    with 2 Cons.IH m show ?thesis by (simp add: lower_bound_def)
  next
    case 3
    have "\<not> starts_with (fst r) p" if "r \<in> set m" for r
      using that gt 3 starts_with_block [of p "fst q" "fst r"] by force
    then have "filter (\<lambda>kv. starts_with (fst kv) p) m = []" by (simp add: filter_empty_conv)
    with 3 show ?thesis by (simp add: lower_bound_def)
  qed
qed (simp add: lower_bound_def)

definition LevelDBStore_scan ::
  "'db leveldb_api \<Rightarrow> 'db LevelDBStore \<Rightarrow> (string \<times> string) list outcome" where
  "LevelDBStore_scan L st = bindo (LevelDBStore_begin L st) iterate"

definition leveldb_kv :: "'db leveldb_api \<Rightarrow> 'db LevelDBStore kv_api" where
  "leveldb_kv L =
     \<lparr>kv_open = LevelDBStore_open L, kv_get = LevelDBStore_get L, kv_put = LevelDBStore_put L,
      kv_remove = LevelDBStore_remove L, kv_scan = LevelDBStore_scan L\<rparr>"

section \<open>TestLevelDBStore\<close>

type_synonym TestLevelDBStore = "(string \<times> string) list"

definition TestLevelDBStore_get ::
  "TestLevelDBStore \<Rightarrow> string \<Rightarrow> (Status \<times> string option) outcome" where
  "TestLevelDBStore_get st key =
     (case map_of st key of
        None \<Rightarrow> Done (Err (- ENOENT) ''The key does not exist.'', None)
      | Some v \<Rightarrow> Done (OK, Some v))"

definition TestLevelDBStore_put ::
  "TestLevelDBStore \<Rightarrow> string \<Rightarrow> string \<Rightarrow> (TestLevelDBStore \<times> Status) outcome" where
  "TestLevelDBStore_put st key value = Done (smap_put key value st, OK)"

definition TestLevelDBStore_remove ::
  "TestLevelDBStore \<Rightarrow> string \<Rightarrow> (TestLevelDBStore \<times> Status) outcome" where
  "TestLevelDBStore_remove st key = Done (smap_erase key st, OK)"

definition TestLevelDBStore_open :: "TestLevelDBStore \<Rightarrow> TestLevelDBStore \<times> Status" where
  "TestLevelDBStore_open st = (st, OK)"

definition TestLevelDBStore_scan ::
  "TestLevelDBStore \<Rightarrow> (string \<times> string) list outcome" where
  "TestLevelDBStore_scan st = Done st"

definition test_kv :: "TestLevelDBStore kv_api" where
  "test_kv =
     \<lparr>kv_open = TestLevelDBStore_open, kv_get = TestLevelDBStore_get,
      kv_put = TestLevelDBStore_put, kv_remove = TestLevelDBStore_remove,
      kv_scan = TestLevelDBStore_scan\<rparr>"

lemmas test_kv_defs = test_kv_def TestLevelDBStore_open_def TestLevelDBStore_get_def
  TestLevelDBStore_put_def TestLevelDBStore_remove_def TestLevelDBStore_scan_def

section \<open>The contract of a store\<close>

text \<open>
  What the components rely on: on an opened store every call returns; a write that reports
  success is in the contents, one that reports an error has changed nothing; and a scan lists
  the contents in key order.
\<close>

locale kv_store =
  fixes K :: "'s kv_api"
    and opened :: "'s \<Rightarrow> bool"
    and contents :: "'s \<Rightarrow> (string \<times> string) list"
  assumes put_returns: "opened s \<Longrightarrow> \<exists>s' st. kv_put K s k v = Done (s', st)"
    and put_opened: "opened s \<Longrightarrow> kv_put K s k v = Done (s', st) \<Longrightarrow> opened s'"
    and put_contents: "opened s \<Longrightarrow> kv_put K s k v = Done (s', st) \<Longrightarrow>
      map_of (contents s') = (if ok st then (map_of (contents s))(k \<mapsto> v) else map_of (contents s))"
    and remove_returns: "opened s \<Longrightarrow> \<exists>s' st. kv_remove K s k = Done (s', st)"
    and remove_opened: "opened s \<Longrightarrow> kv_remove K s k = Done (s', st) \<Longrightarrow> opened s'"
    and remove_contents: "opened s \<Longrightarrow> kv_remove K s k = Done (s', st) \<Longrightarrow>
      map_of (contents s') = (if ok st then (map_of (contents s))(k := None) else map_of (contents s))"
    and scan_contents: "opened s \<Longrightarrow> kv_scan K s = Done (contents s)"
    and contents_ordered: "opened s \<Longrightarrow> smap_ok (contents s)"
begin

lemma put_cases:
  assumes "opened s"
  obtains s' st where "kv_put K s k v = Done (s', st)" "opened s'" "ok st"
      "map_of (contents s') = (map_of (contents s))(k \<mapsto> v)"
    | s' st where "kv_put K s k v = Done (s', st)" "opened s'" "\<not> ok st"
      "map_of (contents s') = map_of (contents s)"
  using put_returns [OF assms] put_opened [OF assms] put_contents [OF assms] by metis

lemma remove_cases:
  assumes "opened s"
  obtains s' st where "kv_remove K s k = Done (s', st)" "opened s'" "ok st"
      "map_of (contents s') = (map_of (contents s))(k := None)"
    | s' st where "kv_remove K s k = Done (s', st)" "opened s'" "\<not> ok st"
      "map_of (contents s') = map_of (contents s)"
  using remove_returns [OF assms] remove_opened [OF assms] remove_contents [OF assms] by metis

end

interpretation test_store: kv_store test_kv smap_ok "\<lambda>s. s"
  by unfold_locales (auto simp: test_kv_defs intro: smap_intros)

text \<open>
  \<open>LevelDBStore\<close> keeps the contract when LevelDB keeps its own: the documented behaviour of
  \<open>Put\<close>, \<open>Delete\<close> and of a full iteration.
\<close>

definition leveldb_laws :: "'db leveldb_api \<Rightarrow> bool" where
  "leveldb_laws L \<longleftrightarrow>
     (\<forall>db k v db' s. DB_Put L db k v = (db', s) \<longrightarrow>
        map_of (DB_Items L db') =
          (if s = LOk then (map_of (DB_Items L db))(k \<mapsto> v) else map_of (DB_Items L db))) \<and>
     (\<forall>db k db' s. DB_Delete L db k = (db', s) \<longrightarrow>
        map_of (DB_Items L db') =
          (if s = LOk then (map_of (DB_Items L db))(k := None) else map_of (DB_Items L db))) \<and>
     (\<forall>db. smap_ok (DB_Items L db))"

definition LevelDBStore_items :: "'db leveldb_api \<Rightarrow> 'db LevelDBStore \<Rightarrow> (string \<times> string) list" where
  "LevelDBStore_items L st = (case db_ptr st of None \<Rightarrow> [] | Some db \<Rightarrow> DB_Items L db)"

lemma ok_to_status [simp]: "ok (to_status s) \<longleftrightarrow> s = LOk"
  by (simp add: to_status_def split: leveldb_status.split)

lemma leveldb_put_items:
  assumes "leveldb_laws L" and "LevelDBStore_put L st k v = Done (st', s)"
  shows "map_of (LevelDBStore_items L st') =
    (if ok s then (map_of (LevelDBStore_items L st))(k \<mapsto> v) else map_of (LevelDBStore_items L st))"
  using assms unfolding LevelDBStore_put_def LevelDBStore_items_def leveldb_laws_def
  by (auto split: option.splits prod.splits)

lemma leveldb_remove_items:
  assumes "leveldb_laws L" and "LevelDBStore_remove L st k = Done (st', s)"
  shows "map_of (LevelDBStore_items L st') =
    (if ok s then (map_of (LevelDBStore_items L st))(k := None) else map_of (LevelDBStore_items L st))"
  using assms unfolding LevelDBStore_remove_def LevelDBStore_items_def leveldb_laws_def
  by (auto split: option.splits prod.splits)

lemma leveldb_kv_store:
  assumes "leveldb_laws L"
  shows "kv_store (leveldb_kv L) (\<lambda>st. db_ptr st \<noteq> None) (LevelDBStore_items L)"
proof (unfold_locales, goal_cases)
  case (1 s k v) then show ?case
    by (auto simp: leveldb_kv_def LevelDBStore_put_def split: prod.splits)
next
  case (2 s k v s' st) then show ?case
    by (auto simp: leveldb_kv_def LevelDBStore_put_def split: prod.splits option.splits)
next
  case (3 s k v s' st) then show ?case
    using leveldb_put_items [OF assms] by (simp add: leveldb_kv_def)
next
  case (4 s k) then show ?case
    by (auto simp: leveldb_kv_def LevelDBStore_remove_def split: prod.splits)
next
  case (5 s k s' st) then show ?case
    by (auto simp: leveldb_kv_def LevelDBStore_remove_def split: prod.splits option.splits)
next
  case (6 s k s' st) then show ?case
    using leveldb_remove_items [OF assms] by (simp add: leveldb_kv_def)
next
  case (7 s) then show ?case
    by (auto simp: leveldb_kv_def LevelDBStore_scan_def LevelDBStore_begin_def
        LevelDBStore_items_def iterate_visits_all)
next
  case (8 s) then show ?case
    using assms by (auto simp: LevelDBStore_items_def leveldb_laws_def)
qed

section \<open>Stores that accept writes\<close>

text \<open>
  A store in a state from which every sequence of writes succeeds: an opened database on a disk that is neither full
  nor failing.
\<close>

coinductive accepts_writes :: "'s kv_api \<Rightarrow> 's \<Rightarrow> bool" for K where
  accepts: "\<lbrakk>\<And>k v. \<exists>st'. kv_put K st k v = Done (st', OK) \<and> accepts_writes K st';
    \<And>k. \<exists>st'. kv_remove K st k = Done (st', OK) \<and> accepts_writes K st'\<rbrakk> \<Longrightarrow> accepts_writes K st"

lemma accepts_put:
  assumes "accepts_writes K st"
  obtains st' where "kv_put K st k v = Done (st', OK)" "accepts_writes K st'"
  using assms by (blast elim: accepts_writes.cases)

lemma accepts_remove:
  assumes "accepts_writes K st"
  obtains st' where "kv_remove K st k = Done (st', OK)" "accepts_writes K st'"
  using assms by (blast elim: accepts_writes.cases)

lemma test_accepts_writes: "accepts_writes test_kv st"
  by (coinduction arbitrary: st) (auto simp: test_kv_defs)

text \<open>
  \<open>LevelDBStore\<close> is such a store from \<open>open\<close> on, as long as LevelDB takes the writes: \<open>healthy\<close> are the
  databases from which it does.
\<close>

lemma leveldb_accepts_writes:
  assumes "\<And>db k v. healthy db \<Longrightarrow> \<exists>db'. DB_Put L db k v = (db', LOk) \<and> healthy db'"
    and "\<And>db k. healthy db \<Longrightarrow> \<exists>db'. DB_Delete L db k = (db', LOk) \<and> healthy db'"
    and "db_ptr st = Some db" "healthy db"
  shows "accepts_writes (leveldb_kv L) st"
  using assms(3,4)
proof (coinduction arbitrary: st db)
  case (accepts_writes st db)
  let ?next = "\<lambda>st'. (\<exists>st db. st' = st \<and> db_ptr st = Some db \<and> healthy db) \<or> accepts_writes (leveldb_kv L) st'"
  have "\<exists>st'. kv_put (leveldb_kv L) st k v = Done (st', OK) \<and> ?next st'" for k v
    using assms(1) [OF accepts_writes(2), of k v] accepts_writes(1)
    by (auto simp: leveldb_kv_def LevelDBStore_put_def to_status_def)
  moreover have "\<exists>st'. kv_remove (leveldb_kv L) st k = Done (st', OK) \<and> ?next st'" for k
    using assms(2) [OF accepts_writes(2), of k] accepts_writes(1)
    by (auto simp: leveldb_kv_def LevelDBStore_remove_def to_status_def)
  ultimately show ?case by simp
qed

section \<open>Properties\<close>

text \<open>A database that is the log of its writes, replayed by every iteration.\<close>

definition log_items :: "(string \<times> string option) list \<Rightarrow> (string \<times> string) list" where
  "log_items db =
     foldr (\<lambda>(k, w) m. case w of None \<Rightarrow> smap_erase k m | Some v \<Rightarrow> smap_put k v m) db []"

definition log_leveldb :: "(string \<times> string option) list leveldb_api" where
  "log_leveldb =
     \<lparr>DB_Open = (\<lambda>_ _ _. Inr []),
      DB_Get = (\<lambda>db k. case map_of (log_items db) k of None \<Rightarrow> (LError ''NotFound'', []) | Some v \<Rightarrow> (LOk, v)),
      DB_Put = (\<lambda>db k v. ((k, Some v) # db, LOk)),
      DB_Delete = (\<lambda>db k. ((k, None) # db, LOk)),
      DB_Items = log_items\<rparr>"

lemma smap_ok_log_items: "smap_ok (log_items db)"
  by (induction db) (auto simp: log_items_def intro: smap_intros split: option.split)

lemma leveldb_laws_log: "leveldb_laws log_leveldb"
  using smap_ok_log_items by (auto simp: leveldb_laws_def log_leveldb_def log_items_def)

lemma log_accepts_writes: "db_ptr st \<noteq> None \<Longrightarrow> accepts_writes (leveldb_kv log_leveldb) st"
  by (auto simp: log_leveldb_def intro: leveldb_accepts_writes [where healthy = "\<lambda>_. True"])

text \<open>
  C33: the documented prefix scan over a \<open>LevelDBStore\<close> (position with \<open>search(p)\<close>, advance
  while \<open>starts_with(p)\<close>) visits exactly the records whose keys start with \<open>p\<close>, in key order,
  and never dereferences an invalid iterator.
\<close>

theorem leveldb_prefix_scan:
  assumes "leveldb_laws L" "db_ptr st \<noteq> None"
  shows "bindo (LevelDBStore_search L st p) (search_loop p) =
    Done (filter (\<lambda>kv. starts_with (fst kv) p) (LevelDBStore_items L st))"
  using assms
  by (auto simp: LevelDBStore_search_def LevelDBStore_items_def search_loop_takeWhile leveldb_laws_def
      takeWhile_lower_bound_prefix)

theorem leveldb_prefix_scan_witness:
  "bindo (LevelDBStore_search log_leveldb
      \<lparr>db_path = ''/db'', bufsize_mb = 4, db_ptr = Some [(''a'', Some ''1''), (''ab'', Some ''2''), (''b'', Some ''3'')]\<rparr> ''a'')
      (search_loop ''a'') = Done [(''a'', ''1''), (''ab'', ''2'')]"
  by (subst leveldb_prefix_scan [OF leveldb_laws_log])
     (simp_all add: LevelDBStore_items_def log_leveldb_def log_items_def)

end
