(* ===== verification/Path_Util.thy ===== *)
theory Path_Util
  imports Vsfs_Prelude
begin

text \<open>
  Paths: \<open>PathUtil\<close> (\<open>vsfs/common/path_util.cpp\<close>) and \<open>PosixPath\<close>
  (\<open>vsfs/common/posix_path.cpp\<close>). Boost's path functions and the MD5 digest are not part of
  the sources: the former are the record \<open>path_api\<close>, the latter the argument \<open>md5\<close>.
\<close>

section \<open>Boost.Filesystem\<close>

record path_api =
  path_join :: "string \<Rightarrow> string \<Rightarrow> string"
  parent_path :: "string \<Rightarrow> string"
  filename :: "string \<Rightarrow> string"
  is_absolute :: "string \<Rightarrow> bool"

text \<open>
  The documented behaviour the components rely on: appending a relative name puts one separator
  between the two, and the parts of a joined path are what was joined.
\<close>

definition join_law :: "path_api \<Rightarrow> bool" where
  "join_law P \<longleftrightarrow>
     (\<forall>a b. a \<noteq> [] \<longrightarrow> b \<noteq> [] \<longrightarrow> hd b \<noteq> CHR ''/'' \<longrightarrow>
        path_join P a b = (if last a = CHR ''/'' then a @ b else a @ CHR ''/'' # b))"

definition splits_at :: "path_api \<Rightarrow> string \<Rightarrow> string \<Rightarrow> bool" where
  "splits_at P dir f \<longleftrightarrow>
     parent_path P (path_join P dir f) = dir \<and> filename P (path_join P dir f) = f"

section \<open>PathUtil\<close>

definition path_to_hash :: "(string \<Rightarrow> 8 word list) \<Rightarrow> string \<Rightarrow> HashValueType" where
  "path_to_hash md5 path = sint (word_rcat (rev (take 8 (md5 path))) :: 64 word)"

definition index_path :: "path_api \<Rightarrow> string \<Rightarrow> string \<Rightarrow> string" where
  "index_path P root name = path_join P (path_join P root ''.vsfs'') name"

definition split_index_path :: "string \<Rightarrow> (string \<times> string) option" where
  "split_index_path path =
     (let kVsfsDir = ''/.vsfs/'' in
      case find_sub kVsfsDir path of
        None \<Rightarrow> None
      | Some pos \<Rightarrow>
          if length path \<le> pos + length kVsfsDir then None
          else
            let root = substr path 0 pos;
                name = substr_from path (pos + length kVsfsDir)
            in Some (if root = [] then ''/'' else root, name))"

definition partition_path :: "path_api \<Rightarrow> string \<Rightarrow> string \<Rightarrow> HashValueType \<Rightarrow> string" where
  "partition_path P root name sep =
     path_join P (path_join P (path_join P root ''.vsfs'') name) (int_to_string sep)"

lemma path_to_hash_in_int64: "in_int64 (path_to_hash md5 path)"
  using sint_greater_eq [of "word_rcat (rev (take 8 (md5 path))) :: 64 word"]
    sint_less [of "word_rcat (rev (take 8 (md5 path))) :: 64 word"]
  by (simp add: path_to_hash_def in_int64_def int64_min_def int64_max_def)

text \<open>The first \<open>/.vsfs/\<close> of an index path is the one that was put there when no part of the
  root is named \<open>.vsfs\<close>.\<close>

lemma length_le_5_cases:
  assumes "length xs < 6"
  obtains "xs = []" | a where "xs = [a]" | a b where "xs = [a, b]" | a b c where "xs = [a, b, c]"
    | a b c d where "xs = [a, b, c, d]" | a b c d e where "xs = [a, b, c, d, e]"
proof -
  have "length xs = 0 \<or> length xs = 1 \<or> length xs = 2 \<or> length xs = 3 \<or> length xs = 4 \<or> length xs = 5"
    using assms by linarith
  then show ?thesis
    by (auto simp: length_Suc_conv numeral_eq_Suc intro: that)
qed

lemma vsfs_dir_overlap:
  assumes "xs \<noteq> []" "starts_with (xs @ ''/.vsfs/'' @ ys) ''/.vsfs/''"
  shows "starts_with (xs @ ''/'') ''/.vsfs/''"
proof (cases "length xs < 6")
  case True
  from True show ?thesis
    by (rule length_le_5_cases) (use assms in auto)
next
  case False
  let ?n = "length ''/.vsfs/''"
  from False have "?n \<le> length (xs @ ''/'')" by simp
  then have "take ?n (xs @ ''/.vsfs/'' @ ys) = take ?n (xs @ ''/'')"
    by (cases "length xs = 6") auto
  with assms(2) show ?thesis by (simp only: starts_with_def)
qed

lemma find_sub_vsfs:
  "find_sub ''/.vsfs/'' (root @ ''/'') = None \<Longrightarrow>
     find_sub ''/.vsfs/'' (root @ ''/.vsfs/'' @ name) = Some (length root)"
proof (induction root)
  case Nil
  show ?case by (subst find_sub.simps) simp
next
  case (Cons x xs)
  from Cons.prems have no: "\<not> starts_with ((x # xs) @ ''/'') ''/.vsfs/''"
    and rest: "find_sub ''/.vsfs/'' (xs @ ''/'') = None"
    by (subst (asm) find_sub.simps, auto split: if_splits)+
  from no have "\<not> starts_with ((x # xs) @ ''/.vsfs/'' @ name) ''/.vsfs/''"
    using vsfs_dir_overlap [of "x # xs" name] by blast
  with Cons.IH [OF rest] show ?case
    by (subst find_sub.simps) simp
qed

lemma split_index_path_append:
  assumes "find_sub ''/.vsfs/'' (root @ ''/'') = None" "name \<noteq> []"
  shows "split_index_path (root @ ''/.vsfs/'' @ name) = Some (if root = [] then ''/'' else root, name)"
  using find_sub_vsfs [OF assms(1), of name] assms(2)
  by (simp add: split_index_path_def Let_def substr_def substr_from_def)

lemma index_path_append:
  assumes "join_law P" "root \<noteq> []" "root = ''/'' \<or> last root \<noteq> CHR ''/''"
    and "name \<noteq> []" "hd name \<noteq> CHR ''/''"
  shows "index_path P root name = (if root = ''/'' then [] else root) @ ''/.vsfs/'' @ name"
proof -
  have j1: "path_join P root ''.vsfs'' = (if root = ''/'' then [] else root) @ ''/.vsfs''"
    using assms(1-3) by (auto simp: join_law_def)
  then have "last (path_join P root ''.vsfs'') \<noteq> CHR ''/''" "path_join P root ''.vsfs'' \<noteq> []"
    by simp_all
  with assms(1,4,5) j1 show ?thesis
    by (simp add: index_path_def join_law_def)
qed

section \<open>PosixPath\<close>

record PosixPath =
  pp_path :: string
  pp_root :: string
  pp_query :: string
  pp_result :: string

text \<open>
  \<open>substr(0, question_mark - 1)\<close> at \<open>question_mark = 0\<close> counts from the wrapped maximum of
  \<open>size_t\<close>, which takes the whole string.
\<close>

definition PosixPath_new :: "string \<Rightarrow> PosixPath outcome" where
  "PosixPath_new posix_path =
     (if posix_path = [] then Fail CheckFailed
      else case str_find CHR ''?'' posix_path 0 of
        None \<Rightarrow> Done \<lparr>pp_path = posix_path, pp_root = posix_path, pp_query = [], pp_result = []\<rparr>
      | Some question_mark \<Rightarrow>
          let root = (if question_mark = 0 then posix_path else substr posix_path 0 (question_mark - 1)) in
          (case str_find CHR ''/'' posix_path question_mark of
             None \<Rightarrow>
               Done \<lparr>pp_path = posix_path, pp_root = root,
                     pp_query = substr_from posix_path (question_mark + 1), pp_result = []\<rparr>
           | Some result_begin \<Rightarrow>
               Done \<lparr>pp_path = posix_path, pp_root = root,
                     pp_query = substr posix_path (question_mark + 1)
                       (result_begin - question_mark - 1),
                     pp_result = substr_from posix_path (result_begin + 1)\<rparr>))"

definition is_validate :: "PosixPath \<Rightarrow> bool" where
  "is_validate p = True"

definition is_query :: "PosixPath \<Rightarrow> bool" where
  "is_query p \<longleftrightarrow> pp_query p \<noteq> [] \<and> pp_result p = []"

definition is_result :: "PosixPath \<Rightarrow> bool" where
  "is_result p \<longleftrightarrow> pp_query p \<noteq> [] \<and> pp_result p \<noteq> []"

lemma find_idx_char_append:
  "c \<notin> set xs \<Longrightarrow> find_idx (\<lambda>x. x = c) (xs @ c # ys) = Some (length xs)"
  by (rule find_idx_append) auto

lemma find_idx_char_None: "find_idx (\<lambda>x. x = c) xs = None \<longleftrightarrow> c \<notin> set xs"
  by (auto simp: find_idx_None_iff)

lemma str_find_append: "c \<notin> set xs \<Longrightarrow> str_find c (xs @ c # ys) 0 = Some (length xs)"
  by (simp add: str_find_def str_find_if_def find_idx_char_append)

lemma str_find_drop:
  "c \<notin> set ys \<Longrightarrow> str_find c (xs @ ys @ c # zs) (length xs) = Some (length xs + length ys)"
  by (simp add: str_find_def str_find_if_def find_idx_char_append)

lemma str_find_drop_None: "c \<notin> set ys \<Longrightarrow> str_find c (xs @ ys) (length xs) = None"
  by (simp add: str_find_def str_find_if_def find_idx_char_None)

lemma str_find_None_iff: "str_find c xs 0 = None \<longleftrightarrow> c \<notin> set xs"
  by (simp add: str_find_def str_find_if_def find_idx_char_None)

lemma PosixPath_plain:
  assumes "path \<noteq> []" "CHR ''?'' \<notin> set path"
  shows "PosixPath_new path = Done \<lparr>pp_path = path, pp_root = path, pp_query = [], pp_result = []\<rparr>"
proof -
  have "str_find CHR ''?'' path 0 = None"
    using assms(2) by (simp add: str_find_None_iff)
  with assms(1) show ?thesis by (simp add: PosixPath_new_def)
qed

lemma PosixPath_query_only:
  assumes "CHR ''?'' \<notin> set root" "CHR ''/'' \<notin> set q"
  shows "PosixPath_new (root @ ''/?'' @ q) =
    Done \<lparr>pp_path = root @ ''/?'' @ q, pp_root = root, pp_query = q, pp_result = []\<rparr>"
proof -
  have qm: "str_find CHR ''?'' (root @ ''/?'' @ q) 0 = Some (length root + 1)"
    using str_find_append [of "CHR ''?''" "root @ ''/''" q] assms(1) by simp
  have "str_find CHR ''/'' (root @ ''/?'' @ q) (length root + 1) = None"
    using str_find_drop_None [of "CHR ''/''" "''?'' @ q" "root @ ''/''"] assms(2) by simp
  with qm show ?thesis
    by (simp add: PosixPath_new_def Let_def substr_def substr_from_def)
qed

lemma PosixPath_with_result:
  assumes "CHR ''?'' \<notin> set root" "CHR ''/'' \<notin> set q"
  shows "PosixPath_new (root @ ''/?'' @ q @ ''/'' @ r) =
    Done \<lparr>pp_path = root @ ''/?'' @ q @ ''/'' @ r, pp_root = root, pp_query = q, pp_result = r\<rparr>"
proof -
  have qm: "str_find CHR ''?'' (root @ ''/?'' @ q @ ''/'' @ r) 0 = Some (length root + 1)"
    using str_find_append [of "CHR ''?''" "root @ ''/''" "q @ ''/'' @ r"] assms(1) by simp
  have "str_find CHR ''/'' (root @ ''/?'' @ q @ ''/'' @ r) (length root + 1) =
      Some (length root + 2 + length q)"
    using str_find_drop [of "CHR ''/''" "''?'' @ q" "root @ ''/''" r] assms(2) by simp
  with qm show ?thesis
    by (simp add: PosixPath_new_def Let_def substr_def substr_from_def numeral_3_eq_3)
qed

section \<open>Properties\<close>

text \<open>Boost's behaviour on POSIX paths, as far as the law needs it.\<close>

definition posix_paths :: path_api where
  "posix_paths =
     \<lparr>path_join = (\<lambda>a b. if a = [] \<or> b = [] \<or> last a = CHR ''/'' \<or> hd b = CHR ''/'' then a @ b else a @ CHR ''/'' # b),
      parent_path = (\<lambda>p. case find_last_of CHR ''/'' p of None \<Rightarrow> [] | Some 0 \<Rightarrow> ''/''
         | Some i \<Rightarrow> take i p),
      filename = (\<lambda>p. case find_last_of CHR ''/'' p of None \<Rightarrow> p | Some i \<Rightarrow> drop (i + 1) p),
      is_absolute = (\<lambda>p. p \<noteq> [] \<and> hd p = CHR ''/'')\<rparr>"

lemma join_law_posix: "join_law posix_paths"
  by (auto simp: join_law_def posix_paths_def)

text \<open>
  the path of an index, \<open>root/.vsfs/name\<close>, splits back into its root and its name,
  for every root that is \<open>/\<close> or has no trailing slash and no component \<open>.vsfs\<close>.
\<close>

theorem split_index_path_roundtrip:
  assumes "join_law P" "root \<noteq> []" "root = ''/'' \<or> last root \<noteq> CHR ''/''"
    and "root \<noteq> ''/'' \<longrightarrow> find_sub ''/.vsfs/'' (root @ ''/'') = None"
    and "name \<noteq> []" "hd name \<noteq> CHR ''/''"
  shows "split_index_path (index_path P root name) = Some (root, name)"
proof -
  have "find_sub ''/.vsfs/'' ''/'' = None"
    by (subst find_sub.simps, simp, subst find_sub.simps, simp)
  then have "find_sub ''/.vsfs/'' ((if root = ''/'' then [] else root) @ ''/'') = None"
    using assms(4) by simp
  from split_index_path_append [OF this assms(5)] assms(2) show ?thesis
    by (simp add: index_path_append [OF assms(1,2,3,5,6)] del: append.simps split: if_splits)
qed

theorem split_index_path_roundtrip_witness:
  "split_index_path (index_path posix_paths ''/foo'' ''idx'') = Some (''/foo'', ''idx'')"
proof -
  have "find_sub ''/.vsfs/'' (''/foo'' @ ''/'') = None"
    by (simp add: find_sub.simps)
  then show ?thesis
    using split_index_path_roundtrip [OF join_law_posix, of "''/foo''" "''idx''"] by simp
qed

text \<open>
  a path is a plain path, a query or a result of a query according to what follows the first
  question mark, and its parts are recovered: \<open>root/?query\<close> is a query with that root and
  condition, \<open>root/?query/name\<close> a result, and a path with no question mark neither.
\<close>

theorem PosixPath_classification:
  assumes "CHR ''?'' \<notin> set root" "CHR ''/'' \<notin> set q" "root \<noteq> []" "q \<noteq> []" "r \<noteq> []"
  shows "(\<exists>p. PosixPath_new root = Done p \<and> pp_root p = root \<and> \<not> is_query p \<and> \<not> is_result p) \<and>
    (\<exists>p. PosixPath_new (root @ ''/?'' @ q) = Done p \<and> pp_root p = root \<and> pp_query p = q \<and>
       is_query p \<and> \<not> is_result p) \<and>
    (\<exists>p. PosixPath_new (root @ ''/?'' @ q @ ''/'' @ r) = Done p \<and> pp_root p = root \<and>
       pp_query p = q \<and> pp_result p = r \<and> is_result p \<and> \<not> is_query p)"
  using PosixPath_plain [OF assms(3,1)] PosixPath_query_only [OF assms(1,2)]
    PosixPath_with_result [OF assms(1,2), of r] assms(4,5)
  by (simp add: is_query_def is_result_def)

theorem PosixPath_classification_witness:
  "\<exists>p. PosixPath_new (''/foo'' @ ''/?'' @ ''x>5'' @ ''/'' @ ''a.txt'') = Done p \<and> pp_root p = ''/foo'' \<and>
     pp_query p = ''x>5'' \<and> pp_result p = ''a.txt'' \<and> is_result p \<and> \<not> is_query p"
  using PosixPath_classification [of "''/foo''" "''x>5''" "''a.txt''"] by simp

end
