(* ===== verification/Complex_Query.thy ===== *)
theory Complex_Query
  imports Path_Util
begin

text \<open>
  \<open>ComplexQuery\<close> (\<open>vsfs/common/complex_query.cpp\<close>): the parser of file queries such as
  \<open>/home/?energy>=12.5&mtime<1d\<close>. Boost's \<open>trim_copy\<close> and \<open>lexical_cast\<close> and the clock
  are not part of the sources and are the record \<open>cq_env\<close>. The unordered map of ranges is
  kept in key order, one of the orders its iteration may take.
\<close>

section \<open>State\<close>

record StringRange =
  sr_lower :: string
  sr_lower_closed :: bool
  sr_upper :: string
  sr_upper_closed :: bool

text \<open>\<open>range_query_map_[field]\<close> value-initialises a new range.\<close>

definition StringRange_new :: StringRange where
  "StringRange_new =
     \<lparr>sr_lower = [], sr_lower_closed = False, sr_upper = [], sr_upper_closed = False\<rparr>"

record ComplexQuery =
  cq_root :: string
  range_query_map :: "(string \<times> StringRange) list"

definition ComplexQuery_new :: ComplexQuery where
  "ComplexQuery_new = \<lparr>cq_root = [], range_query_map = []\<rparr>"

record cq_env =
  trim_copy :: "string \<Rightarrow> string"
  lexical_cast_u64 :: "string \<Rightarrow> 64 word option"
  clock_now :: "64 word"

section \<open>Operators and values\<close>

datatype cond_op = EQ | NEQ | GT | GE | LT | LE

definition parse_cond_op :: "string \<Rightarrow> cond_op option" where
  "parse_cond_op op =
     (if op = ''='' then Some EQ
      else if op = ''!='' then Some NEQ
      else if op = ''>'' then Some GT
      else if op = ''>='' then Some GE
      else if op = ''<'' then Some LT
      else if op = ''<='' then Some LE
      else None)"

definition DAY :: "64 word" where "DAY = 60 * 60 * 24"
definition WEEK :: "64 word" where "WEEK = DAY * 7"
definition KB :: "64 word" where "KB = 1024"
definition MB :: "64 word" where "MB = KB * 1024"
definition GB :: "64 word" where "GB = MB * 1024"
definition TB :: "64 word" where "TB = GB * 1024"

lemmas unit_defs = DAY_def WEEK_def KB_def MB_def GB_def TB_def

definition is_time_field :: "string \<Rightarrow> bool" where
  "is_time_field field \<longleftrightarrow> field = ''atime'' \<or> field = ''ctime'' \<or> field = ''mtime''"

definition unit_factor :: "string \<Rightarrow> string \<Rightarrow> Status + 64 word" where
  "unit_factor field unit =
     (if is_time_field field then
        (if unit = ''d'' then Inr DAY
         else if unit = ''w'' then Inr WEEK
         else Inl (Err (-1) (''Un-recognized time unit: '' @ unit)))
      else if field = ''size'' then
        (if unit = ''k'' then Inr KB
         else if unit = ''m'' then Inr MB
         else if unit = ''g'' then Inr GB
         else if unit = ''t'' then Inr TB
         else Inl (Err (-1) (''Un-recognized file-size unit: '' @ unit)))
      else Inr 1)"

definition u64_to_string :: "64 word \<Rightarrow> string" where
  "u64_to_string w = nat_to_string (unat w)"

text \<open>
  A value without a unit is kept as written. A failed \<open>lexical_cast\<close> throws out of the parser.
  The product and the sum are taken modulo \<open>2 ^ 64\<close>, a negative sign included.
\<close>

definition parse_value :: "cq_env \<Rightarrow> string \<Rightarrow> string \<Rightarrow> (Status + string) outcome" where
  "parse_value E field value =
     (case find_first_not_of ''0123456789.+-'' value 0 of
        None \<Rightarrow> Done (Inr value)
      | Some unit_pos \<Rightarrow>
          let unit = substr_from value unit_pos in
          (case unit_factor field unit of
             Inl st \<Rightarrow> Done (Inl st)
           | Inr num_value \<Rightarrow>
               let num = substr value 0 unit_pos in
               if is_time_field field \<and> (hd value = CHR ''+'' \<or> hd value = CHR ''-'') then
                 (if num = [] then Fail OutOfRange
                  else case lexical_cast_u64 E (substr_from num 1) of
                    None \<Rightarrow> Fail BadLexicalCast
                  | Some n \<Rightarrow>
                      let symbol = (if hd value = CHR ''+'' then 1 else -1) in
                      Done (Inr (u64_to_string (clock_now E + symbol * (num_value * n)))))
               else
                 (case lexical_cast_u64 E num of
                    None \<Rightarrow> Fail BadLexicalCast
                  | Some n \<Rightarrow> Done (Inr (u64_to_string (num_value * n))))))"

section \<open>Expressions, conditions, segments\<close>

definition set_lower :: "string \<Rightarrow> bool \<Rightarrow> StringRange \<Rightarrow> StringRange" where
  "set_lower v closed r = r\<lparr>sr_lower := v, sr_lower_closed := closed\<rparr>"

definition set_upper :: "string \<Rightarrow> bool \<Rightarrow> StringRange \<Rightarrow> StringRange" where
  "set_upper v closed r = r\<lparr>sr_upper := v, sr_upper_closed := closed\<rparr>"

definition update_range ::
  "string \<Rightarrow> (StringRange \<Rightarrow> StringRange) \<Rightarrow> ComplexQuery \<Rightarrow> ComplexQuery" where
  "update_range field f q =
     (let old = (case map_of (range_query_map q) field of None \<Rightarrow> StringRange_new | Some r \<Rightarrow> r)
      in q\<lparr>range_query_map := smap_put field (f old) (range_query_map q)\<rparr>)"

definition apply_op :: "cond_op \<Rightarrow> string \<Rightarrow> string \<Rightarrow> ComplexQuery \<Rightarrow> ComplexQuery \<times> Status" where
  "apply_op op field value q =
     (case op of
        LE \<Rightarrow> (update_range field (set_upper value True) q, OK)
      | LT \<Rightarrow> (update_range field (set_upper value False) q, OK)
      | GE \<Rightarrow> (update_range field (set_lower value True) q, OK)
      | GT \<Rightarrow> (update_range field (set_lower value False) q, OK)
      | EQ \<Rightarrow> (update_range field (\<lambda>r. set_lower value True (set_upper value True r)) q, OK)
      | NEQ \<Rightarrow> (q, Err (-1) ''Unknown op code.''))"

definition parse_expression ::
  "cq_env \<Rightarrow> ComplexQuery \<Rightarrow> string \<Rightarrow> (ComplexQuery \<times> Status) outcome" where
  "parse_expression E q exp =
     (if exp = [] then Fail CheckFailed
      else case find_first_of ''=!<>'' exp 0 of
        None \<Rightarrow> Done (q, Err (-1) ''Bad expression.'')
      | Some op_pos \<Rightarrow>
          (case find_first_not_of ''=!<>'' exp op_pos of
             None \<Rightarrow> Done (q, Err (-1) ''Bad expression.'')
           | Some value_pos \<Rightarrow>
               let field = trim_copy E (substr exp 0 op_pos);
                   opstr = substr exp op_pos (value_pos - op_pos);
                   value = trim_copy E (substr_from exp value_pos)
               in case parse_cond_op opstr of
                    None \<Rightarrow> Done (q, Err (-1) ''Bad operation.'')
                  | Some op \<Rightarrow>
                      bindo (parse_value E field value)
                        (\<lambda>r. case r of
                               Inl st \<Rightarrow> Done (q, st)
                             | Inr v \<Rightarrow> Done (apply_op op field v q))))"

lemma str_find_progress: "str_find c s pos = Some p \<Longrightarrow> pos \<le> p \<and> p < length s"
  using str_find_SomeD(1,2) by blast

function parse_condition_loop ::
  "cq_env \<Rightarrow> ComplexQuery \<Rightarrow> string \<Rightarrow> nat \<Rightarrow> (ComplexQuery \<times> Status) outcome" where
  "parse_condition_loop E q buf start =
     (case str_find CHR ''&'' buf start of
        None \<Rightarrow> parse_expression E q (substr_from buf start)
      | Some pos \<Rightarrow>
          bindo (parse_expression E q (substr buf start (pos - start)))
            (\<lambda>(q', status).
               if \<not> ok status then Done (q', status)
               else parse_condition_loop E q' buf (pos + 1)))"
  by pat_completeness auto
termination
  by (relation "measure (\<lambda>(E, q, buf, start). Suc (length buf) - start)")
     (auto dest!: str_find_progress)

declare parse_condition_loop.simps [simp del]

definition parse_condition ::
  "cq_env \<Rightarrow> ComplexQuery \<Rightarrow> string \<Rightarrow> (ComplexQuery \<times> Status) outcome" where
  "parse_condition E q buf =
     (if buf = [] then Fail CheckFailed else parse_condition_loop E q buf 0)"

definition parse_segment ::
  "cq_env \<Rightarrow> ComplexQuery \<Rightarrow> string \<Rightarrow> (ComplexQuery \<times> Status) outcome" where
  "parse_segment E q seg =
     (if seg = [] then Done (q, Err (-1) ''Segment is empty.'')
      else if find_first_of ''<>=!'' seg 0 \<noteq> None then parse_condition E q seg
      else Done (q, OK))"

section \<open>The whole path\<close>

function parse_loop ::
  "cq_env \<Rightarrow> ComplexQuery \<Rightarrow> string \<Rightarrow> nat \<Rightarrow> (ComplexQuery \<times> Status) outcome" where
  "parse_loop E q buf start =
     (case str_find CHR ''/'' buf (start + 1) of
        None \<Rightarrow>
          if length buf < start then Fail OutOfRange
          else bindo (parse_segment E q (substr_from buf start))
                 (\<lambda>(q', status). if \<not> ok status then Done (q', status) else Done (q', OK))
      | Some pos \<Rightarrow>
          if pos = start + 1 then parse_loop E q buf pos
          else
            bindo (parse_segment E q (substr buf (start + 1) (pos - start - 1)))
              (\<lambda>(q', status).
                 if \<not> ok status then Done (q', status)
                 else parse_loop E q' buf (pos + 1)))"
  by pat_completeness auto
termination
  by (relation "measure (\<lambda>(E, q, buf, start). Suc (length buf) - start)")
     (auto dest!: str_find_progress)

declare parse_loop.simps [simp del]

definition parse :: "cq_env \<Rightarrow> ComplexQuery \<Rightarrow> string \<Rightarrow> (ComplexQuery \<times> Status) outcome" where
  "parse E q buf =
     (if buf = [] then Fail CheckFailed
      else if hd buf \<noteq> CHR ''/'' then Fail CheckFailed
      else case str_find CHR ''?'' buf 0 of
        None \<Rightarrow> Done (q, Err (-2) (''This path is not a file query.'' @ buf))
      | Some pos \<Rightarrow>
          parse_loop E
            (q\<lparr>cq_root := (if 1 < pos then substr buf 0 (pos - 1) else ''/'')\<rparr>) buf (pos + 1))"

definition range_query :: "ComplexQuery \<Rightarrow> string \<Rightarrow> StringRange option" where
  "range_query q name = map_of (range_query_map q) name"

definition get_names_of_range_queries :: "ComplexQuery \<Rightarrow> string list" where
  "get_names_of_range_queries q = map fst (range_query_map q)"

definition set_root :: "string \<Rightarrow> ComplexQuery \<Rightarrow> ComplexQuery" where
  "set_root new_root q = q\<lparr>cq_root := new_root\<rparr>"

text \<open>\<open>PosixPath::complex_query\<close> parses the path it was made from.\<close>

definition complex_query :: "cq_env \<Rightarrow> PosixPath \<Rightarrow> ComplexQuery \<Rightarrow> (ComplexQuery \<times> Status) outcome" where
  "complex_query E p q = parse E q (pp_path p)"

definition debug_string :: "ComplexQuery \<Rightarrow> string" where
  "debug_string q = ''ComplexQuery('' @ cq_root q @ ''):''"

section \<open>Lemmas\<close>

lemma range_query_update_range:
  "range_query (update_range field f q) name =
     (if name = field
      then Some (f (case range_query q field of None \<Rightarrow> StringRange_new | Some r \<Rightarrow> r))
      else range_query q name)"
  by (simp add: range_query_def update_range_def Let_def)

lemma cq_root_update_range [simp]: "cq_root (update_range field f q) = cq_root q"
  by (simp add: update_range_def Let_def)

lemma cq_root_apply_op: "apply_op op field v q = (q', st) \<Longrightarrow> cq_root q' = cq_root q"
  by (auto simp: apply_op_def split: cond_op.splits)

text \<open>No part of the parser but its first step touches the root.\<close>

lemma cq_root_parse_expression: "parse_expression E q exp = Done (q', st) \<Longrightarrow> cq_root q' = cq_root q"
  unfolding parse_expression_def Let_def
  by (auto split: if_splits option.splits) (auto split: sum.splits dest: cq_root_apply_op)

lemma cq_root_parse_condition_loop:
  "parse_condition_loop E q buf start = Done (q', st) \<Longrightarrow> cq_root q' = cq_root q"
proof (induction E q buf start arbitrary: q' st rule: parse_condition_loop.induct)
  case (1 E q buf start)
  show ?case
  proof (cases "str_find CHR ''&'' buf start")
    case None
    with "1.prems" show ?thesis
      by (subst (asm) parse_condition_loop.simps) (auto dest: cq_root_parse_expression)
  next
    case (Some pos)
    with "1.prems" obtain q1 s1 where e: "parse_expression E q (substr buf start (pos - start)) = Done (q1, s1)"
      and k: "(if \<not> ok s1 then Done (q1, s1) else parse_condition_loop E q1 buf (pos + 1)) = Done (q', st)"
      by (subst (asm) parse_condition_loop.simps) auto
    from e have "cq_root q1 = cq_root q" by (rule cq_root_parse_expression)
    with k "1.IH" [OF Some e refl] show ?thesis by (auto split: if_splits)
  qed
qed

lemma cq_root_parse_segment: "parse_segment E q seg = Done (q', st) \<Longrightarrow> cq_root q' = cq_root q"
  by (auto simp: parse_segment_def parse_condition_def dest: cq_root_parse_condition_loop split: if_splits)

lemma cq_root_parse_loop: "parse_loop E q buf start = Done (q', st) \<Longrightarrow> cq_root q' = cq_root q"
proof (induction E q buf start arbitrary: q' st rule: parse_loop.induct)
  case (1 E q buf start)
  show ?case
  proof (cases "str_find CHR ''/'' buf (start + 1)")
    case None
    with "1.prems" show ?thesis
      by (subst (asm) parse_loop.simps) (auto dest: cq_root_parse_segment split: if_splits)
  next
    case (Some pos)
    show ?thesis
    proof (cases "pos = start + 1")
      case True
      from "1.prems" Some True have "parse_loop E q buf pos = Done (q', st)"
        by (subst (asm) parse_loop.simps) simp
      with "1.IH"(1) [OF Some True] show ?thesis by blast
    next
      case False
      with "1.prems" Some obtain q1 s1
        where e: "parse_segment E q (substr buf (start + 1) (pos - start - 1)) = Done (q1, s1)"
        and k: "(if \<not> ok s1 then Done (q1, s1) else parse_loop E q1 buf (pos + 1)) = Done (q', st)"
        by (subst (asm) parse_loop.simps) auto
      from e have "cq_root q1 = cq_root q" by (rule cq_root_parse_segment)
      with k "1.IH"(2) [OF Some False e refl] show ?thesis by (auto split: if_splits)
    qed
  qed
qed

text \<open>
  The positions the loops cut at stay inside the buffer and a sign is never the unit, so no
  \<open>substr\<close> of the parser throws.
\<close>

lemma parse_value_in_range: "parse_value E field value \<noteq> Fail OutOfRange"
proof -
  have "substr value 0 u \<noteq> []"
    if "find_first_not_of ''0123456789.+-'' value 0 = Some u" "hd value = CHR ''+'' \<or> hd value = CHR ''-''" for u
  proof -
    from that(1) have u: "u < length value" "value ! u \<notin> set ''0123456789.+-''"
      using str_find_if_SomeD unfolding find_first_not_of_def by blast+
    then have first: "value ! 0 = hd value" by (cases "value") auto
    have "u \<noteq> 0"
      by (rule notI) (use u(2) that(2) first in auto)
    with u(1) show ?thesis by (cases "value") (auto simp: substr_def)
  qed
  then show ?thesis
    unfolding parse_value_def Let_def by (auto split: option.split sum.split)
qed

lemma parse_expression_in_range: "parse_expression E q exp \<noteq> Fail OutOfRange"
  unfolding parse_expression_def Let_def
  by (auto simp: bindo_Fail_iff parse_value_in_range split: option.split sum.splits)

lemma parse_condition_loop_in_range: "parse_condition_loop E q buf start \<noteq> Fail OutOfRange"
proof (induction E q buf start rule: parse_condition_loop.induct)
  case (1 E q buf start)
  then show ?case
    by (subst parse_condition_loop.simps)
       (auto simp: bindo_Fail_iff parse_expression_in_range split: option.split)
qed

lemma parse_segment_in_range: "parse_segment E q seg \<noteq> Fail OutOfRange"
  by (auto simp: parse_segment_def parse_condition_def parse_condition_loop_in_range)

lemma parse_loop_in_range: "start \<le> length buf \<Longrightarrow> parse_loop E q buf start \<noteq> Fail OutOfRange"
proof (induction E q buf start rule: parse_loop.induct)
  case (1 E q buf start)
  have "Suc start < length buf" if "str_find CHR ''/'' buf (Suc start) = Some (Suc start)"
    using that str_find_progress by blast
  moreover have "pos < length buf" if "str_find CHR ''/'' buf (Suc start) = Some pos" for pos
    using that str_find_progress by blast
  ultimately show ?case
    using "1.prems" "1.IH"
    by (subst parse_loop.simps)
       (auto simp: bindo_Fail_iff parse_segment_in_range Suc_le_eq split: option.split)
qed

text \<open>
  The loop of \<open>parse_condition\<close> is a walk over the parts between the ampersands.
\<close>

fun split_amp :: "string \<Rightarrow> string list" where
  "split_amp [] = [[]]"
| "split_amp (c # cs) =
     (if c = CHR ''&'' then [] # split_amp cs
      else case split_amp cs of [] \<Rightarrow> [[c]] | w # ws \<Rightarrow> (c # w) # ws)"

fun parse_expressions ::
  "cq_env \<Rightarrow> ComplexQuery \<Rightarrow> string list \<Rightarrow> (ComplexQuery \<times> Status) outcome" where
  "parse_expressions E q [] = Done (q, OK)"
| "parse_expressions E q (e # es) =
     bindo (parse_expression E q e)
       (\<lambda>(q', status). if \<not> ok status then Done (q', status) else parse_expressions E q' es)"

lemma split_amp_nonempty [simp]: "split_amp s \<noteq> []"
  by (induction s) (auto split: list.split)

lemma split_amp_no_amp: "CHR ''&'' \<notin> set s \<Longrightarrow> split_amp s = [s]"
  by (induction s) auto

lemma split_amp_first: "CHR ''&'' \<notin> set s \<Longrightarrow> split_amp (s @ CHR ''&'' # t) = s # split_amp t"
  by (induction s) auto

lemma parse_expressions_single: "parse_expressions E q [e] = parse_expression E q e"
  by (cases "parse_expression E q e") (auto simp: ok_iff)

lemma parse_condition_loop_split:
  "parse_condition_loop E q buf start = parse_expressions E q (split_amp (drop start buf))"
proof (induction E q buf start rule: parse_condition_loop.induct)
  case (1 E q buf start)
  show ?case
  proof (cases "str_find CHR ''&'' buf start")
    case None
    then have "CHR ''&'' \<notin> set (drop start buf)"
      by (simp add: str_find_def str_find_if_def find_idx_char_None)
    with None show ?thesis
      by (subst parse_condition_loop.simps)
         (simp add: split_amp_no_amp parse_expressions_single substr_from_def del: parse_expressions.simps)
  next
    case (Some pos)
    let ?w = "substr buf start (pos - start)"
    from Some have b: "start \<le> pos" "pos < length buf" "buf ! pos = CHR ''&''"
      and no: "\<And>j. start \<le> j \<Longrightarrow> j < pos \<Longrightarrow> buf ! j \<noteq> CHR ''&''"
      using str_find_SomeD by blast+
    have w: "CHR ''&'' \<notin> set ?w"
      using b no by (auto simp: substr_def in_set_conv_nth)
    have "drop start buf = ?w @ CHR ''&'' # drop (pos + 1) buf"
      using b id_take_nth_drop [of "pos - start" "drop start buf"] by (simp add: substr_def)
    with w have "split_amp (drop start buf) = ?w # split_amp (drop (pos + 1) buf)"
      by (simp add: split_amp_first)
    with Some "1.IH" show ?thesis
      by (subst parse_condition_loop.simps) (auto intro!: bindo_cong)
  qed
qed

text \<open>A path with no slash after the question mark is parsed as one segment.\<close>

lemma parse_loop_last:
  assumes "str_find CHR ''/'' buf (start + 1) = None" "start \<le> length buf"
  shows "parse_loop E q buf start = parse_segment E q (drop start buf)"
  using assms
  by (subst parse_loop.simps)
     (cases "parse_segment E q (drop start buf)", auto simp: substr_from_def ok_iff)

lemma parse_single_segment:
  assumes "CHR ''?'' \<notin> set root" "CHR ''/'' \<notin> set cond" "hd (root @ ''/'') = CHR ''/''"
  shows "parse E q (root @ ''/?'' @ cond) =
    parse_segment E (q\<lparr>cq_root := (if root = [] then ''/'' else root)\<rparr>) cond"
proof -
  let ?buf = "root @ ''/?'' @ cond"
  let ?q = "q\<lparr>cq_root := (if root = [] then ''/'' else root)\<rparr>"
  have qm: "str_find CHR ''?'' ?buf 0 = Some (length root + 1)"
    using str_find_append [of "CHR ''?''" "root @ ''/''" cond] assms(1) by simp
  have "str_find CHR ''/'' ?buf (length root + 2 + 1) = None"
    using assms(2) by (cases cond) (auto simp: str_find_def str_find_if_def find_idx_char_None)
  then have loop: "parse_loop E ?q ?buf (length root + 2) = parse_segment E ?q cond"
    by (subst parse_loop_last) simp_all
  have "hd ?buf = CHR ''/''" using assms(3) by (cases root) auto
  with qm loop show ?thesis
    by (auto simp: parse_def substr_def)
qed

lemma parse_segment_condition:
  "find_first_of ''<>=!'' seg 0 \<noteq> None \<Longrightarrow>
     parse_segment E q seg = parse_expressions E q (split_amp seg)"
  by (cases seg) (auto simp: parse_segment_def parse_condition_def parse_condition_loop_split str_defs)

text \<open>One well-formed comparison: a field without operator characters, an operator, a value.\<close>

lemma parse_expression_wellformed:
  assumes "set field \<inter> set ''=!<>'' = {}" "opstr \<noteq> []" "set opstr \<subseteq> set ''=!<>''"
    and "val \<noteq> []" "hd val \<notin> set ''=!<>''" "parse_cond_op opstr = Some op"
  shows "parse_expression E q (field @ opstr @ val) =
    bindo (parse_value E (trim_copy E field) (trim_copy E val))
      (\<lambda>r. case r of Inl st \<Rightarrow> Done (q, st) | Inr v \<Rightarrow> Done (apply_op op (trim_copy E field) v q))"
proof -
  obtain o1 os where os: "opstr = o1 # os" using assms(2) by (cases opstr) auto
  obtain v1 vs where vs: "val = v1 # vs" using assms(4) by (cases val) auto
  have 1: "find_first_of ''=!<>'' (field @ opstr @ val) 0 = Some (length field)"
    unfolding find_first_of_def str_find_if_def os
    by (subst drop_0, subst append_Cons, subst find_idx_append) (use assms(1,3) os in auto)
  have 2: "find_first_not_of ''=!<>'' (field @ opstr @ val) (length field) =
      Some (length field + length opstr)"
  proof -
    have "find_idx (\<lambda>x. x \<notin> set ''=!<>'') (opstr @ v1 # vs) = Some (length opstr)"
      by (rule find_idx_append) (use assms(3,5) vs in auto)
    then show ?thesis by (simp add: find_first_not_of_def str_find_if_def vs)
  qed
  from 1 2 assms(6) vs show ?thesis
    by (simp add: parse_expression_def Let_def substr_def substr_from_def)
qed

text \<open>A value made of digits, dots and signs is kept as it is written.\<close>

definition plain_value :: "string \<Rightarrow> bool" where
  "plain_value v \<longleftrightarrow> set v \<subseteq> set ''0123456789.+-''"

lemma parse_value_plain:
  assumes "plain_value v"
  shows "parse_value E field v = Done (Inr v)"
proof -
  have "find_first_not_of ''0123456789.+-'' v 0 = None"
    unfolding find_first_not_of_def str_find_if_def
    using assms by (simp only: plain_value_def drop_0 find_idx_None_iff option.map_disc_iff) blast
  then show ?thesis by (simp add: parse_value_def)
qed

text \<open>
  A comparison as it is written in a path: a field, an operator, the text of a value, and what the parser reads the text as,
  with its unit taken into account.
\<close>

record comparison =
  cm_field :: string
  cm_opstr :: string
  cm_op :: cond_op
  cm_text :: string
  cm_value :: string

definition comparison_text :: "comparison \<Rightarrow> string" where
  "comparison_text c = cm_field c @ cm_opstr c @ cm_text c"

definition comparison_ok :: "cq_env \<Rightarrow> comparison \<Rightarrow> bool" where
  "comparison_ok E c \<longleftrightarrow>
     set (cm_field c) \<inter> set ''=!<>&/'' = {} \<and> trim_copy E (cm_field c) = cm_field c \<and>
     parse_cond_op (cm_opstr c) = Some (cm_op c) \<and>
     cm_text c \<noteq> [] \<and> hd (cm_text c) \<notin> set ''=!<>'' \<and> set (cm_text c) \<inter> set ''&/'' = {} \<and>
     parse_value E (cm_field c) (trim_copy E (cm_text c)) = Done (Inr (cm_value c)) \<and> cm_value c \<noteq> []"

lemma parse_cond_op_chars: "parse_cond_op opstr = Some op \<Longrightarrow> opstr \<noteq> [] \<and> set opstr \<subseteq> set ''=!<>''"
  by (auto simp: parse_cond_op_def split: if_splits)

lemma disjoint_chars: "set v \<subseteq> A \<Longrightarrow> A \<inter> B = {} \<Longrightarrow> c \<in> B \<Longrightarrow> c \<notin> set v"
  by blast

lemma comparison_chars:
  assumes "comparison_ok E c"
  shows "CHR ''&'' \<notin> set (comparison_text c)" "CHR ''/'' \<notin> set (comparison_text c)"
    "find_first_of ''<>=!'' (comparison_text c @ rest) 0 \<noteq> None" "comparison_text c \<noteq> []"
proof -
  from assms have f: "set (cm_field c) \<inter> set ''=!<>&/'' = {}" and o: "parse_cond_op (cm_opstr c) = Some (cm_op c)"
    and v: "set (cm_text c) \<inter> set ''&/'' = {}"
    unfolding comparison_ok_def by blast+
  note oc = parse_cond_op_chars [OF o]
  have "CHR ''&'' \<notin> set (cm_opstr c)" "CHR ''/'' \<notin> set (cm_opstr c)"
    by (rule disjoint_chars [OF conjunct2 [OF oc], of "set ''&/''"]; simp)+
  then show "CHR ''&'' \<notin> set (comparison_text c)" "CHR ''/'' \<notin> set (comparison_text c)"
    using f v by (simp_all add: comparison_text_def)
  have "hd (cm_opstr c) \<in> set (cm_opstr c)" using oc by simp
  moreover from this have "hd (cm_opstr c) \<in> set ''<>=!''" using oc by (cases "cm_opstr c") auto
  ultimately show "find_first_of ''<>=!'' (comparison_text c @ rest) 0 \<noteq> None"
    unfolding find_first_of_def str_find_if_def comparison_text_def
    by (simp only: drop_0 option.map_disc_iff find_idx_None_iff) auto
  show "comparison_text c \<noteq> []" using oc by (simp add: comparison_text_def)
qed

lemma apply_op_OK: "op \<noteq> NEQ \<Longrightarrow> apply_op op field v q = (fst (apply_op op field v q), OK)"
  by (cases op) (auto simp: apply_op_def)

lemma parse_expression_comparison:
  assumes "comparison_ok E c"
  shows "parse_expression E q (comparison_text c) = Done (apply_op (cm_op c) (cm_field c) (cm_value c) q)"
proof -
  from assms have *: "set (cm_field c) \<inter> set ''=!<>'' = {}" "parse_cond_op (cm_opstr c) = Some (cm_op c)"
    "cm_text c \<noteq> []" "hd (cm_text c) \<notin> set ''=!<>''" "trim_copy E (cm_field c) = cm_field c"
    "parse_value E (cm_field c) (trim_copy E (cm_text c)) = Done (Inr (cm_value c))"
    unfolding comparison_ok_def by auto
  show ?thesis
    unfolding comparison_text_def
    by (subst parse_expression_wellformed [OF *(1) _ _ *(3,4,2)]) (use parse_cond_op_chars [OF *(2)] *(5,6) in simp_all)
qed

lemma parse_loop_trailing:
  assumes "str_find CHR ''/'' buf (start + 1) = Some pos" "pos \<noteq> start + 1" "pos + 1 = length buf"
  shows "parse_loop E q buf start \<noteq> Done (q', OK)"
proof -
  have "parse_loop E q1 buf (pos + 1) = parse_segment E q1 []" for q1
    using assms(3) by (subst parse_loop_last) (auto simp: str_find_def str_find_if_def)
  with assms(1,2) show ?thesis
    by (subst parse_loop.simps) (auto simp: parse_segment_def)
qed

section \<open>Properties\<close>

definition demo_env :: cq_env where
  "demo_env = \<lparr>trim_copy = (\<lambda>s. s), lexical_cast_u64 = (\<lambda>s. Some (of_nat (dec_value s))), clock_now = 0\<rparr>"

text \<open>What a comparison says of a key, and what a range says of it: an end that is the empty string is no bound.\<close>

fun holds :: "cond_op \<Rightarrow> 'k::linorder \<Rightarrow> 'k \<Rightarrow> bool" where
  "holds EQ x v \<longleftrightarrow> x = v"
| "holds NEQ x v \<longleftrightarrow> x \<noteq> v"
| "holds GT x v \<longleftrightarrow> v < x"
| "holds GE x v \<longleftrightarrow> v \<le> x"
| "holds LT x v \<longleftrightarrow> x < v"
| "holds LE x v \<longleftrightarrow> x \<le> v"

definition within :: "(string \<Rightarrow> 'k::linorder) \<Rightarrow> StringRange \<Rightarrow> 'k \<Rightarrow> bool" where
  "within reading r x \<longleftrightarrow>
     (sr_lower r = [] \<or> (if sr_lower_closed r then reading (sr_lower r) \<le> x else reading (sr_lower r) < x)) \<and>
     (sr_upper r = [] \<or> (if sr_upper_closed r then x \<le> reading (sr_upper r) else x < reading (sr_upper r)))"

lemma within_new [simp]: "within reading StringRange_new x"
  by (simp add: within_def StringRange_new_def)

text \<open>The ends a comparison bounds. \<open>one_bound_each\<close>: no two comparisons of a field bound the same end.\<close>

definition from_below :: "comparison \<Rightarrow> bool" where
  "from_below c \<longleftrightarrow> cm_op c \<in> {GT, GE, EQ}"

definition from_above :: "comparison \<Rightarrow> bool" where
  "from_above c \<longleftrightarrow> cm_op c \<in> {LT, LE, EQ}"

definition one_bound_each :: "comparison list \<Rightarrow> bool" where
  "one_bound_each cs \<longleftrightarrow>
     sorted_wrt (\<lambda>c d. cm_field c = cm_field d \<longrightarrow> \<not> (from_below c \<and> from_below d) \<and> \<not> (from_above c \<and> from_above d)) cs"

text \<open>The range a query has for a field, the new one if the field is not there.\<close>

definition range_at :: "ComplexQuery \<Rightarrow> string \<Rightarrow> StringRange" where
  "range_at q f = (case range_query q f of None \<Rightarrow> StringRange_new | Some r \<Rightarrow> r)"

definition compare :: "comparison \<Rightarrow> ComplexQuery \<Rightarrow> ComplexQuery" where
  "compare c q = fst (apply_op (cm_op c) (cm_field c) (cm_value c) q)"

definition end_free :: "ComplexQuery \<Rightarrow> comparison \<Rightarrow> bool" where
  "end_free q c \<longleftrightarrow>
     (from_below c \<longrightarrow> sr_lower (range_at q (cm_field c)) = []) \<and> (from_above c \<longrightarrow> sr_upper (range_at q (cm_field c)) = [])"

lemma range_at_update_range:
  "range_at (update_range field f q) name = (if name = field then f (range_at q field) else range_at q name)"
  by (simp add: range_at_def range_query_update_range)

lemmas compare_defs = compare_def apply_op_def set_lower_def set_upper_def

lemma compare_query:
  assumes "cm_op c \<noteq> NEQ"
  shows "cq_root (compare c q) = cq_root q" "range_query (compare c q) f \<noteq> None \<longleftrightarrow> range_query q f \<noteq> None \<or> f = cm_field c"
  using assms by (cases "cm_op c"; simp add: compare_defs range_query_update_range)+

lemma compare_other: "f \<noteq> cm_field c \<Longrightarrow> range_at (compare c q) f = range_at q f"
  by (cases "cm_op c") (simp_all add: compare_defs range_at_update_range)

lemma compare_within:
  assumes "cm_op c \<noteq> NEQ" "cm_value c \<noteq> []" "end_free q c"
  shows "within reading (range_at (compare c q) (cm_field c)) x \<longleftrightarrow>
    within reading (range_at q (cm_field c)) x \<and> holds (cm_op c) x (reading (cm_value c))"
  using assms
  by (cases "cm_op c")
    (auto simp: compare_defs range_at_update_range within_def end_free_def from_below_def from_above_def)

lemma compare_end_free:
  assumes "cm_op c \<noteq> NEQ" "end_free q d" "one_bound_each [c, d]"
  shows "end_free (compare c q) d"
proof (cases "cm_field d = cm_field c")
  case True
  with assms show ?thesis
    by (cases "cm_op c")
      (auto simp: compare_defs range_at_update_range end_free_def from_below_def from_above_def one_bound_each_def)
next
  case False
  with assms(2) show ?thesis by (simp add: end_free_def compare_other)
qed

text \<open>A conjunction of comparisons: the walk of the parser over it, and what it leaves.\<close>

fun conjunction_text :: "comparison list \<Rightarrow> string" where
  "conjunction_text [] = []"
| "conjunction_text [c] = comparison_text c"
| "conjunction_text (c # cs) = comparison_text c @ CHR ''&'' # conjunction_text cs"

lemma conjunction_parts:
  assumes "\<forall>c\<in>set cs. comparison_ok E c" "cs \<noteq> []"
  shows "split_amp (conjunction_text cs) = map comparison_text cs" "CHR ''/'' \<notin> set (conjunction_text cs)"
  using assms
proof (induction cs rule: conjunction_text.induct)
  case (2 c)
  {
    case 1
    with comparison_chars(1) [of E c] show ?case by (simp add: split_amp_no_amp)
  next
    case 2
    with comparison_chars(2) [of E c] show ?case by simp
  }
next
  case (3 c d cs)
  {
    case 1
    with comparison_chars(1) [of E c] 3 show ?case by (simp add: split_amp_first)
  next
    case 2
    with comparison_chars(2) [of E c] 3 show ?case by simp
  }
qed simp_all

lemma parse_conjunction_text:
  assumes "CHR ''?'' \<notin> set root" "root \<noteq> []" "hd root = CHR ''/''" "\<forall>c\<in>set cs. comparison_ok E c" "cs \<noteq> []"
  shows "parse E q (root @ ''/?'' @ conjunction_text cs) =
    parse_expressions E (q\<lparr>cq_root := root\<rparr>) (map comparison_text cs)"
proof -
  obtain c ds rest where c: "cs = c # ds" "conjunction_text cs = comparison_text c @ rest"
    using assms(5) by (cases cs rule: conjunction_text.cases) auto
  have "find_first_of ''<>=!'' (conjunction_text cs) 0 \<noteq> None"
    unfolding c(2) using assms(4) c(1) by (intro comparison_chars(3) [of E]) simp
  from parse_segment_condition [OF this] parse_single_segment [OF assms(1) conjunction_parts(2) [OF assms(4,5)], of E q]
    conjunction_parts(1) [OF assms(4,5)] assms(2,3)
  show ?thesis by simp
qed

lemma parse_comparisons:
  assumes "\<forall>c\<in>set cs. comparison_ok E c \<and> cm_op c \<noteq> NEQ"
  shows "parse_expressions E q (map comparison_text cs @ es) = parse_expressions E (fold compare cs q) es"
  using assms
proof (induction cs arbitrary: q)
  case (Cons c cs)
  then have "parse_expression E q (comparison_text c) = Done (compare c q, OK)"
    using parse_expression_comparison [of E c q] apply_op_OK [of "cm_op c"] by (simp add: compare_def)
  with Cons show ?case by simp
qed simp

lemma compare_all_query:
  assumes "\<forall>c\<in>set cs. cm_op c \<noteq> NEQ"
  shows "cq_root (fold compare cs q) = cq_root q"
    "range_query (fold compare cs q) f \<noteq> None \<longleftrightarrow> range_query q f \<noteq> None \<or> f \<in> cm_field ` set cs"
proof -
  show "cq_root (fold compare cs q) = cq_root q"
    using assms by (induction cs arbitrary: q) (auto simp: compare_query(1))
  show "range_query (fold compare cs q) f \<noteq> None \<longleftrightarrow> range_query q f \<noteq> None \<or> f \<in> cm_field ` set cs"
    using assms
  proof (induction cs arbitrary: q)
    case (Cons c cs)
    then have "range_query (fold compare cs (compare c q)) f \<noteq> None \<longleftrightarrow>
        range_query (compare c q) f \<noteq> None \<or> f \<in> cm_field ` set cs" by simp
    moreover have "range_query (compare c q) f \<noteq> None \<longleftrightarrow> range_query q f \<noteq> None \<or> f = cm_field c"
      using Cons.prems by (intro compare_query(2)) simp
    ultimately show ?case by auto
  qed simp
qed

lemma compare_all_within:
  assumes "\<forall>c\<in>set cs. cm_op c \<noteq> NEQ \<and> cm_value c \<noteq> []" "one_bound_each cs" "\<forall>c\<in>set cs. end_free q c"
  shows "within reading (range_at (fold compare cs q) f) x \<longleftrightarrow>
    within reading (range_at q f) x \<and> (\<forall>c\<in>set cs. cm_field c = f \<longrightarrow> holds (cm_op c) x (reading (cm_value c)))"
  using assms
proof (induction cs arbitrary: q)
  case (Cons c cs)
  have "one_bound_each [c, d]" if "d \<in> set cs" for d
    using Cons.prems(2) that by (simp add: one_bound_each_def)
  then have "\<forall>d\<in>set cs. end_free (compare c q) d"
    using compare_end_free Cons.prems(1,3) by simp
  from Cons.IH [OF _ _ this] Cons.prems(1,2)
  have "within reading (range_at (fold compare (c # cs) q) f) x \<longleftrightarrow>
    within reading (range_at (compare c q) f) x \<and> (\<forall>c\<in>set cs. cm_field c = f \<longrightarrow> holds (cm_op c) x (reading (cm_value c)))"
    by (simp add: one_bound_each_def)
  then show ?case
    using compare_within [of c q reading x] compare_other [of f c q] Cons.prems(1,3) by (cases "f = cm_field c") auto
qed simp

lemma end_free_new [simp]: "end_free (ComplexQuery_new\<lparr>cq_root := root\<rparr>) c"
  by (simp add: end_free_def range_at_def range_query_def ComplexQuery_new_def StringRange_new_def)

lemma parse_conjunction_accepted:
  assumes "CHR ''?'' \<notin> set root" "root \<noteq> []" "hd root = CHR ''/''" "\<forall>c\<in>set cs. comparison_ok E c" "cs \<noteq> []"
    and "\<forall>c\<in>set cs. cm_op c \<noteq> NEQ"
  shows "parse E q (root @ ''/?'' @ conjunction_text cs) = Done (fold compare cs (q\<lparr>cq_root := root\<rparr>), OK)"
  using parse_comparisons [of cs E "q\<lparr>cq_root := root\<rparr>" "[]"] assms(4,6)
  unfolding parse_conjunction_text [OF assms(1-5)] by simp

lemma parse_conjunction_refused:
  assumes "CHR ''?'' \<notin> set root" "root \<noteq> []" "hd root = CHR ''/''" "\<forall>c\<in>set cs. comparison_ok E c" "cs \<noteq> []"
    and "NEQ \<in> cm_op ` set cs"
  shows "\<exists>q'. parse E q (root @ ''/?'' @ conjunction_text cs) = Done (q', Err (-1) ''Unknown op code.'')"
proof -
  let ?q = "q\<lparr>cq_root := root\<rparr>"
  from assms(6) have "\<exists>c\<in>set cs. cm_op c = NEQ" by force
  from split_list_first_propE [OF this] obtain ds c es where
    s: "cs = ds @ c # es" "cm_op c = NEQ" "\<forall>d\<in>set ds. cm_op d \<noteq> NEQ" by metis
  then have "parse_expressions E ?q (map comparison_text cs) =
      parse_expressions E (fold compare ds ?q) (comparison_text c # map comparison_text es)"
    using parse_comparisons [of ds E ?q] assms(4) by simp
  also have "\<dots> = Done (fold compare ds ?q, Err (-1) ''Unknown op code.'')"
    using parse_expression_comparison [of E c] assms(4) s(1,2) by (simp add: apply_op_def)
  finally show ?thesis unfolding parse_conjunction_text [OF assms(1-5)] by blast
qed

text \<open>A field with one comparison for each end.\<close>

definition interval_query :: "string \<Rightarrow> comparison \<Rightarrow> comparison \<Rightarrow> ComplexQuery" where
  "interval_query dir lo hi = \<lparr>cq_root = dir, range_query_map =
     [(cm_field lo, \<lparr>sr_lower = cm_value lo, sr_lower_closed = (cm_op lo = GE), sr_upper = cm_value hi,
        sr_upper_closed = (cm_op hi = LE)\<rparr>)]\<rparr>"

lemma parse_interval_query:
  assumes "CHR ''?'' \<notin> set root" "root \<noteq> []" "hd root = CHR ''/''" "comparison_ok E lo" "comparison_ok E hi"
    and "cm_field hi = cm_field lo" "cm_op lo \<in> {GT, GE}" "cm_op hi \<in> {LT, LE}" "cs \<in> {[lo, hi], [hi, lo]}"
  shows "parse E ComplexQuery_new (root @ ''/?'' @ conjunction_text cs) = Done (interval_query root lo hi, OK)"
proof -
  have "\<forall>c\<in>set cs. comparison_ok E c" "cs \<noteq> []" "\<forall>c\<in>set cs. cm_op c \<noteq> NEQ" using assms(4-9) by auto
  note p = parse_conjunction_accepted [OF assms(1-3) this, of ComplexQuery_new]
  have "fold compare cs (ComplexQuery_new\<lparr>cq_root := root\<rparr>) = interval_query root lo hi"
    using assms(6-9)
    by (cases "cm_op lo"; cases "cm_op hi"; cases "cs = [lo, hi]")
      (simp_all add: compare_defs update_range_def ComplexQuery_new_def StringRange_new_def interval_query_def)
  with p show ?thesis by simp
qed

text \<open>
  Two comparisons of a field that bound the same end do not narrow its range: the later one overwrites the earlier one, so
  \<open>x>5&x>3\<close> is parsed as \<open>x>3\<close>.
\<close>

theorem repeated_bound_overwrites:
  assumes "CHR ''?'' \<notin> set root" "root \<noteq> []" "hd root = CHR ''/''" "comparison_ok E c" "comparison_ok E d"
    and "cm_field d = cm_field c" "cm_op c = GT" "cm_op d = GT"
  shows "parse E ComplexQuery_new (root @ ''/?'' @ conjunction_text [c, d]) = parse E ComplexQuery_new (root @ ''/?'' @ conjunction_text [d])"
  using parse_conjunction_accepted [OF assms(1-3), of "[c, d]"] parse_conjunction_accepted [OF assms(1-3), of "[d]"] assms(4-8)
  by (simp add: compare_defs update_range_def ComplexQuery_new_def Let_def StringRange_new_def)

lemma range_at_new: "range_query (ComplexQuery_new\<lparr>cq_root := root\<rparr>) f = None"
  by (simp add: range_query_def ComplexQuery_new_def)


definition demo_comparisons :: "comparison list" where
  "demo_comparisons =
     [\<lparr>cm_field = ''size'', cm_opstr = ''>='', cm_op = GE, cm_text = ''2k'', cm_value = ''2048''\<rparr>,
      \<lparr>cm_field = ''energy'', cm_opstr = ''='', cm_op = EQ, cm_text = ''12'', cm_value = ''12''\<rparr>,
      \<lparr>cm_field = ''size'', cm_opstr = ''<'', cm_op = LT, cm_text = ''9000'', cm_value = ''9000''\<rparr>]"

lemma demo_comparisons_ok: "\<forall>c\<in>set demo_comparisons. comparison_ok demo_env c"
proof -
  have u: "u64_to_string (KB * of_nat (dec_value ''2'')) = ''2048''" by code_simp
  have "parse_value demo_env ''size'' ''2k'' = Done (Inr ''2048'')"
    using u by (simp add: parse_value_def demo_env_def find_first_not_of_def str_find_if_def unit_factor_def is_time_field_def
        substr_from_def substr_def Let_def)
  moreover have "parse_value demo_env f ''12'' = Done (Inr ''12'')" "parse_value demo_env f ''9000'' = Done (Inr ''9000'')" for f
    by (simp_all add: parse_value_plain plain_value_def)
  moreover have "trim_copy demo_env t = t" for t by (simp add: demo_env_def)
  ultimately show ?thesis by (simp add: demo_comparisons_def comparison_ok_def parse_cond_op_def)
qed


text \<open>
  whatever the path, the environment and the query so far, no position the parser cuts at
  lies outside the string: \<open>substr\<close> never throws.
\<close>

theorem parse_never_out_of_range: "parse E q buf \<noteq> Fail OutOfRange"
proof -
  have "pos + 1 \<le> length buf" if "str_find CHR ''?'' buf 0 = Some pos" for pos
    using that str_find_progress by fastforce
  then show ?thesis
    by (auto simp: parse_def parse_loop_in_range split: option.split)
qed

text \<open>
  a query that ends in a slash is never accepted: the part after the slash is taken as a
  further, empty segment.
\<close>

theorem parse_trailing_slash_fails:
  assumes "CHR ''?'' \<notin> set root" "hd (root @ ''/'') = CHR ''/''" "CHR ''/'' \<notin> set cond" "2 \<le> length cond"
  shows "parse E q (root @ ''/?'' @ cond @ ''/'') \<noteq> Done (q', OK)"
proof -
  let ?buf = "root @ ''/?'' @ cond @ ''/''"
  let ?s = "length root + 2"
  let ?q = "q\<lparr>cq_root := (if root = [] then ''/'' else root)\<rparr>"
  obtain c cs where cs: "cond = c # cs" using assms(4) by (cases cond) auto
  have qm: "str_find CHR ''?'' ?buf 0 = Some (length root + 1)"
    using str_find_append [of "CHR ''?''" "root @ ''/''" "cond @ ''/''"] assms(1) by simp
  have sl: "str_find CHR ''/'' ?buf (?s + 1) = Some (?s + length cond)"
    using str_find_drop [of "CHR ''/''" cs "root @ ''/?'' @ [c]" "[]"] assms(3) cs by simp
  have "parse_loop E ?q ?buf ?s \<noteq> Done (q', OK)"
    by (rule parse_loop_trailing [OF sl]) (use assms(4) in auto)
  moreover have "hd ?buf = CHR ''/''" using assms(2) by (cases root) auto
  ultimately show ?thesis
    using qm by (auto simp: parse_def substr_def)
qed

theorem parse_trailing_slash_fails_witness:
  "\<forall>q'. parse demo_env ComplexQuery_new (''/home'' @ ''/?'' @ ''a>1'' @ ''/'') \<noteq> Done (q', OK)"
  using parse_trailing_slash_fails [of "''/home''" "''a>1''" demo_env ComplexQuery_new] by simp

text \<open>
  an ampersand with nothing after it aborts the process: the comparison before it is parsed,
  the empty one after it fails the \<open>CHECK\<close> at the head of \<open>parse_expression\<close>.
\<close>

theorem parse_dangling_ampersand_aborts:
  assumes "CHR ''?'' \<notin> set root" "root \<noteq> []" "hd root = CHR ''/''" "comparison_ok E c" "cm_op c \<noteq> NEQ"
  shows "parse E q (root @ ''/?'' @ comparison_text c @ ''&'') = Fail CheckFailed"
proof -
  let ?q = "q\<lparr>cq_root := root\<rparr>"
  note ch = comparison_chars [OF assms(4)]
  have "split_amp (comparison_text c @ ''&'') = [comparison_text c, []]"
    using split_amp_first [OF ch(1), of "[]"] by simp
  then have "parse E q (root @ ''/?'' @ comparison_text c @ ''&'') = parse_expressions E ?q ([comparison_text c] @ [[]])"
    using parse_single_segment [of root "comparison_text c @ ''&''" E q] parse_segment_condition [OF ch(3), of E ?q] assms(1-3) ch(2)
    by simp
  also have "\<dots> = parse_expressions E (compare c ?q) [[]]"
    using parse_comparisons [of "[c]" E ?q "[[]]"] assms(4,5) by simp
  finally show ?thesis by (simp add: parse_expression_def)
qed

theorem parse_dangling_ampersand_aborts_witness:
  "parse demo_env ComplexQuery_new ''/home/?energy=12&'' = Fail CheckFailed"
  using parse_dangling_ampersand_aborts [of "''/home''" demo_env "demo_comparisons ! 1"] demo_comparisons_ok
  by (simp add: demo_comparisons_def comparison_text_def)

end
