(* ===== verification/Rpc_Types.thy ===== *)
theory Rpc_Types
  imports Vsfs_Prelude
begin

text \<open>
  The structures the servers exchange and keep, as \<open>vsfs/rpc/vsfs.thrift\<close> and
  \<open>vsfs/masterd/masterd.thrift\<close> declare them. An optional field is an option: \<open>__isset\<close>
  is that it is present. A \<open>double\<close> that holds a time is a rational number.
\<close>

record RpcFileInfo =
  fi_object_id :: "int option"
  fi_uid :: "int option"
  fi_gid :: "int option"
  fi_mode :: "int option"
  fi_size :: "int option"
  fi_ctime :: "int option"
  fi_mtime :: "int option"
  fi_atime :: "int option"

record RpcNodeAddress =
  host :: string
  port :: int

record NodeInfo =
  address :: RpcNodeAddress
  server_id :: string
  ni_type :: int
  ni_status :: int
  avail_mb :: int

record RpcRangeQuery =
  rq_index_path :: string
  rq_name :: string
  rq_lower :: string
  rq_lower_open :: bool
  rq_upper :: string
  rq_upper_open :: bool

record RpcComplexQuery =
  qry_txn_id :: int
  qry_root :: string
  range_queries :: "RpcRangeQuery list"

datatype RpcIndexUpdateOpCode = UNKNOWN | INSERT | UPDATE | REMOVE

record RpcIndexRecordUpdateOp =
  up_op :: RpcIndexUpdateOpCode
  up_key :: string
  up_value :: "string option"

record RpcIndexRecordUpdateList =
  ul_root_path :: string
  ul_name :: string
  record_updates :: "RpcIndexRecordUpdateOp list"

record RpcIndexUpdate =
  iu_txn_id :: int
  updates :: "RpcIndexRecordUpdateList list"

record RpcIndexCreateRequest =
  cr_root :: string
  cr_name :: string
  cr_index_type :: int
  cr_key_type :: int
  cr_mode :: int
  cr_uid :: int
  cr_gid :: int

record RpcIndexName =
  in_root :: string
  in_name :: string

record RpcIndexInfoRequest =
  ir_txn_id :: int
  ir_path :: string
  ir_recursive :: "bool option"

record RpcIndexInfo =
  ii_path :: string
  ii_name :: string
  ii_type :: int
  ii_key_type :: int
  ii_num_records :: int

text \<open>
  A handler of a server returns or raises \<open>RpcInvalidOp\<close>; \<open>what\<close> is the code of the status,
  \<open>why\<close> its message.
\<close>

record RpcInvalidOp =
  what :: int
  why :: string

section \<open>ThriftUtils\<close>

text \<open>
  A handler returns its result, or raises \<open>RpcInvalidOp\<close> with the code and message of a status. The
  two readings of a system error are vobla's.
\<close>

record vobla_api =
  sys_error :: "int \<Rightarrow> int"
  sys_message :: "int \<Rightarrow> string"

definition status_to_rpc_invalid_op :: "vobla_api \<Rightarrow> Status \<Rightarrow> RpcInvalidOp" where
  "status_to_rpc_invalid_op V status =
     (case status of
        OK \<Rightarrow> \<lparr>what = 0, why = []\<rparr>
      | Err c m \<Rightarrow> \<lparr>what = c, why = m\<rparr>
      | SysErr e \<Rightarrow> \<lparr>what = sys_error V e, why = sys_message V e\<rparr>)"

definition check_status :: "vobla_api \<Rightarrow> Status \<Rightarrow> 'a \<Rightarrow> RpcInvalidOp + 'a" where
  "check_status V status a = (if \<not> ok status then Inl (status_to_rpc_invalid_op V status) else Inr a)"

end
