(* ===== verification/Hash_Ring.thy ===== *)
theory Hash_Ring
  imports Vsfs_Prelude
begin

text \<open>
  \<open>vobla::ConsistentHashMap\<close>, the ring the server map and the partition manager keep, is not part
  of the sources: its calls are the record \<open>ring_api\<close> and its documented behaviour the predicate
  \<open>ring_laws\<close>; \<open>list_ring\<close> is a ring that has it.
\<close>

section \<open>The ring\<close>

record ('r, 'v) ring_api =
  ring_empty :: "'r \<Rightarrow> bool"
  ring_num_nodes :: "'r \<Rightarrow> nat"
  ring_has_key :: "'r \<Rightarrow> HashValueType \<Rightarrow> bool"
  ring_insert :: "'r \<Rightarrow> HashValueType \<Rightarrow> 'v \<Rightarrow> 'r \<times> Status"
  ring_remove :: "'r \<Rightarrow> HashValueType \<Rightarrow> 'r \<times> Status"
  ring_get :: "'r \<Rightarrow> HashValueType \<Rightarrow> Status + 'v"
  ring_succ_by_value :: "'r \<Rightarrow> 'v \<Rightarrow> Status + 'v"
  ring_get_max_range :: "'r \<Rightarrow> Status + (HashValueType \<times> HashValueType)"
  ring_get_partitions :: "'r \<Rightarrow> HashValueType list"
  ring_get_values :: "'r \<Rightarrow> 'v list"
  ring_items :: "'r \<Rightarrow> (HashValueType \<times> 'v) list"

text \<open>The documented behaviour of the ring on its contents.\<close>

definition ring_laws :: "('r, 'v) ring_api \<Rightarrow> bool" where
  "ring_laws R \<longleftrightarrow>
     (\<forall>r. ring_empty R r \<longleftrightarrow> ring_items R r = []) \<and>
     (\<forall>r. ring_num_nodes R r = length (ring_items R r)) \<and>
     (\<forall>r. smap_ok (ring_items R r)) \<and>
     (\<forall>r p. ring_has_key R r p \<longleftrightarrow> map_of (ring_items R r) p \<noteq> None) \<and>
     (\<forall>r p n. \<not> ring_has_key R r p \<longrightarrow>
        (\<exists>r'. ring_insert R r p n = (r', OK) \<and> ring_items R r' = smap_put p n (ring_items R r))) \<and>
     (\<forall>r p. ring_has_key R r p \<longrightarrow>
        (\<exists>r'. ring_remove R r p = (r', OK) \<and> ring_items R r' = smap_erase p (ring_items R r))) \<and>
     (\<forall>r p. \<not> ring_has_key R r p \<longrightarrow> \<not> ok (snd (ring_remove R r p)) \<and> fst (ring_remove R r p) = r) \<and>
     (\<forall>r. ring_get_values R r = map snd (ring_items R r)) \<and>
     (\<forall>r p n. ring_items R r = [(p, n)] \<longrightarrow> ring_get_max_range R r = Inr (p, p))"

lemma smap_put_all:
  "smap_ok (m @ xs) \<Longrightarrow> foldl (\<lambda>m (k, v). smap_put k v m) m xs = m @ xs"
proof (induction xs arbitrary: m)
  case (Cons x xs)
  have "\<forall>q\<in>set m. fst q < fst x"
    using Cons.prems by (auto simp: smap_ok_def sorted_wrt_append)
  from smap_put_last [OF this] show ?case using Cons by (cases x) auto
qed simp

text \<open>A ring that is its ordered list of nodes.\<close>

definition widest :: "(HashValueType \<times> 'v) list \<Rightarrow> Status + (HashValueType \<times> HashValueType)" where
  "widest r = (case r of [] \<Rightarrow> Inl (Err (-1) ''Empty ring'') | p # _ \<Rightarrow> Inr (fst (last r), fst p))"

definition replay_nodes :: "(HashValueType \<times> 'v option) list \<Rightarrow> (HashValueType \<times> 'v) list" where
  "replay_nodes r =
     foldr (\<lambda>(k, w) m. case w of None \<Rightarrow> smap_erase k m | Some v \<Rightarrow> smap_put k v m) r []"

definition list_ring :: "((HashValueType \<times> 'v option) list, 'v) ring_api" where
  "list_ring =
     \<lparr>ring_empty = (\<lambda>r. replay_nodes r = []), ring_num_nodes = (\<lambda>r. length (replay_nodes r)),
      ring_has_key = (\<lambda>r p. map_of (replay_nodes r) p \<noteq> None),
      ring_insert = (\<lambda>r p n. ((p, Some n) # r, OK)), 
      ring_remove = (\<lambda>r p. if map_of (replay_nodes r) p = None then (r, Err (- ENOENT) ''No such key'') else ((p, None) # r, OK)),
      ring_get = (\<lambda>r h. case lower_bound h (replay_nodes r) @ replay_nodes r of
         [] \<Rightarrow> Inl (Err (-1) ''Empty ring'') | p # _ \<Rightarrow> Inr (snd p)),
      ring_succ_by_value = (\<lambda>r n. case replay_nodes r of [] \<Rightarrow> Inl (Err (-1) ''Empty ring'') | p # _ \<Rightarrow> Inr (snd p)),
      ring_get_max_range = (\<lambda>r. widest (replay_nodes r)),
      ring_get_partitions = (\<lambda>r. map fst (replay_nodes r)), ring_get_values = (\<lambda>r. map snd (replay_nodes r)),
      ring_items = replay_nodes\<rparr>"

lemma smap_ok_replay_nodes: "smap_ok (replay_nodes r)"
  by (induction r) (auto simp: replay_nodes_def intro: smap_intros split: option.split)

lemma ring_laws_list: "ring_laws list_ring"
  using smap_ok_replay_nodes
  by (auto simp: ring_laws_def list_ring_def widest_def) (auto simp: replay_nodes_def)

end
