(* ===== verification/Server_Map.thy ===== *)
theory Server_Map
  imports Path_Util Rpc_Types Hash_Ring "HOL-Library.Signed_Division"
begin

text \<open>
  \<open>ServerMap\<close> (\<open>vsfs/common/server_map.cpp\<close>): the consistent-hash ring of the servers. The
  ring itself is the parameter of \<open>Hash_Ring\<close>. Positions are signed 64-bit numbers; an addition that
  leaves the range has no defined result, and \<open>/\<close> truncates towards zero, as \<open>sdiv\<close> does.
\<close>

section \<open>Operations\<close>

definition s64 :: "int \<Rightarrow> int outcome" where
  "s64 x = (if in_int64 x then Done x else Fail Undefined)"

definition RAND_MAX :: int where
  "RAND_MAX = 2 ^ 31 - 1"

text \<open>The position between the ends of the widest range, term by term as the source adds it up.\<close>

definition range_median :: "HashValueType \<Rightarrow> HashValueType \<Rightarrow> HashValueType outcome" where
  "range_median lower upper =
     (if lower < upper then
        bindo (s64 (lower + upper)) (\<lambda>s. Done (s sdiv 2))
      else if lower = upper then
        s64 (lower + int64_max sdiv 2)
      else
        bindo (s64 (int64_max sdiv 2 - lower sdiv 2)) (\<lambda>a.
        bindo (s64 (a + upper sdiv 2)) (\<lambda>b.
        s64 (b + lower))))"

text \<open>\<open>r1\<close> and \<open>r2\<close> are what the two calls of \<open>rand()\<close> return.\<close>

definition ServerMap_add ::
  "('r, NodeInfo) ring_api \<Rightarrow> int \<Rightarrow> int \<Rightarrow> 'r \<Rightarrow> NodeInfo \<Rightarrow> ('r \<times> Status) outcome" where
  "ServerMap_add R r1 r2 ring node =
     (if ring_empty R ring then
        bindo (s64 (r1 * r2)) (\<lambda>pos. Done (ring_insert R ring pos node))
      else case ring_get_max_range R ring of
        Inl status \<Rightarrow> Done (ring, status)
      | Inr (lower, upper) \<Rightarrow>
          bindo (range_median lower upper) (\<lambda>pos. Done (ring_insert R ring pos node)))"

definition ServerMap_add_at ::
  "('r, NodeInfo) ring_api \<Rightarrow> 'r \<Rightarrow> HashValueType \<Rightarrow> NodeInfo \<Rightarrow> 'r \<times> Status" where
  "ServerMap_add_at R ring pos node =
     (if ring_has_key R ring pos then (ring, Err (- EEXIST) ''This position is already used.'')
      else ring_insert R ring pos node)"

definition ServerMap_remove :: "('r, NodeInfo) ring_api \<Rightarrow> 'r \<Rightarrow> HashValueType \<Rightarrow> 'r \<times> Status" where
  "ServerMap_remove R ring pos =
     (if \<not> ring_has_key R ring pos then (ring, Err (- ENOENT) ''This position does not exsit.'')
      else ring_remove R ring pos)"

definition ServerMap_get :: "('r, NodeInfo) ring_api \<Rightarrow> 'r \<Rightarrow> HashValueType \<Rightarrow> Status + NodeInfo" where
  "ServerMap_get R ring path_hash =
     (case ring_get R ring path_hash of
        Inl _ \<Rightarrow> Inl (Err (- ENOENT) ''Can't find any Server.'')
      | Inr node \<Rightarrow> Inr node)"

definition ServerMap_get_path ::
  "('r, NodeInfo) ring_api \<Rightarrow> (string \<Rightarrow> 8 word list) \<Rightarrow> 'r \<Rightarrow> string \<Rightarrow> Status + NodeInfo" where
  "ServerMap_get_path R md5 ring path = ServerMap_get R ring (path_to_hash md5 path)"

text \<open>
  The status of \<open>succ_by_value\<close> is not looked at: after a failure the node found last, or the
  default one, is taken again. \<open>num_nodes() - 1\<close> is unsigned.
\<close>

definition NodeInfo_default :: NodeInfo where
  "NodeInfo_default =
     \<lparr>address = \<lparr>host = [], port = 0\<rparr>, server_id = [], ni_type = 0, ni_status = 0, avail_mb = 0\<rparr>"

fun replica_loop ::
  "('r, NodeInfo) ring_api \<Rightarrow> 'r \<Rightarrow> NodeInfo \<Rightarrow> NodeInfo \<Rightarrow> nat \<Rightarrow> NodeInfo list" where
  "replica_loop R ring cur_node succ_node 0 = []"
| "replica_loop R ring cur_node succ_node (Suc i) =
     (let succ' = (case ring_succ_by_value R ring cur_node of Inl _ \<Rightarrow> succ_node | Inr n \<Rightarrow> n)
      in succ' # replica_loop R ring succ' succ' i)"

definition get_replica_servers ::
  "('r, NodeInfo) ring_api \<Rightarrow> 'r \<Rightarrow> NodeInfo \<Rightarrow> nat \<Rightarrow> NodeInfo list" where
  "get_replica_servers R ring node num_replicas =
     (let n = ring_num_nodes R ring;
          actual_num_replicas = min num_replicas (if n = 0 then 2 ^ 64 - 1 else n - 1)
      in replica_loop R ring node NodeInfo_default actual_num_replicas)"

definition ServerMap_num_nodes :: "('r, NodeInfo) ring_api \<Rightarrow> 'r \<Rightarrow> nat" where
  "ServerMap_num_nodes R ring = ring_num_nodes R ring"

definition ServerMap_empty :: "('r, NodeInfo) ring_api \<Rightarrow> 'r \<Rightarrow> bool" where
  "ServerMap_empty R ring = ring_empty R ring"

definition ServerMap_get_partitions :: "('r, NodeInfo) ring_api \<Rightarrow> 'r \<Rightarrow> HashValueType list" where
  "ServerMap_get_partitions R ring = (if \<not> ring_empty R ring then ring_get_partitions R ring else [])"

definition get_ch_ring_as_map :: "('r, NodeInfo) ring_api \<Rightarrow> 'r \<Rightarrow> (HashValueType \<times> NodeInfo) list" where
  "get_ch_ring_as_map R ring =
     foldl (\<lambda>m (k, v). smap_put k v m) [] (take (ring_num_nodes R ring) (ring_items R ring))"

section \<open>Lemmas\<close>

lemma s64_Done_iff [simp]: "s64 x = Done y \<longleftrightarrow> y = x \<and> in_int64 x"
  by (auto simp: s64_def)

lemma sdiv2_nonneg [simp]: "0 \<le> x \<Longrightarrow> (x :: int) sdiv 2 = x div 2"
  by (cases "x = 0") (simp_all add: signed_divide_int_def)

lemma int64_max_half: "int64_max sdiv 2 = 2 ^ 62 - 1"
  by (simp add: int64_max_def signed_divide_int_def)

lemmas int64_defs = in_int64_def int64_min_def int64_max_def

lemma range_median_proper:
  assumes "0 \<le> lower" "lower < upper" "in_int64 upper"
  shows "range_median lower upper =
    (if lower + upper \<le> int64_max then Done ((lower + upper) div 2) else Fail Undefined)"
  using assms by (auto simp: range_median_def s64_def int64_defs)

lemma range_median_full:
  assumes "0 \<le> pos" "in_int64 pos"
  shows "range_median pos pos = (if pos \<le> 2 ^ 62 then Done (pos + (2 ^ 62 - 1)) else Fail Undefined)"
  using assms by (auto simp: range_median_def s64_def int64_max_half int64_defs)

lemma range_median_crossing:
  assumes "0 \<le> upper" "upper < lower" "in_int64 lower"
  shows "range_median lower upper =
    (let pos = lower + (2 ^ 62 - 1 - lower div 2 + upper div 2)
     in if pos \<le> int64_max then Done pos else Fail Undefined)"
  using assms by (auto simp: range_median_def s64_def int64_max_half Let_def int64_defs)

lemma rand_product:
  assumes "0 \<le> r1" "r1 \<le> RAND_MAX" "0 \<le> r2" "r2 \<le> RAND_MAX"
  shows "0 \<le> r1 * r2 \<and> r1 * r2 \<le> 2 ^ 62"
proof -
  have "r1 * r2 \<le> RAND_MAX * RAND_MAX"
    using assms by (intro mult_mono) (auto simp: RAND_MAX_def)
  then show ?thesis using assms by (simp add: RAND_MAX_def)
qed

section \<open>Properties\<close>



text \<open>
  the first two servers always join: the random position of the first leaves room for the
  second half a ring further, so neither addition overflows, and both positions are distinct.
\<close>

theorem first_two_servers_join:
  assumes R: "ring_laws R" and e: "ring_empty R r"
    and rand: "0 \<le> r1" "r1 \<le> RAND_MAX" "0 \<le> r2" "r2 \<le> RAND_MAX"
  shows "\<exists>ra rb p1 p2. ServerMap_add R r1 r2 r n1 = Done (ra, OK) \<and>
    ServerMap_add R r3 r4 ra n2 = Done (rb, OK) \<and> p1 < p2 \<and>
    get_ch_ring_as_map R rb = [(p1, n1), (p2, n2)]"
proof -
  let ?p = "r1 * r2" and ?q = "r1 * r2 + (2 ^ 62 - 1)"
  note p = rand_product [OF rand]
  then have i: "in_int64 ?p" by (simp add: int64_defs)
  from R e have nil: "ring_items R r = []" and nk: "\<not> ring_has_key R r ?p"
    by (auto simp: ring_laws_def)
  with R obtain ra where ra: "ring_insert R r ?p n1 = (ra, OK)" "ring_items R ra = [(?p, n1)]"
    unfolding ring_laws_def by (metis smap_put.simps(1))
  with R have ra': "\<not> ring_empty R ra" "ring_get_max_range R ra = Inr (?p, ?p)" "\<not> ring_has_key R ra ?q"
    by (auto simp: ring_laws_def)
  with R obtain rb where rb: "ring_insert R ra ?q n2 = (rb, OK)"
    "ring_items R rb = smap_put ?q n2 [(?p, n1)]"
    unfolding ring_laws_def using ra(2) by metis
  have items: "ring_items R rb = [(?p, n1), (?q, n2)]" using rb(2) by simp
  have "get_ch_ring_as_map R rb = [(?p, n1), (?q, n2)]"
    using R items by (auto simp: get_ch_ring_as_map_def ring_laws_def)
  moreover have "ServerMap_add R r1 r2 r n1 = Done (ra, OK)"
    using e ra(1) i by (simp add: ServerMap_add_def s64_def)
  moreover have "ServerMap_add R r3 r4 ra n2 = Done (rb, OK)"
    using ra' rb(1) p i by (simp add: ServerMap_add_def range_median_full)
  ultimately show ?thesis by (intro exI [of _ ra] exI [of _ rb] exI [of _ ?p] exI [of _ ?q]) simp
qed

theorem first_two_servers_join_witness:
  "\<exists>ra rb p1 p2. ServerMap_add list_ring 6 7 [] NodeInfo_default = Done (ra, OK) \<and>
    ServerMap_add list_ring 0 0 ra NodeInfo_default = Done (rb, OK) \<and> p1 < p2 \<and>
    get_ch_ring_as_map list_ring rb = [(p1, NodeInfo_default), (p2, NodeInfo_default)]"
  by (rule first_two_servers_join [OF ring_laws_list])
     (simp_all add: list_ring_def replay_nodes_def RAND_MAX_def)

text \<open>
  adding and removing at given positions keep the copy of the ring that is handed to clients
  exact: an occupied position is refused, a free one gets the node, a removed one is gone, and
  removing a free one is an error that changes nothing.
\<close>

theorem server_map_positions:
  assumes R: "ring_laws R"
  shows "case map_of (get_ch_ring_as_map R r) pos of
      Some _ \<Rightarrow>
        ServerMap_add_at R r pos n = (r, Err (- EEXIST) ''This position is already used.'') \<and>
        (\<exists>r'. ServerMap_remove R r pos = (r', OK) \<and>
          get_ch_ring_as_map R r' = smap_erase pos (get_ch_ring_as_map R r))
    | None \<Rightarrow>
        (\<exists>r'. ServerMap_add_at R r pos n = (r', OK) \<and>
          get_ch_ring_as_map R r' = smap_put pos n (get_ch_ring_as_map R r)) \<and>
        ServerMap_remove R r pos = (r, Err (- ENOENT) ''This position does not exsit.'')"
proof -
  have items: "get_ch_ring_as_map R x = ring_items R x" for x
    using R smap_put_all [of "[]" "ring_items R x"] by (simp add: get_ch_ring_as_map_def ring_laws_def)
  show ?thesis
  proof (cases "map_of (ring_items R r) pos")
    case None
    then have "\<not> ring_has_key R r pos" using R by (simp add: ring_laws_def)
    with R None show ?thesis
      unfolding items ServerMap_add_at_def ServerMap_remove_def ring_laws_def by auto
  next
    case (Some m)
    then have "ring_has_key R r pos" using R by (simp add: ring_laws_def)
    with R Some show ?thesis
      unfolding items ServerMap_add_at_def ServerMap_remove_def ring_laws_def by auto
  qed
qed

theorem server_map_positions_witness:
  "\<exists>r'. ServerMap_remove list_ring [(5, Some NodeInfo_default)] 5 = (r', OK) \<and>
     get_ch_ring_as_map list_ring r' = []"
  using server_map_positions [OF ring_laws_list, of "[(5, Some NodeInfo_default)]" 5 NodeInfo_default]
  by (simp add: get_ch_ring_as_map_def list_ring_def replay_nodes_def smap_erase_def)

end
