(* ===== verification/Codec.thy ===== *)
theory Codec
  imports Vsfs_Prelude "HOL-Library.Countable"
begin

text \<open>
  A concrete serialisation of flat structures, as a list of decimal numbers each ended by a comma.
  The sources serialise with Thrift's binary protocol, which is a parameter of the
  components; this codec is the function the parameter is instantiated with where a theorem is
  applied.
\<close>

definition enc_nats :: "nat list \<Rightarrow> string" where
  "enc_nats ns = concat (map (\<lambda>n. nat_to_string n @ '','') ns)"

fun dec_nats_aux :: "string \<Rightarrow> string \<Rightarrow> nat list" where
  "dec_nats_aux acc [] = []"
| "dec_nats_aux acc (c # cs) =
     (if c = CHR '','' then dec_value acc # dec_nats_aux [] cs else dec_nats_aux (acc @ [c]) cs)"

definition dec_nats :: "string \<Rightarrow> nat list" where
  "dec_nats s = dec_nats_aux [] s"

lemma dec_nats_aux_append:
  "CHR '','' \<notin> set xs \<Longrightarrow> dec_nats_aux acc (xs @ CHR '','' # ys) = dec_value (acc @ xs) # dec_nats_aux [] ys"
  by (induction xs arbitrary: acc) auto

lemma comma_not_in_nat: "CHR '','' \<notin> set (nat_to_string n)"
  using nat_to_string_digits [of "CHR '',''" n] by (auto simp: is_digit_def)

lemma dec_enc_nats [simp]: "dec_nats (enc_nats ns) = ns"
  unfolding dec_nats_def
  by (induction ns) (simp_all add: enc_nats_def dec_nats_aux_append comma_not_in_nat)

text \<open>Strings, and lists of strings, as numbers.\<close>

definition string_nat :: "string \<Rightarrow> nat" where
  "string_nat s = list_encode (map of_char s)"

definition nat_string :: "nat \<Rightarrow> string" where
  "nat_string n = map char_of (list_decode n)"

lemma nat_string_inverse [simp]: "nat_string (string_nat s) = s"
proof -
  have "map (char_of \<circ> (of_char :: char \<Rightarrow> nat)) s = s" by (induction s) auto
  then show ?thesis by (simp add: nat_string_def string_nat_def)
qed

end
