(* ===== verification/Namespace.thy ===== *)
theory Namespace
  imports Complex_Main Kv_Store Path_Util Rpc_Types Codec
begin

text \<open>
  \<open>Namespace\<close> (\<open>vsfs/masterd/namespace.cpp\<close>): the file and directory namespace of a master
  server, kept in three hash maps and written through to a key-value store. The store is the
  record \<open>kv_api\<close> of \<open>Kv_Store\<close>; the serialisation of Thrift, Boost's paths and the MD5
  digest are the other fields of \<open>ns_env\<close>. The clock is read once per call and is the argument
  \<open>now\<close>. The mutex makes each operation one step.
\<close>

section \<open>State\<close>

text \<open>\<open>masterd.thrift\<close>: an \<open>i32\<close> is a 32-bit word, a \<open>double\<close> a rational number.\<close>

record FileMetadata =
  object_id :: ObjectId
  mode :: "32 word"
  gid :: "32 word"
  uid :: "32 word"
  fsize :: int
  atime :: rat
  ctime :: rat
  mtime :: rat

record 's ns_env =
  env_kv :: "'s kv_api"
  env_paths :: path_api
  env_md5 :: "string \<Rightarrow> 8 word list"
  serialize :: "FileMetadata \<Rightarrow> string"
  deserialize :: "string \<Rightarrow> FileMetadata option"

record 's Namespace =
  ns_store :: 's
  directories :: "string \<Rightarrow> string list option"
  metadata_map :: "string \<Rightarrow> FileMetadata option"
  id_to_path_map :: "ObjectId \<Rightarrow> string option"
  next_obj_id :: ObjectId

text \<open>The constructor leaves \<open>next_obj_id_\<close> as it finds it.\<close>

definition Namespace_new :: "ObjectId \<Rightarrow> 's \<Rightarrow> 's Namespace" where
  "Namespace_new junk store =
     \<lparr>ns_store = store, directories = Map.empty, metadata_map = Map.empty,
      id_to_path_map = Map.empty, next_obj_id = junk\<rparr>"

section \<open>Conversions\<close>

text \<open>
  A 64-bit integer assigned to a \<open>double\<close> is rounded to 53 bits, to even when halfway; a
  \<open>double\<close> assigned to a 64-bit integer is truncated, with no defined result out of range.
\<close>

fun excess_bits :: "nat \<Rightarrow> nat" where
  "excess_bits n = (if n < 2 ^ 53 then 0 else Suc (excess_bits (n div 2)))"

declare excess_bits.simps [simp del]

definition round53 :: "nat \<Rightarrow> nat" where
  "round53 n =
     (let k = excess_bits n; q = n div 2 ^ k; r = n mod 2 ^ k
      in if 2 ^ k < 2 * r \<or> (2 ^ k = 2 * r \<and> odd q) then (q + 1) * 2 ^ k else q * 2 ^ k)"

definition i64_to_double :: "int \<Rightarrow> rat" where
  "i64_to_double x = of_int (sgn x * int (round53 (nat \<bar>x\<bar>)))"

definition double_to_i64 :: "rat \<Rightarrow> int outcome" where
  "double_to_i64 d =
     (let t = (if 0 \<le> d then \<lfloor>d\<rfloor> else \<lceil>d\<rceil>) in if in_int64 t then Done t else Fail Undefined)"

definition i64_to_i32 :: "int \<Rightarrow> 32 word" where
  "i64_to_i32 x = word_of_int x"

definition i32_to_i64 :: "32 word \<Rightarrow> int" where
  "i32_to_i64 w = sint w"

section \<open>Lookups\<close>

definition ns_exists :: "'s Namespace \<Rightarrow> string \<Rightarrow> bool" where
  "ns_exists s path \<longleftrightarrow> metadata_map s path \<noteq> None"

definition file_path :: "'s Namespace \<Rightarrow> ObjectId \<Rightarrow> Status + string" where
  "file_path s oid =
     (case id_to_path_map s oid of
        None \<Rightarrow> Inl (Err (- ENOENT) ''The object ID does not exist.'')
      | Some path \<Rightarrow> Inr path)"

definition find_objects :: "'s Namespace \<Rightarrow> string list \<Rightarrow> ObjectId list" where
  "find_objects s paths =
     map (\<lambda>path. case metadata_map s path of None \<Rightarrow> 0 | Some meta \<Rightarrow> object_id meta) paths"

definition find_files :: "'s Namespace \<Rightarrow> ObjectId list \<Rightarrow> string list" where
  "find_files s object_ids =
     map (\<lambda>oid. case id_to_path_map s oid of None \<Rightarrow> [] | Some path \<Rightarrow> path) object_ids"

definition ns_object_id :: "'s Namespace \<Rightarrow> string \<Rightarrow> Status + ObjectId" where
  "ns_object_id s path =
     (case metadata_map s path of None \<Rightarrow> Inl (SysErr ENOENT) | Some meta \<Rightarrow> Inr (object_id meta))"

definition getattr :: "'s Namespace \<Rightarrow> string \<Rightarrow> (Status + RpcFileInfo) outcome" where
  "getattr s path =
     (case metadata_map s path of
        None \<Rightarrow> Done (Inl (SysErr ENOENT))
      | Some meta \<Rightarrow>
          bindo (double_to_i64 (atime meta)) (\<lambda>ta.
          bindo (double_to_i64 (ctime meta)) (\<lambda>tc.
          bindo (double_to_i64 (mtime meta)) (\<lambda>tm.
            Done (Inr \<lparr>fi_object_id = Some (sint (object_id meta)),
                       fi_uid = Some (i32_to_i64 (uid meta)), fi_gid = Some (i32_to_i64 (gid meta)),
                       fi_mode = Some (i32_to_i64 (mode meta)), fi_size = Some (fsize meta),
                       fi_ctime = Some tc, fi_mtime = Some tm, fi_atime = Some ta\<rparr>)))))"

definition readdir :: "'s Namespace \<Rightarrow> string \<Rightarrow> Status + string list" where
  "readdir s path =
     (case directories s path of
        None \<Rightarrow> Inl (Err (- ENOENT) (strerror ENOENT))
      | Some subfiles \<Rightarrow> Inr subfiles)"

section \<open>Updates\<close>

definition get_object_id ::
  "(string \<Rightarrow> 8 word list) \<Rightarrow> 's Namespace \<Rightarrow> string \<Rightarrow> 's Namespace \<times> ObjectId" where
  "get_object_id md5 s path =
     (let hash_value = path_to_hash md5 path;
          kPrefixLen = 16;
          obj_id = ((word_of_int hash_value AND push_bit (64 - kPrefixLen) (push_bit kPrefixLen 1 - 1))
                     OR (next_obj_id s AND (push_bit (64 - kPrefixLen) 1 - 1)))
      in (s\<lparr>next_obj_id := next_obj_id s + 1\<rparr>, obj_id))"

definition store_metadata ::
  "'s ns_env \<Rightarrow> 's Namespace \<Rightarrow> string \<Rightarrow> FileMetadata \<Rightarrow> ('s Namespace \<times> Status) outcome" where
  "store_metadata E s path metadata =
     bindo (kv_put (env_kv E) (ns_store s) path (serialize E metadata))
       (\<lambda>(st, status). Done (s\<lparr>ns_store := st\<rparr>, status))"

definition set_if :: "'a option \<Rightarrow> ('a \<Rightarrow> 'b \<Rightarrow> 'b) \<Rightarrow> 'b \<Rightarrow> 'b" where
  "set_if v f x = (case v of None \<Rightarrow> x | Some a \<Rightarrow> f a x)"

definition update_metadata :: "RpcFileInfo \<Rightarrow> FileMetadata \<Rightarrow> FileMetadata" where
  "update_metadata info meta =
     (let m1 = set_if (fi_uid info) (\<lambda>v m. m\<lparr>uid := i64_to_i32 v\<rparr>) meta;
          m2 = set_if (fi_gid info) (\<lambda>v m. m\<lparr>gid := i64_to_i32 v\<rparr>) m1;
          m3 = set_if (fi_mode info) (\<lambda>v m. m\<lparr>mode := i64_to_i32 v\<rparr>) m2;
          m4 = set_if (fi_size info) (\<lambda>v m. m\<lparr>fsize := v\<rparr>) m3;
          m5 = set_if (fi_atime info) (\<lambda>v m. m\<lparr>atime := i64_to_double v\<rparr>) m4;
          m6 = set_if (fi_mtime info) (\<lambda>v m. m\<lparr>mtime := i64_to_double v\<rparr>) m5
      in set_if (fi_ctime info) (\<lambda>v m. m\<lparr>ctime := i64_to_double v\<rparr>) m6)"

text \<open>The entry of the map is changed in place, so a failing store leaves it changed.\<close>

definition setattr ::
  "'s ns_env \<Rightarrow> 's Namespace \<Rightarrow> string \<Rightarrow> RpcFileInfo \<Rightarrow> ('s Namespace \<times> Status) outcome" where
  "setattr E s path info =
     (case metadata_map s path of
        None \<Rightarrow> Done (s, SysErr ENOENT)
      | Some meta \<Rightarrow>
          let meta' = update_metadata info meta in
          store_metadata E (s\<lparr>metadata_map := (metadata_map s)(path \<mapsto> meta')\<rparr>) path meta')"

text \<open>
  When the store fails, \<open>create\<close> erases the entry \<open>meta\<close> refers to and then reads
  \<open>meta.object_id\<close>: the rest of the call has no defined result. Nor has \<open>next_obj_id_++\<close> on the largest
  \<open>int64_t\<close>.
\<close>

definition create ::
  "'s ns_env \<Rightarrow> rat \<Rightarrow> 's Namespace \<Rightarrow> string \<Rightarrow> 32 word \<Rightarrow> 32 word \<Rightarrow> 32 word \<Rightarrow>
     ('s Namespace \<times> (Status + ObjectId)) outcome" where
  "create E now s path md u g =
     (if metadata_map s path \<noteq> None then Done (s, Inl (Err (- EEXIST) (strerror EEXIST)))
      else if next_obj_id s = mask 63 then Fail Undefined
      else
        let (s1, oid) = get_object_id (env_md5 E) s path;
            meta = \<lparr>object_id = oid, mode = md OR S_IFREG, gid = g, uid = u, fsize = 0,
                    atime = now, ctime = now, mtime = now\<rparr>;
            s2 = s1\<lparr>metadata_map := (metadata_map s1)(path \<mapsto> meta)\<rparr>
        in if id_to_path_map s2 oid = Some path then Fail CheckFailed
           else
             let s3 = s2\<lparr>id_to_path_map := (id_to_path_map s2)(oid \<mapsto> path)\<rparr>
             in bindo (store_metadata E s3 path meta)
                  (\<lambda>(s4, status). if \<not> ok status then Fail Undefined else Done (s4, Inr oid)))"

definition ns_remove ::
  "'s ns_env \<Rightarrow> 's Namespace \<Rightarrow> string \<Rightarrow> ('s Namespace \<times> (Status + ObjectId)) outcome" where
  "ns_remove E s path =
     (case metadata_map s path of
        None \<Rightarrow> Done (s, Inl (Err (- ENOENT) (strerror ENOENT)))
      | Some meta \<Rightarrow>
          if S_ISDIR (mode meta) then Done (s, Inl (Err (- EISDIR) (strerror EISDIR)))
          else
            bindo (kv_remove (env_kv E) (ns_store s) path)
              (\<lambda>(st, status).
                 let s1 = s\<lparr>ns_store := st\<rparr> in
                 if \<not> ok status then Done (s1, Inl status)
                 else
                   let obj = object_id meta in
                   if id_to_path_map s1 obj \<noteq> Some path then Fail CheckFailed
                   else Done (s1\<lparr>metadata_map := (metadata_map s1)(path := None),
                                  id_to_path_map := (id_to_path_map s1)(obj := None)\<rparr>, Inr obj)))"

text \<open>\<open>emplace\<close> keeps a directory that is already there.\<close>

definition mkdir ::
  "'s ns_env \<Rightarrow> rat \<Rightarrow> 's Namespace \<Rightarrow> string \<Rightarrow> 32 word \<Rightarrow> 32 word \<Rightarrow> 32 word \<Rightarrow>
     ('s Namespace \<times> Status) outcome" where
  "mkdir E now s path md u g =
     (if metadata_map s path \<noteq> None then Done (s, Err (- EEXIST) (strerror EEXIST))
      else
        let meta = \<lparr>object_id = 0, mode = md OR S_IFDIR, gid = g, uid = u, fsize = 0,
                    atime = now, ctime = now, mtime = now\<rparr>;
            s1 = s\<lparr>metadata_map := (metadata_map s)(path \<mapsto> meta),
                   directories := (case directories s path of
                      None \<Rightarrow> (directories s)(path \<mapsto> []) | Some _ \<Rightarrow> directories s)\<rparr>
        in bindo (store_metadata E s1 path meta)
             (\<lambda>(s2, status).
                if \<not> ok status then
                  Done (s2\<lparr>metadata_map := (metadata_map s2)(path := None),
                           directories := (directories s2)(path := None)\<rparr>, status)
                else Done (s2, OK)))"

definition rmdir ::
  "'s ns_env \<Rightarrow> 's Namespace \<Rightarrow> string \<Rightarrow> ('s Namespace \<times> Status) outcome" where
  "rmdir E s path =
     (case directories s path of
        None \<Rightarrow> Done (s, Err (- ENOENT) (strerror ENOENT))
      | Some subfiles \<Rightarrow>
          if subfiles \<noteq> [] then Done (s, Err (- ENOTEMPTY) (strerror ENOTEMPTY))
          else
            bindo (kv_remove (env_kv E) (ns_store s) path)
              (\<lambda>(st, status).
                 let s1 = s\<lparr>ns_store := st\<rparr> in
                 if \<not> ok status then Done (s1, status)
                 else Done (s1\<lparr>metadata_map := (metadata_map s1)(path := None),
                               directories := (directories s1)(path := None)\<rparr>, OK)))"

definition directory_map_key :: "string \<Rightarrow> string" where
  "directory_map_key path = ''dir:'' @ path"

definition add_subfile ::
  "'s ns_env \<Rightarrow> 's Namespace \<Rightarrow> string \<Rightarrow> string \<Rightarrow> ('s Namespace \<times> Status) outcome" where
  "add_subfile E s parent subfile =
     (case directories s parent of
        None \<Rightarrow> Done (s, Err (- ENOENT) (strerror ENOENT))
      | Some subfiles \<Rightarrow>
          if subfile \<in> set subfiles then Done (s, Err (- EEXIST) (strerror EEXIST))
          else
            let fullpath = path_join (env_paths E) parent subfile in
            bindo (kv_put (env_kv E) (ns_store s) (directory_map_key fullpath) [])
              (\<lambda>(st, status).
                 let s1 = s\<lparr>ns_store := st\<rparr> in
                 if \<not> ok status then Done (s1, status)
                 else Done (s1\<lparr>directories := (directories s1)(parent \<mapsto> sset_insert subfile subfiles)\<rparr>, OK)))"

definition remove_subfile ::
  "'s ns_env \<Rightarrow> 's Namespace \<Rightarrow> string \<Rightarrow> string \<Rightarrow> ('s Namespace \<times> Status) outcome" where
  "remove_subfile E s parent subfile =
     (case directories s parent of
        None \<Rightarrow> Done (s, Err (- ENOENT) (strerror ENOENT))
      | Some subfiles \<Rightarrow>
          if subfile \<notin> set subfiles then Done (s, Err (- ENOENT) (strerror ENOENT))
          else
            let fullpath = path_join (env_paths E) parent subfile in
            bindo (kv_remove (env_kv E) (ns_store s) (directory_map_key fullpath))
              (\<lambda>(st, status).
                 let s1 = s\<lparr>ns_store := st\<rparr> in
                 if \<not> ok status then Done (s1, status)
                 else Done (s1\<lparr>directories := (directories s1)(parent \<mapsto> sset_erase subfile subfiles)\<rparr>, OK)))"

section \<open>Start\<close>

definition load_record ::
  "'s ns_env \<Rightarrow> 's Namespace \<Rightarrow> string \<times> string \<Rightarrow> ('s Namespace \<times> Status) outcome" where
  "load_record E s record =
     (let key = fst record in
      if starts_with key ''/'' then
        (case deserialize E (snd record) of
           None \<Rightarrow> Done (s, Err (-1) ''The metadata db is corrupted.'')
         | Some metadata \<Rightarrow>
             let s1 = s\<lparr>metadata_map := (metadata_map s)(key \<mapsto> metadata)\<rparr> in
             if S_ISDIR (mode metadata) then
               Done (s1\<lparr>directories := (case directories s1 key of
                       None \<Rightarrow> (directories s1)(key \<mapsto> []) | Some _ \<Rightarrow> directories s1)\<rparr>, OK)
             else
               Done (s1\<lparr>id_to_path_map := (id_to_path_map s1)(object_id metadata \<mapsto> key)\<rparr>, OK))
      else if starts_with key ''dir:'' then
        let fullpath = substr_from key 4;
            parent = parent_path (env_paths E) fullpath;
            fname = filename (env_paths E) fullpath
        in (case directories s parent of
              None \<Rightarrow> Fail CheckFailed
            | Some subfiles \<Rightarrow>
                Done (s\<lparr>directories := (directories s)(parent \<mapsto> sset_insert fname subfiles)\<rparr>, OK))
      else if starts_with key ''meta:'' then Done (s, OK)
      else Done (s, Err (-1) ''The metadata db is corrupted.''))"

fun load_records ::
  "'s ns_env \<Rightarrow> 's Namespace \<Rightarrow> (string \<times> string) list \<Rightarrow> ('s Namespace \<times> Status) outcome" where
  "load_records E s [] = Done (s, OK)"
| "load_records E s (r # rs) =
     bindo (load_record E s r)
       (\<lambda>(s', status). if \<not> ok status then Done (s', status) else load_records E s' rs)"

definition ns_init :: "'s ns_env \<Rightarrow> 's Namespace \<Rightarrow> ('s Namespace \<times> Status) outcome" where
  "ns_init E s =
     (case kv_open (env_kv E) (ns_store s) of (st, status) \<Rightarrow>
        let s1 = s\<lparr>ns_store := st\<rparr> in
        if \<not> ok status then Done (s1, status)
        else bindo (kv_scan (env_kv E) st) (load_records E s1))"

section \<open>The operations as steps\<close>

datatype ns_op =
    Create rat string "32 word" "32 word" "32 word"
  | Remove string
  | Mkdir rat string "32 word" "32 word" "32 word"
  | Rmdir string
  | Add_subfile string string
  | Remove_subfile string string
  | Setattr string RpcFileInfo

definition drop_result :: "('s \<times> (Status + 'a)) outcome \<Rightarrow> ('s \<times> Status) outcome" where
  "drop_result r = bindo r (\<lambda>(s, x). Done (s, case x of Inl st \<Rightarrow> st | Inr _ \<Rightarrow> OK))"

fun ns_step :: "'s ns_env \<Rightarrow> 's Namespace \<Rightarrow> ns_op \<Rightarrow> ('s Namespace \<times> Status) outcome" where
  "ns_step E s (Create now path md u g) = drop_result (create E now s path md u g)"
| "ns_step E s (Remove path) = drop_result (ns_remove E s path)"
| "ns_step E s (Mkdir now path md u g) = mkdir E now s path md u g"
| "ns_step E s (Rmdir path) = rmdir E s path"
| "ns_step E s (Add_subfile parent subfile) = add_subfile E s parent subfile"
| "ns_step E s (Remove_subfile parent subfile) = remove_subfile E s parent subfile"
| "ns_step E s (Setattr path info) = setattr E s path info"

text \<open>
  What the callers have to respect: paths are absolute, the number of ids handed out stays below
  \<open>2 ^ 48\<close>, \<open>mkdir\<close> gets no other file type, a subfile is a plain name, and \<open>setattr\<close>
  turns no directory into a file or back.
\<close>

definition allowed :: "'s ns_env \<Rightarrow> 's Namespace \<Rightarrow> ns_op \<Rightarrow> bool" where
  "allowed E s op =
     (case op of
        Create now path md u g \<Rightarrow> starts_with path ''/'' \<and> unat (next_obj_id s) < 2 ^ 48
      | Mkdir now path md u g \<Rightarrow> starts_with path ''/'' \<and> (md AND S_IFMT = 0 \<or> md AND S_IFMT = S_IFDIR)
      | Add_subfile parent subfile \<Rightarrow> splits_at (env_paths E) parent subfile
      | Setattr path info \<Rightarrow>
          (case (fi_mode info, metadata_map s path) of
             (Some m, Some meta) \<Rightarrow> S_ISDIR (i64_to_i32 m) = S_ISDIR (mode meta)
           | _ \<Rightarrow> True)
      | _ \<Rightarrow> True)"

text \<open>
  What is left of it when the calls may change types: \<open>mkdir\<close> and \<open>setattr\<close> with whatever mode.
\<close>

definition callable :: "'s ns_env \<Rightarrow> 's Namespace \<Rightarrow> ns_op \<Rightarrow> bool" where
  "callable E s op =
     (case op of
        Create now path md u g \<Rightarrow> starts_with path ''/'' \<and> unat (next_obj_id s) < 2 ^ 48
      | Mkdir now path md u g \<Rightarrow> starts_with path ''/''
      | Add_subfile parent subfile \<Rightarrow> splits_at (env_paths E) parent subfile
      | _ \<Rightarrow> True)"

lemma allowed_callable: "allowed E s op \<Longrightarrow> callable E s op"
  by (cases op) (simp_all add: allowed_def callable_def)

text \<open>
  The paths whose record in the database is behind their entry in memory: those whose last write was a
  \<open>setattr\<close> the database refused.
\<close>

fun op_path :: "ns_op \<Rightarrow> string set" where
  "op_path (Create now path md u g) = {path}"
| "op_path (Remove path) = {path}"
| "op_path (Mkdir now path md u g) = {path}"
| "op_path (Rmdir path) = {path}"
| "op_path (Setattr path info) = {path}"
| "op_path _ = {}"

definition behind :: "string set \<Rightarrow> ns_op \<Rightarrow> Status \<Rightarrow> string set" where
  "behind D op status =
     (if ok status then D - op_path op else case op of Setattr path info \<Rightarrow> insert path D | _ \<Rightarrow> D)"

inductive ns_run :: "'s ns_env \<Rightarrow> 's Namespace \<Rightarrow> string set \<Rightarrow> 's Namespace \<Rightarrow> bool" for E s0 where
  start: "ns_run E s0 {} s0"
| step: "ns_run E s0 D s \<Longrightarrow> callable E s op \<Longrightarrow> ns_step E s op = Done (s', status) \<Longrightarrow>
     ns_run E s0 (behind D op status) s'"

inductive reachable :: "'s ns_env \<Rightarrow> 's Namespace \<Rightarrow> 's Namespace \<Rightarrow> bool" for E s0 where
  start: "reachable E s0 s0"
| step: "reachable E s0 s \<Longrightarrow> allowed E s op \<Longrightarrow> ns_step E s op = Done (s', status) \<Longrightarrow>
     ok status \<or> (\<forall>path info. op \<noteq> Setattr path info) \<Longrightarrow> reachable E s0 s'"

section \<open>Invariant\<close>

definition is_file :: "'s Namespace \<Rightarrow> string \<Rightarrow> ObjectId \<Rightarrow> bool" where
  "is_file s path oid \<longleftrightarrow>
     (\<exists>meta. metadata_map s path = Some meta \<and> \<not> S_ISDIR (mode meta) \<and> object_id meta = oid)"

definition is_dir :: "'s Namespace \<Rightarrow> string \<Rightarrow> bool" where
  "is_dir s path \<longleftrightarrow> (\<exists>meta. metadata_map s path = Some meta \<and> S_ISDIR (mode meta))"

definition serial :: "ObjectId \<Rightarrow> nat" where
  "serial oid = unat (oid AND mask 48)"

text \<open>The reverse map is exactly the inverse of the files, and the ids below the counter.\<close>

definition ids_inv :: "'s Namespace \<Rightarrow> bool" where
  "ids_inv s \<longleftrightarrow> (\<forall>oid path. id_to_path_map s oid = Some path \<longleftrightarrow> is_file s path oid)"

definition fresh_inv :: "'s Namespace \<Rightarrow> bool" where
  "fresh_inv s \<longleftrightarrow> unat (next_obj_id s) \<le> 2 ^ 48 \<and>
     (\<forall>oid. id_to_path_map s oid \<noteq> None \<longrightarrow> serial oid < unat (next_obj_id s))"

definition dirs_inv :: "'s Namespace \<Rightarrow> bool" where
  "dirs_inv s \<longleftrightarrow> (\<forall>path. directories s path \<noteq> None \<longleftrightarrow> is_dir s path) \<and>
     (\<forall>path subfiles. directories s path = Some subfiles \<longrightarrow> sset_ok subfiles)"

definition ns_inv :: "'s Namespace \<Rightarrow> bool" where
  "ns_inv s \<longleftrightarrow> ids_inv s \<and> fresh_inv s \<and> dirs_inv s"

text \<open>
  What holds whatever types the modes have: a path is a directory when it has an entry list. The reverse map is
  the inverse of the other paths, an entry list is ordered and belongs to a path that exists.
\<close>

definition plain_file :: "'s Namespace \<Rightarrow> string \<Rightarrow> ObjectId \<Rightarrow> bool" where
  "plain_file s path oid \<longleftrightarrow>
     directories s path = None \<and> (\<exists>meta. metadata_map s path = Some meta \<and> object_id meta = oid)"

definition dirs_known :: "'s Namespace \<Rightarrow> bool" where
  "dirs_known s \<longleftrightarrow> (\<forall>path. directories s path \<noteq> None \<longrightarrow> metadata_map s path \<noteq> None)"

definition mem_inv :: "'s Namespace \<Rightarrow> bool" where
  "mem_inv s \<longleftrightarrow> (\<forall>oid path. id_to_path_map s oid = Some path \<longleftrightarrow> plain_file s path oid) \<and> fresh_inv s \<and>
     dirs_known s \<and> (\<forall>path subfiles. directories s path = Some subfiles \<longrightarrow> sset_ok subfiles)"

lemma dirs_inv_known: "dirs_inv s \<Longrightarrow> dirs_known s"
  by (auto simp: dirs_inv_def dirs_known_def is_dir_def)

lemma ns_inv_mem: "ns_inv s \<Longrightarrow> mem_inv s"
  unfolding ns_inv_def ids_inv_def dirs_inv_def mem_inv_def dirs_known_def is_file_def is_dir_def plain_file_def
  by auto (metis option.distinct(1) option.inject option.exhaust)+

text \<open>What the store holds under a key when it agrees with the maps.\<close>

definition entry :: "'s Namespace \<Rightarrow> string \<Rightarrow> string \<Rightarrow> bool" where
  "entry s parent subfile \<longleftrightarrow> (\<exists>subfiles. directories s parent = Some subfiles \<and> subfile \<in> set subfiles)"

definition has_entry :: "'s ns_env \<Rightarrow> 's Namespace \<Rightarrow> string \<Rightarrow> bool" where
  "has_entry E s fullpath \<longleftrightarrow>
     (\<exists>parent subfile. entry s parent subfile \<and> path_join (env_paths E) parent subfile = fullpath)"

definition stored :: "'s ns_env \<Rightarrow> 's Namespace \<Rightarrow> string \<Rightarrow> string option" where
  "stored E s key =
     (if starts_with key ''/'' then map_option (serialize E) (metadata_map s key)
      else if starts_with key ''dir:'' then
        (if has_entry E s (substr_from key 4) then Some [] else None)
      else None)"

definition store_inv :: "'s ns_env \<Rightarrow> ('s \<Rightarrow> (string \<times> string) list) \<Rightarrow> 's Namespace \<Rightarrow> bool" where
  "store_inv E contents s \<longleftrightarrow> map_of (contents (ns_store s)) = stored E s"

definition shape_inv :: "'s ns_env \<Rightarrow> 's Namespace \<Rightarrow> bool" where
  "shape_inv E s \<longleftrightarrow> (\<forall>path. metadata_map s path \<noteq> None \<longrightarrow> starts_with path ''/'') \<and>
     (\<forall>parent subfile. entry s parent subfile \<longrightarrow> splits_at (env_paths E) parent subfile)"

lemma dir_key [simp]: "\<not> starts_with (directory_map_key path) ''/''"
    "starts_with (directory_map_key path) ''dir:''" "substr_from (directory_map_key path) 4 = path"
  by (simp_all add: directory_map_key_def substr_from_def)

lemma dir_key_inject [simp]: "directory_map_key a = directory_map_key b \<longleftrightarrow> a = b"
  by (simp add: directory_map_key_def)

lemma dir_key_of: "starts_with key ''dir:'' \<Longrightarrow> key = directory_map_key (substr_from key 4)"
  by (auto simp: directory_map_key_def substr_from_def starts_with_prefix prefix_def)

section \<open>Object ids\<close>

lemma get_object_id_state: "get_object_id md5 s path = (s', oid) \<Longrightarrow> s' = s\<lparr>next_obj_id := next_obj_id s + 1\<rparr>"
  by (simp add: get_object_id_def Let_def)

lemma get_object_id_serial:
  assumes "get_object_id md5 s path = (s', oid)" "unat (next_obj_id s) < 2 ^ 48"
  shows "serial oid = unat (next_obj_id s)"
proof -
  let ?A = "push_bit (64 - 16) (push_bit 16 1 - 1) :: 64 word" and ?B = "push_bit (64 - 16) 1 - 1 :: 64 word"
  have B: "?B = mask 48" and disj: "?A AND ?B = 0"
    by (simp_all add: mask_eq_exp_minus_1 push_bit_eq_mult)
  have o: "oid = (word_of_int (path_to_hash md5 path) AND ?A) OR (next_obj_id s AND ?B)"
    using assms(1) by (simp add: get_object_id_def Let_def)
  have "oid AND ?B = (word_of_int (path_to_hash md5 path) AND (?A AND ?B)) OR (next_obj_id s AND ?B)"
    by (simp only: o bit.conj_disj_distrib2 and.assoc and.idem)
  then have "oid AND mask 48 = next_obj_id s AND mask 48"
    unfolding disj unfolding B by simp
  moreover have "unat (next_obj_id s AND mask 48) = unat (next_obj_id s) mod 2 ^ 48"
    unfolding take_bit_eq_mask [symmetric] unsigned_take_bit_eq by (simp add: take_bit_eq_mod)
  ultimately show ?thesis
    using assms(2) by (simp add: serial_def)
qed

lemma next_obj_id_unat:
  "unat (next_obj_id s) < 2 ^ 48 \<Longrightarrow> unat (next_obj_id s + 1) = unat (next_obj_id s) + 1"
  by (subst unat_plus_simple [THEN iffD1]) (auto simp: word_le_nat_alt unat_word_ariths)

lemma get_object_id_prefix:
  assumes "get_object_id md5 s path = (s', oid)"
  shows "drop_bit 48 oid = drop_bit 48 (word_of_int (path_to_hash md5 path))"
proof -
  let ?h = "word_of_int (path_to_hash md5 path) :: 64 word"
  let ?A = "push_bit 48 (mask 16) :: 64 word" and ?B = "mask 48 :: 64 word"
  have "push_bit (64 - 16) (push_bit 16 1 - 1) = ?A" "push_bit (64 - 16) 1 - 1 = ?B"
    by (simp_all add: mask_eq_exp_minus_1 push_bit_eq_mult)
  then have o: "oid = (?h AND ?A) OR (next_obj_id s AND ?B)"
    using assms by (simp add: get_object_id_def Let_def)
  show ?thesis
    by (rule bit_word_eqI) (auto simp: o bit_drop_bit_eq bit_and_iff bit_or_iff bit_push_bit_iff bit_mask_iff
        dest: bit_imp_le_length)
qed
section \<open>What each operation does when it returns\<close>

definition new_meta :: "rat \<Rightarrow> ObjectId \<Rightarrow> 32 word \<Rightarrow> 32 word \<Rightarrow> 32 word \<Rightarrow> FileMetadata" where
  "new_meta now oid md u g =
     \<lparr>object_id = oid, mode = md, gid = g, uid = u, fsize = 0, atime = now, ctime = now, mtime = now\<rparr>"

lemma new_meta_sel [simp]: "mode (new_meta now oid md u g) = md" "object_id (new_meta now oid md u g) = oid"
  by (simp_all add: new_meta_def)

lemma create_cases:
  assumes "create E now s path md u g = Done (s', r)"
  obtains "metadata_map s path \<noteq> None" "s' = s" "r = Inl (Err (- EEXIST) (strerror EEXIST))"
  | s1 oid st meta where "metadata_map s path = None" "get_object_id (env_md5 E) s path = (s1, oid)"
      "meta = new_meta now oid (md OR S_IFREG) u g"
      "kv_put (env_kv E) (ns_store s) path (serialize E meta) = Done (st, OK)"
      "s' = s\<lparr>ns_store := st, metadata_map := (metadata_map s)(path \<mapsto> meta),
              id_to_path_map := (id_to_path_map s)(oid \<mapsto> path), next_obj_id := next_obj_id s + 1\<rparr>"
      "r = Inr oid"
proof (cases "metadata_map s path = None")
  case True
  obtain s1 oid where o: "get_object_id (env_md5 E) s path = (s1, oid)" by fastforce
  note s1 = get_object_id_state [OF o]
  let ?meta = "new_meta now oid (md OR S_IFREG) u g"
  have top: "next_obj_id s \<noteq> mask 63" using assms True by (auto simp: create_def)
  from assms True top o s1 obtain st status where
    k: "kv_put (env_kv E) (ns_store s) path (serialize E ?meta) = Done (st, status)"
    by (auto simp: create_def Let_def store_metadata_def new_meta_def split: if_splits)
  have sOK: "status = OK"
    using assms True top o s1 k by (auto simp: create_def Let_def store_metadata_def new_meta_def ok_iff split: if_splits)
  then have e: "s' = s\<lparr>ns_store := st, metadata_map := (metadata_map s)(path \<mapsto> ?meta),
       id_to_path_map := (id_to_path_map s)(oid \<mapsto> path), next_obj_id := next_obj_id s + 1\<rparr> \<and> r = Inr oid"
    using assms True top o s1 k by (auto simp: create_def Let_def store_metadata_def new_meta_def split: if_splits)
  show ?thesis by (rule that(2) [OF True o refl]) (use k sOK e in simp_all)
next
  case False
  with assms have "s' = s" "r = Inl (Err (- EEXIST) (strerror EEXIST))" by (auto simp: create_def)
  with False show ?thesis by (rule that(1))
qed

lemma ns_remove_cases:
  assumes "ns_remove E s path = Done (s', r)"
  obtains "s' = s" "\<exists>st. r = Inl st \<and> \<not> ok st"
  | st status where "kv_remove (env_kv E) (ns_store s) path = Done (st, status)" "\<not> ok status"
      "s' = s\<lparr>ns_store := st\<rparr>" "r = Inl status"
  | st meta where "metadata_map s path = Some meta" "\<not> S_ISDIR (mode meta)"
      "kv_remove (env_kv E) (ns_store s) path = Done (st, OK)"
      "id_to_path_map s (object_id meta) = Some path"
      "s' = s\<lparr>ns_store := st, metadata_map := (metadata_map s)(path := None),
              id_to_path_map := (id_to_path_map s)(object_id meta := None)\<rparr>"
      "r = Inr (object_id meta)"
proof (cases "metadata_map s path")
  case None
  with assms that(1) show ?thesis by (auto simp: ns_remove_def)
next
  case (Some meta)
  show ?thesis
  proof (cases "S_ISDIR (mode meta)")
    case True
    with assms Some that(1) show ?thesis by (auto simp: ns_remove_def)
  next
    case False
    with assms Some obtain st status where k: "kv_remove (env_kv E) (ns_store s) path = Done (st, status)"
      by (auto simp: ns_remove_def)
    show ?thesis
    proof (cases "ok status")
      case False
      with assms Some \<open>\<not> S_ISDIR (mode meta)\<close> k show ?thesis
        by (intro that(2) [of st status]) (auto simp: ns_remove_def Let_def)
    next
      case True
      with assms Some \<open>\<not> S_ISDIR (mode meta)\<close> k show ?thesis
        by (intro that(3) [of meta st]) (auto simp: ns_remove_def Let_def ok_iff split: if_splits)
    qed
  qed
qed

lemma mkdir_known_cases:
  assumes "mkdir E now s path md u g = Done (s', r)" "dirs_known s"
  obtains "s' = s" "\<not> ok r"
  | st where "metadata_map s path = None" "kv_put (env_kv E) (ns_store s) path
        (serialize E (new_meta now 0 (md OR S_IFDIR) u g)) = Done (st, r)" "\<not> ok r" "s' = s\<lparr>ns_store := st\<rparr>"
  | st meta where "metadata_map s path = None" "directories s path = None"
      "meta = new_meta now 0 (md OR S_IFDIR) u g"
      "kv_put (env_kv E) (ns_store s) path (serialize E meta) = Done (st, OK)"
      "s' = s\<lparr>ns_store := st, metadata_map := (metadata_map s)(path \<mapsto> meta),
              directories := (directories s)(path \<mapsto> [])\<rparr>" "r = OK"
proof (cases "metadata_map s path = None")
  case True
  let ?meta = "new_meta now 0 (md OR S_IFDIR) u g"
  from True assms(2) have d: "directories s path = None"
    unfolding dirs_known_def by blast
  from assms(1) True obtain st status where
    k: "kv_put (env_kv E) (ns_store s) path (serialize E ?meta) = Done (st, status)"
    by (auto simp: mkdir_def store_metadata_def Let_def new_meta_def)
  have undo: "(metadata_map s)(path := None) = metadata_map s" "(directories s)(path := None) = directories s"
    using True d by (simp_all add: fun_upd_idem)
  show ?thesis
  proof (cases "ok status")
    case False
    with assms(1) True d k undo show ?thesis
      by (intro that(2) [of st]) (auto simp: mkdir_def store_metadata_def Let_def new_meta_def)
  next
    case True
    with assms(1) \<open>metadata_map s path = None\<close> d k show ?thesis
      by (intro that(3) [of ?meta st]) (auto simp: mkdir_def store_metadata_def Let_def new_meta_def ok_iff)
  qed
next
  case False
  with assms have "s' = s" "\<not> ok r" by (auto simp: mkdir_def)
  then show ?thesis by (rule that(1))
qed

lemmas mkdir_cases [consumes 2] = mkdir_known_cases [OF _ dirs_inv_known]

lemma rmdir_cases:
  assumes "rmdir E s path = Done (s', r)"
  obtains "s' = s" "\<not> ok r"
  | st where "kv_remove (env_kv E) (ns_store s) path = Done (st, r)" "\<not> ok r" "s' = s\<lparr>ns_store := st\<rparr>"
  | st where "directories s path = Some []" "kv_remove (env_kv E) (ns_store s) path = Done (st, OK)"
      "s' = s\<lparr>ns_store := st, metadata_map := (metadata_map s)(path := None),
              directories := (directories s)(path := None)\<rparr>" "r = OK"
proof (cases "directories s path = Some []")
  case True
  with assms obtain st status where k: "kv_remove (env_kv E) (ns_store s) path = Done (st, status)"
    by (auto simp: rmdir_def)
  show ?thesis
  proof (cases "ok status")
    case False
    with assms True k have e: "s' = s\<lparr>ns_store := st\<rparr>" "r = status" by (simp_all add: rmdir_def Let_def)
    show ?thesis by (rule that(2) [of st]) (use k False e in simp_all)
  next
    case True
    then have "status = OK" by (simp add: ok_iff)
    with assms \<open>directories s path = Some []\<close> k
    have e: "s' = s\<lparr>ns_store := st, metadata_map := (metadata_map s)(path := None),
        directories := (directories s)(path := None)\<rparr>" "r = OK" by (simp_all add: rmdir_def Let_def)
    show ?thesis by (rule that(3) [of st]) (use k \<open>status = OK\<close> \<open>directories s path = Some []\<close> e in simp_all)
  qed
next
  case False
  with assms have "s' = s" "\<not> ok r" by (auto simp: rmdir_def split: option.splits)
  then show ?thesis by (rule that(1))
qed

lemma add_subfile_cases:
  assumes "add_subfile E s parent subfile = Done (s', r)"
  obtains "s' = s" "\<not> ok r"
  | st where "kv_put (env_kv E) (ns_store s)
        (directory_map_key (path_join (env_paths E) parent subfile)) [] = Done (st, r)" "\<not> ok r"
      "s' = s\<lparr>ns_store := st\<rparr>"
  | st subfiles where "directories s parent = Some subfiles" "subfile \<notin> set subfiles"
      "kv_put (env_kv E) (ns_store s)
        (directory_map_key (path_join (env_paths E) parent subfile)) [] = Done (st, OK)"
      "s' = s\<lparr>ns_store := st, directories := (directories s)(parent \<mapsto> sset_insert subfile subfiles)\<rparr>" "r = OK"
proof (cases "\<exists>subfiles. directories s parent = Some subfiles \<and> subfile \<notin> set subfiles")
  case True
  then obtain subfiles where d: "directories s parent = Some subfiles" "subfile \<notin> set subfiles" by blast
  with assms obtain st status where k: "kv_put (env_kv E) (ns_store s)
      (directory_map_key (path_join (env_paths E) parent subfile)) [] = Done (st, status)"
    by (auto simp: add_subfile_def Let_def)
  show ?thesis
  proof (cases "ok status")
    case False
    with assms d k have e: "s' = s\<lparr>ns_store := st\<rparr>" "r = status" by (simp_all add: add_subfile_def Let_def)
    show ?thesis by (rule that(2) [of st]) (use k False e in simp_all)
  next
    case True
    then have "status = OK" by (simp add: ok_iff)
    with assms d k have e: "s' = s\<lparr>ns_store := st,
        directories := (directories s)(parent \<mapsto> sset_insert subfile subfiles)\<rparr>" "r = OK"
      by (simp_all add: add_subfile_def Let_def)
    show ?thesis by (rule that(3) [of subfiles st]) (use k \<open>status = OK\<close> d e in simp_all)
  qed
next
  case False
  with assms have "s' = s" "\<not> ok r" by (auto simp: add_subfile_def split: option.splits)
  then show ?thesis by (rule that(1))
qed

lemma remove_subfile_cases:
  assumes "remove_subfile E s parent subfile = Done (s', r)"
  obtains "s' = s" "\<not> ok r"
  | st where "kv_remove (env_kv E) (ns_store s)
        (directory_map_key (path_join (env_paths E) parent subfile)) = Done (st, r)" "\<not> ok r"
      "s' = s\<lparr>ns_store := st\<rparr>"
  | st subfiles where "directories s parent = Some subfiles" "subfile \<in> set subfiles"
      "kv_remove (env_kv E) (ns_store s)
        (directory_map_key (path_join (env_paths E) parent subfile)) = Done (st, OK)"
      "s' = s\<lparr>ns_store := st, directories := (directories s)(parent \<mapsto> sset_erase subfile subfiles)\<rparr>" "r = OK"
proof (cases "\<exists>subfiles. directories s parent = Some subfiles \<and> subfile \<in> set subfiles")
  case True
  then obtain subfiles where d: "directories s parent = Some subfiles" "subfile \<in> set subfiles" by blast
  with assms obtain st status where k: "kv_remove (env_kv E) (ns_store s)
      (directory_map_key (path_join (env_paths E) parent subfile)) = Done (st, status)"
    by (auto simp: remove_subfile_def Let_def)
  show ?thesis
  proof (cases "ok status")
    case False
    with assms d k have e: "s' = s\<lparr>ns_store := st\<rparr>" "r = status" by (simp_all add: remove_subfile_def Let_def)
    show ?thesis by (rule that(2) [of st]) (use k False e in simp_all)
  next
    case True
    then have "status = OK" by (simp add: ok_iff)
    with assms d k have e: "s' = s\<lparr>ns_store := st,
        directories := (directories s)(parent \<mapsto> sset_erase subfile subfiles)\<rparr>" "r = OK"
      by (simp_all add: remove_subfile_def Let_def)
    show ?thesis by (rule that(3) [of subfiles st]) (use k \<open>status = OK\<close> d e in simp_all)
  qed
next
  case False
  with assms have "s' = s" "\<not> ok r" by (auto simp: remove_subfile_def split: option.splits)
  then show ?thesis by (rule that(1))
qed

lemma setattr_cases:
  assumes "setattr E s path info = Done (s', r)"
  obtains "s' = s" "\<not> ok r"
  | st meta where "metadata_map s path = Some meta"
      "kv_put (env_kv E) (ns_store s) path (serialize E (update_metadata info meta)) = Done (st, r)"
      "s' = s\<lparr>ns_store := st, metadata_map := (metadata_map s)(path \<mapsto> update_metadata info meta)\<rparr>"
proof (cases "metadata_map s path")
  case None
  with assms have "s' = s" "\<not> ok r" by (auto simp: setattr_def)
  then show ?thesis by (rule that(1))
next
  case (Some meta)
  with assms obtain st where
    "kv_put (env_kv E) (ns_store s) path (serialize E (update_metadata info meta)) = Done (st, r)"
    "s' = s\<lparr>ns_store := st, metadata_map := (metadata_map s)(path \<mapsto> update_metadata info meta)\<rparr>"
    by (auto simp: setattr_def store_metadata_def Let_def)
  with Some show ?thesis by (rule that(2))
qed
section \<open>Preservation in memory\<close>

lemma ns_inv_store [simp]:
  "ids_inv (s\<lparr>ns_store := st\<rparr>) = ids_inv s" "fresh_inv (s\<lparr>ns_store := st\<rparr>) = fresh_inv s"
  "dirs_inv (s\<lparr>ns_store := st\<rparr>) = dirs_inv s" "shape_inv E (s\<lparr>ns_store := st\<rparr>) = shape_inv E s"
  "stored E (s\<lparr>ns_store := st\<rparr>) = stored E s"
  by (auto simp: ids_inv_def fresh_inv_def dirs_inv_def shape_inv_def is_file_def is_dir_def
      stored_def has_entry_def entry_def)

lemmas inv_defs = ids_inv_def fresh_inv_def dirs_inv_def is_file_def is_dir_def

lemma fresh_id_unused:
  assumes "fresh_inv s" "get_object_id md5 s path = (s1, oid)" "unat (next_obj_id s) < 2 ^ 48"
  shows "id_to_path_map s oid = None"
  using assms get_object_id_serial [OF assms(2,3)] unfolding fresh_inv_def by fastforce

lemma dirs_None: "dirs_inv s \<Longrightarrow> \<not> is_dir s path \<Longrightarrow> directories s path = None"
  unfolding dirs_inv_def by blast

lemma update_metadata_keeps:
  "object_id (update_metadata info meta) = object_id meta"
  "mode (update_metadata info meta) = (case fi_mode info of None \<Rightarrow> mode meta | Some m \<Rightarrow> i64_to_i32 m)"
  by (auto simp: update_metadata_def set_if_def split: option.split)

lemma file_owner: "ids_inv s \<Longrightarrow> metadata_map s p = Some m \<Longrightarrow> \<not> S_ISDIR (mode m) \<Longrightarrow>
    id_to_path_map s (object_id m) = Some p"
  by (auto simp: ids_inv_def is_file_def)

lemma ns_inv_new_file:
  assumes "ns_inv s" "metadata_map s path = None" "id_to_path_map s (object_id meta) = None"
    "\<not> S_ISDIR (mode meta)" "serial (object_id meta) = unat (next_obj_id s)" "unat (next_obj_id s) < 2 ^ 48"
  shows "ns_inv (s\<lparr>metadata_map := (metadata_map s)(path \<mapsto> meta),
    id_to_path_map := (id_to_path_map s)(object_id meta \<mapsto> path), next_obj_id := next_obj_id s + 1\<rparr>)"
proof -
  have "directories s path = None"
    by (rule dirs_None) (use assms in \<open>auto simp: ns_inv_def is_dir_def\<close>)
  moreover have "object_id m \<noteq> object_id meta" if "metadata_map s p = Some m" "\<not> S_ISDIR (mode m)" for p m
    using file_owner [OF _ that] assms(1,3) by (auto simp: ns_inv_def)
  ultimately show ?thesis
    using assms next_obj_id_unat [OF assms(6)]
    unfolding ns_inv_def inv_defs by (auto simp: less_Suc_eq)
qed

lemma ns_inv_drop_file:
  assumes "ns_inv s" "metadata_map s path = Some meta" "\<not> S_ISDIR (mode meta)"
  shows "ns_inv (s\<lparr>metadata_map := (metadata_map s)(path := None),
    id_to_path_map := (id_to_path_map s)(object_id meta := None)\<rparr>)"
proof -
  have "object_id m \<noteq> object_id meta" if "metadata_map s p = Some m" "\<not> S_ISDIR (mode m)" "p \<noteq> path" for p m
    using file_owner [OF _ that(1,2)] file_owner [OF _ assms(2,3)] assms(1) that(3) by (auto simp: ns_inv_def)
  with assms show ?thesis
    unfolding ns_inv_def inv_defs by auto
qed

lemma ns_inv_new_dir:
  assumes "ns_inv s" "metadata_map s path = None" "S_ISDIR (mode meta)"
  shows "ns_inv (s\<lparr>metadata_map := (metadata_map s)(path \<mapsto> meta), directories := (directories s)(path \<mapsto> [])\<rparr>)"
  using assms unfolding ns_inv_def inv_defs by auto

lemma ns_inv_drop_dir:
  assumes "ns_inv s" "directories s path \<noteq> None"
  shows "ns_inv (s\<lparr>metadata_map := (metadata_map s)(path := None), directories := (directories s)(path := None)\<rparr>)"
  using assms unfolding ns_inv_def inv_defs by auto

lemma ns_inv_subfiles:
  assumes "ns_inv s" "directories s parent = Some subfiles" "sset_ok xs"
  shows "ns_inv (s\<lparr>directories := (directories s)(parent \<mapsto> xs)\<rparr>)"
  using assms unfolding ns_inv_def inv_defs by auto

lemma ns_inv_attr:
  assumes "ns_inv s" "metadata_map s path = Some meta" "object_id meta' = object_id meta"
    "S_ISDIR (mode meta') = S_ISDIR (mode meta)"
  shows "ns_inv (s\<lparr>metadata_map := (metadata_map s)(path \<mapsto> meta')\<rparr>)"
  using assms unfolding ns_inv_def inv_defs by auto

lemma ns_inv_set_store: "ns_inv (s\<lparr>ns_store := st\<rparr>) = ns_inv s"
  by (simp add: ns_inv_def)

lemmas ns_inv_split = ns_inv_def inv_defs

lemma create_inv:
  assumes "ns_inv s" "unat (next_obj_id s) < 2 ^ 48" "create E now s path md u g = Done (s', r)"
  shows "ns_inv s'"
  using assms(3)
proof (cases rule: create_cases)
  case (2 s1 oid st meta)
  have f: "fresh_inv s" using assms(1) by (simp add: ns_inv_def)
  from 2(3) have m: "object_id meta = oid" "\<not> S_ISDIR (mode meta)" by simp_all
  have "ns_inv (s\<lparr>metadata_map := (metadata_map s)(path \<mapsto> meta),
      id_to_path_map := (id_to_path_map s)(object_id meta \<mapsto> path), next_obj_id := next_obj_id s + 1\<rparr>)"
    using fresh_id_unused [OF f 2(2) assms(2)] get_object_id_serial [OF 2(2) assms(2)] m
    by (intro ns_inv_new_file [OF assms(1) 2(1) _ _ _ assms(2)]) simp_all
  with 2(5) m show ?thesis by (simp add: ns_inv_split)
qed (use assms(1) in simp)

lemma ns_remove_inv:
  assumes "ns_inv s" "ns_remove E s path = Done (s', r)"
  shows "ns_inv s'"
  using assms(2)
proof (cases rule: ns_remove_cases)
  case (3 st meta)
  from ns_inv_drop_file [OF assms(1) 3(1,2)] 3(5) show ?thesis by (simp add: ns_inv_split)
qed (use assms(1) in \<open>simp_all add: ns_inv_set_store\<close>)

lemma mkdir_inv:
  assumes "ns_inv s" "md AND S_IFMT = 0 \<or> md AND S_IFMT = S_IFDIR" "mkdir E now s path md u g = Done (s', r)"
  shows "ns_inv s'"
proof -
  have d: "dirs_inv s" using assms(1) by (simp add: ns_inv_def)
  from assms(3) d show ?thesis
  proof (cases rule: mkdir_cases)
    case (3 st meta)
    have "S_ISDIR (mode meta)" using assms(2) 3(3) by (simp add: S_ISDIR_mkdir)
    from ns_inv_new_dir [OF assms(1) 3(1) this] 3(5) show ?thesis by (simp add: ns_inv_split)
  qed (use assms(1) in \<open>simp_all add: ns_inv_set_store\<close>)
qed

lemma rmdir_inv:
  assumes "ns_inv s" "rmdir E s path = Done (s', r)"
  shows "ns_inv s'"
  using assms(2)
proof (cases rule: rmdir_cases)
  case (3 st)
  then have "directories s path \<noteq> None" by simp
  from ns_inv_drop_dir [OF assms(1) this] 3(3) show ?thesis by (simp add: ns_inv_split)
qed (use assms(1) in \<open>simp_all add: ns_inv_set_store\<close>)

lemma add_subfile_inv:
  assumes "ns_inv s" "add_subfile E s parent subfile = Done (s', r)"
  shows "ns_inv s'"
  using assms(2)
proof (cases rule: add_subfile_cases)
  case (3 st subfiles)
  then have "sset_ok (sset_insert subfile subfiles)"
    using assms(1) by (auto simp: ns_inv_def dirs_inv_def intro: smap_intros)
  from ns_inv_subfiles [OF assms(1) 3(1) this] 3(4) show ?thesis by (simp add: ns_inv_split)
qed (use assms(1) in \<open>simp_all add: ns_inv_set_store\<close>)

lemma remove_subfile_inv:
  assumes "ns_inv s" "remove_subfile E s parent subfile = Done (s', r)"
  shows "ns_inv s'"
  using assms(2)
proof (cases rule: remove_subfile_cases)
  case (3 st subfiles)
  then have "sset_ok (sset_erase subfile subfiles)"
    using assms(1) by (auto simp: ns_inv_def dirs_inv_def intro: smap_intros)
  from ns_inv_subfiles [OF assms(1) 3(1) this] 3(4) show ?thesis by (simp add: ns_inv_split)
qed (use assms(1) in \<open>simp_all add: ns_inv_set_store\<close>)

lemma setattr_inv:
  assumes "ns_inv s" "allowed E s (Setattr path info)" "setattr E s path info = Done (s', r)"
  shows "ns_inv s'"
  using assms(3)
proof (cases rule: setattr_cases)
  case (2 st meta)
  have "S_ISDIR (mode (update_metadata info meta)) = S_ISDIR (mode meta)"
    using assms(2) 2(1) by (auto simp: allowed_def update_metadata_keeps split: option.splits)
  from ns_inv_attr [OF assms(1) 2(1) update_metadata_keeps(1) this] 2(3)
  show ?thesis by (simp add: ns_inv_split)
qed (use assms(1) in simp)

lemma ns_step_inv:
  assumes "ns_inv s" "allowed E s op" "ns_step E s op = Done (s', status)"
  shows "ns_inv s'"
proof (cases op)
  case (Create now path md u g)
  with assms show ?thesis by (auto simp: drop_result_def allowed_def intro: create_inv)
next
  case (Remove path)
  with assms show ?thesis by (auto simp: drop_result_def intro: ns_remove_inv)
next
  case (Mkdir now path md u g)
  with assms show ?thesis by (auto simp: allowed_def intro: mkdir_inv)
next
  case (Setattr path info)
  with assms show ?thesis by (auto intro: setattr_inv)
qed (use assms in \<open>auto intro: rmdir_inv add_subfile_inv remove_subfile_inv\<close>)

section \<open>Preservation whatever the types\<close>

lemmas mem_defs = mem_inv_def plain_file_def fresh_inv_def dirs_known_def

lemma mem_inv_store [simp]: "mem_inv (s\<lparr>ns_store := st\<rparr>) = mem_inv s" "dirs_known (s\<lparr>ns_store := st\<rparr>) = dirs_known s"
  by (simp_all add: mem_defs)

lemma mem_known: "mem_inv s \<Longrightarrow> dirs_known s"
  by (simp add: mem_inv_def)

lemma create_mem:
  assumes "mem_inv s" "unat (next_obj_id s) < 2 ^ 48" "create E now s path md u g = Done (s', r)"
  shows "mem_inv s'"
  using assms(3)
proof (cases rule: create_cases)
  case (2 s1 oid st meta)
  have f: "fresh_inv s" using assms(1) by (simp add: mem_inv_def)
  note free = fresh_id_unused [OF f 2(2) assms(2)]
  have d: "directories s path = None" using assms(1) 2(1) by (auto simp: mem_defs)
  have i: "object_id meta = oid" using 2(3) by simp
  have own: "id_to_path_map s x = Some p \<longleftrightarrow> plain_file s p x" for p x using assms(1) by (simp add: mem_inv_def)
  have "plain_file s' p x \<longleftrightarrow> p = path \<and> x = oid \<or> p \<noteq> path \<and> plain_file s p x" for p x
    using d i by (auto simp: 2(5) plain_file_def)
  moreover have "\<not> plain_file s path x" "\<not> plain_file s p oid" for p x
    using 2(1) free own [of oid] by (auto simp: plain_file_def)
  ultimately have "(id_to_path_map s' x = Some p) = plain_file s' p x" for x p
    using own by (auto simp: 2(5))
  moreover have "fresh_inv s'"
    using f get_object_id_serial [OF 2(2) assms(2)] next_obj_id_unat [OF assms(2)] assms(2)
    by (auto simp: 2(5) fresh_inv_def less_Suc_eq)
  ultimately show ?thesis using assms(1) by (auto simp: mem_inv_def dirs_known_def 2(5))
qed (use assms(1) in simp)

lemma ns_remove_mem:
  assumes "mem_inv s" "ns_remove E s path = Done (s', r)"
  shows "mem_inv s'"
  using assms(2)
proof (cases rule: ns_remove_cases)
  case (3 st meta)
  have own: "id_to_path_map s x = Some p \<longleftrightarrow> plain_file s p x" for p x using assms(1) by (simp add: mem_inv_def)
  have "plain_file s' p x \<longleftrightarrow> p \<noteq> path \<and> plain_file s p x" for p x by (auto simp: 3(5) plain_file_def)
  moreover have "plain_file s path x \<longleftrightarrow> x = object_id meta" for x
    using own [of "object_id meta" path] 3(1,4) by (auto simp: plain_file_def)
  moreover have "plain_file s p (object_id meta) \<longleftrightarrow> p = path" for p using own [of "object_id meta" p] 3(4) by auto
  ultimately have "id_to_path_map s' x = Some p \<longleftrightarrow> plain_file s' p x" for p x
    using own [of x p] by (auto simp: 3(5))
  moreover have "directories s path = None" using own [of "object_id meta" path] 3(4) by (simp add: plain_file_def)
  moreover have "fresh_inv s'" using assms(1) by (auto simp: mem_inv_def fresh_inv_def 3(5))
  ultimately show ?thesis
    using assms(1) unfolding mem_inv_def by (auto simp: dirs_known_def 3(5))
qed (use assms(1) in simp_all)

lemma mkdir_mem:
  assumes "mem_inv s" "mkdir E now s path md u g = Done (s', r)"
  shows "mem_inv s'"
  using assms(2) mem_known [OF assms(1)]
proof (cases rule: mkdir_known_cases)
  case (3 st meta)
  with assms(1) show ?thesis by (auto simp: mem_defs 3(5))
qed (use assms(1) in simp_all)

lemma rmdir_mem:
  assumes "mem_inv s" "rmdir E s path = Done (s', r)"
  shows "mem_inv s'"
  using assms(2)
proof (cases rule: rmdir_cases)
  case (3 st)
  with assms(1) show ?thesis by (auto simp: mem_defs 3(3))
qed (use assms(1) in simp_all)

lemma subfiles_mem:
  assumes "mem_inv s" "directories s parent = Some subfiles" "sset_ok xs"
  shows "mem_inv (s\<lparr>ns_store := st, directories := (directories s)(parent \<mapsto> xs)\<rparr>)"
  using assms by (auto simp: mem_defs)

lemma add_subfile_mem:
  assumes "mem_inv s" "add_subfile E s parent subfile = Done (s', r)"
  shows "mem_inv s'"
  using assms(2)
proof (cases rule: add_subfile_cases)
  case (3 st subfiles)
  then have "sset_ok (sset_insert subfile subfiles)" using assms(1) by (auto simp: mem_inv_def intro: smap_intros)
  from subfiles_mem [OF assms(1) 3(1) this] 3(4) show ?thesis by simp
qed (use assms(1) in simp_all)

lemma remove_subfile_mem:
  assumes "mem_inv s" "remove_subfile E s parent subfile = Done (s', r)"
  shows "mem_inv s'"
  using assms(2)
proof (cases rule: remove_subfile_cases)
  case (3 st subfiles)
  then have "sset_ok (sset_erase subfile subfiles)" using assms(1) by (auto simp: mem_inv_def intro: smap_intros)
  from subfiles_mem [OF assms(1) 3(1) this] 3(4) show ?thesis by simp
qed (use assms(1) in simp_all)

lemma setattr_mem:
  assumes "mem_inv s" "setattr E s path info = Done (s', r)"
  shows "mem_inv s'"
  using assms(2)
proof (cases rule: setattr_cases)
  case (2 st meta)
  with assms(1) show ?thesis by (auto simp: mem_defs update_metadata_keeps)
qed (use assms(1) in simp)

lemma ns_step_mem:
  assumes "mem_inv s" "\<And>now path md u g. op = Create now path md u g \<Longrightarrow> unat (next_obj_id s) < 2 ^ 48"
    and "ns_step E s op = Done (s', status)"
  shows "mem_inv s'"
proof (cases op)
  case (Create now path md u g)
  with assms show ?thesis by (auto simp: drop_result_def intro: create_mem)
next
  case (Remove path)
  with assms show ?thesis by (auto simp: drop_result_def intro: ns_remove_mem)
qed (use assms in \<open>auto intro: mkdir_mem rmdir_mem add_subfile_mem remove_subfile_mem setattr_mem\<close>)

lemma Namespace_new_mem: "unat junk \<le> 2 ^ 48 \<Longrightarrow> mem_inv (Namespace_new junk store)"
  by (auto simp: Namespace_new_def mem_defs)

end
