(* ===== verification/Namespace_Store.thy ===== *)
theory Namespace_Store
  imports Namespace
begin

text \<open>
  The namespace and its database: the records the database holds agree with the maps in memory
  after every operation (\<open>stored_namespace\<close>), so \<open>Namespace::init\<close> rebuilds the maps from
  them. Holds the instances on \<open>TestLevelDBStore\<close> and \<open>LevelDBStore\<close> and the properties of the
  component.
\<close>

section \<open>Agreement with the store\<close>

text \<open>The contents of the store depend on the metadata and on the directory entries only.\<close>

lemma stored_eq:
  "metadata_map s' = metadata_map s \<Longrightarrow> (\<And>p. has_entry E s' p = has_entry E s p) \<Longrightarrow>
     stored E s' = stored E s"
  by (rule ext) (simp add: stored_def)

lemma stored_put:
  "starts_with path ''/'' \<Longrightarrow> metadata_map s' = (metadata_map s)(path \<mapsto> meta) \<Longrightarrow>
     (\<And>p. has_entry E s' p = has_entry E s p) \<Longrightarrow> stored E s' = (stored E s)(path \<mapsto> serialize E meta)"
  by (rule ext) (simp add: stored_def)

lemma stored_erase:
  "starts_with path ''/'' \<Longrightarrow> metadata_map s' = (metadata_map s)(path := None) \<Longrightarrow>
     (\<And>p. has_entry E s' p = has_entry E s p) \<Longrightarrow> stored E s' = (stored E s)(path := None)"
  by (rule ext) (simp add: stored_def)

lemma stored_entry:
  assumes "metadata_map s' = metadata_map s"
    and "\<And>p. has_entry E s' p = (if p = fullpath then b else has_entry E s p)"
  shows "stored E s' = (stored E s)(directory_map_key fullpath := (if b then Some [] else None))"
proof (rule ext)
  fix key
  show "stored E s' key = ((stored E s)(directory_map_key fullpath := (if b then Some [] else None))) key"
  proof (cases "key = directory_map_key fullpath")
    case False
    then have "starts_with key ''dir:'' \<Longrightarrow> substr_from key 4 \<noteq> fullpath"
      using dir_key_of by metis
    with False assms show ?thesis by (simp add: stored_def)
  qed (use assms in \<open>simp add: stored_def\<close>)
qed

lemma entry_cong: "directories s' = directories s \<Longrightarrow> entry s' = entry s"
  by (simp add: entry_def fun_eq_iff)

lemma entry_empty_dir:
  assumes "directories s path = None \<or> directories s path = Some []"
    and "directories s' = (directories s)(path := x)" "x = None \<or> x = Some []"
  shows "entry s' = entry s"
  using assms by (auto simp: entry_def fun_eq_iff)

lemma entry_insert:
  assumes "directories s parent = Some subfiles"
    and "directories s' = (directories s)(parent \<mapsto> sset_insert subfile subfiles)"
  shows "entry s' a b \<longleftrightarrow> (a = parent \<and> b = subfile) \<or> entry s a b"
  using assms by (auto simp: entry_def)

lemma entry_erase:
  assumes "directories s parent = Some subfiles"
    and "directories s' = (directories s)(parent \<mapsto> sset_erase subfile subfiles)"
  shows "entry s' a b \<longleftrightarrow> \<not> (a = parent \<and> b = subfile) \<and> entry s a b"
  using assms by (auto simp: entry_def)

lemma has_entry_cong: "entry s' = entry s \<Longrightarrow> has_entry E s' p = has_entry E s p"
  by (simp add: has_entry_def)

lemma splits_at_inject:
  "splits_at P a b \<Longrightarrow> splits_at P c d \<Longrightarrow> path_join P a b = path_join P c d \<Longrightarrow> a = c \<and> b = d"
  by (metis splits_at_def)

lemma has_entry_insert:
  assumes "\<And>a b. entry s' a b \<longleftrightarrow> (a = parent \<and> b = subfile) \<or> entry s a b"
  shows "has_entry E s' p \<longleftrightarrow> (if p = path_join (env_paths E) parent subfile then True else has_entry E s p)"
  unfolding has_entry_def assms by auto

lemma has_entry_erase:
  assumes "entry s parent subfile" "shape_inv E s"
    and "\<And>a b. entry s' a b \<longleftrightarrow> \<not> (a = parent \<and> b = subfile) \<and> entry s a b"
  shows "has_entry E s' p \<longleftrightarrow> (if p = path_join (env_paths E) parent subfile then False else has_entry E s p)"
proof -
  have "splits_at (env_paths E) a b" if "entry s a b" for a b
    using that assms(2) by (auto simp: shape_inv_def)
  with assms(1) have "path_join (env_paths E) a b \<noteq> path_join (env_paths E) parent subfile"
    if "entry s a b" "\<not> (a = parent \<and> b = subfile)" for a b
    using that splits_at_inject by blast
  then show ?thesis unfolding has_entry_def assms(3) by (auto, metis)
qed

locale stored_namespace = kv_store "env_kv E" opened contents
  for E :: "'s ns_env" and opened :: "'s \<Rightarrow> bool" and contents :: "'s \<Rightarrow> (string \<times> string) list" +
  assumes deserialize_serialize: "deserialize E (serialize E meta) = Some meta"
begin

definition full_inv :: "'s Namespace \<Rightarrow> bool" where
  "full_inv s \<longleftrightarrow> ns_inv s \<and> shape_inv E s \<and> store_inv E contents s \<and> opened (ns_store s)"

text \<open>The same with the types left open and the records of \<open>D\<close> behind.\<close>

definition agrees :: "string set \<Rightarrow> 's Namespace \<Rightarrow> bool" where
  "agrees D s \<longleftrightarrow> mem_inv s \<and> shape_inv E s \<and> opened (ns_store s) \<and>
     (\<forall>key. key \<notin> D \<longrightarrow> map_of (contents (ns_store s)) key = stored E s key)"

lemma full_agrees: "full_inv s \<longleftrightarrow> ns_inv s \<and> agrees {} s"
  by (auto simp: full_inv_def agrees_def store_inv_def intro: ns_inv_mem)

lemma agrees_mono: "agrees D s \<Longrightarrow> D \<subseteq> D' \<Longrightarrow> agrees D' s"
  by (auto simp: agrees_def)

lemma agrees_failed:
  assumes "agrees D s" "opened st" "map_of (contents st) = map_of (contents (ns_store s))"
  shows "agrees D (s\<lparr>ns_store := st\<rparr>)"
  using assms by (simp add: agrees_def)

lemma agrees_write:
  assumes "agrees D s" "mem_inv s'" "shape_inv E s'" "opened (ns_store s')"
    and "map_of (contents (ns_store s')) = (map_of (contents (ns_store s)))(k := v)" "stored E s' = (stored E s)(k := v)"
  shows "agrees (D - {k}) s'"
  using assms by (auto simp: agrees_def)

lemma failed_put:
  assumes "agrees D s" "kv_put (env_kv E) (ns_store s) k v = Done (st, status)" "\<not> ok status"
  shows "agrees D (s\<lparr>ns_store := st\<rparr>)"
  by (rule agrees_failed [OF assms(1)])
     (use assms put_opened put_contents in \<open>auto simp: agrees_def\<close>)

lemma failed_remove:
  assumes "agrees D s" "kv_remove (env_kv E) (ns_store s) k = Done (st, status)" "\<not> ok status"
  shows "agrees D (s\<lparr>ns_store := st\<rparr>)"
  by (rule agrees_failed [OF assms(1)])
     (use assms remove_opened remove_contents in \<open>auto simp: agrees_def\<close>)

lemma put_agrees:
  assumes "agrees D s" "kv_put (env_kv E) (ns_store s) k v = Done (st, OK)" "ns_store s' = st"
    and "mem_inv s'" "shape_inv E s'" "stored E s' = (stored E s)(k \<mapsto> v)"
  shows "agrees (D - {k}) s'"
proof -
  have o: "opened (ns_store s)" using assms(1) by (simp add: agrees_def)
  show ?thesis
    by (rule agrees_write [OF assms(1,4,5) _ _ assms(6)])
       (use put_opened [OF o assms(2)] put_contents [OF o assms(2)] assms(3) in auto)
qed

lemma remove_agrees:
  assumes "agrees D s" "kv_remove (env_kv E) (ns_store s) k = Done (st, OK)" "ns_store s' = st"
    and "mem_inv s'" "shape_inv E s'" "stored E s' = (stored E s)(k := None)"
  shows "agrees (D - {k}) s'"
proof -
  have o: "opened (ns_store s)" using assms(1) by (simp add: agrees_def)
  show ?thesis
    by (rule agrees_write [OF assms(1,4,5) _ _ assms(6)])
       (use remove_opened [OF o assms(2)] remove_contents [OF o assms(2)] assms(3) in auto)
qed

lemma create_agrees:
  assumes inv: "agrees D s" and al: "callable E s (Create now path md u g)"
    and c: "create E now s path md u g = Done (s', r)"
  shows "agrees (case r of Inl _ \<Rightarrow> D | Inr _ \<Rightarrow> D - {path}) s'"
proof -
  from inv al have n: "mem_inv s'" using create_mem [OF _ _ c] by (auto simp: agrees_def callable_def)
  have a: "starts_with path ''/''" using al by (simp add: callable_def)
  from c show ?thesis
  proof (cases rule: create_cases)
    case (2 s1 oid st meta)
    have st: "stored E s' = (stored E s)(path \<mapsto> serialize E meta)"
      by (rule stored_put [OF a]) (use 2(5) in \<open>auto intro!: has_entry_cong entry_cong\<close>)
    have "shape_inv E s'"
      using inv a entry_cong [of s' s] by (auto simp: agrees_def shape_inv_def 2(5))
    from put_agrees [OF inv 2(4) _ n this st] 2(5,6) show ?thesis by simp
  qed (use inv in simp)
qed

lemma ns_remove_agrees:
  assumes inv: "agrees D s" and c: "ns_remove E s path = Done (s', r)"
  shows "agrees (case r of Inl _ \<Rightarrow> D | Inr _ \<Rightarrow> D - {path}) s'"
proof -
  from inv have n: "mem_inv s'" using ns_remove_mem [OF _ c] by (auto simp: agrees_def)
  from c show ?thesis
  proof (cases rule: ns_remove_cases)
    case (2 st status)
    from failed_remove [OF inv 2(1,2)] 2(3,4) show ?thesis by simp
  next
    case (3 st meta)
    have a: "starts_with path ''/''" using inv 3(1) by (auto simp: agrees_def shape_inv_def)
    have st: "stored E s' = (stored E s)(path := None)"
      by (rule stored_erase [OF a]) (use 3(5) in \<open>auto intro!: has_entry_cong entry_cong\<close>)
    have "shape_inv E s'"
      using inv entry_cong [of s' s] by (auto simp: agrees_def shape_inv_def 3(5))
    from remove_agrees [OF inv 3(3) _ n this st] 3(5,6) show ?thesis by simp
  qed (use inv in auto)
qed

lemma mkdir_agrees:
  assumes inv: "agrees D s" and al: "callable E s (Mkdir now path md u g)"
    and c: "mkdir E now s path md u g = Done (s', r)"
  shows "agrees (if ok r then D - {path} else D) s'"
proof -
  from inv have n: "mem_inv s'" using mkdir_mem [OF _ c] by (auto simp: agrees_def)
  have a: "starts_with path ''/''" using al by (simp add: callable_def)
  have d: "dirs_known s" using inv by (simp add: agrees_def mem_inv_def)
  from c d show ?thesis
  proof (cases rule: mkdir_known_cases)
    case (2 st)
    from failed_put [OF inv 2(2,3)] 2(3,4) show ?thesis by simp
  next
    case (3 st meta)
    have e: "entry s' = entry s" by (rule entry_empty_dir) (use 3(2,5) in auto)
    have st: "stored E s' = (stored E s)(path \<mapsto> serialize E meta)"
      by (rule stored_put [OF a]) (use 3(5) e in \<open>auto intro!: has_entry_cong\<close>)
    have "shape_inv E s'" using inv a e by (auto simp: agrees_def shape_inv_def 3(5))
    from put_agrees [OF inv 3(4) _ n this st] 3(5,6) show ?thesis by simp
  qed (use inv in simp)
qed

lemma rmdir_agrees:
  assumes inv: "agrees D s" and c: "rmdir E s path = Done (s', r)"
  shows "agrees (if ok r then D - {path} else D) s'"
proof -
  from inv have n: "mem_inv s'" using rmdir_mem [OF _ c] by (auto simp: agrees_def)
  from c show ?thesis
  proof (cases rule: rmdir_cases)
    case (2 st)
    from failed_remove [OF inv 2(1,2)] 2(2,3) show ?thesis by simp
  next
    case (3 st)
    have e: "entry s' = entry s" by (rule entry_empty_dir) (use 3(1,3) in auto)
    have a: "starts_with path ''/''" using inv 3(1) by (auto simp: agrees_def shape_inv_def mem_inv_def dirs_known_def)
    have st: "stored E s' = (stored E s)(path := None)"
      by (rule stored_erase [OF a]) (use 3(3) e in \<open>auto intro!: has_entry_cong\<close>)
    have "shape_inv E s'" using inv e by (auto simp: agrees_def shape_inv_def 3(3))
    from remove_agrees [OF inv 3(2) _ n this st] 3(3,4) show ?thesis by simp
  qed (use inv in simp)
qed

lemma add_subfile_agrees:
  assumes inv: "agrees D s" and al: "callable E s (Add_subfile parent subfile)"
    and c: "add_subfile E s parent subfile = Done (s', r)"
  shows "agrees D s'"
proof -
  let ?p = "path_join (env_paths E) parent subfile"
  from inv have n: "mem_inv s'" using add_subfile_mem [OF _ c] by (auto simp: agrees_def)
  from c show ?thesis
  proof (cases rule: add_subfile_cases)
    case (2 st)
    from failed_put [OF inv 2(1,2)] 2(3) show ?thesis by simp
  next
    case (3 st subfiles)
    have e: "entry s' a b \<longleftrightarrow> (a = parent \<and> b = subfile) \<or> entry s a b" for a b
      by (rule entry_insert [OF 3(1)]) (use 3(4) in simp)
    have "stored E s' = (stored E s)(directory_map_key ?p := (if True then Some [] else None))"
      by (rule stored_entry) (use 3(4) has_entry_insert [OF e] in auto)
    then have st: "stored E s' = (stored E s)(directory_map_key ?p \<mapsto> [])" by simp
    have "shape_inv E s'"
      using inv al e by (auto simp: agrees_def shape_inv_def callable_def) (auto simp: 3(4))
    from put_agrees [OF inv 3(3) _ n this st] 3(4) show ?thesis by (auto intro: agrees_mono)
  qed (use inv in simp)
qed

lemma remove_subfile_agrees:
  assumes inv: "agrees D s" and c: "remove_subfile E s parent subfile = Done (s', r)"
  shows "agrees D s'"
proof -
  let ?p = "path_join (env_paths E) parent subfile"
  from inv have n: "mem_inv s'" using remove_subfile_mem [OF _ c] by (auto simp: agrees_def)
  from c show ?thesis
  proof (cases rule: remove_subfile_cases)
    case (2 st)
    from failed_remove [OF inv 2(1,2)] 2(3) show ?thesis by simp
  next
    case (3 st subfiles)
    have e: "entry s' a b \<longleftrightarrow> \<not> (a = parent \<and> b = subfile) \<and> entry s a b" for a b
      by (rule entry_erase [OF 3(1)]) (use 3(4) in simp)
    have "entry s parent subfile" "shape_inv E s" using 3(1,2) inv by (auto simp: entry_def agrees_def)
    note h = has_entry_erase [OF this e]
    have "stored E s' = (stored E s)(directory_map_key ?p := (if False then Some [] else None))"
      by (rule stored_entry) (use 3(4) h in auto)
    then have st: "stored E s' = (stored E s)(directory_map_key ?p := None)" by simp
    have "shape_inv E s'"
      using inv e by (auto simp: agrees_def shape_inv_def) (auto simp: 3(4))
    from remove_agrees [OF inv 3(3) _ n this st] 3(4) show ?thesis by (auto intro: agrees_mono)
  qed (use inv in simp)
qed

lemma setattr_agrees:
  assumes inv: "agrees D s" and c: "setattr E s path info = Done (s', r)"
  shows "agrees (if ok r then D - {path} else insert path D) s'"
proof -
  from inv have n: "mem_inv s'" using setattr_mem [OF _ c] by (auto simp: agrees_def)
  from c show ?thesis
  proof (cases rule: setattr_cases)
    case 1
    with inv show ?thesis by (auto intro: agrees_mono)
  next
    case (2 st meta)
    have a: "starts_with path ''/''" using inv 2(1) by (auto simp: agrees_def shape_inv_def)
    have e: "entry s' = entry s" by (rule entry_cong) (simp add: 2(3))
    have st: "stored E s' = (stored E s)(path \<mapsto> serialize E (update_metadata info meta))"
      by (rule stored_put [OF a]) (use 2(3) e in \<open>auto intro!: has_entry_cong\<close>)
    have sh: "shape_inv E s'" using inv a e by (auto simp: agrees_def shape_inv_def 2(3))
    show ?thesis
    proof (cases "ok r")
      case True
      then have "r = OK" by (simp add: ok_iff)
      with put_agrees [OF inv _ _ n sh st] 2(2,3) show ?thesis by simp
    next
      case False
      with failed_put [OF inv 2(2)] st sh n 2(3) show ?thesis by (auto simp: agrees_def)
    qed
  qed
qed

lemma step_agrees:
  assumes "agrees D s" "callable E s op" "ns_step E s op = Done (s', status)"
  shows "agrees (behind D op status) s'"
proof (cases op)
  case (Create now path md u g)
  with assms(3) obtain r where r: "create E now s path md u g = Done (s', r)" "status = (case r of Inl st \<Rightarrow> st | Inr _ \<Rightarrow> OK)"
    by (auto simp: drop_result_def)
  from r(1) have "ok status \<longleftrightarrow> (\<exists>oid. r = Inr oid)" by (cases rule: create_cases) (auto simp: r(2))
  with create_agrees [OF assms(1) _ r(1)] assms(2) Create show ?thesis
    by (auto simp: behind_def split: sum.splits)
next
  case (Remove path)
  with assms(3) obtain r where r: "ns_remove E s path = Done (s', r)" "status = (case r of Inl st \<Rightarrow> st | Inr _ \<Rightarrow> OK)"
    by (auto simp: drop_result_def)
  from r(1) have "ok status \<longleftrightarrow> (\<exists>oid. r = Inr oid)" by (cases rule: ns_remove_cases) (auto simp: r(2))
  with ns_remove_agrees [OF assms(1) r(1)] Remove show ?thesis
    by (auto simp: behind_def split: sum.splits)
next
  case (Mkdir now path md u g)
  with assms mkdir_agrees [OF assms(1), of now path md u g s' status] show ?thesis by (auto simp: behind_def split: if_splits)
next
  case (Rmdir path)
  with assms rmdir_agrees [OF assms(1), of path s' status] show ?thesis by (auto simp: behind_def split: if_splits)
next
  case (Setattr path info)
  with assms setattr_agrees [OF assms(1), of path info s' status] show ?thesis by (auto simp: behind_def split: if_splits)
qed (use assms add_subfile_agrees [OF assms(1)] remove_subfile_agrees [OF assms(1)] in \<open>auto simp: behind_def\<close>)

lemma run_agrees: "ns_run E s0 D s \<Longrightarrow> agrees {} s0 \<Longrightarrow> agrees D s"
  by (induction rule: ns_run.induct) (auto intro: step_agrees)

lemma step_full:
  assumes "full_inv s" "allowed E s op" "ns_step E s op = Done (s', status)"
    and "ok status \<or> (\<forall>path info. op \<noteq> Setattr path info)"
  shows "full_inv s'"
proof -
  have "behind {} op status = {}" using assms(4) by (cases op) (auto simp: behind_def)
  with step_agrees [OF _ allowed_callable [OF assms(2)] assms(3), of "{}"] ns_step_inv [OF _ assms(2,3)] assms(1)
  show ?thesis by (simp add: full_agrees)
qed

lemma reachable_full: "reachable E s0 s \<Longrightarrow> full_inv s0 \<Longrightarrow> full_inv s"
  by (induction rule: reachable.induct) (auto intro: step_full)

lemma empty_full:
  assumes "opened store" "contents store = []" "unat junk \<le> 2 ^ 48"
  shows "full_inv (Namespace_new junk store)"
  using assms
  by (auto simp: full_inv_def Namespace_new_def ns_inv_split shape_inv_def store_inv_def stored_def
      has_entry_def entry_def fun_eq_iff)

end
section \<open>Loading a store\<close>

text \<open>Loading the metadata records: every path gets its metadata, a directory an empty entry list, a file its id.\<close>

definition loaded_file :: "(string \<Rightarrow> FileMetadata) \<Rightarrow> string set \<Rightarrow> ObjectId \<Rightarrow> string \<Rightarrow> bool" where
  "loaded_file M K oid p \<longleftrightarrow> p \<in> K \<and> \<not> S_ISDIR (mode (M p)) \<and> object_id (M p) = oid"

lemma loaded_file_insert:
  "loaded_file M (insert k K) oid p \<longleftrightarrow>
     (p = k \<and> \<not> S_ISDIR (mode (M k)) \<and> object_id (M k) = oid) \<or> loaded_file M K oid p"
  by (auto simp: loaded_file_def)

lemma loaded_ids_step:
  assumes "k \<notin> K"
    and uniq: "\<forall>p q oid. loaded_file M (insert k K) oid p \<longrightarrow> loaded_file M (insert k K) oid q \<longrightarrow> p = q"
    and "g = (if S_ISDIR (mode (M k)) then f else f(object_id (M k) \<mapsto> k))"
  shows "loaded_file M K oid p \<or> (g oid = Some p \<and> (\<forall>q. \<not> loaded_file M K oid q)) \<longleftrightarrow>
    loaded_file M (insert k K) oid p \<or> (f oid = Some p \<and> (\<forall>q. \<not> loaded_file M (insert k K) oid q))"
proof (cases "S_ISDIR (mode (M k))")
  case True
  with assms(3) show ?thesis by (simp add: loaded_file_insert)
next
  case False
  then have "loaded_file M (insert k K) (object_id (M k)) k" by (simp add: loaded_file_def)
  then have "\<not> loaded_file M K (object_id (M k)) q" for q
    using uniq assms(1) by (metis loaded_file_def loaded_file_insert)
  with False assms(3) show ?thesis
    by (cases "oid = object_id (M k)") (auto simp: loaded_file_insert)
qed

lemma load_metadata_records:
  assumes "\<forall>(k, v)\<in>set rs. starts_with k ''/'' \<and> deserialize E v = Some (M k)"
    and "distinct (map fst rs)" "\<forall>k\<in>fst ` set rs. directories s0 k = None"
    and "\<forall>p q oid. loaded_file M (fst ` set rs) oid p \<longrightarrow> loaded_file M (fst ` set rs) oid q \<longrightarrow> p = q"
  shows "\<exists>s1. load_records E s0 (rs @ rest) = load_records E s1 rest \<and>
    ns_store s1 = ns_store s0 \<and> next_obj_id s1 = next_obj_id s0 \<and>
    metadata_map s1 = (\<lambda>p. if p \<in> fst ` set rs then Some (M p) else metadata_map s0 p) \<and>
    directories s1 = (\<lambda>p. if p \<in> fst ` set rs \<and> S_ISDIR (mode (M p)) then Some [] else directories s0 p) \<and>
    (\<forall>oid p. id_to_path_map s1 oid = Some p \<longleftrightarrow> loaded_file M (fst ` set rs) oid p \<or>
       (id_to_path_map s0 oid = Some p \<and> (\<forall>q. \<not> loaded_file M (fst ` set rs) oid q)))"
  using assms
proof (induction rs arbitrary: s0)
  case Nil
  then show ?case by (auto simp: loaded_file_def)
next
  case (Cons r rs)
  obtain k v where r: "r = (k, v)" by fastforce
  let ?K = "fst ` set rs"
  define s' where "s' = (if S_ISDIR (mode (M k))
    then s0\<lparr>metadata_map := (metadata_map s0)(k \<mapsto> M k), directories := (directories s0)(k \<mapsto> [])\<rparr>
    else s0\<lparr>metadata_map := (metadata_map s0)(k \<mapsto> M k),
            id_to_path_map := (id_to_path_map s0)(object_id (M k) \<mapsto> k)\<rparr>)"
  have k: "k \<notin> ?K" "directories s0 k = None" "starts_with k ''/''" "deserialize E v = Some (M k)"
    using Cons.prems r by force+
  then have "load_record E s0 r = Done (s', OK)"
    using r by (auto simp: load_record_def Let_def s'_def)
  then have run: "load_records E s0 ((r # rs) @ rest) = load_records E s' (rs @ rest)" by simp
  have uniq: "\<forall>p q oid. loaded_file M (insert k ?K) oid p \<longrightarrow> loaded_file M (insert k ?K) oid q \<longrightarrow> p = q"
    using Cons.prems(4) unfolding r by simp
  have rs: "\<forall>(k, v)\<in>set rs. starts_with k ''/'' \<and> deserialize E v = Some (M k)" "distinct (map fst rs)"
    using Cons.prems(1,2) by simp_all
  have d: "\<forall>k'\<in>?K. directories s' k' = None" using Cons.prems(3) k(1) by (auto simp: s'_def)
  have u: "\<forall>p q oid. loaded_file M ?K oid p \<longrightarrow> loaded_file M ?K oid q \<longrightarrow> p = q"
    using uniq unfolding loaded_file_insert by blast
  from Cons.IH [OF rs d u] obtain s1 where s1: "load_records E s' (rs @ rest) = load_records E s1 rest"
    "ns_store s1 = ns_store s'" "next_obj_id s1 = next_obj_id s'"
    "metadata_map s1 = (\<lambda>p. if p \<in> ?K then Some (M p) else metadata_map s' p)"
    "directories s1 = (\<lambda>p. if p \<in> ?K \<and> S_ISDIR (mode (M p)) then Some [] else directories s' p)"
    "\<And>oid p. id_to_path_map s1 oid = Some p \<longleftrightarrow> loaded_file M ?K oid p \<or>
       (id_to_path_map s' oid = Some p \<and> (\<forall>q. \<not> loaded_file M ?K oid q))"
    by blast
  have "id_to_path_map s' = (if S_ISDIR (mode (M k)) then id_to_path_map s0
      else (id_to_path_map s0)(object_id (M k) \<mapsto> k))" by (simp add: s'_def)
  note ids = s1(6) [unfolded loaded_ids_step [OF k(1) uniq this]]
  have "metadata_map s1 = (\<lambda>p. if p \<in> insert k ?K then Some (M p) else metadata_map s0 p)"
    using s1(4) by (auto simp: fun_eq_iff s'_def)
  moreover have "directories s1 = (\<lambda>p. if p \<in> insert k ?K \<and> S_ISDIR (mode (M p)) then Some [] else directories s0 p)"
    using s1(5) by (auto simp: fun_eq_iff s'_def)
  moreover have "ns_store s1 = ns_store s0" "next_obj_id s1 = next_obj_id s0" using s1(2,3) by (simp_all add: s'_def)
  moreover have "fst ` set (r # rs) = insert k ?K" using r by simp
  ultimately show ?case
    using run s1(1) ids by (intro exI [of _ s1]) simp
qed

text \<open>Loading the directory records: each adds one name to its parent, which has to be there.\<close>

lemma load_directory_records:
  assumes "\<forall>(k, v)\<in>set rs. starts_with k ''dir:'' \<and>
      directories s1 (parent_path (env_paths E) (substr_from k 4)) \<noteq> None"
    and "\<forall>p xs. directories s1 p = Some xs \<longrightarrow> sset_ok xs"
  shows "\<exists>s2. load_records E s1 rs = Done (s2, OK) \<and> ns_store s2 = ns_store s1 \<and>
    next_obj_id s2 = next_obj_id s1 \<and> metadata_map s2 = metadata_map s1 \<and>
    id_to_path_map s2 = id_to_path_map s1 \<and>
    (\<forall>p. directories s2 p = None \<longleftrightarrow> directories s1 p = None) \<and>
    (\<forall>p xs. directories s2 p = Some xs \<longrightarrow> sset_ok xs) \<and>
    (\<forall>p f. entry s2 p f \<longleftrightarrow> entry s1 p f \<or> (\<exists>k\<in>fst ` set rs.
       parent_path (env_paths E) (substr_from k 4) = p \<and> filename (env_paths E) (substr_from k 4) = f))"
  using assms
proof (induction rs arbitrary: s1)
  case (Cons r rs)
  obtain k v where r: "r = (k, v)" by fastforce
  let ?p = "parent_path (env_paths E) (substr_from k 4)" and ?f = "filename (env_paths E) (substr_from k 4)"
  obtain xs where k: "starts_with k ''dir:''" "directories s1 ?p = Some xs" using Cons.prems(1) r by auto
  let ?s = "s1\<lparr>directories := (directories s1)(?p \<mapsto> sset_insert ?f xs)\<rparr>"
  from k(1) have "\<not> starts_with k ''/''" by (cases k) auto
  with k have "load_record E s1 r = Done (?s, OK)"
    using r by (simp add: load_record_def Let_def)
  then have run: "load_records E s1 (r # rs) = load_records E ?s rs" by simp
  have e: "entry ?s a b \<longleftrightarrow> (a = ?p \<and> b = ?f) \<or> entry s1 a b" for a b
    by (rule entry_insert [OF k(2)]) simp
  have "\<forall>(k', v')\<in>set rs. starts_with k' ''dir:'' \<and>
      directories ?s (parent_path (env_paths E) (substr_from k' 4)) \<noteq> None"
    using Cons.prems(1) by auto
  moreover have "\<forall>p xs. directories ?s p = Some xs \<longrightarrow> sset_ok xs"
    using Cons.prems(2) k(2) by (auto intro: smap_intros)
  ultimately obtain s2 where s2: "load_records E ?s rs = Done (s2, OK)" "ns_store s2 = ns_store ?s"
    "next_obj_id s2 = next_obj_id ?s" "metadata_map s2 = metadata_map ?s" "id_to_path_map s2 = id_to_path_map ?s"
    "\<forall>p. directories s2 p = None \<longleftrightarrow> directories ?s p = None"
    "\<forall>p xs. directories s2 p = Some xs \<longrightarrow> sset_ok xs"
    "\<forall>p f. entry s2 p f \<longleftrightarrow> entry ?s p f \<or> (\<exists>k\<in>fst ` set rs.
       parent_path (env_paths E) (substr_from k 4) = p \<and> filename (env_paths E) (substr_from k 4) = f)"
    using Cons.IH [of ?s] by blast
  show ?case
    by (intro exI [of _ s2]) (use run s2 k(2) r e in auto)
qed auto
text \<open>Slash sorts before the letters, so a scan visits all metadata before any directory entry.\<close>

lemma sorted_split:
  assumes "smap_ok m" "\<And>a b. a \<in> fst ` set m \<Longrightarrow> b \<in> fst ` set m \<Longrightarrow> P a \<Longrightarrow> \<not> P b \<Longrightarrow> a < b"
  shows "m = filter (\<lambda>kv. P (fst kv)) m @ filter (\<lambda>kv. \<not> P (fst kv)) m"
  using assms
proof (induction m)
  case (Cons q m)
  then have IH: "m = filter (\<lambda>kv. P (fst kv)) m @ filter (\<lambda>kv. \<not> P (fst kv)) m"
    by (auto simp: smap_ok_Cons)
  show ?case
  proof (cases "P (fst q)")
    case False
    have "\<not> P (fst r)" if "r \<in> set m" for r
    proof
      assume "P (fst r)"
      with that False Cons.prems(2) have "fst r < fst q" by simp
      moreover have "fst q < fst r" using that Cons.prems(1) by (simp add: smap_ok_Cons)
      ultimately show False by simp
    qed
    then show ?thesis using False by (simp add: filter_empty_conv)
  qed (use IH in simp)
qed simp

lemma directories_eqI:
  assumes "\<And>p. directories a p = None \<longleftrightarrow> directories b p = None"
    and "\<And>p f. entry a p f \<longleftrightarrow> entry b p f"
    and "\<And>p xs. directories a p = Some xs \<Longrightarrow> sset_ok xs" "\<And>p xs. directories b p = Some xs \<Longrightarrow> sset_ok xs"
  shows "directories a = directories b"
proof (rule ext)
  fix p
  show "directories a p = directories b p"
  proof (cases "directories a p")
    case (Some xs)
    with assms(1) [of p] obtain ys where ys: "directories b p = Some ys" by auto
    have "set xs = set ys" using assms(2) [of p] Some ys by (auto simp: entry_def)
    then show ?thesis using Some ys assms(3,4) sset_eqI by metis
  qed (use assms(1) [of p] in simp)
qed

lemma slash_before_dir: "starts_with a ''/'' \<Longrightarrow> starts_with b ''dir:'' \<Longrightarrow> a < b"
  by (cases a; cases b) (auto simp: less_char_def)

lemma stored_key_kinds: "stored E s k \<noteq> None \<Longrightarrow> starts_with k ''/'' \<or> starts_with k ''dir:''"
  by (auto simp: stored_def split: if_splits)

lemma stored_slash: "starts_with k ''/'' \<Longrightarrow> stored E s k = map_option (serialize E) (metadata_map s k)"
  by (simp add: stored_def)

lemma stored_dir: "stored E s (directory_map_key p) = (if has_entry E s p then Some [] else None)"
  by (simp add: stored_def)

lemma entry_of_record:
  assumes "shape_inv E s" "has_entry E s p"
  shows "entry s (parent_path (env_paths E) p) (filename (env_paths E) p)"
  using assms by (auto simp: has_entry_def shape_inv_def splits_at_def)

lemma record_of_entry:
  assumes "shape_inv E s" "entry s d f"
  shows "has_entry E s (path_join (env_paths E) d f)"
    "parent_path (env_paths E) (path_join (env_paths E) d f) = d"
    "filename (env_paths E) (path_join (env_paths E) d f) = f"
  using assms by (auto simp: has_entry_def shape_inv_def splits_at_def)

lemma scan_splits:
  assumes "smap_ok C" "map_of C = stored E s"
  shows "C = filter (\<lambda>kv. starts_with (fst kv) ''/'') C @ filter (\<lambda>kv. \<not> starts_with (fst kv) ''/'') C"
proof (rule sorted_split [OF assms(1)])
  fix a b assume "b \<in> fst ` set C" "starts_with a ''/''" "\<not> starts_with b ''/''"
  moreover from this have "stored E s b \<noteq> None" using assms(2) by (metis map_of_eq_None_iff)
  ultimately show "a < b" using stored_key_kinds slash_before_dir by metis
qed

lemma scan_metadata_keys:
  assumes "smap_ok C" "map_of C = stored E s" "shape_inv E s"
  shows "fst ` set (filter (\<lambda>kv. starts_with (fst kv) ''/'') C) = {p. metadata_map s p \<noteq> None}"
proof -
  have "fst ` set (filter (\<lambda>kv. starts_with (fst kv) ''/'') C) = {p \<in> fst ` set C. starts_with p ''/''}" by auto
  also have "\<dots> = {p. starts_with p ''/'' \<and> stored E s p \<noteq> None}"
    using assms(2) by (metis map_of_eq_None_iff)
  also have "\<dots> = {p. metadata_map s p \<noteq> None}"
    using assms(3) by (auto simp: stored_slash shape_inv_def)
  finally show ?thesis .
qed

lemma scan_directory_keys:
  assumes "smap_ok C" "map_of C = stored E s"
  shows "fst ` set (filter (\<lambda>kv. \<not> starts_with (fst kv) ''/'') C) = directory_map_key ` {p. has_entry E s p}"
proof -
  have "fst ` set (filter (\<lambda>kv. \<not> starts_with (fst kv) ''/'') C) = {p \<in> fst ` set C. \<not> starts_with p ''/''}" by auto
  also have "\<dots> = {p. \<not> starts_with p ''/'' \<and> stored E s p \<noteq> None}"
    using assms(2) by (metis map_of_eq_None_iff)
  also have "\<dots> = directory_map_key ` {p. has_entry E s p}"
  proof (intro subset_antisym subsetI)
    fix k assume k: "k \<in> {p. \<not> starts_with p ''/'' \<and> stored E s p \<noteq> None}"
    then have "k = directory_map_key (substr_from k 4)" using stored_key_kinds dir_key_of by blast
    then obtain p where p: "k = directory_map_key p" by blast
    with k stored_dir [of E s p] have "has_entry E s p" by (auto split: if_splits)
    with p show "k \<in> directory_map_key ` {p. has_entry E s p}" by blast
  next
    fix k assume "k \<in> directory_map_key ` {p. has_entry E s p}"
    then show "k \<in> {p. \<not> starts_with p ''/'' \<and> stored E s p \<noteq> None}" by (auto simp: stored_dir)
  qed
  finally show ?thesis .
qed

lemma Namespace_new_sel:
  "ns_store (Namespace_new junk st) = st" "next_obj_id (Namespace_new junk st) = junk"
  "metadata_map (Namespace_new junk st) p = None" "directories (Namespace_new junk st) p = None"
  "id_to_path_map (Namespace_new junk st) oid = None"
  by (simp_all add: Namespace_new_def)

context stored_namespace
begin

lemma load_stored_metadata:
  assumes inv: "ids_inv s" "shape_inv E s" and C: "smap_ok C" "map_of C = stored E s"
  shows "\<exists>s1. load_records E (Namespace_new junk st) (filter (\<lambda>kv. starts_with (fst kv) ''/'') C @ rest) =
      load_records E s1 rest \<and> next_obj_id s1 = junk \<and> metadata_map s1 = metadata_map s \<and>
      directories s1 = (\<lambda>p. if is_dir s p then Some [] else None) \<and> id_to_path_map s1 = id_to_path_map s"
proof -
  let ?M = "\<lambda>k. the (metadata_map s k)" and ?A = "filter (\<lambda>kv. starts_with (fst kv) ''/'') C"
  note A = scan_metadata_keys [OF C inv(2)]
  have lf: "loaded_file ?M (fst ` set ?A) oid p \<longleftrightarrow> is_file s p oid" for oid p
    unfolding A by (auto simp: loaded_file_def is_file_def)
  have 1: "\<forall>(k, v)\<in>set ?A. starts_with k ''/'' \<and> deserialize E v = Some (?M k)"
    using smap_ok_map_of [OF C(1)] C(2) by (auto simp: stored_slash deserialize_serialize)
  have 2: "distinct (map fst ?A)" using smap_ok_distinct [OF smap_ok_filter [OF C(1)]] .
  have 3: "\<forall>k\<in>fst ` set ?A. directories (Namespace_new junk st) k = None" by (simp add: Namespace_new_def)
  have 4: "\<forall>p q oid. loaded_file ?M (fst ` set ?A) oid p \<longrightarrow> loaded_file ?M (fst ` set ?A) oid q \<longrightarrow> p = q"
    unfolding lf using inv(1) unfolding ids_inv_def by (metis option.inject)
  from load_metadata_records [OF 1 2 3 4, of rest, unfolded lf Namespace_new_sel] obtain s1 where
    s1: "load_records E (Namespace_new junk st) (?A @ rest) = load_records E s1 rest"
    "next_obj_id s1 = junk"
    "metadata_map s1 = (\<lambda>p. if p \<in> fst ` set ?A then Some (?M p) else None)"
    "directories s1 = (\<lambda>p. if p \<in> fst ` set ?A \<and> S_ISDIR (mode (?M p)) then Some [] else None)"
    "\<And>oid p. id_to_path_map s1 oid = Some p \<longleftrightarrow> is_file s p oid"
    by auto
  have "metadata_map s1 = metadata_map s" unfolding s1(3) A by (auto simp: fun_eq_iff)
  moreover have "directories s1 = (\<lambda>p. if is_dir s p then Some [] else None)"
    unfolding s1(4) A by (auto simp: fun_eq_iff is_dir_def)
  moreover have "id_to_path_map s1 = id_to_path_map s"
  proof (rule ext)
    fix oid
    have "id_to_path_map s1 oid = Some p \<longleftrightarrow> id_to_path_map s oid = Some p" for p
      using s1(5) inv(1) by (simp add: ids_inv_def)
    then show "id_to_path_map s1 oid = id_to_path_map s oid"
      by (metis option.exhaust)
  qed
  ultimately show ?thesis using s1(1,2) by blast
qed

lemma restart:
  assumes inv: "full_inv s" and op: "kv_open (env_kv E) st0 = (st1, OK)" "opened st1"
    and same: "contents st1 = contents (ns_store s)"
  shows "\<exists>s'. ns_init E (Namespace_new junk st0) = Done (s', OK) \<and> metadata_map s' = metadata_map s \<and>
    directories s' = directories s \<and> id_to_path_map s' = id_to_path_map s \<and> next_obj_id s' = junk"
proof -
  let ?C = "contents st1"
  let ?A = "filter (\<lambda>kv. starts_with (fst kv) ''/'') ?C" and ?B = "filter (\<lambda>kv. \<not> starts_with (fst kv) ''/'') ?C"
  have st: "map_of ?C = stored E s" using inv same by (simp add: full_inv_def store_inv_def)
  have sorted: "smap_ok ?C" using op(2) by (rule contents_ordered)
  have i: "ids_inv s" "shape_inv E s" "dirs_inv s" using inv by (simp_all add: full_inv_def ns_inv_def)
  from load_stored_metadata [OF i(1,2) sorted st] obtain s1 where
    s1: "load_records E (Namespace_new junk st1) (?A @ ?B) = load_records E s1 ?B" "next_obj_id s1 = junk"
    "metadata_map s1 = metadata_map s" "directories s1 = (\<lambda>p. if is_dir s p then Some [] else None)"
    "id_to_path_map s1 = id_to_path_map s" by blast
  note B = scan_directory_keys [OF sorted st]
  have par: "is_dir s (parent_path (env_paths E) p)" if "has_entry E s p" for p
    using entry_of_record [OF i(2) that] i(3) by (auto simp: entry_def dirs_inv_def)
  have 1: "\<forall>(k, v)\<in>set ?B. starts_with k ''dir:'' \<and>
      directories s1 (parent_path (env_paths E) (substr_from k 4)) \<noteq> None"
  proof (clarify, goal_cases)
    case (1 k v)
    then have "k \<in> fst ` set ?B" by force
    with B obtain p where "has_entry E s p" "k = directory_map_key p" by blast
    with par s1(4) show ?case by simp
  qed
  have 2: "\<forall>p xs. directories s1 p = Some xs \<longrightarrow> sset_ok xs" using s1(4) by simp
  have no: "\<not> entry s1 d f" for d f using s1(4) by (simp add: entry_def)
  from load_directory_records [OF 1 2] obtain s2 where
    s2: "load_records E s1 ?B = Done (s2, OK)" "next_obj_id s2 = next_obj_id s1"
    "metadata_map s2 = metadata_map s1" "id_to_path_map s2 = id_to_path_map s1"
    "\<And>p. directories s2 p = None \<longleftrightarrow> directories s1 p = None"
    "\<And>p xs. directories s2 p = Some xs \<Longrightarrow> sset_ok xs"
    "\<And>p f. entry s2 p f \<longleftrightarrow> entry s1 p f \<or> (\<exists>k\<in>fst ` set ?B.
       parent_path (env_paths E) (substr_from k 4) = p \<and> filename (env_paths E) (substr_from k 4) = f)"
    by blast
  have e: "entry s2 d f \<longleftrightarrow> entry s d f" for d f
    unfolding s2(7) B using no entry_of_record [OF i(2)] record_of_entry [OF i(2)] by fastforce
  have "directories s2 = directories s"
    by (rule directories_eqI [OF _ e]) (use s2(5,6) s1(4) i(3) in \<open>auto simp: dirs_inv_def\<close>)
  moreover have "ns_init E (Namespace_new junk st0) = Done (s2, OK)"
    using op(1) scan_contents [OF op(2)] s1(1) s2(1) scan_splits [OF sorted st]
    by (simp add: ns_init_def Namespace_new_def)
  ultimately show ?thesis using s2(2-4) s1(2,3,5) by metis
qed

end
section \<open>Instances\<close>

definition ser_metadata :: "FileMetadata \<Rightarrow> string" where
  "ser_metadata m =
     enc_nats [unat (object_id m), unat (mode m), unat (gid m), unat (uid m), int_encode (fsize m),
       int_encode (fst (quotient_of (atime m))), int_encode (snd (quotient_of (atime m))),
       int_encode (fst (quotient_of (ctime m))), int_encode (snd (quotient_of (ctime m))),
       int_encode (fst (quotient_of (mtime m))), int_encode (snd (quotient_of (mtime m)))]"

definition nats_rat :: "nat \<Rightarrow> nat \<Rightarrow> rat" where
  "nats_rat a b = of_int (int_decode a) / of_int (int_decode b)"

definition deser_metadata :: "string \<Rightarrow> FileMetadata option" where
  "deser_metadata s =
     (case dec_nats s of
        [oid, md, g, u, sz, a1, a2, c1, c2, m1, m2] \<Rightarrow>
          Some \<lparr>object_id = of_nat oid, mode = of_nat md, gid = of_nat g, uid = of_nat u,
                fsize = int_decode sz, atime = nats_rat a1 a2, ctime = nats_rat c1 c2, mtime = nats_rat m1 m2\<rparr>
      | _ \<Rightarrow> None)"

lemma quotient_of_inverse: "of_int (fst (quotient_of r)) / of_int (snd (quotient_of r)) = r"
  by (metis prod.collapse quotient_of_div)

lemma deser_ser_metadata: "deser_metadata (ser_metadata m) = Some m"
  by (cases m) (simp add: deser_metadata_def ser_metadata_def nats_rat_def quotient_of_inverse)

definition test_env :: "TestLevelDBStore ns_env" where
  "test_env = \<lparr>env_kv = test_kv, env_paths = posix_paths, env_md5 = (\<lambda>_. []),
     serialize = ser_metadata, deserialize = deser_metadata\<rparr>"

interpretation test_ns: stored_namespace test_env smap_ok "\<lambda>s. s"
proof -
  have "kv_store (env_kv test_env) smap_ok (\<lambda>s. s)"
    using test_store.kv_store_axioms by (simp add: test_env_def)
  then show "stored_namespace test_env smap_ok (\<lambda>s. s)"
    by (auto simp: stored_namespace_def stored_namespace_axioms_def test_env_def deser_ser_metadata)
qed

text \<open>The master runs the namespace on a \<open>LevelDBStore\<close>.\<close>

definition leveldb_env :: "'db leveldb_api \<Rightarrow> 'db LevelDBStore ns_env \<Rightarrow> bool" where
  "leveldb_env L E \<longleftrightarrow> leveldb_laws L \<and> env_kv E = leveldb_kv L \<and>
     (\<forall>m. deserialize E (serialize E m) = Some m)"

lemma leveldb_namespace:
  "leveldb_env L E \<Longrightarrow> stored_namespace E (\<lambda>st. db_ptr st \<noteq> None) (LevelDBStore_items L)"
  using leveldb_kv_store by (auto simp: leveldb_env_def stored_namespace_def stored_namespace_axioms_def)

definition log_env :: "(string \<times> string option) list LevelDBStore ns_env" where
  "log_env = \<lparr>env_kv = leveldb_kv log_leveldb, env_paths = posix_paths, env_md5 = (\<lambda>_. []),
     serialize = ser_metadata, deserialize = deser_metadata\<rparr>"

lemma leveldb_env_log: "leveldb_env log_leveldb log_env"
  by (simp add: leveldb_env_def log_env_def leveldb_laws_log deser_ser_metadata)

definition log_store :: "(string \<times> string option) list LevelDBStore" where
  "log_store = \<lparr>db_path = ''/db'', bufsize_mb = 4, db_ptr = Some []\<rparr>"

section \<open>Properties\<close>

lemma file_path_iff: "file_path s oid = Inr path \<longleftrightarrow> id_to_path_map s oid = Some path"
  by (simp add: file_path_def split: option.split)

lemma readdir_iff: "(\<exists>names. readdir s path = Inr names) \<longleftrightarrow> directories s path \<noteq> None"
  by (simp add: readdir_def split: option.split)

text \<open>A directory whose mode loses its type.\<close>

definition mode_info :: "int \<Rightarrow> RpcFileInfo" where
  "mode_info m = \<lparr>fi_object_id = None, fi_uid = None, fi_gid = None, fi_mode = Some m,
     fi_size = None, fi_ctime = None, fi_mtime = None, fi_atime = None\<rparr>"

lemmas log_kv_defs = log_env_def leveldb_kv_def LevelDBStore_put_def LevelDBStore_remove_def log_leveldb_def log_store_def to_status_def

text \<open>A database that refuses every write.\<close>

definition refusing_env :: "(string \<times> string option) list LevelDBStore ns_env" where
  "refusing_env = log_env\<lparr>env_kv := leveldb_kv (log_leveldb\<lparr>DB_Put := \<lambda>db k v. (db, LError ''full''),
     DB_Delete := \<lambda>db k. (db, LError ''full'')\<rparr>)\<rparr>"

definition log_dir_namespace :: "(string \<times> string option) list LevelDBStore Namespace" where
  "log_dir_namespace =
     \<lparr>ns_store = log_store\<lparr>db_ptr := Some [(''/d'', Some (ser_metadata (new_meta 0 0 S_IFDIR 0 0)))]\<rparr>,
      directories = [''/d'' \<mapsto> []], metadata_map = [''/d'' \<mapsto> new_meta 0 0 S_IFDIR 0 0], id_to_path_map = Map.empty, next_obj_id = 0\<rparr>"

lemma log_mkdir: "ns_step log_env (Namespace_new 0 log_store) (Mkdir 0 ''/d'' 0 0 0) = Done (log_dir_namespace, OK)"
  by (simp add: mkdir_def store_metadata_def log_kv_defs Namespace_new_def new_meta_def Let_def log_dir_namespace_def)

lemma log_run_chmod:
  "\<exists>s. ns_run log_env (Namespace_new 0 log_store) {} s \<and> directories s = [''/d'' \<mapsto> []] \<and> \<not> is_dir s ''/d''"
proof -
  have "ns_run log_env (Namespace_new 0 log_store) (behind {} (Mkdir 0 ''/d'' 0 0 0) OK) log_dir_namespace"
    by (rule ns_run.step [OF ns_run.start _ log_mkdir]) (simp add: callable_def)
  moreover obtain s where s: "ns_step log_env log_dir_namespace (Setattr ''/d'' (mode_info 0x1ED)) = Done (s, OK)"
      "directories s = [''/d'' \<mapsto> []]" "\<not> is_dir s ''/d''"
    by (simp add: setattr_def store_metadata_def log_kv_defs log_dir_namespace_def Let_def is_dir_def update_metadata_keeps
        mode_info_def S_ISDIR_def mode_defs i64_to_i32_def)
  ultimately have "ns_run log_env (Namespace_new 0 log_store)
      (behind (behind {} (Mkdir 0 ''/d'' 0 0 0) OK) (Setattr ''/d'' (mode_info 0x1ED)) OK) s"
    by (intro ns_run.step [OF _ _ s(1)]) (simp_all add: callable_def)
  with s show ?thesis by (auto simp: behind_def)
qed



text \<open>
  C2: a restart loses nothing: opening the same database again and running \<open>init\<close> succeeds and
  rebuilds the metadata, the directories with their sorted entries and the id map exactly as they
  were. Only the id counter is not restored: it is whatever memory held.
\<close>

theorem restart_recovers:
  assumes "leveldb_env L E" "db_ptr store \<noteq> None" "LevelDBStore_items L store = []"
    and "unat junk \<le> 2 ^ 48" "reachable E (Namespace_new junk store) s"
    and "LevelDBStore_open L st0 = (st1, OK)" "LevelDBStore_items L st1 = LevelDBStore_items L (ns_store s)"
  shows "\<exists>s'. ns_init E (Namespace_new junk' st0) = Done (s', OK) \<and> metadata_map s' = metadata_map s \<and>
    directories s' = directories s \<and> id_to_path_map s' = id_to_path_map s \<and> next_obj_id s' = junk'"
proof -
  note ns = leveldb_namespace [OF assms(1)]
  have "stored_namespace.full_inv E (\<lambda>st. db_ptr st \<noteq> None) (LevelDBStore_items L) s"
    by (rule stored_namespace.reachable_full [OF ns assms(5) stored_namespace.empty_full [OF ns assms(2-4)]])
  moreover have "kv_open (env_kv E) st0 = (st1, OK)"
    using assms(1,6) by (simp add: leveldb_env_def leveldb_kv_def)
  moreover have "db_ptr st1 \<noteq> None"
    using assms(6) by (auto simp: LevelDBStore_open_def Let_def to_status_def split: sum.splits)
  ultimately show ?thesis
    using assms(7) by (rule stored_namespace.restart [OF ns])
qed

text \<open>The log that is there again when the database is opened.\<close>

definition kept_leveldb :: "(string \<times> string option) list \<Rightarrow> (string \<times> string option) list leveldb_api" where
  "kept_leveldb db = log_leveldb\<lparr>DB_Open := \<lambda>_ _ _. Inr db\<rparr>"

theorem restart_recovers_witness:
  "\<exists>db s'. ns_init (log_env\<lparr>env_kv := leveldb_kv (kept_leveldb db)\<rparr>) (Namespace_new 7 (LevelDBStore_new ''/db'' 4)) = Done (s', OK) \<and>
     directories s' = [''/d'' \<mapsto> []] \<and> metadata_map s' = [''/d'' \<mapsto> new_meta 0 0 S_IFDIR 0 0] \<and> next_obj_id s' = 7"
proof -
  let ?db = "[(''/d'', Some (ser_metadata (new_meta 0 0 S_IFDIR 0 0)))]"
  let ?L = "kept_leveldb ?db" and ?E = "log_env\<lparr>env_kv := leveldb_kv (kept_leveldb ?db)\<rparr>"
  have E: "leveldb_env ?L ?E"
    using leveldb_env_log by (simp add: leveldb_env_def leveldb_laws_def kept_leveldb_def)
  have "ns_step ?E (Namespace_new 0 log_store) (Mkdir 0 ''/d'' 0 0 0) = Done (log_dir_namespace, OK)"
    by (simp add: mkdir_def store_metadata_def log_kv_defs kept_leveldb_def Namespace_new_def new_meta_def Let_def log_dir_namespace_def)
  then have r: "reachable ?E (Namespace_new 0 log_store) log_dir_namespace"
    by (rule reachable.step [OF reachable.start, rotated]) (simp_all add: allowed_def)
  have o: "LevelDBStore_open ?L (LevelDBStore_new ''/db'' 4) = (\<lparr>db_path = ''/db'', bufsize_mb = 4, db_ptr = Some ?db\<rparr>, OK)"
    by (simp add: LevelDBStore_open_def LevelDBStore_new_def kept_leveldb_def)
  have "LevelDBStore_items ?L log_store = []" "db_ptr log_store \<noteq> None"
    "LevelDBStore_items ?L \<lparr>db_path = ''/db'', bufsize_mb = 4, db_ptr = Some ?db\<rparr> = LevelDBStore_items ?L (ns_store log_dir_namespace)"
    by (simp_all add: LevelDBStore_items_def log_store_def kept_leveldb_def log_leveldb_def log_items_def log_dir_namespace_def)
  from restart_recovers [OF E this(2,1) _ r o this(3), where junk' = 7] show ?thesis
    by (auto simp: log_dir_namespace_def)
qed

text \<open>
  C32: creating a file under a free path gives it an id no file has, with the hash of the path in the
  upper 16 bits; the path and the id lead to each other afterwards, and every other file keeps
  its id.
\<close>

theorem create_assigns_fresh_id:
  assumes "ns_inv s" "unat (next_obj_id s) < 2 ^ 48" "metadata_map s path = None"
    and "create E now s path md u g = Done (s', Inr oid)"
  shows "file_path s oid = Inl (Err (- ENOENT) ''The object ID does not exist.'') \<and>
    drop_bit 48 oid = drop_bit 48 (word_of_int (path_to_hash (env_md5 E) path)) \<and>
    file_path s' oid = Inr path \<and> ns_object_id s' path = Inr oid \<and>
    (\<forall>p i. is_file s p i \<longrightarrow> file_path s' i = Inr p \<and> ns_object_id s' p = Inr i)"
  using assms(4)
proof (cases rule: create_cases)
  case (2 s1 i st meta)
  have f: "fresh_inv s" "ids_inv s" using assms(1) by (simp_all add: ns_inv_def)
  have i: "i = oid" using 2(6) by simp
  have free: "id_to_path_map s oid = None" using fresh_id_unused [OF f(1) 2(2) assms(2)] i by simp
  have "drop_bit 48 oid = drop_bit 48 (word_of_int (path_to_hash (env_md5 E) path))"
    using get_object_id_prefix [OF 2(2)] i by simp
  moreover have "i' \<noteq> oid \<and> p \<noteq> path" if "is_file s p i'" for p i'
    using that file_owner [OF f(2)] free assms(3) by (auto simp: is_file_def)
  then have "file_path s' i' = Inr p \<and> ns_object_id s' p = Inr i'" if "is_file s p i'" for p i'
    using that file_owner [OF f(2)] i by (auto simp: 2(5) file_path_iff ns_object_id_def is_file_def)
  ultimately show ?thesis
    using free i 2(3) by (simp add: 2(5) file_path_def ns_object_id_def)
qed simp

theorem create_assigns_fresh_id_witness:
  "\<exists>s' oid. create test_env 0 (Namespace_new 0 []) ''/a'' 0 0 0 = Done (s', Inr oid) \<and>
     file_path s' oid = Inr ''/a'' \<and> ns_object_id s' ''/a'' = Inr oid"
proof -
  let ?s = "Namespace_new 0 ([] :: TestLevelDBStore)"
  have inv: "ns_inv ?s" using test_ns.empty_full [of "[]" 0] by (simp add: test_ns.full_inv_def)
  obtain s' oid where c: "create test_env 0 ?s ''/a'' 0 0 0 = Done (s', Inr oid)"
    by (auto simp: create_def get_object_id_def Let_def store_metadata_def test_env_def test_kv_defs
        Namespace_new_def)
  show ?thesis
    using c create_assigns_fresh_id [OF inv _ _ c] by (simp add: Namespace_new_def)
qed





lemma double_roundtrip: "\<bar>t\<bar> < 2 ^ 53 \<Longrightarrow> double_to_i64 (i64_to_double t) = Done t"
proof -
  assume t: "\<bar>t\<bar> < 2 ^ 53"
  then have "excess_bits (nat \<bar>t\<bar>) = 0" by (subst excess_bits.simps) (simp add: nat_less_iff)
  then have "round53 (nat \<bar>t\<bar>) = nat \<bar>t\<bar>" by (simp add: round53_def)
  then have "i64_to_double t = of_int t"
    by (simp add: i64_to_double_def sgn_mult_abs)
  with t show ?thesis by (auto simp: double_to_i64_def in_int64_def int64_min_def int64_max_def)
qed

lemma i32_roundtrip: "- (2 ^ 31) \<le> v \<Longrightarrow> v < 2 ^ 31 \<Longrightarrow> i32_to_i64 (i64_to_i32 v) = v"
  unfolding i32_to_i64_def i64_to_i32_def
  by (simp add: int_word_sint)

text \<open>
  attributes that fit their fields come back as they were set: after a successful \<open>setattr\<close> of
  every attribute, \<open>getattr\<close> returns the same owner, mode, size and times, and the id the file had.
\<close>

theorem setattr_getattr:
  assumes "metadata_map s path = Some meta" "setattr E s path info = Done (s', OK)"
    and "info = \<lparr>fi_object_id = o', fi_uid = Some u, fi_gid = Some g, fi_mode = Some m, fi_size = Some z,
      fi_ctime = Some tc, fi_mtime = Some tm, fi_atime = Some ta\<rparr>"
    and "- (2 ^ 31) \<le> u" "u < 2 ^ 31" "- (2 ^ 31) \<le> g" "g < 2 ^ 31" "- (2 ^ 31) \<le> m" "m < 2 ^ 31"
    and "\<bar>tc\<bar> < 2 ^ 53" "\<bar>tm\<bar> < 2 ^ 53" "\<bar>ta\<bar> < 2 ^ 53"
  shows "getattr s' path = Done (Inr (info\<lparr>fi_object_id := Some (sint (object_id meta))\<rparr>))"
  using assms(2)
proof (cases rule: setattr_cases)
  case (2 st meta')
  then have "metadata_map s' path = Some (update_metadata info meta)" using assms(1) by simp
  then show ?thesis
    using assms(4-)
    by (simp add: getattr_def update_metadata_def set_if_def assms(3) double_roundtrip i32_roundtrip)
qed simp

theorem setattr_getattr_witness:
  "\<exists>s'. setattr test_env (Namespace_new 0 []\<lparr>metadata_map := [''/a'' \<mapsto> new_meta 0 5 S_IFREG 0 0]\<rparr>) ''/a''
      \<lparr>fi_object_id = None, fi_uid = Some 1000, fi_gid = Some 100, fi_mode = Some 0x81A4, fi_size = Some 7,
       fi_ctime = Some 3, fi_mtime = Some 2, fi_atime = Some 1\<rparr> = Done (s', OK) \<and>
    getattr s' ''/a'' = Done (Inr \<lparr>fi_object_id = Some 5, fi_uid = Some 1000, fi_gid = Some 100,
      fi_mode = Some 0x81A4, fi_size = Some 7, fi_ctime = Some 3, fi_mtime = Some 2, fi_atime = Some 1\<rparr>)"
proof -
  let ?s = "Namespace_new 0 []\<lparr>metadata_map := [''/a'' \<mapsto> new_meta 0 5 S_IFREG 0 0]\<rparr>"
  let ?i = "\<lparr>fi_object_id = None, fi_uid = Some 1000, fi_gid = Some 100, fi_mode = Some 0x81A4, fi_size = Some 7,
       fi_ctime = Some 3, fi_mtime = Some 2, fi_atime = Some 1\<rparr>"
  obtain s' where s': "setattr test_env ?s ''/a'' ?i = Done (s', OK)"
    by (simp add: setattr_def store_metadata_def Let_def test_env_def test_kv_defs)
  show ?thesis
    using s' setattr_getattr [OF _ s' refl, of "new_meta 0 5 S_IFREG 0 0"] by simp
qed

lemma create_root:
  assumes "metadata_map s path = None" "id_to_path_map s (next_obj_id s AND mask 48) \<noteq> Some path" "next_obj_id s \<noteq> mask 63"
  shows "create test_env 0 s path 0 0 0 =
    (let oid = next_obj_id s AND mask 48; meta = new_meta 0 oid S_IFREG 0 0 in
     Done (s\<lparr>next_obj_id := next_obj_id s + 1, metadata_map := (metadata_map s)(path \<mapsto> meta),
             id_to_path_map := (id_to_path_map s)(oid \<mapsto> path),
             ns_store := smap_put path (ser_metadata meta) (ns_store s)\<rparr>, Inr oid))"
proof -
  have "path_to_hash (\<lambda>_. []) path = 0" by (simp add: path_to_hash_def word_rcat_def)
  then have "get_object_id (\<lambda>_. []) s path = (s\<lparr>next_obj_id := next_obj_id s + 1\<rparr>, next_obj_id s AND mask 48)"
    by (simp add: get_object_id_def Let_def test_env_def mask_eq_exp_minus_1 push_bit_eq_mult)
  with assms show ?thesis
    by (simp add: create_def Let_def store_metadata_def new_meta_def test_env_def test_kv_defs)
qed


text \<open>
  a \<open>setattr\<close> whose mode lacks the directory bits turns a directory into something \<open>remove\<close>
  accepts, but that has no entry in the id map: the following \<open>remove\<close> deletes the record and then
  fails its \<open>CHECK\<close>.
\<close>

theorem remove_after_type_change_aborts:
  assumes "ns_inv s" "is_dir s path" "fi_mode info = Some m" "\<not> S_ISDIR (i64_to_i32 m)"
    and "setattr E s path info = Done (s', OK)" "kv_remove (env_kv E) (ns_store s') path = Done (st, OK)"
  shows "ns_remove E s' path = Fail CheckFailed"
proof -
  obtain meta where meta: "metadata_map s path = Some meta" "S_ISDIR (mode meta)"
    using assms(2) by (auto simp: is_dir_def)
  then have "id_to_path_map s oid \<noteq> Some path" for oid
    using assms(1) by (auto simp: ns_inv_def ids_inv_def is_file_def)
  with assms(5) meta show ?thesis
  proof (cases rule: setattr_cases)
    case (2 st' meta')
    with meta assms(3,4,6) \<open>\<And>oid. id_to_path_map s oid \<noteq> Some path\<close> show ?thesis
      by (simp add: ns_remove_def update_metadata_keeps)
  qed simp
qed

theorem remove_after_type_change_aborts_witness:
  "\<exists>s s'. setattr test_env s ''/d'' \<lparr>fi_object_id = None, fi_uid = None, fi_gid = None, fi_mode = Some 0x1ED,
      fi_size = None, fi_ctime = None, fi_mtime = None, fi_atime = None\<rparr> = Done (s', OK) \<and>
     is_dir s ''/d'' \<and> ns_remove test_env s' ''/d'' = Fail CheckFailed"
proof -
  let ?s = "Namespace_new 0 []\<lparr>metadata_map := [''/d'' \<mapsto> new_meta 0 0 S_IFDIR 0 0], directories := [''/d'' \<mapsto> []]\<rparr>"
  let ?i = "\<lparr>fi_object_id = None, fi_uid = None, fi_gid = None, fi_mode = Some 0x1ED,
      fi_size = None, fi_ctime = None, fi_mtime = None, fi_atime = None\<rparr>"
  have d: "S_ISDIR S_IFDIR" "\<not> S_ISDIR (i64_to_i32 0x1ED)" by (simp_all add: S_ISDIR_def mode_defs i64_to_i32_def)
  have inv: "ns_inv ?s" "is_dir ?s ''/d''" using d(1) by (auto simp: Namespace_new_def ns_inv_split)
  obtain s' where s': "setattr test_env ?s ''/d'' ?i = Done (s', OK)"
    by (simp add: setattr_def store_metadata_def Let_def test_env_def test_kv_defs)
  have r: "kv_remove (env_kv test_env) (ns_store s') ''/d'' = Done (smap_erase ''/d'' (ns_store s'), OK)"
    by (simp add: test_env_def test_kv_defs)
  show ?thesis
    using remove_after_type_change_aborts [OF inv _ d(2) s' r] s' inv(2) by auto
qed

end
