(* ===== verification/Index_Namespace.thy ===== *)
theory Index_Namespace
  imports Kv_Store Path_Util Rpc_Types Codec
begin

text \<open>
  \<open>IndexNamespace\<close> (\<open>vsfs/masterd/index_namespace.cpp\<close>): which named indices exist on which
  directories, an ordered map from directory to the set of index names, written through to a
  key-value store. Thrift's serialisation is a field of \<open>ix_env\<close>.
\<close>

section \<open>State\<close>

record IndexNamespaceNode =
  nd_path :: string
  nd_names :: "string list"

record 's ix_env =
  ix_kv :: "'s kv_api"
  ix_paths :: path_api
  serialize_namespace_node :: "IndexNamespaceNode \<Rightarrow> string"
  deserialize_node :: "string \<Rightarrow> IndexNamespaceNode option"

record 's IndexNamespace =
  ix_store :: 's
  nodes :: "(string \<times> IndexNamespaceNode) list"

definition IndexNamespace_new :: "'s \<Rightarrow> 's IndexNamespace" where
  "IndexNamespace_new store = \<lparr>ix_store = store, nodes = []\<rparr>"

section \<open>Operations\<close>

text \<open>\<open>nodes_.insert\<close> keeps an entry that is already there.\<close>

fun ix_load :: "'s ix_env \<Rightarrow> 's IndexNamespace \<Rightarrow> (string \<times> string) list \<Rightarrow> 's IndexNamespace \<times> Status" where
  "ix_load E s [] = (s, OK)"
| "ix_load E s (r # rs) =
     (case deserialize_node E (snd r) of
        None \<Rightarrow> (s, Err (-1) ''Failed to deserialize namespace node.'')
      | Some node \<Rightarrow>
          ix_load E (if map_of (nodes s) (fst r) = None
                     then s\<lparr>nodes := smap_put (fst r) node (nodes s)\<rparr> else s) rs)"

definition ix_init :: "'s ix_env \<Rightarrow> 's IndexNamespace \<Rightarrow> ('s IndexNamespace \<times> Status) outcome" where
  "ix_init E s =
     (case kv_open (ix_kv E) (ix_store s) of (st, status) \<Rightarrow>
        let s1 = s\<lparr>ix_store := st\<rparr> in
        if \<not> ok status then Done (s1, status)
        else bindo (kv_scan (ix_kv E) st) (\<lambda>rs. Done (ix_load E s1 rs)))"

fun cleanup_loop :: "string \<Rightarrow> nat \<Rightarrow> nat" where
  "cleanup_loop path 0 = 0"
| "cleanup_loop path (Suc pos) = (if path ! Suc pos = CHR ''/'' then cleanup_loop path pos else Suc pos)"

text \<open>On the empty string \<open>path.size() - 1\<close> wraps and \<open>path[pos]\<close> is outside the string.\<close>

definition cleanup_path :: "string \<Rightarrow> string outcome" where
  "cleanup_path path =
     (if path = [] then Fail Undefined
      else Done (substr path 0 (cleanup_loop path (length path - 1) + 1)))"

definition put_node ::
  "'s ix_env \<Rightarrow> 's IndexNamespace \<Rightarrow> string \<Rightarrow> IndexNamespaceNode \<Rightarrow> ('s IndexNamespace \<times> Status) outcome" where
  "put_node E s key node =
     bindo (kv_put (ix_kv E) (ix_store s) key (serialize_namespace_node E node))
       (\<lambda>(st, status). Done (s\<lparr>ix_store := st\<rparr>, status))"

definition ix_insert ::
  "'s ix_env \<Rightarrow> 's IndexNamespace \<Rightarrow> string \<Rightarrow> string \<Rightarrow> ('s IndexNamespace \<times> Status) outcome" where
  "ix_insert E s path name =
     bindo (cleanup_path path) (\<lambda>key.
       let node = (case map_of (nodes s) key of
                     None \<Rightarrow> \<lparr>nd_path = key, nd_names = []\<rparr> | Some n \<Rightarrow> n)
       in if name \<in> set (nd_names node) then Done (s, Err (- EEXIST) ''The named index have existed.'')
          else
            let node' = node\<lparr>nd_names := sset_insert name (nd_names node)\<rparr>;
                s1 = s\<lparr>nodes := smap_put key node' (nodes s)\<rparr>
            in bindo (put_node E s1 key node')
                 (\<lambda>(s2, status).
                    if \<not> ok status then
                      Done (s2\<lparr>nodes := smap_put key (node'\<lparr>nd_names := sset_erase name (nd_names node')\<rparr>) (nodes s2)\<rparr>,
                            status)
                    else Done (s2, status)))"

definition ix_remove ::
  "'s ix_env \<Rightarrow> 's IndexNamespace \<Rightarrow> string \<Rightarrow> string \<Rightarrow> ('s IndexNamespace \<times> Status) outcome" where
  "ix_remove E s path name =
     bindo (cleanup_path path) (\<lambda>key.
       case map_of (nodes s) key of
         None \<Rightarrow> Done (s, Err (- ENOENT) ''The index does not exist.'')
       | Some node \<Rightarrow>
           if name \<notin> set (nd_names node) then Done (s, Err (- ENOENT) ''The index does not exist.'')
           else
             let node' = node\<lparr>nd_names := sset_erase name (nd_names node)\<rparr>;
                 s1 = s\<lparr>nodes := smap_put key node' (nodes s)\<rparr>
             in bindo (put_node E s1 key node')
                  (\<lambda>(s2, status).
                     if \<not> ok status then
                       Done (s2\<lparr>nodes := smap_put key (node'\<lparr>nd_names := sset_insert name (nd_names node')\<rparr>) (nodes s2)\<rparr>,
                             status)
                     else Done (s2, status)))"

definition ix_remove_path ::
  "'s ix_env \<Rightarrow> 's IndexNamespace \<Rightarrow> string \<Rightarrow> ('s IndexNamespace \<times> Status) outcome" where
  "ix_remove_path E s path =
     bindo (cleanup_path path) (\<lambda>key.
       case map_of (nodes s) key of
         None \<Rightarrow> Done (s, Err (- ENOENT) ''The directory is not existed.'')
       | Some _ \<Rightarrow>
           bindo (kv_remove (ix_kv E) (ix_store s) key)
             (\<lambda>(st, status).
                let s1 = s\<lparr>ix_store := st\<rparr> in
                if \<not> ok status then Done (s1, status)
                else Done (s1\<lparr>nodes := smap_erase key (nodes s1)\<rparr>, status)))"

definition node_has :: "'s IndexNamespace \<Rightarrow> string \<Rightarrow> string \<Rightarrow> bool" where
  "node_has s key name \<longleftrightarrow> (case map_of (nodes s) key of None \<Rightarrow> False | Some node \<Rightarrow> name \<in> set (nd_names node))"

definition have_index :: "'s IndexNamespace \<Rightarrow> string \<Rightarrow> string \<Rightarrow> bool outcome" where
  "have_index s path name = bindo (cleanup_path path) (\<lambda>key. Done (node_has s key name))"

function find_loop :: "'s IndexNamespace \<Rightarrow> string \<Rightarrow> string \<Rightarrow> string option" where
  "find_loop s partial_path name =
     (if node_has s partial_path name then Some partial_path
      else case find_last_of CHR ''/'' partial_path of
        None \<Rightarrow> None
      | Some pos \<Rightarrow> if pos = 0 then None else find_loop s (substr partial_path 0 pos) name)"
  by pat_completeness auto
termination
  by (relation "measure (\<lambda>(s, p, name). length p)")
     (auto simp: substr_def min_def dest: find_last_of_SomeD(1))

declare find_loop.simps [simp del]

definition ix_find :: "'s IndexNamespace \<Rightarrow> string \<Rightarrow> string \<Rightarrow> Status + string" where
  "ix_find s file_name name =
     (case find_loop s file_name name of
        Some p \<Rightarrow> Inr p
      | None \<Rightarrow>
          if node_has s ''/'' name then Inr ''/''
          else Inl (Err (- ENOENT) ''The index does not exist.''))"

fun collect_loop :: "string \<Rightarrow> string \<Rightarrow> (string \<times> IndexNamespaceNode) list \<Rightarrow> string list" where
  "collect_loop root name [] = []"
| "collect_loop root name ((path, node) # rest) =
     (if \<not> starts_with path root then []
      else if name \<in> set (nd_names node) then path # collect_loop root name rest
      else collect_loop root name rest)"

definition collect :: "'s IndexNamespace \<Rightarrow> string \<Rightarrow> string \<Rightarrow> string list" where
  "collect s root name = collect_loop root name (lower_bound root (nodes s))"

definition get_index_names :: "'s IndexNamespace \<Rightarrow> string \<Rightarrow> string list" where
  "get_index_names s path = (case map_of (nodes s) path of None \<Rightarrow> [] | Some node \<Rightarrow> nd_names node)"

fun indices_loop :: "path_api \<Rightarrow> string \<Rightarrow> (string \<times> IndexNamespaceNode) list \<Rightarrow> string list" where
  "indices_loop P root [] = []"
| "indices_loop P root ((path, node) # rest) =
     (if \<not> starts_with path root then []
      else map (index_path P path) (nd_names node) @ indices_loop P root rest)"

definition get_indices :: "'s ix_env \<Rightarrow> 's IndexNamespace \<Rightarrow> string \<Rightarrow> bool \<Rightarrow> string list" where
  "get_indices E s root recursive =
     (if recursive then indices_loop (ix_paths E) root (lower_bound root (nodes s))
      else map (index_path (ix_paths E) root) (get_index_names s root))"

section \<open>Paths\<close>

lemma cleanup_loop_le: "cleanup_loop path n \<le> n"
  by (induction n) auto

lemma cleanup_loop_stop: "cleanup_loop path n = 0 \<or> path ! cleanup_loop path n \<noteq> CHR ''/''"
  by (induction n) auto

lemma cleanup_path_clean:
  assumes "path \<noteq> []" "path = ''/'' \<or> last path \<noteq> CHR ''/''"
  shows "cleanup_path path = Done path"
proof -
  have "cleanup_loop path (length path - 1) = length path - 1"
    using assms by (cases "length path - 1") (auto simp: last_conv_nth)
  with assms(1) show ?thesis by (simp add: cleanup_path_def substr_def)
qed

text \<open>The result of \<open>cleanup_path\<close> is the root or has no slash at its end.\<close>

lemma cleanup_path_result:
  assumes "cleanup_path path = Done key"
  shows "key \<noteq> [] \<and> (length key = 1 \<or> last key \<noteq> CHR ''/'')"
proof -
  let ?n = "cleanup_loop path (length path - 1)"
  from assms have p: "path \<noteq> []" and k: "key = take (?n + 1) path"
    by (auto simp: cleanup_path_def substr_def split: if_splits)
  have lt: "?n < length path" using cleanup_loop_le [of path "length path - 1"] p
    by (metis One_nat_def diff_Suc_less length_greater_0_conv order_le_less_trans)
  then have key: "length key = ?n + 1" "last key = path ! ?n"
    unfolding k by (simp_all add: take_Suc_conv_app_nth)
  with cleanup_loop_stop [of path "length path - 1"] show ?thesis by auto
qed

section \<open>Invariant\<close>

definition old_node :: "'s IndexNamespace \<Rightarrow> string \<Rightarrow> IndexNamespaceNode" where
  "old_node s key = (case map_of (nodes s) key of None \<Rightarrow> \<lparr>nd_path = key, nd_names = []\<rparr> | Some n \<Rightarrow> n)"

definition nodes_inv :: "'s IndexNamespace \<Rightarrow> bool" where
  "nodes_inv s \<longleftrightarrow> smap_ok (nodes s) \<and> (\<forall>key node. map_of (nodes s) key = Some node \<longrightarrow> sset_ok (nd_names node))"

lemma node_has_old: "node_has s key name \<longleftrightarrow> name \<in> set (nd_names (old_node s key))"
  by (simp add: node_has_def old_node_def split: option.split)

lemma old_node_ok: "nodes_inv s \<Longrightarrow> sset_ok (nd_names (old_node s key))"
  by (auto simp: nodes_inv_def old_node_def split: option.split)

lemma nodes_inv_put: "nodes_inv s \<Longrightarrow> sset_ok (nd_names node) \<Longrightarrow> nodes s' = smap_put key node (nodes s) \<Longrightarrow> nodes_inv s'"
  by (auto simp: nodes_inv_def intro: smap_intros)

lemma node_has_put:
  "nodes s' = smap_put key node (nodes s) \<Longrightarrow>
     node_has s' k n \<longleftrightarrow> (if k = key then n \<in> set (nd_names node) else node_has s k n)"
  by (simp add: node_has_def)

text \<open>One call of \<open>insert\<close> or \<open>remove\<close>: a guard's error, a failed write, or the new set of names.\<close>

lemma ix_insert_cases:
  assumes "ix_insert E s path name = Done (s', status)" "nodes_inv s"
  obtains key where "cleanup_path path = Done key" "node_has s key name" "s' = s"
      "status = Err (- EEXIST) ''The named index have existed.''"
  | key node where "cleanup_path path = Done key" "\<not> node_has s key name"
      "node = (old_node s key)\<lparr>nd_names := sset_insert name (nd_names (old_node s key))\<rparr>"
      "kv_put (ix_kv E) (ix_store s) key (serialize_namespace_node E node) = Done (ix_store s', status)"
      "nodes s' = smap_put key (if ok status then node else old_node s key) (nodes s)"
proof -
  obtain key where key: "cleanup_path path = Done key" using assms(1) by (auto simp: ix_insert_def)
  let ?n = "old_node s key"
  let ?node = "?n\<lparr>nd_names := sset_insert name (nd_names ?n)\<rparr>"
  have i: "ix_insert E s path name = (if name \<in> set (nd_names ?n)
      then Done (s, Err (- EEXIST) ''The named index have existed.'')
      else bindo (put_node E (s\<lparr>nodes := smap_put key ?node (nodes s)\<rparr>) key ?node)
        (\<lambda>(s2, status). if \<not> ok status
          then Done (s2\<lparr>nodes := smap_put key (?node\<lparr>nd_names := sset_erase name (nd_names ?node)\<rparr>) (nodes s2)\<rparr>, status)
          else Done (s2, status)))"
    by (simp only: ix_insert_def key bindo.simps Let_def old_node_def)
  show ?thesis
  proof (cases "node_has s key name")
    case True
    have "s' = s" "status = Err (- EEXIST) ''The named index have existed.''"
      using assms(1) True unfolding i by (simp_all add: node_has_old)
    with key True show ?thesis by (rule that(1))
  next
    case False
    have undo: "?node\<lparr>nd_names := sset_erase name (nd_names ?node)\<rparr> = ?n"
      using sset_erase_insert [OF old_node_ok [OF assms(2)]] False by (simp add: node_has_old)
    from assms(1) False obtain st where st: "kv_put (ix_kv E) (ix_store s) key (serialize_namespace_node E ?node) = Done (st, status)"
      "s' = (if ok status then s\<lparr>nodes := smap_put key ?node (nodes s), ix_store := st\<rparr>
             else s\<lparr>ix_store := st, nodes := smap_put key ?n (smap_put key ?node (nodes s))\<rparr>)"
      unfolding i undo by (auto simp: node_has_old put_node_def split: if_splits)
    have "ix_store s' = st" "nodes s' = smap_put key (if ok status then ?node else ?n) (nodes s)"
      using st(2) by (simp_all add: smap_put_put)
    with st(1) show ?thesis by (intro that(2) [OF key False refl]) simp_all
  qed
qed

lemma ix_remove_cases:
  assumes "ix_remove E s path name = Done (s', status)" "nodes_inv s"
  obtains key where "cleanup_path path = Done key" "\<not> node_has s key name" "s' = s"
      "status = Err (- ENOENT) ''The index does not exist.''"
  | key node where "cleanup_path path = Done key" "node_has s key name"
      "node = (old_node s key)\<lparr>nd_names := sset_erase name (nd_names (old_node s key))\<rparr>"
      "kv_put (ix_kv E) (ix_store s) key (serialize_namespace_node E node) = Done (ix_store s', status)"
      "nodes s' = smap_put key (if ok status then node else old_node s key) (nodes s)"
proof -
  obtain key where key: "cleanup_path path = Done key" using assms(1) by (auto simp: ix_remove_def)
  let ?n = "old_node s key"
  let ?node = "?n\<lparr>nd_names := sset_erase name (nd_names ?n)\<rparr>"
  have i: "ix_remove E s path name = (if \<not> node_has s key name
      then Done (s, Err (- ENOENT) ''The index does not exist.'')
      else bindo (put_node E (s\<lparr>nodes := smap_put key ?node (nodes s)\<rparr>) key ?node)
        (\<lambda>(s2, status). if \<not> ok status
          then Done (s2\<lparr>nodes := smap_put key (?node\<lparr>nd_names := sset_insert name (nd_names ?node)\<rparr>) (nodes s2)\<rparr>, status)
          else Done (s2, status)))"
    by (cases "map_of (nodes s) key")
      (simp_all only: ix_remove_def key bindo.simps Let_def old_node_def node_has_def option.case if_False if_True not_False_eq_True not_not)
  show ?thesis
  proof (cases "node_has s key name")
    case False
    have "s' = s" "status = Err (- ENOENT) ''The index does not exist.''"
      using assms(1) False unfolding i by simp_all
    with key False show ?thesis by (rule that(1))
  next
    case True
    have undo: "?node\<lparr>nd_names := sset_insert name (nd_names ?node)\<rparr> = ?n"
      using sset_insert_erase [OF old_node_ok [OF assms(2)]] True by (simp add: node_has_old)
    from assms(1) True obtain st where st: "kv_put (ix_kv E) (ix_store s) key (serialize_namespace_node E ?node) = Done (st, status)"
      "s' = (if ok status then s\<lparr>nodes := smap_put key ?node (nodes s), ix_store := st\<rparr>
             else s\<lparr>ix_store := st, nodes := smap_put key ?n (smap_put key ?node (nodes s))\<rparr>)"
      unfolding i undo by (auto simp: put_node_def split: if_splits)
    have "ix_store s' = st" "nodes s' = smap_put key (if ok status then ?node else ?n) (nodes s)"
      using st(2) by (simp_all add: smap_put_put)
    with st(1) show ?thesis by (intro that(2) [OF key True refl]) simp_all
  qed
qed

lemma ix_remove_path_cases:
  assumes "ix_remove_path E s path = Done (s', status)"
  obtains key where "cleanup_path path = Done key" "map_of (nodes s) key = None" "s' = s"
      "status = Err (- ENOENT) ''The directory is not existed.''"
  | key where "cleanup_path path = Done key" "map_of (nodes s) key \<noteq> None"
      "kv_remove (ix_kv E) (ix_store s) key = Done (ix_store s', status)"
      "nodes s' = (if ok status then smap_erase key (nodes s) else nodes s)"
proof -
  obtain key where key: "cleanup_path path = Done key" using assms(1) by (auto simp: ix_remove_path_def)
  show ?thesis
  proof (cases "map_of (nodes s) key")
    case None
    then have "s' = s" "status = Err (- ENOENT) ''The directory is not existed.''"
      using assms key by (simp_all add: ix_remove_path_def)
    with key None show ?thesis by (rule that(1))
  next
    case (Some n)
    then obtain st where "kv_remove (ix_kv E) (ix_store s) key = Done (st, status)"
      "s' = (if ok status then s\<lparr>ix_store := st, nodes := smap_erase key (nodes s)\<rparr> else s\<lparr>ix_store := st\<rparr>)"
      using assms key by (auto simp: ix_remove_path_def Let_def split: if_splits)
    then show ?thesis using Some by (intro that(2) [OF key]) auto
  qed
qed

section \<open>Refinement of a set of pairs\<close>

datatype ix_op = Ix_Insert string string | Ix_Remove string string | Ix_Remove_Path string

fun ix_step :: "'s ix_env \<Rightarrow> 's IndexNamespace \<Rightarrow> ix_op \<Rightarrow> ('s IndexNamespace \<times> Status) outcome" where
  "ix_step E s (Ix_Insert path name) = ix_insert E s path name"
| "ix_step E s (Ix_Remove path name) = ix_remove E s path name"
| "ix_step E s (Ix_Remove_Path path) = ix_remove_path E s path"

definition ix_abs :: "'s IndexNamespace \<Rightarrow> (string \<times> string) set" where
  "ix_abs s = {(key, name). node_has s key name}"

text \<open>The abstract namespace: a set of pairs of directory and index name.\<close>

fun ix_spec :: "(string \<times> string) set \<Rightarrow> ix_op \<Rightarrow> Status \<Rightarrow> (string \<times> string) set \<Rightarrow> bool" where
  "ix_spec A (Ix_Insert path name) status A' \<longleftrightarrow>
     (\<exists>key. cleanup_path path = Done key \<and>
        (if (key, name) \<in> A then status = Err (- EEXIST) ''The named index have existed.'' \<and> A' = A
         else A' = (if ok status then insert (key, name) A else A)))"
| "ix_spec A (Ix_Remove path name) status A' \<longleftrightarrow>
     (\<exists>key. cleanup_path path = Done key \<and>
        (if (key, name) \<notin> A then status = Err (- ENOENT) ''The index does not exist.'' \<and> A' = A
         else A' = (if ok status then A - {(key, name)} else A)))"
| "ix_spec A (Ix_Remove_Path path) status A' \<longleftrightarrow>
     (\<exists>key. cleanup_path path = Done key \<and>
        A' = (if ok status then {p \<in> A. fst p \<noteq> key} else A))"

lemma ix_abs_put:
  "nodes s' = smap_put key node (nodes s) \<Longrightarrow>
     ix_abs s' = {p \<in> ix_abs s. fst p \<noteq> key} \<union> {(key, n) | n. n \<in> set (nd_names node)}"
  by (auto simp: ix_abs_def node_has_put split: if_splits)

lemma ix_abs_old: "{p \<in> ix_abs s. fst p \<noteq> key} \<union> {(key, n) | n. n \<in> set (nd_names (old_node s key))} = ix_abs s"
  by (auto simp: ix_abs_def node_has_old)

lemma ix_step_refines:
  assumes "nodes_inv s" "ix_step E s op = Done (s', status)"
  shows "nodes_inv s' \<and> ix_spec (ix_abs s) op status (ix_abs s')"
proof (cases op)
  case (Ix_Insert path name)
  then have "ix_insert E s path name = Done (s', status)" using assms(2) by simp
  from this assms(1) show ?thesis
  proof (cases rule: ix_insert_cases)
    case (1 key)
    with assms(1) Ix_Insert show ?thesis by (auto simp: ix_abs_def)
  next
    case (2 key node)
    have "nodes_inv s'"
      by (rule nodes_inv_put [OF assms(1) _ 2(5)])
         (use 2(3) old_node_ok [OF assms(1)] in \<open>auto intro: smap_intros\<close>)
    moreover have "ix_abs s' = (if ok status then insert (key, name) (ix_abs s) else ix_abs s)"
      using 2(2,3) unfolding ix_abs_put [OF 2(5)]
      by (auto simp: ix_abs_def node_has_old)
    ultimately show ?thesis using 2(1,2) Ix_Insert by (auto simp: ix_abs_def)
  qed
next
  case (Ix_Remove path name)
  then have "ix_remove E s path name = Done (s', status)" using assms(2) by simp
  from this assms(1) show ?thesis
  proof (cases rule: ix_remove_cases)
    case (1 key)
    with assms(1) Ix_Remove show ?thesis by (auto simp: ix_abs_def)
  next
    case (2 key node)
    have "nodes_inv s'"
      by (rule nodes_inv_put [OF assms(1) _ 2(5)])
         (use 2(3) old_node_ok [OF assms(1)] in \<open>auto intro: smap_intros\<close>)
    moreover have "ix_abs s' = (if ok status then ix_abs s - {(key, name)} else ix_abs s)"
      using 2(2,3) unfolding ix_abs_put [OF 2(5)]
      by (auto simp: ix_abs_def node_has_old)
    ultimately show ?thesis using 2(1,2) Ix_Remove by (auto simp: ix_abs_def)
  qed
next
  case (Ix_Remove_Path path)
  then have "ix_remove_path E s path = Done (s', status)" using assms(2) by simp
  then show ?thesis
  proof (cases rule: ix_remove_path_cases)
    case (1 key)
    with assms(1) Ix_Remove_Path show ?thesis by auto
  next
    case (2 key)
    with assms(1) have "nodes_inv s'" by (auto simp: nodes_inv_def intro: smap_intros split: if_splits)
    moreover have "ix_abs s' = (if ok status then {p \<in> ix_abs s. fst p \<noteq> key} else ix_abs s)"
      using 2(4) by (auto simp: ix_abs_def node_has_def split: if_splits)
    ultimately show ?thesis using 2(1) Ix_Remove_Path by auto
  qed
qed

section \<open>Lookups\<close>

lemma collect_loop_filter:
  "collect_loop root name xs =
     map fst (filter (\<lambda>kv. name \<in> set (nd_names (snd kv))) (takeWhile (\<lambda>kv. starts_with (fst kv) root) xs))"
  by (induction xs) auto

lemma collect_filter:
  assumes "smap_ok (nodes s)"
  shows "collect s root name =
    map fst (filter (\<lambda>kv. name \<in> set (nd_names (snd kv))) (filter (\<lambda>kv. starts_with (fst kv) root) (nodes s)))"
  unfolding collect_def collect_loop_filter takeWhile_lower_bound_prefix [OF assms] ..

lemma indices_loop_concat:
  "indices_loop P root xs =
     concat (map (\<lambda>(path, node). map (index_path P path) (nd_names node)) (takeWhile (\<lambda>kv. starts_with (fst kv) root) xs))"
  by (induction xs) auto

text \<open>The directories \<open>find\<close> looks at: the path, then every prefix that ends before a slash.\<close>

definition ancestor :: "string \<Rightarrow> string \<Rightarrow> bool" where
  "ancestor a f \<longleftrightarrow> a = f \<or> (a \<noteq> [] \<and> prefix (a @ ''/'') f)"

lemma find_last_of_split:
  assumes "find_last_of c s = Some i"
  shows "s = take i s @ c # drop (i + 1) s" "c \<notin> set (drop (i + 1) s)"
proof -
  note d = find_last_of_SomeD [OF assms]
  show "s = take i s @ c # drop (i + 1) s" using d id_take_nth_drop by fastforce
  from assms obtain k where k: "find_idx (\<lambda>x. x = c) (rev s) = Some k" "i = length s - 1 - k"
    by (auto simp: find_last_of_def)
  have "k < length s" using find_idx_SomeD [OF k(1)] by simp
  then have "rev (drop (i + 1) s) = take k (rev s)" using k(2) by (simp add: take_rev Suc_diff_Suc)
  moreover have "c \<notin> set (take k (rev s))"
    using find_idx_SomeD [OF k(1)] by (auto simp: in_set_conv_nth)
  ultimately show "c \<notin> set (drop (i + 1) s)" by (metis set_rev)
qed

lemma ancestor_last:
  assumes "find_last_of CHR ''/'' f = Some i"
  shows "ancestor a f \<longleftrightarrow> a = f \<or> (0 < i \<and> ancestor a (take i f))"
proof -
  note sp = find_last_of_split [OF assms]
  let ?t = "take i f" and ?d = "drop (i + 1) f"
  have len: "length ?t = i" using find_last_of_SomeD(1) [OF assms] by simp
  have "prefix (a @ ''/'') f \<longleftrightarrow> a = ?t \<or> prefix (a @ ''/'') ?t"
  proof
    assume "prefix (a @ ''/'') f"
    then obtain r where r: "f = a @ CHR ''/'' # r" by (auto simp: prefix_def)
    then have "a @ CHR ''/'' # r = ?t @ CHR ''/'' # ?d" by (rule trans [OF sym sp(1)])
    then consider us where "a = ?t @ us" "us @ CHR ''/'' # r = CHR ''/'' # ?d"
      | us where "a @ us = ?t" "CHR ''/'' # r = us @ CHR ''/'' # ?d"
      by (auto simp: append_eq_append_conv2)
    then show "a = ?t \<or> prefix (a @ ''/'') ?t"
    proof cases
      case 1
      then show ?thesis using sp(2) by (cases us) (auto, metis in_set_conv_decomp)
    next
      case 2
      then show ?thesis by (cases us) (auto simp: prefix_def, metis)
    qed
  next
    assume "a = ?t \<or> prefix (a @ ''/'') ?t"
    then show "prefix (a @ ''/'') f"
    proof
      assume "a = ?t"
      then show ?thesis using sp(1) by (metis append.assoc append_Cons append_Nil prefixI)
    next
      assume "prefix (a @ ''/'') ?t"
      then show ?thesis using take_is_prefix prefix_order.trans by blast
    qed
  qed
  moreover have "0 < i" if "a = ?t \<or> prefix (a @ ''/'') ?t" "a \<noteq> []"
    using that len by (auto dest: prefix_length_le)
  ultimately show ?thesis using len by (auto simp: ancestor_def)
qed

lemma ancestor_top:
  assumes "find_last_of CHR ''/'' f = None"
  shows "ancestor a f \<longleftrightarrow> a = f"
proof -
  have "CHR ''/'' \<notin> set f" using assms unfolding find_last_of_def by (simp add: find_idx_None_iff) blast
  then have "\<not> prefix (a @ ''/'') f" by (auto simp: prefix_def)
  then show ?thesis by (simp add: ancestor_def)
qed

lemma find_loop_spec:
  "case find_loop s f name of
     Some p \<Rightarrow> ancestor p f \<and> node_has s p name \<and> (\<forall>a. ancestor a f \<longrightarrow> node_has s a name \<longrightarrow> length a \<le> length p)
   | None \<Rightarrow> \<forall>a. ancestor a f \<longrightarrow> \<not> node_has s a name"
proof (induction s f name rule: find_loop.induct)
  case (1 s f name)
  show ?case
  proof (cases "node_has s f name")
    case True
    then have "find_loop s f name = Some f" by (subst find_loop.simps) simp
    with True show ?thesis by (auto simp: ancestor_def dest: prefix_length_le)
  next
    case False
    show ?thesis
    proof (cases "find_last_of CHR ''/'' f")
      case None
      then have "find_loop s f name = None" using False by (subst find_loop.simps) simp
      with False ancestor_top [OF None] show ?thesis by simp
    next
      case (Some i)
      show ?thesis
      proof (cases "i = 0")
        case True
        then have "find_loop s f name = None" using False Some by (subst find_loop.simps) simp
        with False ancestor_last [OF Some] True show ?thesis by simp
      next
        case i: False
        have "find_loop s f name = find_loop s (take i f) name"
          using False Some i by (subst find_loop.simps) (simp add: substr_def)
        then have e: "find_loop s f name = find_loop s (take i f) name" .
        note IH = "1.IH" [OF False Some i, unfolded substr_def drop_0]
        have anc: "ancestor a f \<longleftrightarrow> a = f \<or> ancestor a (take i f)" for a
          using ancestor_last [OF Some] i by simp
        show ?thesis
        proof (cases "find_loop s (take i f) name")
          case None
          then show ?thesis using IH False unfolding e anc by auto
        next
          case (Some p)
          then show ?thesis using IH False unfolding e anc by auto
        qed
      qed
    qed
  qed
qed

section \<open>Agreement with the store\<close>

text \<open>
  A node whose first write failed stays in memory without names, so the store may lack nodes that
  hold nothing.
\<close>

definition ix_agrees :: "'s ix_env \<Rightarrow> ('s \<Rightarrow> (string \<times> string) list) \<Rightarrow> 's IndexNamespace \<Rightarrow> bool" where
  "ix_agrees E contents s \<longleftrightarrow>
     (\<forall>key v. map_of (contents (ix_store s)) key = Some v \<longrightarrow>
        (\<exists>node. map_of (nodes s) key = Some node \<and> v = serialize_namespace_node E node)) \<and>
     (\<forall>key node. map_of (nodes s) key = Some node \<longrightarrow> nd_names node \<noteq> [] \<longrightarrow>
        map_of (contents (ix_store s)) key = Some (serialize_namespace_node E node))"

lemma ix_agrees_written:
  assumes "ix_agrees E contents s" "nodes s' = smap_put key node (nodes s)"
    and "map_of (contents (ix_store s')) = (map_of (contents (ix_store s)))(key \<mapsto> serialize_namespace_node E node)"
  shows "ix_agrees E contents s'"
  using assms by (auto simp: ix_agrees_def)

lemma ix_agrees_unchanged:
  assumes "ix_agrees E contents s" "nodes s' = smap_put key (old_node s key) (nodes s)"
    and "map_of (contents (ix_store s')) = map_of (contents (ix_store s))"
  shows "ix_agrees E contents s'"
proof (cases "map_of (nodes s) key")
  case None
  then have "map_of (contents (ix_store s)) key = None"
    using assms(1) unfolding ix_agrees_def by (metis not_None_eq option.distinct(1))
  with None assms show ?thesis by (auto simp: ix_agrees_def old_node_def)
next
  case (Some node)
  with assms have "map_of (nodes s') = map_of (nodes s)" by (auto simp: old_node_def fun_eq_iff)
  with assms show ?thesis by (simp add: ix_agrees_def)
qed

lemma ix_load_fresh:
  assumes "\<forall>(k, v)\<in>set rs. deserialize_node E v = Some (N k)" "distinct (map fst rs)"
    and "\<forall>k\<in>fst ` set rs. map_of (nodes s) k = None"
  shows "\<exists>s'. ix_load E s rs = (s', OK) \<and>
    map_of (nodes s') = (\<lambda>k. if k \<in> fst ` set rs then Some (N k) else map_of (nodes s) k)"
  using assms
proof (induction rs arbitrary: s)
  case (Cons r rs)
  obtain k v where r: "r = (k, v)" by fastforce
  let ?s = "s\<lparr>nodes := smap_put k (N k) (nodes s)\<rparr>"
  have "ix_load E s (r # rs) = ix_load E ?s rs" using Cons.prems r by simp
  moreover have d: "\<forall>k'\<in>fst ` set rs. map_of (nodes ?s) k' = None" using Cons.prems(2,3) r by auto
  obtain s' where "ix_load E ?s rs = (s', OK)"
    "map_of (nodes s') = (\<lambda>k. if k \<in> fst ` set rs then Some (N k) else map_of (nodes ?s) k)"
    using Cons.IH [OF _ _ d] Cons.prems(1,2) r by auto
  ultimately show ?case using r by (auto simp: fun_eq_iff)
qed auto

lemma nodes_new [simp]: "nodes (IndexNamespace_new st) = []"
  by (simp add: IndexNamespace_new_def)

locale stored_index_namespace = kv_store "ix_kv E" opened contents
  for E :: "'s ix_env" and opened :: "'s \<Rightarrow> bool" and contents :: "'s \<Rightarrow> (string \<times> string) list" +
  assumes deserialize_serialize_node:
    "sset_ok (nd_names node) \<Longrightarrow> deserialize_node E (serialize_namespace_node E node) = Some node"
begin

definition ix_inv :: "'s IndexNamespace \<Rightarrow> bool" where
  "ix_inv s \<longleftrightarrow> nodes_inv s \<and> ix_agrees E contents s \<and> opened (ix_store s)"

lemma write_agrees:
  assumes "ix_inv s" "kv_put (ix_kv E) (ix_store s) key (serialize_namespace_node E node) = Done (ix_store s', status)"
    and "nodes s' = smap_put key (if ok status then node else old_node s key) (nodes s)"
  shows "ix_agrees E contents s' \<and> opened (ix_store s')"
proof -
  have o: "opened (ix_store s)" "ix_agrees E contents s" using assms(1) by (simp_all add: ix_inv_def)
  have "ix_agrees E contents s'"
  proof (cases "ok status")
    case True
    show ?thesis
      by (rule ix_agrees_written [OF o(2)]) (use True assms(3) put_contents [OF o(1) assms(2)] in auto)
  next
    case False
    show ?thesis
      by (rule ix_agrees_unchanged [OF o(2)]) (use False assms(3) put_contents [OF o(1) assms(2)] in auto)
  qed
  then show ?thesis using put_opened [OF o(1) assms(2)] by simp
qed

lemma ix_step_inv:
  assumes "ix_inv s" "ix_step E s op = Done (s', status)"
  shows "ix_inv s'"
proof -
  have n: "nodes_inv s" using assms(1) by (simp add: ix_inv_def)
  have n': "nodes_inv s'" using ix_step_refines [OF n assms(2)] by simp
  show ?thesis
  proof (cases op)
    case (Ix_Insert path name)
    then have "ix_insert E s path name = Done (s', status)" using assms(2) by simp
    from this n show ?thesis
    proof (cases rule: ix_insert_cases)
      case (2 key node)
      with n' write_agrees [OF assms(1) 2(4,5)] show ?thesis by (simp add: ix_inv_def)
    qed (use assms(1) in simp)
  next
    case (Ix_Remove path name)
    then have "ix_remove E s path name = Done (s', status)" using assms(2) by simp
    from this n show ?thesis
    proof (cases rule: ix_remove_cases)
      case (2 key node)
      with n' write_agrees [OF assms(1) 2(4,5)] show ?thesis by (simp add: ix_inv_def)
    qed (use assms(1) in simp)
  next
    case (Ix_Remove_Path path)
    then have "ix_remove_path E s path = Done (s', status)" using assms(2) by simp
    then show ?thesis
    proof (cases rule: ix_remove_path_cases)
      case (2 key)
      have o: "opened (ix_store s)" using assms(1) by (simp add: ix_inv_def)
      show ?thesis
        using assms(1) n' 2(4) remove_opened [OF o 2(3)] remove_contents [OF o 2(3)]
        by (auto simp: ix_inv_def ix_agrees_def split: if_splits)
    qed (use assms(1) in simp)
  qed
qed

lemma ix_restart:
  assumes "ix_inv s" "kv_open (ix_kv E) st0 = (st1, OK)" "opened st1" "contents st1 = contents (ix_store s)"
  shows "\<exists>s'. ix_init E (IndexNamespace_new st0) = Done (s', OK) \<and> ix_abs s' = ix_abs s"
proof -
  let ?C = "contents st1"
  have sorted: "smap_ok ?C" using assms(3) by (rule contents_ordered)
  have ag: "ix_agrees E contents s" and ok: "nodes_inv s" using assms(1) by (simp_all add: ix_inv_def)
  have rec: "\<exists>node. map_of (nodes s) k = Some node \<and> deserialize_node E v = Some node" if "(k, v) \<in> set ?C" for k v
  proof -
    from that have "map_of (contents (ix_store s)) k = Some v"
      using smap_ok_map_of [OF sorted] assms(4) by simp
    with ag obtain node where "map_of (nodes s) k = Some node" "v = serialize_namespace_node E node"
      by (auto simp: ix_agrees_def)
    with ok deserialize_serialize_node show ?thesis by (auto simp: nodes_inv_def)
  qed
  have "\<forall>(k, v)\<in>set ?C. deserialize_node E v = Some (the (map_of (nodes s) k))" using rec by fastforce
  from ix_load_fresh [OF this smap_ok_distinct [OF sorted], of "IndexNamespace_new st1", unfolded nodes_new map_of.simps]
  obtain s' where s': "ix_load E (IndexNamespace_new st1) ?C = (s', OK)"
    "map_of (nodes s') = (\<lambda>k. if k \<in> fst ` set ?C then Some (the (map_of (nodes s) k)) else None)"
    by auto
  have "node_has s' k n \<longleftrightarrow> node_has s k n" for k n
  proof -
    have "node_has s k n \<Longrightarrow> k \<in> fst ` set ?C"
      using ag assms(4) by (auto simp: node_has_def ix_agrees_def split: option.splits)
        (metis domI dom_map_of_conv_image_fst empty_iff empty_set)
    moreover have "\<exists>node. map_of (nodes s) k = Some node" if "k \<in> fst ` set ?C"
      using that rec by force
    ultimately show ?thesis by (auto simp: node_has_def s'(2))
  qed
  then have "ix_abs s' = ix_abs s" by (simp add: ix_abs_def)
  moreover have "ix_init E (IndexNamespace_new st0) = Done (s', OK)"
    using assms(2) scan_contents [OF assms(3)] s'(1) by (simp add: ix_init_def IndexNamespace_new_def)
  ultimately show ?thesis by blast
qed

end
section \<open>Instances\<close>

definition ser_node :: "IndexNamespaceNode \<Rightarrow> string" where
  "ser_node n = enc_nats (string_nat (nd_path n) # map string_nat (nd_names n))"

definition deser_node :: "string \<Rightarrow> IndexNamespaceNode option" where
  "deser_node s = (case dec_nats s of [] \<Rightarrow> None
     | p # ns \<Rightarrow> Some \<lparr>nd_path = nat_string p, nd_names = map nat_string ns\<rparr>)"

lemma deser_ser_node: "deser_node (ser_node n) = Some n"
  by (cases n) (simp add: deser_node_def ser_node_def comp_def)

definition test_ix_env :: "TestLevelDBStore ix_env" where
  "test_ix_env = \<lparr>ix_kv = test_kv, ix_paths = posix_paths, serialize_namespace_node = ser_node,
     deserialize_node = deser_node\<rparr>"

interpretation test_ix: stored_index_namespace test_ix_env smap_ok "\<lambda>s. s"
proof -
  have "kv_store (ix_kv test_ix_env) smap_ok (\<lambda>s. s)"
    using test_store.kv_store_axioms by (simp add: test_ix_env_def)
  then show "stored_index_namespace test_ix_env smap_ok (\<lambda>s. s)"
    by (auto simp: stored_index_namespace_def stored_index_namespace_axioms_def test_ix_env_def deser_ser_node)
qed

definition leveldb_ix_env :: "'db leveldb_api \<Rightarrow> 'db LevelDBStore ix_env \<Rightarrow> bool" where
  "leveldb_ix_env L E \<longleftrightarrow> leveldb_laws L \<and> ix_kv E = leveldb_kv L \<and>
     (\<forall>n. sset_ok (nd_names n) \<longrightarrow> deserialize_node E (serialize_namespace_node E n) = Some n)"

lemma leveldb_index_namespace:
  "leveldb_ix_env L E \<Longrightarrow> stored_index_namespace E (\<lambda>st. db_ptr st \<noteq> None) (LevelDBStore_items L)"
  using leveldb_kv_store
  by (auto simp: leveldb_ix_env_def stored_index_namespace_def stored_index_namespace_axioms_def)

definition log_ix_env :: "(string \<times> string option) list LevelDBStore ix_env" where
  "log_ix_env = \<lparr>ix_kv = leveldb_kv log_leveldb, ix_paths = posix_paths, serialize_namespace_node = ser_node,
     deserialize_node = deser_node\<rparr>"

lemma leveldb_ix_env_log: "leveldb_ix_env log_leveldb log_ix_env"
  by (simp add: leveldb_ix_env_def log_ix_env_def leveldb_laws_log deser_ser_node)

inductive ix_reachable :: "'s ix_env \<Rightarrow> 's IndexNamespace \<Rightarrow> 's IndexNamespace \<Rightarrow> bool" for E s0 where
  ix_start: "ix_reachable E s0 s0"
| ix_next: "ix_reachable E s0 s \<Longrightarrow> ix_step E s op = Done (s', status) \<Longrightarrow> ix_reachable E s0 s'"

lemma ix_reachable_nodes_inv: "ix_reachable E (IndexNamespace_new store) s \<Longrightarrow> nodes_inv s"
proof (induction rule: ix_reachable.induct)
  case ix_start
  then show ?case by (simp add: nodes_inv_def)
next
  case (ix_next s op s' status)
  then show ?case using ix_step_refines by blast
qed

section \<open>Properties\<close>

definition log_ix_store :: "(string \<times> string option) list LevelDBStore" where
  "log_ix_store = \<lparr>db_path = ''/ix'', bufsize_mb = 4, db_ptr = Some []\<rparr>"


lemma log_ix_insert:
  "ix_step log_ix_env (IndexNamespace_new log_ix_store) (Ix_Insert ''/foo/'' ''idx'') =
     Done (\<lparr>ix_store = log_ix_store\<lparr>db_ptr := Some [(''/foo'',
              Some (ser_node \<lparr>nd_path = ''/foo'', nd_names = [''idx'']\<rparr>))]\<rparr>,
            nodes = [(''/foo'', \<lparr>nd_path = ''/foo'', nd_names = [''idx'']\<rparr>)]\<rparr>, OK)"
  by (simp add: ix_insert_def cleanup_path_def numeral_eq_Suc substr_def IndexNamespace_new_def Let_def put_node_def
      log_ix_env_def leveldb_kv_def LevelDBStore_put_def log_leveldb_def log_ix_store_def to_status_def)


text \<open>
  a restart on the same database restores the set of indices, although nodes that hold no
  index may disappear.
\<close>

theorem index_namespace_restart:
  assumes "leveldb_ix_env L E" "db_ptr store \<noteq> None" "LevelDBStore_items L store = []"
    and "ix_reachable E (IndexNamespace_new store) s"
    and "LevelDBStore_open L st0 = (st1, OK)" "LevelDBStore_items L st1 = LevelDBStore_items L (ix_store s)"
  shows "\<exists>s'. ix_init E (IndexNamespace_new st0) = Done (s', OK) \<and> ix_abs s' = ix_abs s"
proof -
  note ns = leveldb_index_namespace [OF assms(1)]
  let ?inv = "stored_index_namespace.ix_inv E (\<lambda>st. db_ptr st \<noteq> None) (LevelDBStore_items L)"
  have "?inv (IndexNamespace_new store)"
    unfolding stored_index_namespace.ix_inv_def [OF ns] using assms(2,3)
    by (simp add: nodes_inv_def ix_agrees_def IndexNamespace_new_def)
  with assms(4) have "?inv s"
    by (induction rule: ix_reachable.induct) (use stored_index_namespace.ix_step_inv [OF ns] in blast)+
  moreover have "kv_open (ix_kv E) st0 = (st1, OK)"
    using assms(1,5) by (simp add: leveldb_ix_env_def leveldb_kv_def)
  moreover have "db_ptr st1 \<noteq> None"
    using assms(5) by (auto simp: LevelDBStore_open_def Let_def to_status_def split: sum.splits)
  ultimately show ?thesis using assms(6) by (rule stored_index_namespace.ix_restart [OF ns])
qed

theorem index_namespace_restart_witness:
  "\<exists>s'. ix_init log_ix_env (IndexNamespace_new log_ix_store) = Done (s', OK) \<and> ix_abs s' = {}"
proof -
  have o: "LevelDBStore_open log_leveldb log_ix_store = (log_ix_store, OK)"
    by (simp add: LevelDBStore_open_def log_leveldb_def log_ix_store_def)
  have "LevelDBStore_items log_leveldb log_ix_store = []" "db_ptr log_ix_store \<noteq> None"
    by (simp_all add: LevelDBStore_items_def log_ix_store_def log_leveldb_def log_items_def)
  then show ?thesis
    using index_namespace_restart [OF leveldb_ix_env_log _ _
        ix_reachable.ix_start [of log_ix_env "IndexNamespace_new log_ix_store"] o]
    by (auto simp: ix_abs_def node_has_def IndexNamespace_new_def)
qed

text \<open>
  \<open>find\<close> returns the deepest directory on the way to a file that has an index of the name,
  the root last, and reports \<open>ENOENT\<close> exactly when no directory on the way has one.
\<close>

theorem find_deepest:
  "case ix_find s file_name name of
     Inr p \<Rightarrow> node_has s p name \<and> (ancestor p file_name \<or> p = ''/'') \<and>
       (\<forall>a. ancestor a file_name \<longrightarrow> node_has s a name \<longrightarrow> ancestor p file_name \<and> length a \<le> length p)
   | Inl status \<Rightarrow> status = Err (- ENOENT) ''The index does not exist.'' \<and>
       \<not> node_has s ''/'' name \<and> (\<forall>a. ancestor a file_name \<longrightarrow> \<not> node_has s a name)"
proof (cases "find_loop s file_name name")
  case None
  then show ?thesis using find_loop_spec [where s = s and f = file_name and name = name] by (auto simp: ix_find_def)
next
  case (Some p)
  then show ?thesis using find_loop_spec [where s = s and f = file_name and name = name] by (auto simp: ix_find_def)
qed

theorem find_deepest_witness:
  "ix_find \<lparr>ix_store = (), nodes = [(''/a'', \<lparr>nd_path = ''/a'', nd_names = [''i'']\<rparr>)]\<rparr> ''/a/b/c'' ''i'' = Inr ''/a''"
proof -
  let ?s = "\<lparr>ix_store = (), nodes = [(''/a'', \<lparr>nd_path = ''/a'', nd_names = [''i'']\<rparr>)]\<rparr>"
  have has: "node_has ?s a ''i'' \<longleftrightarrow> a = ''/a''" for a by (auto simp: node_has_def)
  have "ancestor ''/a'' ''/a/b/c''" by (simp add: ancestor_def)
  then show ?thesis
    using find_deepest [where s = ?s and file_name = "''/a/b/c''" and name = "''i''"] by (auto simp: has split: sum.splits)
qed

text \<open>
  \<open>collect\<close> stops at the first directory outside the prefix and misses none: it returns,
  sorted and without repetition, exactly the directories that start with the root string and
  have an index of the name.
\<close>

theorem collect_exact:
  assumes "ix_reachable E (IndexNamespace_new store) s"
  shows "set (collect s root name) = {p. starts_with p root \<and> (p, name) \<in> ix_abs s} \<and>
    sset_ok (collect s root name)"
proof -
  have ok: "smap_ok (nodes s)" using ix_reachable_nodes_inv [OF assms] by (simp add: nodes_inv_def)
  have "set (collect s root name) = {p. starts_with p root \<and> node_has s p name}"
    unfolding collect_filter [OF ok]
    by (force simp: node_has_def smap_ok_map_of [OF ok] image_iff split: option.splits)
  moreover have "sset_ok (map fst (filter P (nodes s)))" for P
    using smap_ok_filter [OF ok] by (simp add: smap_ok_def sset_ok_def)
  ultimately show ?thesis
    unfolding collect_filter [OF ok] by (simp add: ix_abs_def)
qed

theorem collect_exact_witness:
  "\<exists>s. ix_reachable log_ix_env (IndexNamespace_new log_ix_store) s \<and> set (collect s ''/f'' ''idx'') = {''/foo''}"
proof -
  let ?s = "\<lparr>ix_store = log_ix_store\<lparr>db_ptr := Some [(''/foo'',
              Some (ser_node \<lparr>nd_path = ''/foo'', nd_names = [''idx'']\<rparr>))]\<rparr>,
            nodes = [(''/foo'', \<lparr>nd_path = ''/foo'', nd_names = [''idx'']\<rparr>)]\<rparr>"
  have r: "ix_reachable log_ix_env (IndexNamespace_new log_ix_store) ?s"
    by (rule ix_reachable.ix_next [OF ix_reachable.ix_start log_ix_insert])
  have "{p. starts_with p ''/f'' \<and> (p, ''idx'') \<in> ix_abs ?s} = {''/foo''}"
    by (auto simp: ix_abs_def node_has_def split: if_splits)
  then show ?thesis using collect_exact [OF r, of "''/f''" "''idx''"] r by auto
qed

end
