(* ===== verification/Partition_Manager.thy ===== *)
theory Partition_Manager
  imports Kv_Store Hash_Ring Codec
begin

text \<open>
  \<open>PartitionManager\<close> (\<open>vsfs/masterd/partition_manager.cpp\<close>): for every index the ring of its
  partitions, written through to a key-value store. The rings are those of \<open>Hash_Ring\<close>;
  Thrift's serialisation of a ring is a field of \<open>pm_env\<close>. A call holds its mutex from
  lookup to return, so each is one step.
\<close>

section \<open>State\<close>

text \<open>\<open>new Partition\<close> leaves \<open>refcount_\<close> as it finds it.\<close>

record 'r Partition =
  refcount :: "64 word"
  partitions :: 'r

record ('s, 'r) pm_env =
  pm_kv :: "'s kv_api"
  pm_ring :: "('r, string) ring_api"
  pm_ring_new :: 'r
  pm_junk :: "64 word"
  serialize_ring :: "(HashValueType \<times> string) list \<Rightarrow> string"
  deserialize_ring :: "string \<Rightarrow> (HashValueType \<times> string) list option"

record ('s, 'r) PartitionManager =
  pm_store :: 's
  partition_map_by_index_path :: "string \<Rightarrow> 'r Partition option"

definition PartitionManager_new :: "'s \<Rightarrow> ('s, 'r) PartitionManager" where
  "PartitionManager_new store = \<lparr>pm_store = store, partition_map_by_index_path = Map.empty\<rparr>"

definition Partition_new :: "('s, 'r) pm_env \<Rightarrow> 'r Partition" where
  "Partition_new E = \<lparr>refcount = pm_junk E, partitions = pm_ring_new E\<rparr>"

section \<open>Operations\<close>

definition string_to_partition_map :: "('s, 'r) pm_env \<Rightarrow> string \<Rightarrow> 'r \<Rightarrow> 'r \<times> Status" where
  "string_to_partition_map E buffer pm =
     (case deserialize_ring E buffer of
        None \<Rightarrow> (pm, Err (-1) ''Failed to parse thrift object.'')
      | Some ps \<Rightarrow> (foldl (\<lambda>r (sep, path). fst (ring_insert (pm_ring E) r sep path)) pm ps, OK))"

definition partition_map_to_string :: "('s, 'r) pm_env \<Rightarrow> 'r \<Rightarrow> string" where
  "partition_map_to_string E pm = serialize_ring E (ring_items (pm_ring E) pm)"

fun pm_load ::
  "('s, 'r) pm_env \<Rightarrow> ('s, 'r) PartitionManager \<Rightarrow> (string \<times> string) list \<Rightarrow> ('s, 'r) PartitionManager \<times> Status" where
  "pm_load E s [] = (s, OK)"
| "pm_load E s ((key, buffer) # rs) =
     (case string_to_partition_map E buffer (pm_ring_new E) of (pm, status) \<Rightarrow>
        if \<not> ok status then (s, status)
        else pm_load E (s\<lparr>partition_map_by_index_path :=
               (partition_map_by_index_path s)(key \<mapsto> (Partition_new E)\<lparr>partitions := pm\<rparr>)\<rparr>) rs)"

definition pm_init ::
  "('s, 'r) pm_env \<Rightarrow> ('s, 'r) PartitionManager \<Rightarrow> (('s, 'r) PartitionManager \<times> Status) outcome" where
  "pm_init E s =
     (case kv_open (pm_kv E) (pm_store s) of (st, status) \<Rightarrow>
        let s1 = s\<lparr>pm_store := st\<rparr> in
        if \<not> ok status then Done (s1, status)
        else bindo (kv_scan (pm_kv E) st) (\<lambda>rs. Done (pm_load E s1 rs)))"

definition write_partition_map ::
  "('s, 'r) pm_env \<Rightarrow> ('s, 'r) PartitionManager \<Rightarrow> string \<Rightarrow> (('s, 'r) PartitionManager \<times> Status) outcome" where
  "write_partition_map E s path =
     (case partition_map_by_index_path s path of
        None \<Rightarrow> Fail Undefined
      | Some p \<Rightarrow>
          let buffer = partition_map_to_string E (partitions p) in
          if buffer = [] then Done (s, Err (-1) ''Failed to serialize PartitionMap'')
          else bindo (kv_put (pm_kv E) (pm_store s) path buffer)
                 (\<lambda>(st, status). Done (s\<lparr>pm_store := st\<rparr>, status)))"

definition node_name :: "string \<Rightarrow> HashValueType \<Rightarrow> string" where
  "node_name path sep = path @ ''.'' @ int_to_string sep"

definition add_index ::
  "('s, 'r) pm_env \<Rightarrow> ('s, 'r) PartitionManager \<Rightarrow> string \<Rightarrow> (('s, 'r) PartitionManager \<times> Status) outcome" where
  "add_index E s path =
     (if partition_map_by_index_path s path \<noteq> None then Done (s, Err (-1) ''The index has already existed'')
      else
        let initial_key = 0;
            p = Partition_new E;
            p' = p\<lparr>partitions := fst (ring_insert (pm_ring E) (partitions p) initial_key (node_name path initial_key))\<rparr>
        in write_partition_map E
             (s\<lparr>partition_map_by_index_path := (partition_map_by_index_path s)(path \<mapsto> p')\<rparr>) path)"

definition remove_index ::
  "('s, 'r) pm_env \<Rightarrow> ('s, 'r) PartitionManager \<Rightarrow> string \<Rightarrow> (('s, 'r) PartitionManager \<times> Status) outcome" where
  "remove_index E s path =
     bindo (kv_remove (pm_kv E) (pm_store s) path)
       (\<lambda>(st, status).
          let s1 = s\<lparr>pm_store := st\<rparr> in
          if \<not> ok status then Done (s1, status)
          else Done (s1\<lparr>partition_map_by_index_path := (partition_map_by_index_path s1)(path := None)\<rparr>, OK))"

text \<open>Set a partition of the map, the reference the source keeps as a pointer.\<close>

definition set_partition ::
  "string \<Rightarrow> 'r Partition \<Rightarrow> ('s, 'r) PartitionManager \<Rightarrow> ('s, 'r) PartitionManager" where
  "set_partition path p s = s\<lparr>partition_map_by_index_path := (partition_map_by_index_path s)(path \<mapsto> p)\<rparr>"

definition add_partition ::
  "('s, 'r) pm_env \<Rightarrow> ('s, 'r) PartitionManager \<Rightarrow> string \<Rightarrow> HashValueType \<Rightarrow>
     (('s, 'r) PartitionManager \<times> Status) outcome" where
  "add_partition E s path sep =
     (case partition_map_by_index_path s path of
        None \<Rightarrow> Done (s, Err (- ENOENT) ''The index does not existed.'')
      | Some p \<Rightarrow>
          let p1 = p\<lparr>refcount := refcount p + 1\<rparr> in
          if ring_has_key (pm_ring E) (partitions p1) sep then
            Done (set_partition path (p1\<lparr>refcount := refcount p1 - 1\<rparr>) s,
                  Err (-1) ''The separator is already existed.'')
          else
            let p2 = p1\<lparr>partitions := fst (ring_insert (pm_ring E) (partitions p1) sep (node_name path sep)),
                        refcount := refcount p1 - 1\<rparr>
            in write_partition_map E (set_partition path p2 s) path)"

text \<open>
  Neither exit of \<open>remove_partition\<close> gives the reference back, and the status of the write is
  only logged.
\<close>

definition remove_partition ::
  "('s, 'r) pm_env \<Rightarrow> ('s, 'r) PartitionManager \<Rightarrow> string \<Rightarrow> HashValueType \<Rightarrow>
     (('s, 'r) PartitionManager \<times> Status) outcome" where
  "remove_partition E s path sep =
     (case partition_map_by_index_path s path of
        None \<Rightarrow> Done (s, Err (- ENOENT) ''The index does not existed.'')
      | Some p \<Rightarrow>
          let p1 = p\<lparr>refcount := refcount p + 1\<rparr> in
          (case ring_remove (pm_ring E) (partitions p1) sep of (r, status) \<Rightarrow>
             let s1 = set_partition path (p1\<lparr>partitions := r\<rparr>) s in
             if \<not> ok status then Done (s1, status)
             else bindo (write_partition_map E s1 path) (\<lambda>(s2, status). Done (s2, OK))))"

definition get_partition_path ::
  "('s, 'r) pm_env \<Rightarrow> ('s, 'r) PartitionManager \<Rightarrow> string \<Rightarrow> HashValueType \<Rightarrow> ('s, 'r) PartitionManager \<times> string" where
  "get_partition_path E s path hash =
     (case partition_map_by_index_path s path of
        None \<Rightarrow> (s, [])
      | Some p \<Rightarrow>
          let p1 = p\<lparr>refcount := refcount p + 1\<rparr>;
              partition_path = (case ring_get (pm_ring E) (partitions p1) hash of Inl _ \<Rightarrow> [] | Inr v \<Rightarrow> v)
          in (set_partition path (p1\<lparr>refcount := refcount p1 - 1\<rparr>) s, partition_path))"

definition get_all_partitions ::
  "('s, 'r) pm_env \<Rightarrow> ('s, 'r) PartitionManager \<Rightarrow> string \<Rightarrow> ('s, 'r) PartitionManager \<times> (Status + string list)" where
  "get_all_partitions E s path =
     (case partition_map_by_index_path s path of
        None \<Rightarrow> (s, Inl (Err (- ENOENT) ''The index does not existed.''))
      | Some p \<Rightarrow>
          let p1 = p\<lparr>refcount := refcount p + 1\<rparr>;
              paths = ring_get_values (pm_ring E) (partitions p1)
          in (set_partition path (p1\<lparr>refcount := refcount p1 - 1\<rparr>) s, Inr paths))"

definition copy_partition_map ::
  "('s, 'r) PartitionManager \<Rightarrow> string \<Rightarrow> Status + 'r" where
  "copy_partition_map s path =
     (case partition_map_by_index_path s path of
        None \<Rightarrow> Inl (Err (- ENOENT) ''The index does not existed.'')
      | Some p \<Rightarrow> Inr (partitions p))"

section \<open>What the manager promises\<close>

definition ring_of :: "('s, 'r) pm_env \<Rightarrow> ('s, 'r) PartitionManager \<Rightarrow> string \<Rightarrow> (HashValueType \<times> string) list option" where
  "ring_of E s path = map_option (\<lambda>p. ring_items (pm_ring E) (partitions p)) (partition_map_by_index_path s path)"

definition pm_agrees ::
  "('s, 'r) pm_env \<Rightarrow> ('s \<Rightarrow> (string \<times> string) list) \<Rightarrow> ('s, 'r) PartitionManager \<Rightarrow> bool" where
  "pm_agrees E contents s \<longleftrightarrow>
     map_of (contents (pm_store s)) = (\<lambda>path. map_option (serialize_ring E) (ring_of E s path))"

text \<open>The documented behaviour of the parameters.\<close>

definition pm_laws :: "('s, 'r) pm_env \<Rightarrow> bool" where
  "pm_laws E \<longleftrightarrow> ring_laws (pm_ring E) \<and> ring_items (pm_ring E) (pm_ring_new E) = [] \<and>
     (\<forall>ps. serialize_ring E ps \<noteq> []) \<and>
     (\<forall>ps. smap_ok ps \<longrightarrow> deserialize_ring E (serialize_ring E ps) = Some ps)"

lemma ring_of_set [simp]:
  "ring_of E (set_partition path p s) = (ring_of E s)(path \<mapsto> ring_items (pm_ring E) (partitions p))"
  "ring_of E (s\<lparr>pm_store := st\<rparr>) = ring_of E s" "pm_store (set_partition path p s) = pm_store s"
  by (auto simp: ring_of_def set_partition_def fun_eq_iff)

lemma ring_insert_items:
  "pm_laws E \<Longrightarrow> \<not> ring_has_key (pm_ring E) r sep \<Longrightarrow>
     ring_items (pm_ring E) (fst (ring_insert (pm_ring E) r sep v)) = smap_put sep v (ring_items (pm_ring E) r)"
  unfolding pm_laws_def ring_laws_def by (metis fst_conv)

lemma ring_has_key_items: "pm_laws E \<Longrightarrow> ring_has_key (pm_ring E) r sep \<longleftrightarrow> map_of (ring_items (pm_ring E) r) sep \<noteq> None"
  by (simp add: pm_laws_def ring_laws_def)

lemma write_partition_map_cases:
  assumes "pm_laws E" "write_partition_map E s path = Done (s', status)"
  obtains st ps where "ring_of E s path = Some ps"
    "kv_put (pm_kv E) (pm_store s) path (serialize_ring E ps) = Done (st, status)" "s' = s\<lparr>pm_store := st\<rparr>"
  using assms
  by (cases "partition_map_by_index_path s path")
     (auto simp: write_partition_map_def partition_map_to_string_def ring_of_def pm_laws_def Let_def split: if_splits)

lemma load_ring:
  assumes "pm_laws E" "smap_ok (ring_items (pm_ring E) r @ ps)"
  shows "ring_items (pm_ring E) (foldl (\<lambda>r (sep, path). fst (ring_insert (pm_ring E) r sep path)) r ps) =
    ring_items (pm_ring E) r @ ps"
  using assms(2)
proof (induction ps arbitrary: r)
  case (Cons q ps)
  obtain sep v where q: "q = (sep, v)" by fastforce
  let ?r = "fst (ring_insert (pm_ring E) r sep v)"
  have less: "\<forall>x\<in>set (ring_items (pm_ring E) r). fst x < sep"
    using Cons.prems q by (auto simp: smap_ok_def sorted_wrt_append)
  then have "map_of (ring_items (pm_ring E) r) sep = None"
    by (auto simp: map_of_eq_None_iff)
  then have "ring_items (pm_ring E) ?r = smap_put sep v (ring_items (pm_ring E) r)"
    using ring_insert_items [OF assms(1)] ring_has_key_items [OF assms(1)] by metis
  also have "\<dots> = ring_items (pm_ring E) r @ [q]"
    using smap_put_last [OF less] q by simp
  finally have "ring_items (pm_ring E) ?r = ring_items (pm_ring E) r @ [q]" .
  with Cons.IH [of ?r] Cons.prems q show ?case by simp
qed simp

section \<open>Agreement with the store\<close>

datatype pm_op = Add_Index string | Remove_Index string | Add_Partition string HashValueType

fun pm_step ::
  "('s, 'r) pm_env \<Rightarrow> ('s, 'r) PartitionManager \<Rightarrow> pm_op \<Rightarrow> (('s, 'r) PartitionManager \<times> Status) outcome" where
  "pm_step E s (Add_Index path) = add_index E s path"
| "pm_step E s (Remove_Index path) = remove_index E s path"
| "pm_step E s (Add_Partition path sep) = add_partition E s path sep"

text \<open>What an accepted operation makes of the rings.\<close>

fun pm_spec :: "(string \<Rightarrow> (HashValueType \<times> string) list option) \<Rightarrow> pm_op \<Rightarrow> string \<Rightarrow> (HashValueType \<times> string) list option" where
  "pm_spec f (Add_Index path) = f(path \<mapsto> [(0, node_name path 0)])"
| "pm_spec f (Remove_Index path) = f(path := None)"
| "pm_spec f (Add_Partition path sep) = f(path \<mapsto> smap_put sep (node_name path sep) (the (f path)))"

lemma pm_step_spec:
  assumes "pm_laws E" "pm_step E s op = Done (s', OK)"
  shows "ring_of E s' = pm_spec (ring_of E s) op"
proof (cases op)
  case (Add_Index path)
  let ?p = "(Partition_new E)\<lparr>partitions := fst (ring_insert (pm_ring E) (partitions (Partition_new E)) 0 (node_name path 0))\<rparr>"
  have e: "ring_items (pm_ring E) (partitions (Partition_new E)) = []"
    using assms(1) by (simp add: Partition_new_def pm_laws_def)
  then have "ring_items (pm_ring E) (partitions ?p) = [(0, node_name path 0)]"
    using ring_insert_items [OF assms(1)] ring_has_key_items [OF assms(1)] by simp
  moreover have "write_partition_map E (set_partition path ?p s) path = Done (s', OK)"
    using assms(2) Add_Index by (auto simp: add_index_def set_partition_def Let_def split: if_splits)
  ultimately show ?thesis
    using Add_Index by (elim write_partition_map_cases [OF assms(1)]) simp
next
  case (Remove_Index path)
  with assms(2) obtain st where "kv_remove (pm_kv E) (pm_store s) path = Done (st, OK)"
    "s' = s\<lparr>pm_store := st, partition_map_by_index_path := (partition_map_by_index_path s)(path := None)\<rparr>"
    by (auto simp: remove_index_def Let_def ok_iff split: if_splits)
  with Remove_Index show ?thesis by (simp add: ring_of_def fun_eq_iff)
next
  case (Add_Partition path sep)
  then obtain p where p: "partition_map_by_index_path s path = Some p"
    using assms(2) by (auto simp: add_partition_def split: option.splits)
  let ?p = "p\<lparr>partitions := fst (ring_insert (pm_ring E) (partitions p) sep (node_name path sep))\<rparr>"
  have "\<not> ring_has_key (pm_ring E) (partitions p) sep"
    and w: "write_partition_map E (set_partition path ?p s) path = Done (s', OK)"
    using assms(2) Add_Partition p by (auto simp: add_partition_def Let_def split: if_splits)
  with ring_insert_items [OF assms(1)] have
    "ring_items (pm_ring E) (partitions ?p) = smap_put sep (node_name path sep) (the (ring_of E s path))"
    using p by (simp add: ring_of_def)
  with w Add_Partition show ?thesis
    by (elim write_partition_map_cases [OF assms(1)]) simp
qed

lemma ring_of_new: "ring_of E (PartitionManager_new st) k = None"
  by (simp add: ring_of_def PartitionManager_new_def)

locale stored_partitions = kv_store "pm_kv E" opened contents
  for E :: "('s, 'r) pm_env" and opened :: "'s \<Rightarrow> bool" and contents :: "'s \<Rightarrow> (string \<times> string) list" +
  assumes laws: "pm_laws E"
begin

lemma write_agrees:
  assumes "opened (pm_store s)" "write_partition_map E s path = Done (s', OK)"
    and "\<And>p. p \<noteq> path \<Longrightarrow> map_of (contents (pm_store s)) p = map_option (serialize_ring E) (ring_of E s p)"
  shows "pm_agrees E contents s' \<and> opened (pm_store s')"
  using assms(2)
proof (elim write_partition_map_cases [OF laws])
  fix st ps
  assume ps: "ring_of E s path = Some ps" "s' = s\<lparr>pm_store := st\<rparr>"
    and k: "kv_put (pm_kv E) (pm_store s) path (serialize_ring E ps) = Done (st, OK)"
  then have "map_of (contents st) = (map_of (contents (pm_store s)))(path \<mapsto> serialize_ring E ps)"
    using put_contents [OF assms(1) k] by simp
  then have "pm_agrees E contents s'"
    using ps assms(3) by (auto simp: pm_agrees_def fun_eq_iff)
  then show ?thesis using put_opened [OF assms(1) k] ps(2) by simp
qed

lemma step_agrees:
  assumes "pm_agrees E contents s" "opened (pm_store s)" "pm_step E s op = Done (s', OK)"
  shows "pm_agrees E contents s' \<and> opened (pm_store s')"
proof (cases op)
  case (Add_Index path)
  with assms(3) obtain p where "write_partition_map E (set_partition path p s) path = Done (s', OK)"
    by (auto simp: add_index_def set_partition_def Let_def split: if_splits)
  then show ?thesis
    by (rule write_agrees [rotated]) (use assms(1,2) in \<open>auto simp: pm_agrees_def\<close>)
next
  case (Remove_Index path)
  with assms(3) obtain st where k: "kv_remove (pm_kv E) (pm_store s) path = Done (st, OK)"
    "s' = s\<lparr>pm_store := st, partition_map_by_index_path := (partition_map_by_index_path s)(path := None)\<rparr>"
    by (auto simp: remove_index_def Let_def ok_iff split: if_splits)
  then show ?thesis
    using assms(1) remove_opened [OF assms(2) k(1)] remove_contents [OF assms(2) k(1)]
    by (auto simp: pm_agrees_def ring_of_def fun_eq_iff)
next
  case (Add_Partition path sep)
  with assms(3) obtain p where "write_partition_map E (set_partition path p s) path = Done (s', OK)"
    by (auto simp: add_partition_def Let_def split: option.splits if_splits)
  then show ?thesis
    by (rule write_agrees [rotated]) (use assms(1,2) in \<open>auto simp: pm_agrees_def\<close>)
qed

lemma pm_load_all:
  assumes "\<forall>(k, v)\<in>set rs. \<exists>ps. v = serialize_ring E ps \<and> smap_ok ps \<and> f k = Some ps"
  shows "\<exists>s'. pm_load E s rs = (s', OK) \<and> ring_of E s' = (\<lambda>k. if k \<in> fst ` set rs then f k else ring_of E s k)"
  using assms
proof (induction rs arbitrary: s)
  case Nil
  then show ?case by (intro exI [of _ s]) simp
next
  case (Cons r rs)
  obtain k v where r: "r = (k, v)" by fastforce
  obtain ps where ps: "v = serialize_ring E ps" "smap_ok ps" "f k = Some ps" using Cons.prems r by auto
  let ?pm = "foldl (\<lambda>r (sep, path). fst (ring_insert (pm_ring E) r sep path)) (pm_ring_new E) ps"
  let ?s = "set_partition k ((Partition_new E)\<lparr>partitions := ?pm\<rparr>) s"
  have new: "ring_items (pm_ring E) (pm_ring_new E) = []" using laws by (simp add: pm_laws_def)
  have "ring_items (pm_ring E) ?pm = ps"
    using load_ring [OF laws, of "pm_ring_new E" ps] ps(2) new by simp
  then have R: "ring_of E ?s = (ring_of E s)(k \<mapsto> ps)" by simp
  have "pm_load E s (r # rs) = pm_load E ?s rs"
    using laws ps r by (simp add: string_to_partition_map_def pm_laws_def set_partition_def)
  moreover obtain s' where "pm_load E ?s rs = (s', OK)"
    "ring_of E s' = (\<lambda>k. if k \<in> fst ` set rs then f k else ring_of E ?s k)"
    using Cons.IH [of ?s] Cons.prems by auto
  ultimately show ?case
    using r ps(3) unfolding R by (intro exI [of _ s']) (auto simp: fun_eq_iff simp del: pm_load.simps)
qed

lemma pm_restart:
  assumes "pm_agrees E contents s" "kv_open (pm_kv E) st0 = (st1, OK)" "opened st1"
    and "contents st1 = contents (pm_store s)"
  shows "\<exists>s'. pm_init E (PartitionManager_new st0) = Done (s', OK) \<and> ring_of E s' = ring_of E s"
proof -
  let ?C = "contents st1"
  have sorted: "smap_ok ?C" using assms(3) by (rule contents_ordered)
  have C: "map_of ?C = (\<lambda>path. map_option (serialize_ring E) (ring_of E s path))"
    using assms(1,4) by (simp add: pm_agrees_def)
  have ok: "smap_ok ps" if "ring_of E s k = Some ps" for k ps
    using that laws by (auto simp: ring_of_def pm_laws_def ring_laws_def)
  have "\<forall>(k, v)\<in>set ?C. \<exists>ps. v = serialize_ring E ps \<and> smap_ok ps \<and> ring_of E s k = Some ps"
    using smap_ok_map_of [OF sorted] C ok by auto
  from pm_load_all [OF this, of "PartitionManager_new st1", unfolded ring_of_new] obtain s' where
    s': "pm_load E (PartitionManager_new st1) ?C = (s', OK)"
    "ring_of E s' = (\<lambda>k. if k \<in> fst ` set ?C then ring_of E s k else None)"
    by auto
  have "k \<notin> fst ` set ?C \<Longrightarrow> ring_of E s k = None" for k
    using C map_of_eq_None_iff [of ?C k] by auto
  then have "ring_of E s' = ring_of E s" unfolding s'(2) by auto
  moreover have "pm_init E (PartitionManager_new st0) = Done (s', OK)"
    using assms(2) scan_contents [OF assms(3)] s'(1) by (simp add: pm_init_def PartitionManager_new_def)
  ultimately show ?thesis by blast
qed

end
section \<open>Instances\<close>

definition ser_ring :: "(HashValueType \<times> string) list \<Rightarrow> string" where
  "ser_ring ps = enc_nats (0 # concat (map (\<lambda>(k, v). [int_encode k, string_nat v]) ps))"

fun pair_up :: "nat list \<Rightarrow> (HashValueType \<times> string) list" where
  "pair_up (a # b # ns) = (int_decode a, nat_string b) # pair_up ns"
| "pair_up _ = []"

definition deser_ring :: "string \<Rightarrow> (HashValueType \<times> string) list option" where
  "deser_ring s = (case dec_nats s of [] \<Rightarrow> None | _ # ns \<Rightarrow> Some (pair_up ns))"

lemma pair_up_inverse: "pair_up (concat (map (\<lambda>(k, v). [int_encode k, string_nat v]) ps)) = ps"
  by (induction ps) auto

lemma deser_ser_ring: "deser_ring (ser_ring ps) = Some ps" "ser_ring ps \<noteq> []"
  by (simp_all add: deser_ring_def ser_ring_def pair_up_inverse) (simp add: enc_nats_def)

definition test_pm_env :: "(TestLevelDBStore, (HashValueType \<times> string option) list) pm_env" where
  "test_pm_env = \<lparr>pm_kv = test_kv, pm_ring = list_ring, pm_ring_new = [], pm_junk = 0,
     serialize_ring = ser_ring, deserialize_ring = deser_ring\<rparr>"

lemma pm_laws_codec:
  "pm_laws \<lparr>pm_kv = k, pm_ring = list_ring, pm_ring_new = [], pm_junk = j, serialize_ring = ser_ring, deserialize_ring = deser_ring\<rparr>"
  by (simp add: pm_laws_def ring_laws_list deser_ser_ring) (simp add: list_ring_def replay_nodes_def)

interpretation test_pm: stored_partitions test_pm_env smap_ok "\<lambda>s. s"
proof -
  have "kv_store (pm_kv test_pm_env) smap_ok (\<lambda>s. s)"
    using test_store.kv_store_axioms by (simp add: test_pm_env_def)
  then show "stored_partitions test_pm_env smap_ok (\<lambda>s. s)"
    by (simp add: stored_partitions_def stored_partitions_axioms_def test_pm_env_def pm_laws_codec)
qed

definition leveldb_pm_env :: "'db leveldb_api \<Rightarrow> ('db LevelDBStore, 'r) pm_env \<Rightarrow> bool" where
  "leveldb_pm_env L E \<longleftrightarrow> leveldb_laws L \<and> pm_kv E = leveldb_kv L \<and> pm_laws E"

lemma leveldb_partitions:
  "leveldb_pm_env L E \<Longrightarrow> stored_partitions E (\<lambda>st. db_ptr st \<noteq> None) (LevelDBStore_items L)"
  using leveldb_kv_store by (auto simp: leveldb_pm_env_def stored_partitions_def stored_partitions_axioms_def)

definition log_pm_env ::
  "((string \<times> string option) list LevelDBStore, (HashValueType \<times> string option) list) pm_env" where
  "log_pm_env = \<lparr>pm_kv = leveldb_kv log_leveldb, pm_ring = list_ring, pm_ring_new = [], pm_junk = 0,
     serialize_ring = ser_ring, deserialize_ring = deser_ring\<rparr>"

lemma leveldb_pm_env_log: "leveldb_pm_env log_leveldb log_pm_env"
  by (simp add: leveldb_pm_env_def log_pm_env_def leveldb_laws_log pm_laws_codec)

section \<open>Properties\<close>

text \<open>A sequence of operations that all report success, and what it makes of the rings.\<close>

inductive pm_run ::
  "('s, 'r) pm_env \<Rightarrow> ('s, 'r) PartitionManager \<Rightarrow> pm_op list \<Rightarrow> ('s, 'r) PartitionManager \<Rightarrow> bool" for E where
  pm_done: "pm_run E s [] s"
| pm_next: "pm_step E s op = Done (s1, OK) \<Longrightarrow> pm_run E s1 ops s' \<Longrightarrow> pm_run E s (op # ops) s'"

definition log_pm_store :: "(string \<times> string option) list LevelDBStore" where
  "log_pm_store = \<lparr>db_path = ''/pm'', bufsize_mb = 4, db_ptr = Some []\<rparr>"



text \<open>
  \<open>remove_partition\<close> hides a failed write: the partition is gone from memory, the database
  still has it, and the call reports success; besides, every call that finds its index leaves
  the reference count one higher, whatever its outcome.
\<close>

theorem remove_partition_hides_failed_write:
  assumes "pm_laws E" "partition_map_by_index_path s path = Some p"
    and "ring_has_key (pm_ring E) (partitions p) sep"
    and "\<And>v. kv_put (pm_kv E) (pm_store s) path v = Done (pm_store s, Err c m)"
  shows "\<exists>s'. remove_partition E s path sep = Done (s', OK) \<and> pm_store s' = pm_store s \<and>
    ring_of E s' path = Some (smap_erase sep (ring_items (pm_ring E) (partitions p))) \<and>
    map_option refcount (partition_map_by_index_path s' path) = Some (refcount p + 1)"
proof -
  obtain r where r: "ring_remove (pm_ring E) (partitions p) sep = (r, OK)"
    "ring_items (pm_ring E) r = smap_erase sep (ring_items (pm_ring E) (partitions p))"
    using assms(1,3) unfolding pm_laws_def ring_laws_def by blast
  let ?s = "set_partition path (p\<lparr>refcount := refcount p + 1, partitions := r\<rparr>) s"
  have "write_partition_map E ?s path = Done (?s\<lparr>pm_store := pm_store s\<rparr>, Err c m)"
    using assms(1,4) by (simp add: write_partition_map_def partition_map_to_string_def pm_laws_def set_partition_def)
  then have "remove_partition E s path sep = Done (?s\<lparr>pm_store := pm_store s\<rparr>, OK)"
    using assms(2) r(1) by (simp add: remove_partition_def)
  then show ?thesis using r(2) by (auto simp: set_partition_def ring_of_def)
qed

definition broken_pm_env :: "(unit, (HashValueType \<times> string option) list) pm_env" where
  "broken_pm_env = \<lparr>pm_kv = \<lparr>kv_open = (\<lambda>s. (s, OK)), kv_get = (\<lambda>s k. Done (OK, None)),
       kv_put = (\<lambda>s k v. Done (s, Err (-1) ''disk full'')), kv_remove = (\<lambda>s k. Done (s, OK)),
       kv_scan = (\<lambda>s. Done [])\<rparr>,
     pm_ring = list_ring, pm_ring_new = [], pm_junk = 0, serialize_ring = ser_ring, deserialize_ring = deser_ring\<rparr>"

theorem remove_partition_hides_failed_write_witness:
  "\<exists>s'. remove_partition broken_pm_env
       \<lparr>pm_store = (), partition_map_by_index_path = [''/i'' \<mapsto> \<lparr>refcount = 0, partitions = [(0, Some ''/i.0'')]\<rparr>]\<rparr> ''/i'' 0 =
       Done (s', OK) \<and> ring_of broken_pm_env s' ''/i'' = Some []"
proof -
  let ?s = "\<lparr>pm_store = (), partition_map_by_index_path = [''/i'' \<mapsto> \<lparr>refcount = 0, partitions = [(0, Some ''/i.0'')]\<rparr>]\<rparr>"
  let ?p = "\<lparr>refcount = 0, partitions = [(0, Some ''/i.0'')]\<rparr>"
  have 1: "pm_laws broken_pm_env" unfolding broken_pm_env_def by (rule pm_laws_codec)
  have 2: "partition_map_by_index_path ?s ''/i'' = Some ?p" by simp
  have 3: "ring_has_key (pm_ring broken_pm_env) (partitions ?p) 0"
    by (simp add: broken_pm_env_def list_ring_def replay_nodes_def)
  have 4: "kv_put (pm_kv broken_pm_env) (pm_store ?s) ''/i'' v = Done (pm_store ?s, Err (-1) ''disk full'')" for v
    by (simp add: broken_pm_env_def)
  note remove_partition_hides_failed_write [OF 1 2 3 4]
  moreover have "smap_erase 0 (ring_items (pm_ring broken_pm_env) (partitions ?p)) = []"
    by (simp add: broken_pm_env_def list_ring_def replay_nodes_def smap_erase_def)
  ultimately show ?thesis by auto
qed

end
