(* ===== verification/MT_Hashmap.thy ===== *)
theory MT_Hashmap
  imports Vsfs_Prelude "HOL-Library.Multiset"
begin

text \<open>
  \<open>MTHashMap\<close> (\<open>vsfs/masterd/mt_hashmap.h\<close>): a hash map of a fixed number of buckets, each a
  \<open>std::unordered_map\<close> behind its own mutex. A bucket is the list of its elements in the order its
  iterator visits them; a new element may be put anywhere, here at the end. The hash function of
  the key type is the argument \<open>h\<close>. An operation on one key holds the mutex of its bucket and
  is one step.
\<close>

section \<open>std::unordered\_map\<close>

fun umap_set :: "'k \<Rightarrow> 'v \<Rightarrow> ('k \<times> 'v) list \<Rightarrow> ('k \<times> 'v) list" where
  "umap_set k v [] = [(k, v)]"
| "umap_set k v (p # ps) = (if fst p = k then (k, v) # ps else p # umap_set k v ps)"

definition umap_erase :: "'k \<Rightarrow> ('k \<times> 'v) list \<Rightarrow> ('k \<times> 'v) list" where
  "umap_erase k ps = filter (\<lambda>p. fst p \<noteq> k) ps"

lemma map_of_umap_set [simp]: "map_of (umap_set k v ps) = (map_of ps)(k \<mapsto> v)"
  by (induction ps) auto

lemma keys_umap_set: "fst ` set (umap_set k v ps) = insert k (fst ` set ps)"
  by (induction ps) auto

lemma distinct_umap_set: "distinct (map fst ps) \<Longrightarrow> distinct (map fst (umap_set k v ps))"
  by (induction ps) (auto simp: keys_umap_set)

lemma map_of_umap_erase [simp]: "map_of (umap_erase k ps) = (map_of ps)(k := None)"
  by (induction ps) (auto simp: umap_erase_def)

lemma distinct_umap_erase: "distinct (map fst ps) \<Longrightarrow> distinct (map fst (umap_erase k ps))"
  by (induction ps) (auto simp: umap_erase_def)

section \<open>Operations\<close>

type_synonym ('k, 'v) MTHashMap = "('k \<times> 'v) list list"

text \<open>An iterator is the index of its bucket and the position in it; \<open>end()\<close> is past the last bucket.\<close>

type_synonym mt_iterator = "nat \<times> nat"

definition MTHashMap_new :: "nat \<Rightarrow> ('k, 'v) MTHashMap" where
  "MTHashMap_new n = replicate n []"

definition bucket_idx :: "('k \<Rightarrow> nat) \<Rightarrow> ('k, 'v) MTHashMap \<Rightarrow> 'k \<Rightarrow> nat" where
  "bucket_idx h m key = h key mod length m"

definition bucket_size :: "('k, 'v) MTHashMap \<Rightarrow> nat" where
  "bucket_size m = length m"

definition mt_at :: "('k \<Rightarrow> nat) \<Rightarrow> ('k, 'v) MTHashMap \<Rightarrow> 'k \<Rightarrow> 'v outcome" where
  "mt_at h m key =
     (case map_of (m ! bucket_idx h m key) key of None \<Rightarrow> Fail OutOfRange | Some v \<Rightarrow> Done v)"

text \<open>\<open>operator[]\<close> with the default value \<open>d\<close> of the mapped type: the value read, or assigned to.\<close>

definition mt_subscript :: "('k \<Rightarrow> nat) \<Rightarrow> 'v \<Rightarrow> ('k, 'v) MTHashMap \<Rightarrow> 'k \<Rightarrow> ('k, 'v) MTHashMap \<times> 'v" where
  "mt_subscript h d m key =
     (let idx = bucket_idx h m key in
      case map_of (m ! idx) key of
        None \<Rightarrow> (m[idx := umap_set key d (m ! idx)], d)
      | Some v \<Rightarrow> (m, v))"

definition mt_assign :: "('k \<Rightarrow> nat) \<Rightarrow> 'k \<Rightarrow> 'v \<Rightarrow> ('k, 'v) MTHashMap \<Rightarrow> ('k, 'v) MTHashMap" where
  "mt_assign h key v m = (let idx = bucket_idx h m key in m[idx := umap_set key v (m ! idx)])"

definition key_pos :: "'k \<Rightarrow> ('k \<times> 'v) list \<Rightarrow> nat option" where
  "key_pos key ps = find_idx (\<lambda>p. fst p = key) ps"

definition mt_insert ::
  "('k \<Rightarrow> nat) \<Rightarrow> ('k, 'v) MTHashMap \<Rightarrow> 'k \<times> 'v \<Rightarrow> ('k, 'v) MTHashMap \<times> mt_iterator \<times> bool" where
  "mt_insert h m val =
     (let idx = bucket_idx h m (fst val) in
      case key_pos (fst val) (m ! idx) of
        Some pos \<Rightarrow> (m, (idx, pos), False)
      | None \<Rightarrow> (m[idx := umap_set (fst val) (snd val) (m ! idx)], (idx, length (m ! idx)), True))"

definition mt_erase :: "('k \<Rightarrow> nat) \<Rightarrow> 'k \<Rightarrow> ('k, 'v) MTHashMap \<Rightarrow> ('k, 'v) MTHashMap" where
  "mt_erase h key m = (let idx = bucket_idx h m key in m[idx := umap_erase key (m ! idx)])"

definition mt_erase_count :: "('k \<Rightarrow> nat) \<Rightarrow> 'k \<Rightarrow> ('k, 'v) MTHashMap \<Rightarrow> nat" where
  "mt_erase_count h key m = (if map_of (m ! bucket_idx h m key) key = None then 0 else 1)"

definition mt_end :: "('k, 'v) MTHashMap \<Rightarrow> mt_iterator" where
  "mt_end m = (length m, length (last m))"

definition mt_find :: "('k \<Rightarrow> nat) \<Rightarrow> ('k, 'v) MTHashMap \<Rightarrow> 'k \<Rightarrow> mt_iterator" where
  "mt_find h m key =
     (let idx = bucket_idx h m key in
      case key_pos key (m ! idx) of None \<Rightarrow> mt_end m | Some pos \<Rightarrow> (idx, pos))"

definition mt_clear :: "('k, 'v) MTHashMap \<Rightarrow> ('k, 'v) MTHashMap" where
  "mt_clear m = map (\<lambda>_. []) m"

fun mt_empty :: "('k, 'v) MTHashMap \<Rightarrow> bool" where
  "mt_empty [] = True"
| "mt_empty (b # bs) = (if b \<noteq> [] then False else mt_empty bs)"

definition mt_size :: "('k, 'v) MTHashMap \<Rightarrow> nat" where
  "mt_size m = foldl (\<lambda>total b. total + length b) 0 m"

definition mt_copy :: "('k, 'v) MTHashMap \<Rightarrow> ('k, 'v) MTHashMap \<Rightarrow> ('k, 'v) MTHashMap" where
  "mt_copy lhs rhs = map (\<lambda>i. rhs ! i) [0..<length lhs]"

text \<open>Moving a bucket leaves in the source what \<open>std::unordered_map\<close> leaves there, \<open>moved\<close>.\<close>

definition mt_move ::
  "(('k \<times> 'v) list \<Rightarrow> ('k \<times> 'v) list) \<Rightarrow> ('k, 'v) MTHashMap \<Rightarrow> ('k, 'v) MTHashMap \<Rightarrow> ('k, 'v) MTHashMap \<times> ('k, 'v) MTHashMap" where
  "mt_move moved lhs rhs = (map (\<lambda>i. rhs ! i) [0..<length lhs], map moved (take (length lhs) rhs) @ drop (length lhs) rhs)"

text \<open>Two unordered maps are equal when they have the same entries.\<close>

definition mt_equal :: "('k, 'v) MTHashMap \<Rightarrow> ('k, 'v) MTHashMap \<Rightarrow> bool" where
  "mt_equal lhs rhs = list_all (\<lambda>i. set (lhs ! i) = set (rhs ! i)) [0..<length lhs]"

text \<open>The first bucket from \<open>i\<close> on that is not empty, or the end.\<close>

function mt_from :: "('k, 'v) MTHashMap \<Rightarrow> nat \<Rightarrow> mt_iterator" where
  "mt_from m i =
     (if i < length m then (if m ! i \<noteq> [] then (i, 0) else mt_from m (i + 1)) else mt_end m)"
  by pat_completeness auto
termination by (relation "measure (\<lambda>(m, i). length m - i)") auto

declare mt_from.simps [simp del]

definition mt_begin :: "('k, 'v) MTHashMap \<Rightarrow> mt_iterator" where
  "mt_begin m = mt_from m 0"

definition mt_increment :: "('k, 'v) MTHashMap \<Rightarrow> mt_iterator \<Rightarrow> mt_iterator" where
  "mt_increment m it =
     (case it of (b, pos) \<Rightarrow>
        if length m \<le> b then it
        else if pos + 1 = length (m ! b) then mt_from m (b + 1)
        else (b, pos + 1))"

definition mt_dereference :: "('k, 'v) MTHashMap \<Rightarrow> mt_iterator \<Rightarrow> ('k \<times> 'v) outcome" where
  "mt_dereference m it =
     (if fst it < length m \<and> snd it < length (m ! fst it) then Done (m ! fst it ! snd it) else Fail Undefined)"

text \<open>A range-based \<open>for\<close>: what is left to visit from an iterator, with as much fuel as elements.\<close>

fun mt_visit :: "nat \<Rightarrow> ('k, 'v) MTHashMap \<Rightarrow> mt_iterator \<Rightarrow> ('k \<times> 'v) list outcome" where
  "mt_visit 0 m it = (if it = mt_end m then Done [] else Fail Undefined)"
| "mt_visit (Suc n) m it =
     (if it = mt_end m then Done []
      else bindo (mt_dereference m it) (\<lambda>p. bindo (mt_visit n m (mt_increment m it)) (\<lambda>ps. Done (p # ps))))"

section \<open>Invariant\<close>

definition mt_inv :: "('k \<Rightarrow> nat) \<Rightarrow> ('k, 'v) MTHashMap \<Rightarrow> bool" where
  "mt_inv h m \<longleftrightarrow> m \<noteq> [] \<and> (\<forall>i<length m. distinct (map fst (m ! i)) \<and> (\<forall>p\<in>set (m ! i). bucket_idx h m (fst p) = i))"

definition mt_lookup :: "('k \<Rightarrow> nat) \<Rightarrow> ('k, 'v) MTHashMap \<Rightarrow> 'k \<Rightarrow> 'v option" where
  "mt_lookup h m key = map_of (m ! bucket_idx h m key) key"

lemma bucket_idx_less [simp]: "m \<noteq> [] \<Longrightarrow> bucket_idx h m k < length m"
  by (simp add: bucket_idx_def)

lemma bucket_idx_update [simp]: "bucket_idx h (m[i := b]) k = bucket_idx h m k"
  by (simp add: bucket_idx_def)

lemma mt_lookup_update:
  assumes "m \<noteq> []" "map_of b = (map_of (m ! bucket_idx h m k))(k := x)"
  shows "mt_lookup h (m[bucket_idx h m k := b]) = (mt_lookup h m)(k := x)"
  using assms by (auto simp: mt_lookup_def fun_eq_iff nth_list_update)

lemma mt_inv_update:
  assumes "mt_inv h m" "distinct (map fst b)" "\<forall>p\<in>set b. bucket_idx h m (fst p) = i"
  shows "mt_inv h (m[i := b])"
proof (cases "i < length m")
  case True
  with assms show ?thesis by (simp add: mt_inv_def nth_list_update)
qed (use assms in \<open>simp add: list_update_beyond\<close>)

lemma umap_set_keys: "p \<in> set (umap_set k v b) \<Longrightarrow> fst p = k \<or> fst p \<in> fst ` set b"
  using keys_umap_set [of k v b] by (metis image_eqI insertE)

lemma mt_assign_inv:
  assumes "mt_inv h m"
  shows "mt_inv h (mt_assign h k v m)"
  unfolding mt_assign_def Let_def
proof (rule mt_inv_update [OF assms])
  let ?i = "bucket_idx h m k"
  have i: "?i < length m" using assms by (simp add: mt_inv_def)
  then show "distinct (map fst (umap_set k v (m ! ?i)))"
    using assms by (auto simp: mt_inv_def intro: distinct_umap_set)
  have b: "\<forall>p\<in>set (m ! ?i). bucket_idx h m (fst p) = ?i" using i assms unfolding mt_inv_def by blast
  show "\<forall>p\<in>set (umap_set k v (m ! ?i)). bucket_idx h m (fst p) = ?i"
  proof
    fix p assume "p \<in> set (umap_set k v (m ! ?i))"
    then show "bucket_idx h m (fst p) = ?i" using umap_set_keys [of p k v "m ! ?i"] b by auto
  qed
qed

lemma mt_erase_inv:
  assumes "mt_inv h m"
  shows "mt_inv h (mt_erase h k m)"
  unfolding mt_erase_def Let_def
proof (rule mt_inv_update [OF assms])
  let ?i = "bucket_idx h m k"
  have i: "?i < length m" using assms by (simp add: mt_inv_def)
  then show "distinct (map fst (umap_erase k (m ! ?i)))"
    using assms by (auto simp: mt_inv_def intro: distinct_umap_erase)
  show "\<forall>p\<in>set (umap_erase k (m ! ?i)). bucket_idx h m (fst p) = ?i"
    using i assms unfolding mt_inv_def umap_erase_def by auto
qed

interpretation mt: dictionary "mt_inv h" "mt_lookup h" "mt_assign h" "mt_erase h" for h :: "'k \<Rightarrow> nat"
proof unfold_locales
  fix m :: "('k, 'v) MTHashMap" and k v assume inv: "mt_inv h m"
  then have m: "m \<noteq> []" by (simp add: mt_inv_def)
  show "mt_lookup h (mt_assign h k v m) = (mt_lookup h m)(k \<mapsto> v)"
    unfolding mt_assign_def Let_def by (rule mt_lookup_update [OF m]) simp
  show "mt_lookup h (mt_erase h k m) = (mt_lookup h m)(k := None)"
    unfolding mt_erase_def Let_def by (rule mt_lookup_update [OF m]) simp
  show "mt_inv h (mt_assign h k v m)" using inv by (rule mt_assign_inv)
  show "mt_inv h (mt_erase h k m)" using inv by (rule mt_erase_inv)
qed

lemma key_pos_None: "key_pos k ps = None \<longleftrightarrow> map_of ps k = None"
  by (auto simp: key_pos_def find_idx_None_iff map_of_eq_None_iff)

lemma key_pos_Some:
  assumes "key_pos k ps = Some i" "distinct (map fst ps)"
  shows "i < length ps" "map_of ps k = Some (snd (ps ! i))" "fst (ps ! i) = k"
proof -
  note d = find_idx_SomeD [OF assms(1) [unfolded key_pos_def]]
  show "i < length ps" "fst (ps ! i) = k" using d by simp_all
  then have "(k, snd (ps ! i)) \<in> set ps" by (metis nth_mem prod.collapse)
  with assms(2) show "map_of ps k = Some (snd (ps ! i))" by simp
qed

lemma mt_new_inv: "0 < n \<Longrightarrow> mt_inv h (MTHashMap_new n)"
  by (simp add: mt_inv_def MTHashMap_new_def)

lemma mt_lookup_new: "0 < n \<Longrightarrow> mt_lookup h (MTHashMap_new n) = (\<lambda>_. None)"
  by (auto simp: mt_lookup_def MTHashMap_new_def bucket_idx_def fun_eq_iff)

section \<open>Iteration\<close>

text \<open>What lies ahead of an iterator: the rest of its bucket and all later buckets.\<close>

definition ahead :: "('k, 'v) MTHashMap \<Rightarrow> mt_iterator \<Rightarrow> ('k \<times> 'v) list" where
  "ahead m it = (if fst it < length m then drop (snd it) (m ! fst it) @ concat (drop (fst it + 1) m) else [])"

lemma mt_from_cases: "mt_from m i = mt_end m \<or> (fst (mt_from m i) < length m \<and> snd (mt_from m i) < length (m ! fst (mt_from m i)))"
proof (induction m i rule: mt_from.induct)
  case (1 m i)
  then show ?case by (subst (1 2 3 4) mt_from.simps) auto
qed

lemma ahead_from: "i \<le> length m \<Longrightarrow> ahead m (mt_from m i) = concat (drop i m)"
proof (induction m i rule: mt_from.induct)
  case (1 m i)
  show ?case
  proof (cases "i < length m")
    case True
    with 1 show ?thesis
      by (subst mt_from.simps) (auto simp: ahead_def Cons_nth_drop_Suc [symmetric])
  qed (use 1 in \<open>subst mt_from.simps, simp add: ahead_def mt_end_def\<close>)
qed

lemma mt_visit_ahead:
  assumes "length (ahead m it) \<le> n" "it = mt_end m \<or> (fst it < length m \<and> snd it < length (m ! fst it))"
  shows "mt_visit n m it = Done (ahead m it)"
  using assms
proof (induction n arbitrary: it)
  case 0
  then show ?case by (auto simp: ahead_def mt_end_def)
next
  case (Suc n)
  obtain b pos where it: "it = (b, pos)" by fastforce
  show ?case
  proof (cases "it = mt_end m")
    case True
    then show ?thesis by (simp add: ahead_def mt_end_def)
  next
    case False
    with Suc.prems it have v: "b < length m" "pos < length (m ! b)" by auto
    let ?it = "mt_increment m it"
    have step: "ahead m it = m ! b ! pos # ahead m ?it"
      using v it ahead_from [of "b + 1" m]
      by (auto simp: mt_increment_def ahead_def [of m "(b, pos)"] ahead_def [of m "(b, Suc pos)"]
          Cons_nth_drop_Suc [symmetric])
    have "?it = mt_end m \<or> (fst ?it < length m \<and> snd ?it < length (m ! fst ?it))"
      using v it mt_from_cases [of m "b + 1"] by (auto simp: mt_increment_def)
    with Suc.IH [of ?it] Suc.prems(1) step have "mt_visit n m ?it = Done (ahead m ?it)" by simp
    with False step v it show ?thesis by (simp add: mt_dereference_def)
  qed
qed

section \<open>Properties\<close>



lemma mt_size_concat: "mt_size m = length (concat m)"
proof -
  have "foldl (\<lambda>t b. t + length b) a m = a + length (concat m)" for a
    by (induction m arbitrary: a) auto
  then show ?thesis by (simp add: mt_size_def)
qed

text \<open>
  a loop from \<open>begin()\<close> to \<open>end()\<close> ends after \<open>size()\<close> steps, never dereferences an invalid
  iterator, and visits every element of every bucket exactly once, whichever buckets are empty.
\<close>

theorem mt_iteration_visits_all: "mt_visit (mt_size m) m (mt_begin m) = Done (concat m)"
proof -
  have "ahead m (mt_begin m) = concat m" unfolding mt_begin_def using ahead_from [of 0 m] by simp
  with mt_visit_ahead [of m "mt_begin m" "mt_size m"] mt_from_cases [of m 0] show ?thesis
    by (simp add: mt_size_concat mt_begin_def)
qed

text \<open>
  \<open>insert\<close> never replaces: it reports whether the key was new, the iterator it returns is the one
  \<open>find\<close> gives afterwards, and a lookup sees the new value only when the key was absent.
\<close>

theorem mt_insert_find:
  assumes "mt_inv h m" "mt_insert h m (k, v) = (m', it, inserted)"
  shows "mt_inv h m' \<and> it = mt_find h m' k \<and> (inserted \<longleftrightarrow> mt_lookup h m k = None) \<and>
    mt_lookup h m' = (if inserted then (mt_lookup h m)(k \<mapsto> v) else mt_lookup h m) \<and>
    mt_dereference m' it = Done (k, the (mt_lookup h m' k))"
proof -
  let ?i = "bucket_idx h m k"
  have i: "?i < length m" "distinct (map fst (m ! ?i))" "m \<noteq> []" using assms(1) by (simp_all add: mt_inv_def)
  show ?thesis
  proof (cases "key_pos k (m ! ?i)")
    case (Some pos)
    then have r: "m' = m" "it = (?i, pos)" "\<not> inserted" using assms(2) by (auto simp: mt_insert_def Let_def)
    with Some key_pos_Some [OF Some i(2)] i assms(1) show ?thesis
      by (auto simp: mt_find_def Let_def mt_lookup_def mt_dereference_def prod_eq_iff)
  next
    case None
    then have m': "m' = mt_assign h k v m" and r: "it = (?i, length (m ! ?i))" "inserted"
      using assms(2) by (simp_all add: mt_insert_def mt_assign_def Let_def)
    have app: "umap_set k v b = b @ [(k, v)]" if "key_pos k b = None" for b
      using that by (induction b) (auto simp: key_pos_def split: if_splits)
    have b: "m' ! ?i = m ! ?i @ [(k, v)]" "length m' = length m" "bucket_idx h m' k = ?i"
      using i app [OF None] by (simp_all add: m' mt_assign_def Let_def)
    have "key_pos k (m ! ?i @ [(k, v)]) = Some (length (m ! ?i))"
      using None unfolding key_pos_def by (intro find_idx_append) (auto simp: find_idx_None_iff)
    then have "it = mt_find h m' k" using b r by (simp add: mt_find_def Let_def)
    moreover have "mt_lookup h m k = None" using None key_pos_None [of k "m ! ?i"] by (simp add: mt_lookup_def)
    moreover have "mt_dereference m' it = Done (k, v)" using b r i(1) by (simp add: mt_dereference_def)
    ultimately show ?thesis
      using r mt_assign_inv [OF assms(1)] mt.put_alpha [OF assms(1)] by (simp add: m')
  qed
qed

theorem mt_insert_find_witness:
  "mt_insert (\<lambda>x. x) (MTHashMap_new 2) (1, ''a'') = ([[], [(1, ''a'')]], (1, 0), True) \<and>
     mt_lookup (\<lambda>x. x) [[], [(1, ''a'')]] 1 = Some ''a''"
proof -
  have e: "mt_insert (\<lambda>x. x) (MTHashMap_new 2) (1, ''a'') = ([[], [(1, ''a'')]], (1, 0), True)"
  proof -
    have n: "MTHashMap_new 2 = [[], [] :: (nat \<times> string) list]" by (simp add: MTHashMap_new_def numeral_2_eq_2)
    show ?thesis unfolding n by (simp add: mt_insert_def bucket_idx_def key_pos_def Let_def)
  qed
  show ?thesis using e mt_insert_find [OF mt_new_inv e] by simp
qed

text \<open>
  Two hash maps of the same number of buckets compare equal exactly when they have the same value for every key; moving one
  into another of that size gives a map equal to it.\<close>

theorem mt_equal_lookup:
  assumes "mt_inv h a" "mt_inv h b" "length a = length b"
  shows "(mt_equal a b \<longleftrightarrow> mt_lookup h a = mt_lookup h b) \<and> mt_equal (fst (mt_move moved a b)) b"
proof -
  have idx: "bucket_idx h a key = bucket_idx h b key" for key by (simp add: bucket_idx_def assms(3))
  have lt: "bucket_idx h a key < length a" for key using assms(1) by (simp add: bucket_idx_def mt_inv_def)
  have m: "map_of (a ! i) = map_of (b ! i) \<longleftrightarrow> set (a ! i) = set (b ! i)" if "i < length a" for i
    using assms that by (intro map_of_inject_set) (auto simp: mt_inv_def)
  have out: "map_of (c ! i) key = None" if "mt_inv h c" "i < length c" "bucket_idx h c key \<noteq> i" for c :: "('a, 'b) MTHashMap" and i key
    using that by (auto simp: mt_inv_def map_of_eq_None_iff)
  have "map_of (a ! i) = map_of (b ! i)" if l: "mt_lookup h a = mt_lookup h b" and i: "i < length a" for i
  proof
    fix key
    show "map_of (a ! i) key = map_of (b ! i) key"
    proof (cases "bucket_idx h a key = i")
      case True
      with fun_cong [OF l, of key] idx [of key] show ?thesis by (simp add: mt_lookup_def)
    qed (use out assms i idx in metis)
  qed
  moreover have "mt_lookup h a key = mt_lookup h b key" if "\<forall>i<length a. map_of (a ! i) = map_of (b ! i)" for key
    using that lt by (simp add: mt_lookup_def idx)
  ultimately have "mt_equal a b \<longleftrightarrow> mt_lookup h a = mt_lookup h b"
    using m by (auto simp: mt_equal_def list_all_iff)
  moreover have "mt_equal (fst (mt_move moved a b)) b" by (simp add: mt_equal_def mt_move_def list_all_iff)
  ultimately show ?thesis ..
qed

end
