(* ===== verification/Index.thy ===== *)
theory Index
  imports Rpc_Types
begin

text \<open>
  The in-memory file indices: \<open>IndexImpl\<close> (\<open>vsfs/index/index_impl.h\<close>), \<open>RangeIndex\<close>
  (\<open>range_index.h\<close>, \<open>range_index.cpp\<close>), the factory of hash indices (\<open>hash_index.cpp\<close>) and
  \<open>IndexInfo\<close> (\<open>index_info.cpp\<close>). An index maps a key to a set of object ids; the map is in key
  order, a set in the order of its ids, one of the orders an unordered container may take.
  Boost's \<open>lexical_cast\<close> and vobla's type ids are parameters.
\<close>

section \<open>Key types\<close>

text \<open>
  What the template uses of its key type: the two casts, whether \<open>KeyType key = 0\<close> is defined (it
  is not for \<open>std::string\<close>, where it builds a string from a null pointer) and
  \<open>numeric_limits\<close>.
\<close>

record 'k key_traits =
  cast_key :: "string \<Rightarrow> 'k option"
  cast_obj :: "string \<Rightarrow> ObjectId option"
  zero_init :: bool
  limit_min :: 'k
  limit_max :: 'k

definition int64_traits :: "(string \<Rightarrow> int option) \<Rightarrow> (string \<Rightarrow> ObjectId option) \<Rightarrow> int key_traits" where
  "int64_traits ck co =
     \<lparr>cast_key = ck, cast_obj = co, zero_init = True, limit_min = int64_min, limit_max = int64_max\<rparr>"

text \<open>The unspecialised \<open>numeric_limits\<close> returns a default object: the empty string, twice.\<close>

definition string_traits :: "(string \<Rightarrow> ObjectId option) \<Rightarrow> string key_traits" where
  "string_traits co = \<lparr>cast_key = Some, cast_obj = co, zero_init = False, limit_min = [], limit_max = []\<rparr>"

section \<open>IndexImpl\<close>

type_synonym 'k index_map = "('k \<times> ObjectId list) list"

definition files_of :: "'k index_map \<Rightarrow> 'k \<Rightarrow> ObjectId list" where
  "files_of index key = (case map_of index key of None \<Rightarrow> [] | Some files \<Rightarrow> files)"

definition impl_insert :: "'k::linorder \<Rightarrow> ObjectId \<Rightarrow> 'k index_map \<Rightarrow> 'k index_map" where
  "impl_insert key obj_id index = smap_put key (sset_insert obj_id (files_of index key)) index"

definition erase_with_lock :: "'k::linorder \<Rightarrow> ObjectId \<Rightarrow> 'k index_map \<Rightarrow> 'k index_map" where
  "erase_with_lock key obj_id index =
     (case map_of index key of
        None \<Rightarrow> index
      | Some obj_ids \<Rightarrow>
          let obj_ids' = sset_erase obj_id obj_ids in
          if obj_ids' = [] then smap_erase key index else smap_put key obj_ids' index)"

definition impl_erase :: "'k::linorder \<Rightarrow> ObjectId \<Rightarrow> 'k index_map \<Rightarrow> 'k index_map" where
  "impl_erase key obj_id index = erase_with_lock key obj_id index"

definition impl_erase_key :: "'k \<Rightarrow> 'k index_map \<Rightarrow> 'k index_map" where
  "impl_erase_key key index = smap_erase key index"

definition insert_string_val ::
  "'k::linorder key_traits \<Rightarrow> 'k index_map \<Rightarrow> string \<Rightarrow> string \<Rightarrow> ('k index_map \<times> Status) outcome" where
  "insert_string_val T index key value =
     (if \<not> zero_init T then Fail Undefined
      else case (cast_key T key, cast_obj T value) of
        (Some insert_key, Some obj_id) \<Rightarrow> Done (impl_insert insert_key obj_id index, OK)
      | _ \<Rightarrow> Done (index, Err (- EINVAL) ''IndexImpl::insert_string_val: bad cast''))"

text \<open>An unset \<open>value\<close> of an update reads as the empty string.\<close>

fun apply_updates ::
  "'k::linorder key_traits \<Rightarrow> 'k index_map \<Rightarrow> RpcIndexRecordUpdateOp list \<Rightarrow> ('k index_map \<times> Status) outcome" where
  "apply_updates T index [] = Done (index, OK)"
| "apply_updates T index (update # us) =
     (if \<not> zero_init T then Fail Undefined
      else case (cast_key T (up_key update), cast_obj T (case up_value update of None \<Rightarrow> [] | Some v \<Rightarrow> v)) of
        (Some key, Some obj_id) \<Rightarrow>
          (case up_op update of
             INSERT \<Rightarrow> apply_updates T (impl_insert key obj_id index) us
           | UPDATE \<Rightarrow> apply_updates T (impl_insert key obj_id index) us
           | REMOVE \<Rightarrow> apply_updates T (erase_with_lock key obj_id index) us
           | UNKNOWN \<Rightarrow> Done (index, Err (- EINVAL) ''Unknown op.''))
      | _ \<Rightarrow> Done (index, Err (- EINVAL) ''IndexImpl::apply: bad cast.''))"

definition erase_string_val ::
  "'k::linorder key_traits \<Rightarrow> 'k index_map \<Rightarrow> string \<Rightarrow> string \<Rightarrow> ('k index_map \<times> Status) outcome" where
  "erase_string_val T index key value =
     (if \<not> zero_init T then Fail Undefined
      else case cast_key T key of
        None \<Rightarrow> Done (index, Err (- EINVAL) ''IndexImpl::erase_string_val: bad cast'')
      | Some erase_key \<Rightarrow>
          if value = [] then Done (impl_erase_key erase_key index, OK)
          else case cast_obj T value of
            None \<Rightarrow> Done (index, Err (- EINVAL) ''IndexImpl::erase_string_val: bad cast'')
          | Some erase_value \<Rightarrow> Done (impl_erase erase_key erase_value index, OK))"

definition impl_clear :: "'k index_map \<Rightarrow> 'k index_map" where
  "impl_clear index = []"

definition impl_empty :: "'k index_map \<Rightarrow> bool" where
  "impl_empty index = (index = [])"

definition num_keys :: "'k index_map \<Rightarrow> nat" where
  "num_keys index = length index"

definition impl_size :: "'k index_map \<Rightarrow> nat" where
  "impl_size index = foldl (\<lambda>ret p. ret + length (snd p)) 0 index"

definition impl_search :: "'k index_map \<Rightarrow> 'k \<Rightarrow> ObjectId list \<Rightarrow> ObjectId list" where
  "impl_search index key results =
     (case map_of index key of None \<Rightarrow> results | Some files \<Rightarrow> results @ files)"

section \<open>RangeIndex\<close>

fun range_loop :: "'k::linorder \<Rightarrow> bool \<Rightarrow> 'k index_map \<Rightarrow> ObjectId list \<Rightarrow> ObjectId list" where
  "range_loop upper upper_open [] results = results"
| "range_loop upper upper_open ((key, files) # rest) results =
     (if upper < key \<or> (upper_open \<and> upper \<le> key) then results
      else range_loop upper upper_open rest (results @ files))"

definition range_search ::
  "'k::linorder index_map \<Rightarrow> 'k \<Rightarrow> bool \<Rightarrow> 'k \<Rightarrow> bool \<Rightarrow> ObjectId list \<Rightarrow> ObjectId list" where
  "range_search index lower lower_open upper upper_open results =
     range_loop upper upper_open (if lower_open then upper_bound lower index else lower_bound lower index) results"

definition search_query ::
  "'k::linorder key_traits \<Rightarrow> 'k index_map \<Rightarrow> RpcRangeQuery \<Rightarrow> ObjectId list \<Rightarrow> ObjectId list \<times> Status" where
  "search_query T index query results =
     (case (if rq_lower query \<noteq> [] then cast_key T (rq_lower query) else Some (limit_min T),
            if rq_upper query \<noteq> [] then cast_key T (rq_upper query) else Some (limit_max T)) of
        (Some lower, Some upper) \<Rightarrow>
          (range_search index lower (rq_lower_open query) upper (rq_upper_open query) results, OK)
      | _ \<Rightarrow> (results, Err (-1) ''Failed to parse upper and lower value of range query.''))"

definition approx_bytes :: "'k index_map \<Rightarrow> nat" where
  "approx_bytes index = num_keys index * (8 + 8 + 3 * 8 + 1)"

section \<open>Factories\<close>

datatype key_kind = KUint64 | KInt64 | KFloat | KDouble | KString | KInt32 | KUint32 | KInt16 | KUint16
  | KChar | KInt8 | KUint8

definition all_kinds :: "key_kind list" where
  "all_kinds = [KUint64, KInt64, KFloat, KDouble, KString, KInt32, KUint32, KInt16, KUint16, KChar, KInt8, KUint8]"

text \<open>The cases of the two factories are the same; \<open>None\<close> is the null pointer.\<close>

definition create_range_index :: "(key_kind \<Rightarrow> int) \<Rightarrow> int \<Rightarrow> key_kind option" where
  "create_range_index TypeIDs key_type = find (\<lambda>k. key_type = TypeIDs k) all_kinds"

definition create_hash_index :: "(key_kind \<Rightarrow> int) \<Rightarrow> int \<Rightarrow> key_kind option" where
  "create_hash_index TypeIDs key_type = find (\<lambda>k. key_type = TypeIDs k) all_kinds"

section \<open>IndexInfo\<close>

definition HASH :: int where "HASH = 1"
definition BTREE :: int where "BTREE = 2"
definition MULTIDIM :: int where "MULTIDIM = 3"
definition CONTENT :: int where "CONTENT = 4"

lemmas index_type_defs = HASH_def BTREE_def MULTIDIM_def CONTENT_def

definition tolower :: "char \<Rightarrow> char" where
  "tolower c = (if 65 \<le> (of_char c :: nat) \<and> (of_char c :: nat) \<le> 90 then char_of ((of_char c :: nat) + 32) else c)"

definition string_to_index_type :: "string \<Rightarrow> int" where
  "string_to_index_type str =
     (let buf = map tolower str in
      if buf = ''btree'' then BTREE
      else if buf = ''hash'' then HASH
      else if buf = ''content'' then CONTENT
      else if buf = ''multidim'' then MULTIDIM
      else -1)"

definition index_type_to_string :: "int \<Rightarrow> string" where
  "index_type_to_string idx_type =
     (if idx_type = BTREE then ''btree''
      else if idx_type = HASH then ''hash''
      else if idx_type = CONTENT then ''content''
      else if idx_type = MULTIDIM then ''multidim''
      else ''unknown'')"

record IndexInfo =
  info_path :: string
  info_index_name :: string
  info_index_type :: int
  info_key_type :: int

definition info_is_validate :: "(key_kind \<Rightarrow> int) \<Rightarrow> IndexInfo \<Rightarrow> bool" where
  "info_is_validate TypeIDs i =
     (if info_index_type i = BTREE \<or> info_index_type i = MULTIDIM then
        info_key_type i = TypeIDs KInt64 \<or> info_key_type i = TypeIDs KUint64 \<or>
        info_key_type i = TypeIDs KFloat \<or> info_key_type i = TypeIDs KDouble
      else if info_index_type i = CONTENT then info_key_type i = TypeIDs KString
      else True)"

definition set_index_name :: "string \<Rightarrow> IndexInfo \<Rightarrow> IndexInfo outcome" where
  "set_index_name name i = (if name = [] then Fail CheckFailed else Done (i\<lparr>info_index_name := name\<rparr>))"

definition set_path :: "string \<Rightarrow> IndexInfo \<Rightarrow> IndexInfo" where
  "set_path path i = i\<lparr>info_path := path\<rparr>"

definition set_index_type :: "int \<Rightarrow> IndexInfo \<Rightarrow> IndexInfo outcome" where
  "set_index_type t i = (if t < HASH \<or> CONTENT < t then Fail CheckFailed else Done (i\<lparr>info_index_type := t\<rparr>))"

text \<open>\<open>unknown\<close> is the id \<open>vobla::UNKNOWN\<close>.\<close>

definition set_key_type :: "(key_kind \<Rightarrow> int) \<Rightarrow> int \<Rightarrow> int \<Rightarrow> IndexInfo \<Rightarrow> IndexInfo outcome" where
  "set_key_type TypeIDs unknown t i =
     (if t \<le> unknown \<or> TypeIDs KString < t then Fail CheckFailed else Done (i\<lparr>info_key_type := t\<rparr>))"

section \<open>Lemmas\<close>

text \<open>No key is kept without files, the keys are in order, and the files of each are a set.\<close>

definition index_ok :: "'k::linorder index_map \<Rightarrow> bool" where
  "index_ok index \<longleftrightarrow> smap_ok index \<and> (\<forall>key files. map_of index key = Some files \<longrightarrow> files \<noteq> [] \<and> sset_ok files)"

definition records :: "'k index_map \<Rightarrow> ('k \<times> ObjectId) set" where
  "records index = {(key, obj). obj \<in> set (files_of index key)}"

lemma records_iff: "(key, obj) \<in> records index \<longleftrightarrow> (\<exists>files. map_of index key = Some files \<and> obj \<in> set files)"
  by (cases "map_of index key") (simp_all add: records_def files_of_def)

lemma index_ok_Nil [simp]: "index_ok []"
  by (simp add: index_ok_def)

lemma records_Nil [simp]: "records [] = {}"
  by (simp add: records_def files_of_def)

lemma files_of_ok: "index_ok index \<Longrightarrow> sset_ok (files_of index key)"
  by (auto simp: index_ok_def files_of_def split: option.split)

lemma index_ok_put: "index_ok index \<Longrightarrow> sset_ok files \<Longrightarrow> files \<noteq> [] \<Longrightarrow> index_ok (smap_put key files index)"
  by (auto simp: index_ok_def intro: smap_intros)

lemma index_ok_erase: "index_ok index \<Longrightarrow> index_ok (smap_erase key index)"
  by (auto simp: index_ok_def intro: smap_intros split: if_splits)

lemma sset_insert_nonempty: "sset_insert x xs \<noteq> []"
  by (cases xs) auto

lemma impl_insert_ok: "index_ok index \<Longrightarrow> index_ok (impl_insert key obj index)"
  unfolding impl_insert_def
  by (intro index_ok_put sset_ok_insert files_of_ok sset_insert_nonempty)

lemma erase_with_lock_ok:
  assumes "index_ok index"
  shows "index_ok (erase_with_lock key obj index)"
proof (cases "map_of index key")
  case (Some files)
  with assms have "sset_ok (sset_erase obj files)" by (auto simp: index_ok_def intro: smap_intros)
  with Some assms show ?thesis
    by (auto simp: erase_with_lock_def Let_def intro: index_ok_put index_ok_erase)
qed (use assms in \<open>simp add: erase_with_lock_def\<close>)

lemma records_insert: "records (impl_insert key obj index) = insert (key, obj) (records index)"
  by (auto simp: records_def impl_insert_def files_of_def split: if_splits option.splits)

lemma set_files_of_erase:
  "set (files_of (erase_with_lock key obj index) k) = (if k = key then set (files_of index key) - {obj} else set (files_of index k))"
proof (cases "map_of index key")
  case (Some files)
  then show ?thesis
    by (cases "sset_erase obj files = []")
       (auto simp: erase_with_lock_def files_of_def Let_def set_empty [symmetric] simp del: set_empty)
qed (auto simp: erase_with_lock_def files_of_def)

lemma records_erase: "records (erase_with_lock key obj index) = records index - {(key, obj)}"
  by (auto simp: records_def set_files_of_erase split: if_splits)

lemma map_of_files: "index_ok i \<Longrightarrow> map_of i key = (if files_of i key = [] then None else Some (files_of i key))"
  by (auto simp: index_ok_def files_of_def split: option.splits)

lemma impl_erase_ok: "index_ok index \<Longrightarrow> index_ok (impl_erase key obj index)"
  by (simp add: impl_erase_def erase_with_lock_ok)

lemma records_impl_erase: "records (impl_erase key obj index) = records index - {(key, obj)}"
  by (simp add: impl_erase_def records_erase)

lemma index_ok_Cons:
  assumes "index_ok ((key, files) # index)"
  shows "index_ok index" "files \<noteq> []" "distinct files" "key \<notin> fst ` set index"
proof -
  let ?i = "(key, files) # index"
  have m: "smap_ok ?i" and f: "\<And>k fs. map_of ?i k = Some fs \<Longrightarrow> fs \<noteq> [] \<and> sset_ok fs" using assms by (simp_all add: index_ok_def)
  show k: "key \<notin> fst ` set index" using smap_ok_distinct [OF m] by simp
  from f [of key files] show "files \<noteq> []" "distinct files" by (simp_all add: sset_ok_def strict_sorted_iff)
  have "fs \<noteq> [] \<and> sset_ok fs" if "map_of index k' = Some fs" for k' fs
  proof (rule f)
    have "k' \<noteq> key" using that k by (metis map_of_eq_None_iff option.distinct(1))
    with that show "map_of ?i k' = Some fs" by simp
  qed
  with m show "index_ok index" by (simp add: index_ok_def smap_ok_Cons)
qed

lemma records_Cons:
  assumes "key \<notin> fst ` set index"
  shows "records ((key, files) # index) = Pair key ` set files \<union> records index" "Pair key ` set files \<inter> records index = {}"
proof -
  have n: "map_of index key = None" using assms by (simp add: map_of_eq_None_iff)
  show "Pair key ` set files \<inter> records index = {}" using n by (auto simp: records_iff)
  have "(k, obj) \<in> records ((key, files) # index) \<longleftrightarrow> (k, obj) \<in> Pair key ` set files \<union> records index" for k obj
    using n by (cases "k = key") (auto simp: records_iff)
  then show "records ((key, files) # index) = Pair key ` set files \<union> records index" by auto
qed

text \<open>The size of an index is the number of its records, the number of keys that of the keys with records.\<close>

lemma impl_size_Cons: "impl_size (p # index) = length (snd p) + impl_size index"
proof -
  have "foldl (\<lambda>ret p. ret + length (snd p)) n index = n + foldl (\<lambda>ret p. ret + length (snd p)) 0 index" for n
    by (induction index rule: rev_induct) simp_all
  from this [of "length (snd p)"] show ?thesis by (simp add: impl_size_def)
qed

lemma impl_size_records: "index_ok index \<Longrightarrow> finite (records index) \<and> impl_size index = card (records index)"
proof (induction index)
  case (Cons p index)
  obtain key files where p: "p = (key, files)" by (cases p)
  note i = index_ok_Cons [OF Cons.prems [unfolded p]]
  have "card (Pair key ` set files) = length files" using i(3) by (simp add: card_image inj_on_def distinct_card)
  with Cons.IH [OF i(1)] records_Cons [OF i(4), of files] show ?case by (simp add: p impl_size_Cons card_Un_disjoint)
qed (simp add: impl_size_def)

lemma num_keys_records:
  assumes "index_ok index"
  shows "num_keys index = card (fst ` records index)" "impl_empty index \<longleftrightarrow> records index = {}"
proof -
  have "key \<in> fst ` records index \<longleftrightarrow> map_of index key \<noteq> None" for key
  proof
    assume "map_of index key \<noteq> None"
    then obtain files where f: "map_of index key = Some files" by blast
    with assms have "files \<noteq> []" by (simp add: index_ok_def)
    then have "(key, hd files) \<in> records index" using f by (simp add: records_iff)
    then show "key \<in> fst ` records index" by force
  qed (auto simp: records_iff)
  then have k: "fst ` records index = fst ` set index" by (auto simp: map_of_eq_None_iff)
  have "distinct (map fst index)" using assms by (simp add: index_ok_def smap_ok_distinct)
  then have "card (fst ` set index) = length index" using distinct_card [of "map fst index"] by simp
  then show "num_keys index = card (fst ` records index)" by (simp add: num_keys_def k)
  show "impl_empty index \<longleftrightarrow> records index = {}" using k by (cases index) (auto simp: impl_empty_def)
qed

lemma impl_search_records: "set (impl_search index key results) = set results \<union> {obj. (key, obj) \<in> records index}"
  by (auto simp: impl_search_def records_iff split: option.split)

lemma records_inject:
  assumes "index_ok a" "index_ok b" "records a = records b"
  shows "map_of a = map_of b"
proof (rule ext)
  fix key
  have set_eq: "set (files_of a key) = set (files_of b key)"
    using assms(3) unfolding records_def by (auto simp: set_eq_iff)
  have eq: "files_of a key = files_of b key"
    using set_eq files_of_ok [OF assms(1)] files_of_ok [OF assms(2)] sset_eqI by blast
  with map_of_files [OF assms(1)] map_of_files [OF assms(2)] show "map_of a key = map_of b key" by metis
qed

lemma range_loop_takeWhile:
  "range_loop upper uo xs results =
     results @ concat (map snd (takeWhile (\<lambda>p. \<not> (upper < fst p \<or> (uo \<and> upper \<le> fst p))) xs))"
  by (induction upper uo xs results rule: range_loop.induct) auto

lemma takeWhile_sorted_filter:
  assumes "smap_ok m" and "\<And>a b. a < b \<Longrightarrow> P b \<Longrightarrow> P a"
  shows "takeWhile (\<lambda>p. P (fst p)) m = filter (\<lambda>p. P (fst p)) m"
  using assms(1)
proof (induction m)
  case (Cons p m)
  show ?case
  proof (cases "P (fst p)")
    case False
    with Cons.prems have "\<forall>q\<in>set m. \<not> P (fst q)" using assms(2) by (auto simp: smap_ok_Cons)
    with False show ?thesis by (simp add: filter_empty_conv)
  qed (use Cons in \<open>simp add: smap_ok_Cons\<close>)
qed simp

definition in_range :: "'k::linorder \<Rightarrow> bool \<Rightarrow> 'k \<Rightarrow> bool \<Rightarrow> 'k \<Rightarrow> bool" where
  "in_range lower lower_open upper upper_open key \<longleftrightarrow>
     (if lower_open then lower < key else lower \<le> key) \<and> (if upper_open then key < upper else key \<le> upper)"

lemma range_search_filter:
  assumes "smap_ok index"
  shows "range_search index lower lo upper uo results =
    results @ concat (map snd (filter (\<lambda>p. in_range lower lo upper uo (fst p)) index))"
proof -
  let ?from = "if lo then upper_bound lower index else lower_bound lower index"
  have f: "?from = filter (\<lambda>p. if lo then lower < fst p else lower \<le> fst p) index"
    using assms by (simp add: lower_bound_filter upper_bound_filter)
  have "takeWhile (\<lambda>p. \<not> (upper < fst p \<or> (uo \<and> upper \<le> fst p))) ?from =
      filter (\<lambda>p. \<not> (upper < fst p \<or> (uo \<and> upper \<le> fst p))) ?from"
    unfolding f by (rule takeWhile_sorted_filter [OF smap_ok_filter [OF assms]]) auto
  also have "\<dots> = filter (\<lambda>p. in_range lower lo upper uo (fst p)) index"
    unfolding f filter_filter by (rule filter_cong) (auto simp: in_range_def)
  finally show ?thesis by (simp add: range_search_def range_loop_takeWhile)
qed

text \<open>What a well-formed update does to the set of records.\<close>

definition decode :: "'k key_traits \<Rightarrow> RpcIndexRecordUpdateOp \<Rightarrow> (bool \<times> 'k \<times> ObjectId) option" where
  "decode T u =
     (case (cast_key T (up_key u), cast_obj T (case up_value u of None \<Rightarrow> [] | Some v \<Rightarrow> v)) of
        (Some k, Some v) \<Rightarrow> if up_op u = UNKNOWN then None else Some (up_op u \<noteq> REMOVE, k, v)
      | _ \<Rightarrow> None)"

definition record_spec :: "('k \<times> ObjectId) set \<Rightarrow> bool \<times> 'k \<times> ObjectId \<Rightarrow> ('k \<times> ObjectId) set" where
  "record_spec A d = (case d of (add, p) \<Rightarrow> if add then insert p A else A - {p})"

lemma apply_updates_step:
  assumes "zero_init T" "decode T u = Some d" "index_ok ix"
  shows "\<exists>ix'. apply_updates T ix (u # us) = apply_updates T ix' us \<and> index_ok ix' \<and>
    records ix' = record_spec (records ix) d"
proof -
  from assms(2) obtain k v where kv: "cast_key T (up_key u) = Some k"
    "cast_obj T (case up_value u of None \<Rightarrow> [] | Some v \<Rightarrow> v) = Some v" "up_op u \<noteq> UNKNOWN" "d = (up_op u \<noteq> REMOVE, k, v)"
    by (auto simp: decode_def split: option.splits if_splits)
  show ?thesis
    by (cases "up_op u")
       (use assms(1,3) kv in \<open>auto simp: record_spec_def records_insert records_erase intro: impl_insert_ok erase_with_lock_ok\<close>)
qed

lemma apply_updates_prefix:
  assumes "zero_init T" "map (decode T) us = map Some ds" "index_ok ix"
  shows "\<exists>ix'. apply_updates T ix (us @ rest) = apply_updates T ix' rest \<and> index_ok ix' \<and>
    records ix' = foldl record_spec (records ix) ds"
  using assms(2,3)
proof (induction us arbitrary: ds ix)
  case Nil
  then show ?case by (intro exI [of _ ix]) simp
next
  case (Cons u us)
  then obtain d ds' where d: "ds = d # ds'" "decode T u = Some d" "map (decode T) us = map Some ds'" by (cases ds) auto
  from apply_updates_step [OF assms(1) d(2) Cons.prems(2)] obtain ix1 where
    1: "apply_updates T ix (u # us @ rest) = apply_updates T ix1 (us @ rest)" "index_ok ix1"
      "records ix1 = record_spec (records ix) d" by blast
  from Cons.IH [OF d(3) 1(2)] 1 d(1) show ?case by auto
qed

text \<open>On one record the last update decides, so a batch has the same effect twice as once.\<close>

lemma foldl_record_spec:
  "p \<in> foldl record_spec A ds \<longleftrightarrow>
     (case find (\<lambda>d. snd d = p) (rev ds) of None \<Rightarrow> p \<in> A | Some d \<Rightarrow> fst d)"
  by (induction ds rule: rev_induct) (auto simp: record_spec_def split: prod.splits)

lemma foldl_record_spec_idem: "foldl record_spec (foldl record_spec A ds) ds = foldl record_spec A ds"
  by (rule set_eqI) (simp add: foldl_record_spec split: option.split)

section \<open>Properties\<close>

text \<open>
  C27: a range search returns, after what was in the result list, exactly the files of the keys
  in the range, key by key in order, with each end included or left out as the query says, and it
  stops at the first key beyond.
\<close>

theorem range_search_exact:
  assumes "index_ok index"
  shows "\<exists>found. range_search index lower lo upper uo results = results @ found \<and>
    set found = {obj. \<exists>key. (key, obj) \<in> records index \<and> in_range lower lo upper uo key} \<and>
    length found = (\<Sum>p\<leftarrow>filter (\<lambda>p. in_range lower lo upper uo (fst p)) index. length (snd p))"
proof -
  let ?found = "concat (map snd (filter (\<lambda>p. in_range lower lo upper uo (fst p)) index))"
  have ok: "smap_ok index" using assms by (simp add: index_ok_def)
  have "obj \<in> set ?found \<longleftrightarrow> (\<exists>key. (key, obj) \<in> records index \<and> in_range lower lo upper uo key)" for obj
  proof -
    have "obj \<in> set ?found \<longleftrightarrow> (\<exists>key files. (key, files) \<in> set index \<and> in_range lower lo upper uo key \<and> obj \<in> set files)"
      by force
    also have "\<dots> \<longleftrightarrow> (\<exists>key. (key, obj) \<in> records index \<and> in_range lower lo upper uo key)"
      unfolding smap_ok_map_of [OF ok] records_iff by blast
    finally show ?thesis .
  qed
  then have "set ?found = {obj. \<exists>key. (key, obj) \<in> records index \<and> in_range lower lo upper uo key}" by blast
  moreover have "length ?found = (\<Sum>p\<leftarrow>filter (\<lambda>p. in_range lower lo upper uo (fst p)) index. length (snd p))"
    by (simp add: length_concat comp_def)
  ultimately show ?thesis using range_search_filter [OF ok] by blast
qed

theorem range_search_exact_witness:
  "\<exists>found. range_search (impl_insert 1 10 (impl_insert 2 20 (impl_insert 5 30 []))) (1 :: int) True 5 False [7] =
     [7] @ found \<and> set found = {20, 30}"
proof -
  let ?ix = "impl_insert 1 10 (impl_insert 2 20 (impl_insert 5 30 [])) :: int index_map"
  have ok: "index_ok ?ix" by (intro impl_insert_ok index_ok_Nil)
  have R: "records ?ix = {(1, 10), (2, 20), (5, 30)}" by (simp only: records_insert records_Nil)
  have S: "{obj. \<exists>key. (key, obj) \<in> records ?ix \<and> in_range 1 True 5 False key} = {20, 30}"
    unfolding R by (auto simp: in_range_def)
  from range_search_exact [OF ok, of 1 True 5 False "[7]"] obtain found where
    "range_search ?ix 1 True 5 False [7] = [7] @ found"
    "set found = {obj. \<exists>key. (key, obj) \<in> records ?ix \<and> in_range 1 True 5 False key}" by blast
  then show ?thesis unfolding S by blast
qed

text \<open>
  a batch of well-formed updates turns the set of records into the set the updates describe, one by
  one, leaves no key without files, and applying the same batch again changes nothing: replaying
  a log is harmless.
\<close>

theorem apply_updates_replay:
  assumes "zero_init T" "map (decode T) us = map Some ds" "index_ok ix"
  shows "\<exists>ix' ix''. apply_updates T ix us = Done (ix', OK) \<and> index_ok ix' \<and>
    records ix' = foldl record_spec (records ix) ds \<and>
    apply_updates T ix' us = Done (ix'', OK) \<and> map_of ix'' = map_of ix'"
proof -
  from apply_updates_prefix [OF assms, of "[]"] obtain ix1 where
    1: "apply_updates T ix us = Done (ix1, OK)" "index_ok ix1" "records ix1 = foldl record_spec (records ix) ds" by auto
  from apply_updates_prefix [OF assms(1,2) 1(2), of "[]"] obtain ix2 where
    2: "apply_updates T ix1 us = Done (ix2, OK)" "index_ok ix2" "records ix2 = foldl record_spec (records ix1) ds" by auto
  have "records ix2 = records ix1" using 1(3) 2(3) foldl_record_spec_idem by metis
  with 1 2 records_inject show ?thesis by blast
qed

definition demo_traits :: "int key_traits" where
  "demo_traits = int64_traits (\<lambda>s. if s = [] then None else Some (int (dec_value s)))
     (\<lambda>s. if s = [] then None else Some (of_nat (dec_value s)))"

theorem apply_updates_replay_witness:
  "\<exists>ix' ix''. apply_updates demo_traits []
      [\<lparr>up_op = INSERT, up_key = ''3'', up_value = Some ''9''\<rparr>, \<lparr>up_op = REMOVE, up_key = ''4'', up_value = Some ''8''\<rparr>] =
      Done (ix', OK) \<and> records ix' = {(3, 9)} \<and>
    apply_updates demo_traits ix'
      [\<lparr>up_op = INSERT, up_key = ''3'', up_value = Some ''9''\<rparr>, \<lparr>up_op = REMOVE, up_key = ''4'', up_value = Some ''8''\<rparr>] =
      Done (ix'', OK) \<and> map_of ix'' = map_of ix'"
proof -
  let ?us = "[\<lparr>up_op = INSERT, up_key = ''3'', up_value = Some ''9''\<rparr>, \<lparr>up_op = REMOVE, up_key = ''4'', up_value = Some ''8''\<rparr>]"
  let ?ds = "[(True, 3, 9), (False, 4, 8)] :: (bool \<times> int \<times> ObjectId) list"
  have d: "zero_init demo_traits" "map (decode demo_traits) ?us = map Some ?ds"
    by (simp_all add: decode_def demo_traits_def int64_traits_def dec_value_def)
  note e = index_ok_Nil records_Nil
  have "foldl record_spec {} ?ds = {(3, 9)}" by (auto simp: record_spec_def)
  with apply_updates_replay [OF d e(1)] e(2) show ?thesis by metis
qed

text \<open>
  a batch with a bad update stops there with \<open>EINVAL\<close>; the updates before it stay applied, those
  after it are lost.
\<close>

theorem apply_updates_stops_at_bad:
  assumes "zero_init T" "map (decode T) us = map Some ds" "index_ok ix" "decode T bad = None"
  shows "\<exists>ix' m. apply_updates T ix (us @ bad # rest) = Done (ix', Err (- EINVAL) m) \<and>
    records ix' = foldl record_spec (records ix) ds"
proof -
  from apply_updates_prefix [OF assms(1-3), of "bad # rest"] obtain ix1 where
    1: "apply_updates T ix (us @ bad # rest) = apply_updates T ix1 (bad # rest)"
      "records ix1 = foldl record_spec (records ix) ds" by blast
  have "\<exists>m. apply_updates T ix1 (bad # rest) = Done (ix1, Err (- EINVAL) m)"
    using assms(1,4) by (auto simp: decode_def split: option.splits if_splits)
  with 1 show ?thesis by metis
qed

theorem apply_updates_stops_at_bad_witness:
  "\<exists>ix' m. apply_updates demo_traits []
     ([\<lparr>up_op = INSERT, up_key = ''3'', up_value = Some ''9''\<rparr>] @ \<lparr>up_op = INSERT, up_key = ''3'', up_value = None\<rparr> #
      [\<lparr>up_op = INSERT, up_key = ''5'', up_value = Some ''9''\<rparr>]) = Done (ix', Err (- EINVAL) m) \<and> records ix' = {(3, 9)}"
proof -
  have d: "zero_init demo_traits"
    "map (decode demo_traits) [\<lparr>up_op = INSERT, up_key = ''3'', up_value = Some ''9''\<rparr>] = map Some [(True, 3, 9)]"
    and bad: "decode demo_traits \<lparr>up_op = INSERT, up_key = ''3'', up_value = None\<rparr> = None"
    by (simp_all add: decode_def demo_traits_def int64_traits_def dec_value_def)
  note e = index_ok_Nil records_Nil
  have "foldl record_spec {} [(True, 3, 9)] = {(3, 9)}" by (auto simp: record_spec_def)
  with apply_updates_stops_at_bad [OF d e(1) bad] e(2) show ?thesis by metis
qed

text \<open>
  an index over strings cannot be searched without an upper end, nor updated: the missing end is
  taken as the empty string, so no key but the empty one is found, and any update first builds a
  string from a null pointer.
\<close>

theorem string_index_unusable:
  assumes "index_ok index" "rq_upper query = []" "us \<noteq> []"
    and "obj \<in> set (fst (search_query (string_traits co) index query []))"
  shows "(\<exists>k. (k, obj) \<in> records index \<and> k = []) \<and> apply_updates (string_traits co) index us = Fail Undefined"
proof -
  let ?lower = "if rq_lower query \<noteq> [] then rq_lower query else []"
  have "fst (search_query (string_traits co) index query []) =
      range_search index ?lower (rq_lower_open query) [] (rq_upper_open query) []"
    using assms(2) by (simp add: search_query_def string_traits_def)
  moreover have "smap_ok index" using assms(1) by (simp add: index_ok_def)
  ultimately have "obj \<in> set (concat (map snd (filter (\<lambda>p. in_range ?lower (rq_lower_open query) [] (rq_upper_open query) (fst p)) index)))"
    using assms(4) range_search_filter by (metis append_Nil)
  then obtain k files where k: "(k, files) \<in> set index" "obj \<in> set files" "in_range ?lower (rq_lower_open query) [] (rq_upper_open query) k"
    by auto
  then have "k = []" by (auto simp: in_range_def split: if_splits)
  moreover have "(k, obj) \<in> records index"
    using k(1,2) \<open>smap_ok index\<close> by (simp add: records_def files_of_def smap_ok_map_of)
  moreover have "apply_updates (string_traits co) index us = Fail Undefined"
    using assms(3) by (cases us) (simp_all add: string_traits_def)
  ultimately show ?thesis by blast
qed

theorem string_index_unusable_witness:
  "(\<exists>k. (k, 7) \<in> records [([] :: string, [7])] \<and> k = []) \<and>
     apply_updates (string_traits (\<lambda>_. None)) [([], [7])] [\<lparr>up_op = INSERT, up_key = ''a'', up_value = None\<rparr>] = Fail Undefined"
proof (rule string_index_unusable)
  show "index_ok [([] :: string, [7])]" by (auto simp: index_ok_def smap_ok_def sset_ok_def split: if_splits)
  show "rq_upper \<lparr>rq_index_path = [], rq_name = [], rq_lower = [], rq_lower_open = False, rq_upper = [], rq_upper_open = False\<rparr> = []"
    by simp
  show "7 \<in> set (fst (search_query (string_traits (\<lambda>_. None)) [([], [7])]
      \<lparr>rq_index_path = [], rq_name = [], rq_lower = [], rq_lower_open = False, rq_upper = [], rq_upper_open = False\<rparr> []))"
    by (simp add: search_query_def string_traits_def range_search_def lower_bound_def)
qed simp

end
