(* ===== verification/Log_Manager.thy ===== *)
theory Log_Manager
  imports Codec
begin

text \<open>
  \<open>LogRecord\<close> and \<open>LogManager\<close> (\<open>vsfs/common/log_manager.h\<close>): the log of updates an index
  keeps between two merges, its flush to a stream and its recovery from one. Thrift's
  serialisation of a record and of a buffer of entities is the record \<open>log_api\<close>. An output stream
  is the string written so far, an input stream the string still to be read.
\<close>

section \<open>State\<close>

type_synonym TxnIdType = "64 word"

text \<open>
  \<open>deserialize\<close> of a record gives the object it leaves behind and whether it succeeded;
  \<open>string_max_size\<close> is \<open>std::string::max_size()\<close>, beyond which \<open>resize\<close> throws.
\<close>

record 'r log_api =
  serialize_record :: "'r \<Rightarrow> string"
  parse_record :: "string \<Rightarrow> 'r \<times> bool"
  serialize_buffer :: "(TxnIdType \<times> string) list \<Rightarrow> string"
  parse_buffer :: "string \<Rightarrow> (TxnIdType \<times> string) list option"
  string_max_size :: nat

type_synonym 'r LogRecord = "TxnIdType \<times> 'r"

record 'r LogManager =
  log :: "'r LogRecord list"
  log_buffer :: "(TxnIdType \<times> string) list"
  last_flushed_txn_id :: TxnIdType

definition LogManager_new :: "'r LogManager" where
  "LogManager_new = \<lparr>log = [], log_buffer = [], last_flushed_txn_id = 0\<rparr>"

section \<open>Operations\<close>

definition log_append :: "TxnIdType \<Rightarrow> 'r \<Rightarrow> 'r LogManager \<Rightarrow> 'r LogManager \<times> Status" where
  "log_append txn_id rec m = (m\<lparr>log := log m @ [(txn_id, rec)]\<rparr>, OK)"

definition log_erase :: "TxnIdType \<Rightarrow> 'r LogManager \<Rightarrow> 'r LogManager" where
  "log_erase txn_id m = m\<lparr>log := dropWhile (\<lambda>r. fst r \<le> txn_id) (log m)\<rparr>"

definition log_scan :: "TxnIdType \<Rightarrow> 'r LogManager \<Rightarrow> 'r list" where
  "log_scan txn_id m = map snd (takeWhile (\<lambda>r. fst r \<le> txn_id) (log m))"

definition log_size :: "'r LogManager \<Rightarrow> nat" where
  "log_size m = length (log m)"

definition entity_bytes :: "TxnIdType \<times> string \<Rightarrow> nat" where
  "entity_bytes e = 8 + length (snd e)"

definition get_log_buffer_size :: "'r LogManager \<Rightarrow> nat" where
  "get_log_buffer_size m = foldl (\<lambda>ret e. ret + entity_bytes e) 0 (log_buffer m)"

text \<open>The loop that fills the buffer: what it has appended and how many bytes it has counted.\<close>

fun fill_buffer ::
  "'r log_api \<Rightarrow> nat \<Rightarrow> 'r LogRecord list \<Rightarrow> (TxnIdType \<times> string) list \<Rightarrow> nat \<Rightarrow> (TxnIdType \<times> string) list \<times> nat" where
  "fill_buffer A bytes [] buffer existing_bytes = (buffer, existing_bytes)"
| "fill_buffer A bytes (r # rs) buffer existing_bytes =
     (let entity = (fst r, serialize_record A (snd r));
          buffer' = buffer @ [entity];
          existing' = existing_bytes + entity_bytes entity
      in if bytes \<le> existing' then (buffer', existing') else fill_buffer A bytes rs buffer' existing')"

definition log_flush ::
  "'r log_api \<Rightarrow> nat \<Rightarrow> bool \<Rightarrow> 'r LogManager \<Rightarrow> string \<Rightarrow> ('r LogManager \<times> string \<times> Status) outcome" where
  "log_flush A bytes flush_if_not_full m os =
     (let it = (if last_flushed_txn_id m \<noteq> 0
                then dropWhile (\<lambda>r. fst r \<le> last_flushed_txn_id m) (log m) else log m);
          (buffer, existing_bytes) = fill_buffer A bytes it (log_buffer m) (get_log_buffer_size m);
          m1 = m\<lparr>log_buffer := buffer\<rparr>
      in if bytes \<le> existing_bytes \<or> flush_if_not_full then
           (if buffer = [] then Fail Undefined
            else
              let data = serialize_buffer A buffer
              in Done (m1\<lparr>last_flushed_txn_id := fst (last buffer), log_buffer := []\<rparr>,
                       os @ nat_to_string (length data) @ data, OK))
         else Done (m1, os, OK))"

text \<open>
  \<open>is >> message_size\<close>: blanks, an optional sign, digits; the stream is good afterwards when a number
  was read that fits and something follows it.
\<close>

definition read_size :: "string \<Rightarrow> (nat \<times> string) option" where
  "read_size is =
     (let s = dropWhile is_space is;
          neg = (s \<noteq> [] \<and> hd s = CHR ''-'');
          s1 = (if s \<noteq> [] \<and> (hd s = CHR ''-'' \<or> hd s = CHR ''+'') then tl s else s);
          ds = takeWhile is_digit s1;
          rest = dropWhile is_digit s1;
          n = dec_value ds
      in if ds = [] \<or> rest = [] \<or> 2 ^ 64 \<le> n then None
         else Some (if neg then (2 ^ 64 - n) mod 2 ^ 64 else n, rest))"

lemma read_size_shorter: "read_size is = Some (n, rest) \<Longrightarrow> length rest < length is"
proof -
  assume a: "read_size is = Some (n, rest)"
  let ?s = "dropWhile is_space is"
  let ?s1 = "if ?s \<noteq> [] \<and> (hd ?s = CHR ''-'' \<or> hd ?s = CHR ''+'') then tl ?s else ?s"
  from a have r: "rest = dropWhile is_digit ?s1" "takeWhile is_digit ?s1 \<noteq> []"
    by (auto simp: read_size_def Let_def split: if_splits)
  have "length (takeWhile is_digit ?s1) + length rest = length ?s1"
    unfolding r(1) by (metis length_append takeWhile_dropWhile_id)
  moreover have "length ?s1 \<le> length ?s" by simp
  moreover have "length ?s \<le> length is" by (simp add: length_dropWhile_le)
  moreover have "0 < length (takeWhile is_digit ?s1)" using r(2) by blast
  ultimately show ?thesis by linarith
qed

definition log_parse :: "'r log_api \<Rightarrow> TxnIdType \<times> string \<Rightarrow> 'r LogRecord \<times> Status" where
  "log_parse A e =
     (case parse_record A (snd e) of
        (rec, success) \<Rightarrow> ((fst e, rec), if success then OK else Err (-1) ''Failed to parse Log.''))"

function load_loop ::
  "'r log_api \<Rightarrow> string \<Rightarrow> 'r LogRecord list \<Rightarrow> ('r LogRecord list \<times> Status) outcome" where
  "load_loop A is acc =
     (case read_size is of
        None \<Rightarrow> Done (acc, OK)
      | Some (message_size, rest) \<Rightarrow>
          if string_max_size A < message_size then Fail LengthError
          else if length rest < message_size then Done (acc, OK)
          else case parse_buffer A (take message_size rest) of
            None \<Rightarrow> Done (acc, Err (-1) ''Failed to parse log from stream.'')
          | Some buffer \<Rightarrow>
              load_loop A (drop message_size rest) (acc @ map (\<lambda>e. fst (log_parse A e)) buffer))"
  by pat_completeness auto
termination
  by (relation "measure (\<lambda>(A, is, acc). length is)") (auto dest!: read_size_shorter)

declare load_loop.simps [simp del]

definition log_load ::
  "'r log_api \<Rightarrow> string \<Rightarrow> 'r LogManager \<Rightarrow> ('r LogManager \<times> Status) outcome" where
  "log_load A is m = bindo (load_loop A is []) (\<lambda>(l, status). Done (m\<lparr>log := l\<rparr>, status))"

section \<open>What is flushed is what is loaded\<close>

definition log_laws :: "'r log_api \<Rightarrow> bool" where
  "log_laws A \<longleftrightarrow>
     (\<forall>r. parse_record A (serialize_record A r) = (r, True)) \<and>
     (\<forall>b. parse_buffer A (serialize_buffer A b) = Some b) \<and>
     (\<forall>b. serialize_buffer A b \<noteq> [] \<and> \<not> is_digit (hd (serialize_buffer A b)))"

definition entity :: "'r log_api \<Rightarrow> 'r LogRecord \<Rightarrow> TxnIdType \<times> string" where
  "entity A r = (fst r, serialize_record A (snd r))"

definition frame :: "'r log_api \<Rightarrow> (TxnIdType \<times> string) list \<Rightarrow> string" where
  "frame A b = nat_to_string (length (serialize_buffer A b)) @ serialize_buffer A b"

definition fits :: "'r log_api \<Rightarrow> (TxnIdType \<times> string) list \<Rightarrow> bool" where
  "fits A b \<longleftrightarrow> length (serialize_buffer A b) < 2 ^ 64 \<and> length (serialize_buffer A b) \<le> string_max_size A"

lemma digit_not_blank: "is_digit c \<Longrightarrow> \<not> is_space c \<and> c \<noteq> CHR ''-'' \<and> c \<noteq> CHR ''+''"
  by (auto simp: is_digit_def is_space_def)

lemma read_size_frame:
  assumes "s \<noteq> []" "\<not> is_digit (hd s)" "n < 2 ^ 64"
  shows "read_size (nat_to_string n @ s) = Some (n, s)"
proof -
  obtain c cs where c: "nat_to_string n = c # cs" by (cases "nat_to_string n") auto
  with hd_nat_to_string_digit [of n] have d: "is_digit c" by simp
  note nb = digit_not_blank [OF d]
  have all: "takeWhile is_digit (nat_to_string n @ s) = nat_to_string n"
       "dropWhile is_digit (nat_to_string n @ s) = s"
    using assms(1,2) nat_to_string_digits by (cases s; simp add: takeWhile_append dropWhile_append)+
  have "dropWhile is_space (nat_to_string n @ s) = nat_to_string n @ s"
    using c nb by simp
  moreover have "hd (nat_to_string n @ s) = c" using c by simp
  moreover have "\<exists>x\<in>set (nat_to_string n) \<union> set s. \<not> is_digit x" using assms(1,2) hd_in_set by blast
  ultimately show ?thesis using all nb assms
    by (simp add: read_size_def Let_def)
qed

lemma log_parse_entity: "log_laws A \<Longrightarrow> fst (log_parse A (entity A r)) = r"
  by (simp add: log_laws_def log_parse_def entity_def)

lemma load_frames:
  assumes "log_laws A" "\<forall>rs\<in>set rss. fits A (map (entity A) rs)"
  shows "load_loop A (concat (map (\<lambda>rs. frame A (map (entity A) rs)) rss)) acc = Done (acc @ concat rss, OK)"
  using assms(2)
proof (induction rss arbitrary: acc)
  case Nil
  show ?case by (subst load_loop.simps) (simp add: read_size_def)
next
  case (Cons rs rss)
  let ?d = "serialize_buffer A (map (entity A) rs)"
  let ?t = "concat (map (\<lambda>rs. frame A (map (entity A) rs)) rss)"
  from assms(1) have l: "?d \<noteq> []" "\<not> is_digit (hd ?d)" "parse_buffer A ?d = Some (map (entity A) rs)"
    by (simp_all add: log_laws_def)
  from Cons.prems have f: "length ?d < 2 ^ 64" "length ?d \<le> string_max_size A" by (simp_all add: fits_def)
  have "read_size (nat_to_string (length ?d) @ ?d @ ?t) = Some (length ?d, ?d @ ?t)"
    using l f by (intro read_size_frame) simp_all
  then have "load_loop A (frame A (map (entity A) rs) @ ?t) acc = load_loop A ?t (acc @ rs)"
    by (subst load_loop.simps)
       (use f l log_parse_entity [OF assms(1)] in \<open>simp add: frame_def comp_def\<close>)
  with Cons show ?case by simp
qed

lemma fill_buffer_prefix:
  "\<exists>j. fst (fill_buffer A n it b k) = b @ map (entity A) (take j it) \<and> (it \<noteq> [] \<longrightarrow> 0 < j)"
proof (induction it arbitrary: b k)
  case (Cons r rs)
  let ?k = "k + entity_bytes (entity A r)"
  show ?case
  proof (cases "n \<le> ?k")
    case True
    then show ?thesis by (intro exI [of _ 1]) (simp add: entity_def Let_def)
  next
    case False
    from Cons.IH [of "b @ [entity A r]" ?k] obtain j where
      "fst (fill_buffer A n rs (b @ [entity A r]) ?k) = (b @ [entity A r]) @ map (entity A) (take j rs)" by blast
    with False show ?thesis by (intro exI [of _ "Suc j"]) (simp add: entity_def Let_def)
  qed
qed simp

text \<open>The transaction ids of a log, which the callers keep positive and strictly increasing.\<close>

definition txns_ok :: "'r LogRecord list \<Rightarrow> bool" where
  "txns_ok l \<longleftrightarrow> sorted_wrt (<) (map fst l) \<and> (\<forall>r\<in>set l. 0 < fst r)"

definition flushed :: "'r LogManager \<Rightarrow> 'r LogRecord list" where
  "flushed m = takeWhile (\<lambda>r. fst r \<le> last_flushed_txn_id m) (log m)"

definition pending :: "'r LogManager \<Rightarrow> 'r LogRecord list" where
  "pending m = dropWhile (\<lambda>r. fst r \<le> last_flushed_txn_id m) (log m)"

lemma flushed_pending: "flushed m @ pending m = log m"
  by (simp add: flushed_def pending_def)

text \<open>The state a manager and its stream are in between two forced flushes.\<close>

definition log_inv :: "'r log_api \<Rightarrow> 'r LogManager \<times> string \<Rightarrow> bool" where
  "log_inv A = (\<lambda>(m, os).
     txns_ok (log m) \<and> log_buffer m = [] \<and>
     (last_flushed_txn_id m = 0 \<or> last_flushed_txn_id m \<in> fst ` set (log m)) \<and>
     (\<exists>rss. os = concat (map (\<lambda>rs. frame A (map (entity A) rs)) rss) \<and> concat rss = flushed m \<and>
        (\<forall>rs\<in>set rss. sublist rs (log m))))"

lemma txns_ok_append_last:
  assumes "txns_ok (l @ rs)" "t = 0 \<or> t \<in> fst ` set l"
  shows "takeWhile (\<lambda>r. fst r \<le> t) (l @ rs) = takeWhile (\<lambda>r. fst r \<le> t) l"
proof -
  have "\<not> fst r \<le> t" if "r \<in> set rs" for r
  proof -
    from assms(1) that have "0 < fst r" "\<forall>x\<in>set l. fst x < fst r"
      by (auto simp: txns_ok_def sorted_wrt_append)
    with assms(2) show ?thesis by (auto simp: not_le)
  qed
  then have "takeWhile (\<lambda>r. fst r \<le> t) rs = []" by (cases rs) auto
  then show ?thesis
    by (auto simp: takeWhile_append intro!: takeWhile_eq_all_conv [THEN iffD2, symmetric])
qed

lemma log_inv_append:
  assumes "log_inv A (m, os)" "txns_ok (log m @ rs)"
  shows "log_inv A (m\<lparr>log := log m @ rs\<rparr>, os)"
proof -
  from assms(1) have l: "last_flushed_txn_id m = 0 \<or> last_flushed_txn_id m \<in> fst ` set (log m)"
    by (simp add: log_inv_def)
  have f: "flushed (m\<lparr>log := log m @ rs\<rparr>) = flushed m"
    using txns_ok_append_last [OF assms(2) l] by (simp add: flushed_def)
  have sub: "sublist xs (log m @ rs)" if "sublist xs (log m)" for xs :: "'a LogRecord list"
    using that unfolding sublist_def by (metis append_assoc)
  from assms show ?thesis
    unfolding log_inv_def prod.case f by (auto dest: sub)
qed

lemma takeWhile_last:
  assumes "txns_ok (xs @ ys @ zs)" "ys \<noteq> []"
  shows "takeWhile (\<lambda>r. fst r \<le> fst (last ys)) (xs @ ys @ zs) = xs @ ys"
proof -
  from assms obtain y ys' where y: "ys = ys' @ [y]" by (metis rev_exhaust)
  have s: "sorted_wrt (<) (map fst (xs @ ys @ zs))" using assms(1) by (simp add: txns_ok_def)
  have le: "fst r \<le> fst y" if "r \<in> set (xs @ ys)" for r
    using s that by (auto simp: y sorted_wrt_append)
  have gt: "\<not> fst r \<le> fst y" if "r \<in> set zs" for r
    using s that by (auto simp: y sorted_wrt_append)
  have "takeWhile (\<lambda>r. fst r \<le> fst y) zs = []" using gt by (cases zs) auto
  then have "takeWhile (\<lambda>r. fst r \<le> fst y) ((xs @ ys) @ zs) = xs @ ys"
    using le by (subst takeWhile_append2) auto
  then show ?thesis by (simp add: y)
qed

lemma log_flush_forced:
  assumes "log_inv A (m, os)" "pending m \<noteq> []"
  shows "\<exists>m' os'. log_flush A n True m os = Done (m', os', OK) \<and> log_inv A (m', os') \<and> log m' = log m"
proof -
  let ?t = "last_flushed_txn_id m"
  from assms(1) obtain rss where i: "txns_ok (log m)" "log_buffer m = []"
      "os = concat (map (\<lambda>rs. frame A (map (entity A) rs)) rss)" "concat rss = flushed m"
      "\<forall>rs\<in>set rss. sublist rs (log m)" by (auto simp: log_inv_def)
  have "dropWhile (\<lambda>r. fst r \<le> 0) (log m) = log m"
    using i(1) by (cases "log m") (auto simp: txns_ok_def)
  then have it: "(if ?t \<noteq> 0 then dropWhile (\<lambda>r. fst r \<le> ?t) (log m) else log m) = pending m"
    by (auto simp: pending_def)
  obtain j where j: "fst (fill_buffer A n (pending m) [] (get_log_buffer_size m)) =
      map (entity A) (take j (pending m))" "0 < j"
    using fill_buffer_prefix [of A n "pending m" "[]" "get_log_buffer_size m"] assms(2) by auto
  let ?b = "take j (pending m)"
  let ?m = "m\<lparr>log_buffer := [], last_flushed_txn_id := fst (last ?b)\<rparr>"
  have ne: "?b \<noteq> []" using j(2) assms(2) by simp
  have split: "log m = flushed m @ ?b @ drop j (pending m)"
    using flushed_pending [of m] by simp
  have fl: "flushed ?m = flushed m @ ?b"
    using takeWhile_last [of "flushed m" ?b "drop j (pending m)"] i(1) ne split
    by (simp add: flushed_def [of ?m])
  have run: "log_flush A n True m os = Done (?m, os @ frame A (map (entity A) ?b), OK)"
    unfolding log_flush_def Let_def it i(2) case_prod_unfold j(1)
    using ne by (simp add: frame_def last_map entity_def)
  have sub: "sublist ?b (log m)"
    unfolding sublist_def using split by blast
  have mem: "fst (last ?b) \<in> fst ` set (log m)"
    using ne by (intro imageI set_mono_sublist [OF sub, THEN subsetD] last_in_set)
  have "log_inv A (?m, os @ frame A (map (entity A) ?b))"
    unfolding log_inv_def prod.case fl
    using i mem sub by (simp, intro exI [of _ "rss @ [?b]"]) auto
  with run show ?thesis by (intro exI conjI) (assumption, assumption, simp)
qed

text \<open>Batches of updates, each appended record by record and then flushed with force.\<close>

fun append_all :: "'r LogRecord list \<Rightarrow> 'r LogManager \<Rightarrow> 'r LogManager" where
  "append_all [] m = m"
| "append_all (r # rs) m = append_all rs (fst (log_append (fst r) (snd r) m))"

fun run_batches ::
  "'r log_api \<Rightarrow> ('r LogRecord list \<times> nat) list \<Rightarrow> 'r LogManager \<times> string \<Rightarrow> ('r LogManager \<times> string) outcome" where
  "run_batches A [] s = Done s"
| "run_batches A ((rs, n) # bs) (m, os) =
     bindo (log_flush A n True (append_all rs m) os) (\<lambda>(m', os', status). run_batches A bs (m', os'))"

lemma append_all_log: "append_all rs m = m\<lparr>log := log m @ rs\<rparr>"
  by (induction rs arbitrary: m) (auto simp: log_append_def)

lemma pending_append:
  assumes "log_inv A (m, os)" "txns_ok (log m @ rs)" "rs \<noteq> []"
  shows "pending (m\<lparr>log := log m @ rs\<rparr>) \<noteq> []"
proof -
  from assms(1) have l: "last_flushed_txn_id m = 0 \<or> last_flushed_txn_id m \<in> fst ` set (log m)"
    by (simp add: log_inv_def)
  from txns_ok_append_last [OF assms(2) l] have "length (flushed (m\<lparr>log := log m @ rs\<rparr>)) \<le> length (log m)"
    by (simp add: flushed_def length_takeWhile_le)
  with flushed_pending [of "m\<lparr>log := log m @ rs\<rparr>"] assms(3) show ?thesis
    by (metis LogManager.select_convs(1) LogManager.surjective LogManager.update_convs(1) append_Nil2
        length_append less_add_same_cancel1 length_greater_0_conv not_le)
qed

lemma run_batches_inv:
  assumes "log_inv A (m, os)" "txns_ok (log m @ concat (map fst bs))" "\<forall>b\<in>set bs. fst b \<noteq> []"
  shows "\<exists>m' os'. run_batches A bs (m, os) = Done (m', os') \<and> log_inv A (m', os') \<and>
           log m' = log m @ concat (map fst bs)"
  using assms
proof (induction bs arbitrary: m os)
  case (Cons b bs)
  obtain rs n where b: "b = (rs, n)" by (cases b)
  let ?m = "m\<lparr>log := log m @ rs\<rparr>"
  from Cons.prems(2) b have ok: "txns_ok (log m @ rs)" by (auto simp: txns_ok_def sorted_wrt_append)
  have inv: "log_inv A (?m, os)" by (rule log_inv_append [OF Cons.prems(1) ok])
  have p: "pending ?m \<noteq> []" using pending_append [OF Cons.prems(1) ok] Cons.prems(3) b by simp
  from log_flush_forced [OF inv p, of n] obtain m1 os1 where f:
    "log_flush A n True ?m os = Done (m1, os1, OK)" "log_inv A (m1, os1)" "log m1 = log m @ rs" by auto
  from Cons.IH [OF f(2)] f(3) Cons.prems b show ?case by (simp add: append_all_log f(1))
qed simp

text \<open>
  C26: What is flushed is what a restart loads. Append batches of records whose transaction ids are
  positive and strictly increasing over all batches and flush after each of them with
  \<open>flush_if_not_full\<close>, whatever the size limits: every flush succeeds, nothing of the log is lost,
  and \<open>load\<close> of the stream written so far rebuilds, in order, exactly the records up to the last
  flushed transaction id.\<close>

theorem log_flush_load:
  assumes "log_laws A" "txns_ok (concat (map fst bs))" "\<forall>b\<in>set bs. fst b \<noteq> []"
    and "\<forall>rs. sublist rs (concat (map fst bs)) \<longrightarrow> fits A (map (entity A) rs)"
  shows "\<exists>m os. run_batches A bs (LogManager_new, []) = Done (m, os) \<and> log m = concat (map fst bs) \<and>
           log_load A os LogManager_new =
             Done (LogManager_new\<lparr>log := takeWhile (\<lambda>r. fst r \<le> last_flushed_txn_id m) (log m)\<rparr>, OK)"
proof -
  have "log_inv A (LogManager_new, [])"
    by (auto simp: log_inv_def LogManager_new_def txns_ok_def flushed_def intro: exI [of _ "[]"])
  from run_batches_inv [OF this, of bs] assms(2,3) obtain m os where r:
    "run_batches A bs (LogManager_new, []) = Done (m, os)" "log_inv A (m, os)" "log m = concat (map fst bs)"
    by (auto simp: LogManager_new_def)
  from r(2) obtain rss where s: "os = concat (map (\<lambda>rs. frame A (map (entity A) rs)) rss)"
     "concat rss = flushed m" "\<forall>rs\<in>set rss. sublist rs (log m)"
    by (auto simp: log_inv_def)
  from s(3) assms(4) r(3) have "\<forall>rs\<in>set rss. fits A (map (entity A) rs)" by simp
  from load_frames [OF assms(1) this, of "[]"] s(1,2) have "load_loop A os [] = Done (flushed m, OK)" by simp
  with r show ?thesis by (simp add: log_load_def flushed_def)
qed

text \<open>A serialisation with these laws.\<close>

fun dec_entities :: "nat list \<Rightarrow> (TxnIdType \<times> string) list" where
  "dec_entities (t # n # xs) = (of_nat t, map char_of (take n xs)) # dec_entities (drop n xs)"
| "dec_entities _ = []"

definition enc_entities :: "(TxnIdType \<times> string) list \<Rightarrow> nat list" where
  "enc_entities b = concat (map (\<lambda>e. unat (fst e) # length (snd e) # map of_char (snd e)) b)"

definition test_log_api :: "nat log_api" where
  "test_log_api =
     \<lparr>serialize_record = nat_to_string, parse_record = (\<lambda>s. (dec_value s, True)),
      serialize_buffer = (\<lambda>b. CHR ''L'' # enc_nats (enc_entities b)),
      parse_buffer = (\<lambda>s. Some (dec_entities (dec_nats (tl s)))), string_max_size = 2 ^ 62\<rparr>"

lemma chars_inverse: "map (char_of \<circ> (of_char :: char \<Rightarrow> nat)) s = s"
  by (induction s) auto

lemma dec_enc_entities: "dec_entities (enc_entities b) = b"
proof (induction b)
  case (Cons e b)
  then show ?case by (simp add: enc_entities_def chars_inverse)
qed (simp add: enc_entities_def)

lemma log_laws_test: "log_laws test_log_api"
  by (simp add: log_laws_def test_log_api_def dec_enc_entities is_digit_def)

definition demo_batches :: "(nat LogRecord list \<times> nat) list" where
  "demo_batches = [([(1, 5)], 0), ([(2, 7), (3, 9)], 1)]"

lemmas test_log_simps = test_log_api_def entity_def enc_entities_def enc_nats_def nat_to_string.simps
  digit_char_def char_of_def

theorem log_flush_load_witness:
  "\<exists>m os. run_batches test_log_api demo_batches (LogManager_new, []) = Done (m, os) \<and>
     log m = [(1, 5), (2, 7), (3, 9)] \<and>
     log_load test_log_api os LogManager_new =
       Done (LogManager_new\<lparr>log := takeWhile (\<lambda>r. fst r \<le> last_flushed_txn_id m) (log m)\<rparr>, OK)"
proof -
  have "\<forall>rs\<in>set (sublists (concat (map fst demo_batches))). fits test_log_api (map (entity test_log_api) rs)"
    by (simp add: demo_batches_def fits_def test_log_simps)
  then have f: "\<forall>rs. sublist rs (concat (map fst demo_batches)) \<longrightarrow>
      fits test_log_api (map (entity test_log_api) rs)"
    by simp
  have t: "txns_ok (concat (map fst demo_batches))" "\<forall>b\<in>set demo_batches. fst b \<noteq> []"
    by (simp_all add: demo_batches_def txns_ok_def)
  from log_flush_load [OF log_laws_test t f] show ?thesis by (simp add: demo_batches_def)
qed

text \<open>
  A flush that does not fill its limit leaves its records in the buffer without remembering them,
  so the next flush puts them there again: after one record, one plain flush below the limit and one
  forced flush, the stream holds the record twice and \<open>load\<close> applies it twice.\<close>

theorem flush_below_limit_duplicates:
  assumes "log_laws A" "0 < t" "8 + length (serialize_record A r) < n"
    and "fits A [entity A (t, r), entity A (t, r)]"
  shows "\<exists>m1 m2 os.
     log_flush A n False (fst (log_append t r LogManager_new)) [] = Done (m1, [], OK) \<and>
     log_flush A n True m1 [] = Done (m2, os, OK) \<and> log m2 = [(t, r)] \<and>
     log_load A os LogManager_new = Done (LogManager_new\<lparr>log := [(t, r), (t, r)]\<rparr>, OK)"
proof -
  let ?m = "fst (log_append t r LogManager_new)"
  let ?e = "entity A (t, r)"
  have 1: "log_flush A n False ?m [] = Done (?m\<lparr>log_buffer := [?e]\<rparr>, [], OK)"
    using assms(3)
    by (simp add: log_flush_def log_append_def LogManager_new_def entity_def entity_bytes_def
        get_log_buffer_size_def)
  have 2: "log_flush A n True (?m\<lparr>log_buffer := [?e]\<rparr>) [] =
      Done (?m\<lparr>log_buffer := [], last_flushed_txn_id := t\<rparr>, frame A [?e, ?e], OK)"
    by (simp add: log_flush_def log_append_def LogManager_new_def entity_def entity_bytes_def
        get_log_buffer_size_def frame_def Let_def)
  from load_frames [OF assms(1), of "[[(t, r), (t, r)]]" "[]"] assms(4)
  have "load_loop A (frame A [?e, ?e]) [] = Done ([(t, r), (t, r)], OK)" by simp
  with 1 2 show ?thesis by (simp add: log_load_def) (simp add: log_append_def LogManager_new_def)
qed

theorem flush_below_limit_duplicates_witness:
  "\<exists>m1 m2 os.
     log_flush test_log_api 100 False (fst (log_append 1 5 LogManager_new)) [] = Done (m1, [], OK) \<and>
     log_flush test_log_api 100 True m1 [] = Done (m2, os, OK) \<and> log m2 = [(1, 5)] \<and>
     log_load test_log_api os LogManager_new = Done (LogManager_new\<lparr>log := [(1, 5), (1, 5)]\<rparr>, OK)"
proof (rule flush_below_limit_duplicates [OF log_laws_test])
  show "fits test_log_api [entity test_log_api (1, 5), entity test_log_api (1, 5)]"
    by (simp add: fits_def test_log_simps)
qed (simp_all add: test_log_simps)

end
