(* ===== verification/Index_Manager.thy ===== *)
theory Index_Manager
  imports Index Log_Manager Path_Util
begin

text \<open>
  The index server's state: \<open>IndexManager\<close> and its \<open>RangeIndexWrapper\<close>
  (\<open>vsfs/indexd/index_manager.cpp\<close>, \<open>index_manager.h\<close>), the calls \<open>IndexController\<close> passes on to it
  (\<open>index_controller.cpp\<close>) and the handlers of \<open>IndexServer\<close> (\<open>index_server.cpp\<close>). An unordered map is
  kept in key order, one of the orders it may be iterated in. A log file is the string in it.
\<close>

section \<open>What the manager is given\<close>

text \<open>
  The casts and limits of each key type, vobla's type ids, Thrift's serialisation, the MD5 digest, the two
  flags of the program, which files can be opened, and the value the member \<open>last_merged_log_id_\<close>,
  which no constructor sets, happens to have. The keys of a \<open>float\<close> or \<open>double\<close> index
  are elements of an ordered type: an index never holds a NaN.
\<close>

record 'f index_env =
  int_traits :: "key_kind \<Rightarrow> int key_traits"
  float_traits :: "key_kind \<Rightarrow> 'f key_traits"
  str_traits :: "string key_traits"
  type_ids :: "key_kind \<Rightarrow> int"
  log_codec :: "RpcIndexRecordUpdateList log_api"
  md5 :: "string \<Rightarrow> 8 word list"
  update_immediately :: bool
  flush_log_size :: nat
  can_open :: "string \<Rightarrow> bool"
  uninit_txn :: TxnIdType

section \<open>The index object behind RangeIndexInterface\<close>

datatype 'f range_index =
    IntIndex key_kind "int index_map"
  | FloatIndex key_kind "'f index_map"
  | StringIndex "string index_map"

definition new_range_index :: "key_kind \<Rightarrow> 'f range_index" where
  "new_range_index k =
     (if k = KString then StringIndex [] else if k = KFloat \<or> k = KDouble then FloatIndex k [] else IntIndex k [])"

fun ri_apply ::
  "'f::linorder index_env \<Rightarrow> 'f range_index \<Rightarrow> RpcIndexRecordUpdateOp list \<Rightarrow> ('f range_index \<times> Status) outcome" where
  "ri_apply E (IntIndex k ix) us = bindo (apply_updates (int_traits E k) ix us) (\<lambda>(i, st). Done (IntIndex k i, st))"
| "ri_apply E (FloatIndex k ix) us = bindo (apply_updates (float_traits E k) ix us) (\<lambda>(i, st). Done (FloatIndex k i, st))"
| "ri_apply E (StringIndex ix) us = bindo (apply_updates (str_traits E) ix us) (\<lambda>(i, st). Done (StringIndex i, st))"

fun ri_search ::
  "'f::linorder index_env \<Rightarrow> 'f range_index \<Rightarrow> RpcRangeQuery \<Rightarrow> ObjectId list \<Rightarrow> ObjectId list \<times> Status" where
  "ri_search E (IntIndex k ix) q rs = search_query (int_traits E k) ix q rs"
| "ri_search E (FloatIndex k ix) q rs = search_query (float_traits E k) ix q rs"
| "ri_search E (StringIndex ix) q rs = search_query (str_traits E) ix q rs"

fun ri_size :: "'f range_index \<Rightarrow> nat" where
  "ri_size (IntIndex k ix) = impl_size ix"
| "ri_size (FloatIndex k ix) = impl_size ix"
| "ri_size (StringIndex ix) = impl_size ix"

section \<open>RangeIndexWrapper\<close>

datatype wrapper_status = NORMAL | MIGRATING

record 'f RangeIndexWrapper =
  base_path :: string
  ri_index :: "'f range_index"
  log_manager :: "RpcIndexRecordUpdateList LogManager"
  w_status :: wrapper_status
  dirty :: bool
  last_merged_log_id :: TxnIdType

definition RangeIndexWrapper_new ::
  "'f index_env \<Rightarrow> string \<Rightarrow> 'f range_index \<Rightarrow> bool \<Rightarrow> 'f RangeIndexWrapper" where
  "RangeIndexWrapper_new E path ri dty =
     \<lparr>base_path = path, ri_index = ri, log_manager = LogManager_new, w_status = NORMAL, dirty = dty,
      last_merged_log_id = uninit_txn E\<rparr>"

definition set_status :: "wrapper_status \<Rightarrow> 'f RangeIndexWrapper \<Rightarrow> 'f RangeIndexWrapper" where
  "set_status new_status w = w\<lparr>w_status := new_status\<rparr>"

definition wrapper_update ::
  "'f::linorder index_env \<Rightarrow> TxnIdType \<Rightarrow> RpcIndexRecordUpdateList \<Rightarrow> 'f RangeIndexWrapper \<Rightarrow>
     ('f RangeIndexWrapper \<times> Status) outcome" where
  "wrapper_update E txn_id us w =
     (if update_immediately E then
        bindo (ri_apply E (ri_index w) (record_updates us)) (\<lambda>(ix, status).
          Done (w\<lparr>ri_index := ix, dirty := dirty w \<or> ok status\<rparr>, status))
      else
        case log_append txn_id us (log_manager w) of (lm, status) \<Rightarrow>
          if \<not> ok status then Done (w\<lparr>log_manager := lm\<rparr>, status)
          else Done (w\<lparr>log_manager := lm, dirty := True\<rparr>, status))"

fun merge_records ::
  "'f::linorder index_env \<Rightarrow> 'f range_index \<Rightarrow> RpcIndexRecordUpdateList list \<Rightarrow> ('f range_index \<times> Status) outcome" where
  "merge_records E ix [] = Done (ix, OK)"
| "merge_records E ix (us # rest) =
     bindo (ri_apply E ix (record_updates us)) (\<lambda>(ix', status).
       if \<not> ok status then Done (ix', status) else merge_records E ix' rest)"

definition wrapper_merge ::
  "'f::linorder index_env \<Rightarrow> TxnIdType \<Rightarrow> 'f RangeIndexWrapper \<Rightarrow> ('f RangeIndexWrapper \<times> Status) outcome" where
  "wrapper_merge E txn_id w =
     (if w_status w = MIGRATING then Done (w, Err (-2) ''This index is under migration.'')
      else
        bindo (merge_records E (ri_index w) (log_scan txn_id (log_manager w))) (\<lambda>(ix, status).
          if \<not> ok status then Done (w\<lparr>ri_index := ix\<rparr>, status)
          else Done (w\<lparr>ri_index := ix, last_merged_log_id := txn_id, dirty := True\<rparr>, OK)))"

text \<open>The status of the index's own search is dropped.\<close>

definition wrapper_search ::
  "'f::linorder index_env \<Rightarrow> TxnIdType \<Rightarrow> RpcRangeQuery \<Rightarrow> 'f RangeIndexWrapper \<Rightarrow> ObjectId list \<Rightarrow>
     ('f RangeIndexWrapper \<times> ObjectId list \<times> Status) outcome" where
  "wrapper_search E txn_id query w results =
     bindo (wrapper_merge E txn_id w) (\<lambda>(w', status).
       if \<not> ok status then Done (w', results, status)
       else Done (w', fst (ri_search E (ri_index w') query results), OK))"

type_synonym file_map = "(string \<times> string) list"

definition file_content :: "file_map \<Rightarrow> string \<Rightarrow> string" where
  "file_content fs path = (case map_of fs path of None \<Rightarrow> [] | Some s \<Rightarrow> s)"

definition flush_log ::
  "'f index_env \<Rightarrow> bool \<Rightarrow> 'f RangeIndexWrapper \<Rightarrow> file_map \<Rightarrow> ('f RangeIndexWrapper \<times> file_map \<times> Status) outcome" where
  "flush_log E force w fs =
     (let path = base_path w @ ''.log'' in
      if \<not> can_open E path then Done (w, fs, Err (-1) ''Failed to flush logs.'')
      else
        bindo (log_flush (log_codec E) (flush_log_size E) force (log_manager w) (file_content fs path))
          (\<lambda>(lm, os, status).
            let fs' = smap_put path os fs in
            if ok status then
              Done (w\<lparr>log_manager := log_erase (min (last_merged_log_id w) (last_flushed_txn_id lm)) lm\<rparr>, fs', status)
            else Done (w\<lparr>log_manager := lm\<rparr>, fs', status)))"

definition flush_index :: "'f RangeIndexWrapper \<Rightarrow> 'f RangeIndexWrapper \<times> Status" where
  "flush_index w = (w, OK)"

section \<open>IndexManager\<close>

record 'f IndexManager =
  basedir :: string
  index_info_map :: "(string \<times> IndexInfo) list"
  range_index_map :: "(string \<times> 'f RangeIndexWrapper) list"
  im_files :: file_map

definition IndexManager_new :: "string \<Rightarrow> file_map \<Rightarrow> 'f IndexManager" where
  "IndexManager_new dir fs = \<lparr>basedir = dir, index_info_map = [], range_index_map = [], im_files = fs\<rparr>"

definition get_index_info :: "'f IndexManager \<Rightarrow> string \<Rightarrow> IndexInfo option" where
  "get_index_info m key = map_of (index_info_map m) key"

definition get_index_file_base_path :: "'f index_env \<Rightarrow> 'f IndexManager \<Rightarrow> string \<Rightarrow> string" where
  "get_index_file_base_path E m root_path =
     basedir m @ ''/'' @ int_to_string (path_to_hash (md5 E) root_path)"

definition im_create ::
  "'f index_env \<Rightarrow> TxnIdType \<Rightarrow> string \<Rightarrow> string \<Rightarrow> int \<Rightarrow> int \<Rightarrow> 'f IndexManager \<Rightarrow> 'f IndexManager \<times> Status" where
  "im_create E txn_id root_path name index_type key_type m =
     (if root_path = [] \<or> name = [] then (m, Err (- EINVAL) ''Invalid parameters.'')
      else if map_of (index_info_map m) root_path \<noteq> None then (m, Err (- EEXIST) ''The index is existed.'')
      else if index_type = BTREE then
        (case create_range_index (type_ids E) key_type of
           None \<Rightarrow> (m, Err (- EINVAL) (''Unknown key type: '' @ int_to_string key_type))
         | Some k \<Rightarrow>
             (m\<lparr>index_info_map := smap_put root_path
                   \<lparr>info_path = root_path, info_index_name = name, info_index_type = index_type, info_key_type = key_type\<rparr>
                   (index_info_map m),
                range_index_map := smap_put root_path
                   (RangeIndexWrapper_new E (get_index_file_base_path E m root_path) (new_range_index k) True)
                   (range_index_map m)\<rparr>, OK))
      else if index_type = HASH then (m, OK)
      else (m, Err (- EINVAL) ''Unknown index type.''))"

definition remove_all :: "string \<Rightarrow> file_map \<Rightarrow> file_map" where
  "remove_all path fs = filter (\<lambda>(p, _). p \<noteq> path \<and> \<not> starts_with p (path @ ''/'')) fs"

definition im_destroy ::
  "'f index_env \<Rightarrow> TxnIdType \<Rightarrow> string \<Rightarrow> string \<Rightarrow> 'f IndexManager \<Rightarrow> 'f IndexManager \<times> Status" where
  "im_destroy E txn_id root name m =
     (if root = [] \<or> name = [] then (m, Err (- EINVAL) ''Invalid parameters.'')
      else case get_index_info m root of
        None \<Rightarrow> (m, Err (- ENOENT) ''Index does not existed.'')
      | Some info \<Rightarrow>
          let erased = m\<lparr>index_info_map := smap_erase root (index_info_map m)\<rparr>;
              dropped = (if info_index_type info = BTREE
                         then erased\<lparr>range_index_map := smap_erase root (range_index_map m)\<rparr> else erased)
          in if info_index_type info \<noteq> BTREE \<and> info_index_type info \<noteq> HASH then
               (erased, Err (- EINVAL) ''Unknown index type.'')
             else (dropped\<lparr>im_files := remove_all (get_index_file_base_path E m root) (im_files m)\<rparr>, OK))"

text \<open>
  \<open>range_index_map_[key].get()\<close> followed by \<open>CHECK_NOTNULL\<close>.
\<close>

definition wrapper_of :: "'f IndexManager \<Rightarrow> string \<Rightarrow> 'f RangeIndexWrapper outcome" where
  "wrapper_of m key = (case map_of (range_index_map m) key of None \<Rightarrow> Fail CheckFailed | Some w \<Rightarrow> Done w)"

definition put_wrapper :: "string \<Rightarrow> 'f RangeIndexWrapper \<Rightarrow> 'f IndexManager \<Rightarrow> 'f IndexManager" where
  "put_wrapper key w m = m\<lparr>range_index_map := smap_put key w (range_index_map m)\<rparr>"

definition update_single_index ::
  "'f::linorder index_env \<Rightarrow> TxnIdType \<Rightarrow> RpcIndexRecordUpdateList \<Rightarrow> 'f IndexManager \<Rightarrow>
     ('f IndexManager \<times> Status) outcome" where
  "update_single_index E txn_id us m =
     (let index_key = ul_root_path us in
      case get_index_info m index_key of
        None \<Rightarrow> Done (m, Err (- ENOENT) ''The index does not exist.'')
      | Some info \<Rightarrow>
          bindo (if info_index_type info = BTREE then
                   bindo (wrapper_of m index_key) (\<lambda>w.
                     bindo (wrapper_update E txn_id us w) (\<lambda>(w', status). Done (put_wrapper index_key w' m, status)))
                 else Done (m, OK))
            (\<lambda>(m', status).
              if \<not> ok status then Done (m', Err (-1) (''Errors occurs when update index: '' @ index_key))
              else Done (m', OK)))"

fun update_logs ::
  "'f::linorder index_env \<Rightarrow> TxnIdType \<Rightarrow> RpcIndexRecordUpdateList list \<Rightarrow> 'f IndexManager \<Rightarrow>
     ('f IndexManager \<times> Status) outcome" where
  "update_logs E txn_id [] m = Done (m, OK)"
| "update_logs E txn_id (us # rest) m =
     bindo (update_single_index E txn_id us m) (\<lambda>(m', status).
       if \<not> ok status then Done (m', status) else update_logs E txn_id rest m')"

fun update_threads ::
  "'f::linorder index_env \<Rightarrow> TxnIdType \<Rightarrow> RpcIndexRecordUpdateList list \<Rightarrow> bool \<Rightarrow> 'f IndexManager \<Rightarrow>
     ('f IndexManager \<times> bool) outcome" where
  "update_threads E txn_id [] has_failure m = Done (m, has_failure)"
| "update_threads E txn_id (us # rest) has_failure m =
     bindo (update_single_index E txn_id us m) (\<lambda>(m', status).
       update_threads E txn_id rest (has_failure \<or> \<not> ok status) m')"

text \<open>
  With \<open>update_immediately\<close> every list of updates has a thread of its own; \<open>schedule\<close> is the order the
  threads run in.
\<close>

definition im_update ::
  "'f::linorder index_env \<Rightarrow> (RpcIndexRecordUpdateList list \<Rightarrow> RpcIndexRecordUpdateList list) \<Rightarrow> RpcIndexUpdate \<Rightarrow>
     'f IndexManager \<Rightarrow> ('f IndexManager \<times> Status) outcome" where
  "im_update E schedule us m =
     (let txn_id = word_of_int (iu_txn_id us) in
      if update_immediately E then
        bindo (update_threads E txn_id (schedule (updates us)) False m) (\<lambda>(m', has_failure).
          Done (m', if has_failure then Err (-1) ''An error has occured'' else OK))
      else update_logs E txn_id (updates us) m)"

definition get_range_index :: "'f IndexManager \<Rightarrow> string \<Rightarrow> string \<Rightarrow> 'f range_index option" where
  "get_range_index m path name = map_option ri_index (map_of (range_index_map m) path)"

definition merge_log_to_index ::
  "'f::linorder index_env \<Rightarrow> string \<Rightarrow> TxnIdType \<Rightarrow> 'f IndexManager \<Rightarrow> ('f IndexManager \<times> Status) outcome" where
  "merge_log_to_index E path txn_id m =
     (case map_of (range_index_map m) path of
        None \<Rightarrow> Done (m, Err (- ENOENT) ''The index does not exist.'')
      | Some w \<Rightarrow> bindo (wrapper_merge E txn_id w) (\<lambda>(w', status). Done (put_wrapper path w' m, status)))"

fun im_search_loop ::
  "'f::linorder index_env \<Rightarrow> TxnIdType \<Rightarrow> RpcRangeQuery list \<Rightarrow> 'f IndexManager \<Rightarrow> ObjectId list \<Rightarrow>
     ('f IndexManager \<times> ObjectId list \<times> Status) outcome" where
  "im_search_loop E txn_id [] m results = Done (m, results, OK)"
| "im_search_loop E txn_id (cq # rest) m results =
     (case get_index_info m (rq_index_path cq) of
        None \<Rightarrow> Done (m, results, Err (- ENOENT) ''The index does not exist.'')
      | Some info \<Rightarrow>
          if info_index_type info = BTREE then
            bindo (wrapper_of m (rq_index_path cq)) (\<lambda>w.
              bindo (wrapper_search E txn_id cq w []) (\<lambda>(w', tmp, status).
                let m' = put_wrapper (rq_index_path cq) w' m in
                if \<not> ok status then Done (m', results, status)
                else im_search_loop E txn_id rest m' (results @ tmp)))
          else Done (m, results, Err (-1) ''Wrong index type.''))"

definition im_search ::
  "'f::linorder index_env \<Rightarrow> RpcComplexQuery \<Rightarrow> 'f IndexManager \<Rightarrow> ObjectId list \<Rightarrow>
     ('f IndexManager \<times> ObjectId list \<times> Status) outcome" where
  "im_search E query m results = im_search_loop E (word_of_int (qry_txn_id query)) (range_queries query) m results"

definition im_info ::
  "'f::linorder index_env \<Rightarrow> RpcIndexInfoRequest \<Rightarrow> 'f IndexManager \<Rightarrow> RpcIndexInfo \<Rightarrow>
     ('f IndexManager \<times> RpcIndexInfo \<times> Status) outcome" where
  "im_info E request m result =
     (case get_index_info m (ir_path request) of
        None \<Rightarrow> Done (m, result, Err (- ENOENT) ''The index does not exist.'')
      | Some info \<Rightarrow>
          let result1 = result\<lparr>ii_path := info_path info, ii_name := info_index_name info,
                ii_type := info_index_type info, ii_key_type := info_key_type info\<rparr>
          in if info_index_type info = BTREE then
               bindo (wrapper_of m (ir_path request)) (\<lambda>w.
                 bindo (wrapper_merge E (word_of_int (ir_txn_id request)) w) (\<lambda>(w', _).
                   Done (put_wrapper (ir_path request) w' m,
                         result1\<lparr>ii_num_records := int (ri_size (ri_index w'))\<rparr>, OK)))
             else Done (m, result1, Err (-1) ''Wrong index type.''))"

fun flush_wrappers ::
  "(string \<times> 'f RangeIndexWrapper) list \<Rightarrow> bool \<Rightarrow> (string \<times> 'f RangeIndexWrapper) list \<times> bool" where
  "flush_wrappers [] has_failure = ([], has_failure)"
| "flush_wrappers ((k, w) # rest) has_failure =
     (if dirty w then
        case flush_index w of (w', status) \<Rightarrow>
          (case flush_wrappers rest (has_failure \<or> \<not> ok status) of (ws, failed) \<Rightarrow> ((k, w') # ws, failed))
      else case flush_wrappers rest has_failure of (ws, failed) \<Rightarrow> ((k, w) # ws, failed))"

definition im_flush :: "'f IndexManager \<Rightarrow> 'f IndexManager \<times> Status" where
  "im_flush m =
     (if basedir m = [] then (m, OK)
      else case flush_wrappers (range_index_map m) False of (ws, has_failure) \<Rightarrow>
        (m\<lparr>range_index_map := ws\<rparr>,
         if has_failure then Err (-1) ''Errors occurred when flush indices.'' else OK))"

definition find_indices_for_splitting :: "nat \<Rightarrow> 'f IndexManager \<Rightarrow> IndexInfo option list" where
  "find_indices_for_splitting threshold m =
     map (\<lambda>p. get_index_info m (fst p))
       (filter (\<lambda>p. threshold \<le> ri_size (ri_index (snd p))) (range_index_map m))"

text \<open>One round of \<open>background_flush_thread\<close>; the status of a flush is dropped.\<close>

fun background_round ::
  "'f index_env \<Rightarrow> (string \<times> 'f RangeIndexWrapper) list \<Rightarrow> file_map \<Rightarrow>
     ((string \<times> 'f RangeIndexWrapper) list \<times> file_map) outcome" where
  "background_round E [] fs = Done ([], fs)"
| "background_round E ((k, w) # rest) fs =
     (if dirty w then
        bindo (flush_log E False w fs) (\<lambda>(w', fs', _).
          bindo (background_round E rest fs') (\<lambda>(ws, fs''). Done ((k, w') # ws, fs'')))
      else bindo (background_round E rest fs) (\<lambda>(ws, fs'). Done ((k, w) # ws, fs')))"

definition background_flush :: "'f index_env \<Rightarrow> 'f IndexManager \<Rightarrow> 'f IndexManager outcome" where
  "background_flush E m =
     bindo (background_round E (range_index_map m) (im_files m)) (\<lambda>(ws, fs).
       Done (m\<lparr>range_index_map := ws, im_files := fs\<rparr>))"

section \<open>IndexController and IndexServer\<close>

definition ic_create_index ::
  "'f index_env \<Rightarrow> string \<Rightarrow> string \<Rightarrow> int \<Rightarrow> int \<Rightarrow> 'f IndexManager \<Rightarrow> 'f IndexManager \<times> Status" where
  "ic_create_index E root_path name index_type key_type m = im_create E 0 root_path name index_type key_type m"

definition ic_destroy_index ::
  "'f index_env \<Rightarrow> string \<Rightarrow> string \<Rightarrow> 'f IndexManager \<Rightarrow> 'f IndexManager \<times> Status" where
  "ic_destroy_index E root name m = im_destroy E 0 root name m"

definition ic_update ::
  "'f::linorder index_env \<Rightarrow> (RpcIndexRecordUpdateList list \<Rightarrow> RpcIndexRecordUpdateList list) \<Rightarrow> RpcIndexUpdate \<Rightarrow>
     'f IndexManager \<Rightarrow> ('f IndexManager \<times> Status) outcome" where
  "ic_update E schedule us m = im_update E schedule us m"

definition ic_search ::
  "'f::linorder index_env \<Rightarrow> RpcComplexQuery \<Rightarrow> ObjectId list \<Rightarrow> 'f IndexManager \<Rightarrow>
     ('f IndexManager \<times> ObjectId list \<times> Status) outcome" where
  "ic_search E query results m = im_search E query m results"

definition ic_info ::
  "'f::linorder index_env \<Rightarrow> RpcIndexInfoRequest \<Rightarrow> RpcIndexInfo \<Rightarrow> 'f IndexManager \<Rightarrow>
     ('f IndexManager \<times> RpcIndexInfo \<times> Status) outcome" where
  "ic_info E request result m = im_info E request m result"

definition server_create_index ::
  "vobla_api \<Rightarrow> 'f index_env \<Rightarrow> RpcIndexCreateRequest \<Rightarrow> 'f IndexManager \<Rightarrow> 'f IndexManager \<times> (RpcInvalidOp + unit)" where
  "server_create_index V E req m =
     (case ic_create_index E (cr_root req) (cr_name req) (cr_index_type req) (cr_key_type req) m of
        (m', status) \<Rightarrow> (m', check_status V status ()))"

definition server_remove_index :: "RpcIndexName \<Rightarrow> 'f IndexManager \<Rightarrow> 'f IndexManager \<times> (RpcInvalidOp + unit)" where
  "server_remove_index name m = (m, Inr ())"

definition server_update ::
  "vobla_api \<Rightarrow> 'f::linorder index_env \<Rightarrow> (RpcIndexRecordUpdateList list \<Rightarrow> RpcIndexRecordUpdateList list) \<Rightarrow>
     RpcIndexUpdate \<Rightarrow> 'f IndexManager \<Rightarrow> ('f IndexManager \<times> (RpcInvalidOp + unit)) outcome" where
  "server_update V E schedule us m =
     bindo (ic_update E schedule us m) (\<lambda>(m', status). Done (m', check_status V status ()))"

definition server_search ::
  "vobla_api \<Rightarrow> 'f::linorder index_env \<Rightarrow> RpcComplexQuery \<Rightarrow> 'f IndexManager \<Rightarrow>
     ('f IndexManager \<times> (RpcInvalidOp + ObjectId list)) outcome" where
  "server_search V E query m =
     bindo (ic_search E query [] m) (\<lambda>(m', results, status). Done (m', check_status V status results))"

definition server_info ::
  "vobla_api \<Rightarrow> 'f::linorder index_env \<Rightarrow> RpcIndexInfoRequest \<Rightarrow> RpcIndexInfo \<Rightarrow> 'f IndexManager \<Rightarrow>
     ('f IndexManager \<times> (RpcInvalidOp + RpcIndexInfo)) outcome" where
  "server_info V E request result m =
     bindo (ic_info E request result m) (\<lambda>(m', result', status). Done (m', check_status V status result'))"

section \<open>An index is what its updates say\<close>

definition well_formed :: "'k key_traits \<Rightarrow> RpcIndexRecordUpdateList \<Rightarrow> bool" where
  "well_formed T us \<longleftrightarrow> (\<forall>u\<in>set (record_updates us). decode T u \<noteq> None)"

definition effects :: "'k key_traits \<Rightarrow> RpcIndexRecordUpdateList list \<Rightarrow> (bool \<times> 'k \<times> ObjectId) list" where
  "effects T uss = concat (map (\<lambda>us. map (the \<circ> decode T) (record_updates us)) uss)"

lemma effects_simps [simp]:
  "effects T [] = []" "effects T (xs @ ys) = effects T xs @ effects T ys"
  "effects T (us # rest) = map (the \<circ> decode T) (record_updates us) @ effects T rest"
  by (simp_all add: effects_def)

lemma merge_records_int:
  assumes "zero_init (int_traits E k)" "\<forall>us\<in>set uss. well_formed (int_traits E k) us" "index_ok ix"
  shows "\<exists>ix'. merge_records E (IntIndex k ix) uss = Done (IntIndex k ix', OK) \<and> index_ok ix' \<and>
           records ix' = foldl record_spec (records ix) (effects (int_traits E k) uss)"
  using assms(2,3)
proof (induction uss arbitrary: ix)
  case (Cons us uss)
  let ?T = "int_traits E k"
  let ?ds = "map (the \<circ> decode ?T) (record_updates us)"
  from Cons.prems(1) have "map (decode ?T) (record_updates us) = map Some ?ds"
    by (auto simp: well_formed_def)
  from apply_updates_prefix [OF assms(1) this Cons.prems(2), of "[]"] obtain ix1 where
    1: "apply_updates ?T ix (record_updates us) = Done (ix1, OK)" "index_ok ix1"
      "records ix1 = foldl record_spec (records ix) ?ds" by auto
  from Cons.IH [OF _ 1(2)] Cons.prems(1) 1 show ?case by auto
qed simp

text \<open>Applying a log again, with more at its end, is applying it once.\<close>

lemma foldl_record_spec_again:
  "foldl record_spec (foldl record_spec A xs) (xs @ ys) = foldl record_spec A (xs @ ys)"
  by (simp add: foldl_record_spec_idem)

definition query_bounds :: "'k key_traits \<Rightarrow> RpcRangeQuery \<Rightarrow> ('k \<times> 'k) option" where
  "query_bounds T q =
     (case (if rq_lower q \<noteq> [] then cast_key T (rq_lower q) else Some (limit_min T),
            if rq_upper q \<noteq> [] then cast_key T (rq_upper q) else Some (limit_max T)) of
        (Some l, Some u) \<Rightarrow> Some (l, u) | _ \<Rightarrow> None)"

text \<open>The answer to a query on a set of records; a query whose ends cannot be read finds nothing.\<close>

definition answer :: "'k::linorder key_traits \<Rightarrow> RpcRangeQuery \<Rightarrow> ('k \<times> ObjectId) set \<Rightarrow> ObjectId set" where
  "answer T q R =
     (case query_bounds T q of
        None \<Rightarrow> {}
      | Some (l, u) \<Rightarrow> {obj. \<exists>key. (key, obj) \<in> R \<and> in_range l (rq_lower_open q) u (rq_upper_open q) key})"

lemma set_range_search:
  assumes "index_ok index"
  shows "set (range_search index l lo u uo []) = {obj. \<exists>key. (key, obj) \<in> records index \<and> in_range l lo u uo key}"
proof -
  have ok: "smap_ok index" using assms by (simp add: index_ok_def)
  have "obj \<in> set (concat (map snd (filter (\<lambda>p. in_range l lo u uo (fst p)) index))) \<longleftrightarrow>
      (\<exists>key files. (key, files) \<in> set index \<and> in_range l lo u uo key \<and> obj \<in> set files)" for obj
    by force
  then show ?thesis
    unfolding range_search_filter [OF ok] smap_ok_map_of [OF ok] append_Nil set_eq_iff mem_Collect_eq records_iff
    by blast
qed

lemma search_query_answer:
  "index_ok ix \<Longrightarrow> set (fst (search_query T ix q [])) = answer T q (records ix)"
  by (simp add: search_query_def answer_def query_bounds_def set_range_search split: option.split)

text \<open>
  A wrapper that has seen the updates \<open>hist\<close>, oldest first, and merged those up to \<open>M\<close>: what a flush has
  dropped from the log was merged, and what is in the log and merged will be applied again.
\<close>

definition wrapper_ok ::
  "'f index_env \<Rightarrow> key_kind \<Rightarrow> 'f RangeIndexWrapper \<Rightarrow> RpcIndexRecordUpdateList LogRecord list \<Rightarrow> TxnIdType \<Rightarrow> bool" where
  "wrapper_ok E k w hist M \<longleftrightarrow>
     w_status w = NORMAL \<and> last_merged_log_id w = M \<and> sorted (map fst hist) \<and>
     (\<forall>r\<in>set hist. well_formed (int_traits E k) (snd r)) \<and>
     (\<exists>ix l0 l1 l2. ri_index w = IntIndex k ix \<and> index_ok ix \<and> log (log_manager w) = l1 @ l2 \<and>
        hist = l0 @ l1 @ l2 \<and> (\<forall>r\<in>set (l0 @ l1). fst r \<le> M) \<and> (\<forall>r\<in>set l2. M < fst r) \<and>
        records ix = foldl record_spec {} (effects (int_traits E k) (map snd (l0 @ l1))))"

lemma wrapper_ok_update:
  assumes "wrapper_ok E k w hist M" "\<not> update_immediately E" "M < t" "\<forall>r\<in>set hist. fst r \<le> t"
    "well_formed (int_traits E k) us"
  shows "\<exists>w'. wrapper_update E t us w = Done (w', OK) \<and> wrapper_ok E k w' (hist @ [(t, us)]) M"
proof -
  from assms(1) obtain ix l0 l1 l2 where
    w: "w_status w = NORMAL" "last_merged_log_id w = M" "sorted (map fst hist)"
       "\<forall>r\<in>set hist. well_formed (int_traits E k) (snd r)"
    and i: "ri_index w = IntIndex k ix" "index_ok ix" "log (log_manager w) = l1 @ l2" "hist = l0 @ l1 @ l2"
       "\<forall>r\<in>set (l0 @ l1). fst r \<le> M" "\<forall>r\<in>set l2. M < fst r"
       "records ix = foldl record_spec {} (effects (int_traits E k) (map snd (l0 @ l1)))"
    unfolding wrapper_ok_def by blast
  let ?w = "w\<lparr>log_manager := (log_manager w)\<lparr>log := log (log_manager w) @ [(t, us)]\<rparr>, dirty := True\<rparr>"
  have "sorted (map fst (hist @ [(t, us)]))" using w(3) assms(4) by (auto simp: sorted_append)
  moreover have "\<forall>r\<in>set (l2 @ [(t, us)]). M < fst r" using i(6) assms(3) by auto
  moreover have "\<forall>r\<in>set (hist @ [(t, us)]). well_formed (int_traits E k) (snd r)" using w(4) assms(5) by auto
  ultimately have "wrapper_ok E k ?w (hist @ [(t, us)]) M"
    unfolding wrapper_ok_def using w(1,2) i
    by (intro conjI exI [of _ ix] exI [of _ l0] exI [of _ l1] exI [of _ "l2 @ [(t, us)]"]) simp_all
  then show ?thesis using assms(2) by (simp add: wrapper_update_def log_append_def)
qed

lemma sorted_filter_takeWhile:
  "sorted (map fst l) \<Longrightarrow> filter (\<lambda>r. fst r \<le> t) l = takeWhile (\<lambda>r. fst r \<le> (t :: 'a :: linorder)) l"
proof (induction l)
  case (Cons r l)
  show ?case
  proof (cases "fst r \<le> t")
    case False
    with Cons.prems have "\<forall>q\<in>set l. \<not> fst q \<le> t" by auto
    with False show ?thesis by (simp add: filter_empty_conv)
  qed (use Cons in simp)
qed simp

lemma sorted_dropWhile_gt:
  "sorted (map fst l) \<Longrightarrow> r \<in> set (dropWhile (\<lambda>r. fst r \<le> t) l) \<Longrightarrow> (t :: 'a :: linorder) < fst r"
  by (induction l) (auto split: if_splits)

lemma wrapper_ok_search:
  assumes "wrapper_ok E k w hist M" "M \<le> t" "zero_init (int_traits E k)"
  shows "\<exists>w' rs. wrapper_search E t q w [] = Done (w', rs, OK) \<and> wrapper_ok E k w' hist t \<and>
    set rs = answer (int_traits E k) q
      (foldl record_spec {} (effects (int_traits E k) (map snd (filter (\<lambda>r. fst r \<le> t) hist))))"
proof -
  let ?T = "int_traits E k"
  from assms(1) obtain ix l0 l1 l2 where
    w: "w_status w = NORMAL" "last_merged_log_id w = M" "sorted (map fst hist)"
       "\<forall>r\<in>set hist. well_formed ?T (snd r)"
    and i: "ri_index w = IntIndex k ix" "index_ok ix" "log (log_manager w) = l1 @ l2" "hist = l0 @ l1 @ l2"
       "\<forall>r\<in>set (l0 @ l1). fst r \<le> M" "\<forall>r\<in>set l2. M < fst r"
       "records ix = foldl record_spec {} (effects ?T (map snd (l0 @ l1)))"
    unfolding wrapper_ok_def by blast
  let ?P = "\<lambda>r. fst r \<le> t"
  let ?a = "takeWhile ?P l2" and ?b = "dropWhile ?P l2"
  have le: "\<forall>r\<in>set (l0 @ l1). fst r \<le> t" using i(5) assms(2) by (meson order_trans)
  have scan: "log_scan t (log_manager w) = map snd (l1 @ ?a)"
    using le by (simp add: log_scan_def i(3) takeWhile_append)
  have s2: "sorted (map fst l2)" using w(3) i(4) by (simp add: sorted_append)
  have fil: "filter ?P hist = l0 @ l1 @ ?a"
    using le sorted_filter_takeWhile [OF s2] by (simp add: i(4) filter_id_conv)
  have "set (l1 @ ?a) \<subseteq> set hist" using i(4) by (auto dest: set_takeWhileD)
  with w(4) have "\<forall>us\<in>set (map snd (l1 @ ?a)). well_formed ?T us" by auto
  from merge_records_int [OF assms(3) this i(2)] obtain ix1 where
    m: "merge_records E (IntIndex k ix) (map snd (l1 @ ?a)) = Done (IntIndex k ix1, OK)" "index_ok ix1"
       "records ix1 = foldl record_spec (records ix) (effects ?T (map snd (l1 @ ?a)))" by blast
  have R: "records ix1 = foldl record_spec {} (effects ?T (map snd (l0 @ l1 @ ?a)))"
    using foldl_record_spec_again [of "foldl record_spec {} (effects ?T (map snd l0))" "effects ?T (map snd l1)" "effects ?T (map snd ?a)"]
    unfolding m(3) i(7) by simp
  let ?w = "w\<lparr>ri_index := IntIndex k ix1, last_merged_log_id := t, dirty := True\<rparr>"
  have run: "wrapper_search E t q w [] = Done (?w, fst (search_query ?T ix1 q []), OK)"
    using m(1) w(1) by (simp add: wrapper_search_def wrapper_merge_def scan i(1))
  have gt: "\<forall>r\<in>set ?b. t < fst r" using sorted_dropWhile_gt [OF s2] by blast
  have lt: "\<forall>r\<in>set (l0 @ (l1 @ ?a)). fst r \<le> t" using le by (auto dest: set_takeWhileD)
  have "wrapper_ok E k ?w hist t"
    unfolding wrapper_ok_def using w(1,3,4) i(3,4) m(2) gt lt R
    by (intro conjI exI [of _ ix1] exI [of _ l0] exI [of _ "l1 @ ?a"] exI [of _ ?b]) simp_all
  moreover have "set (fst (search_query ?T ix1 q [])) = answer ?T q (foldl record_spec {} (effects ?T (map snd (filter ?P hist))))"
    unfolding search_query_answer [OF m(2)] fil R ..
  ultimately show ?thesis using run by blast
qed

lemma log_flush_plain:
  assumes "0 < n"
  shows "\<exists>lm os. log_flush A n False m s = Done (lm, os, OK) \<and> log lm = log m"
proof -
  define it where "it = (if last_flushed_txn_id m \<noteq> 0
    then dropWhile (\<lambda>r. fst r \<le> last_flushed_txn_id m) (log m) else log m)"
  obtain b e where f: "fill_buffer A n it (log_buffer m) (get_log_buffer_size m) = (b, e)" by fastforce
  from fill_buffer_prefix [of A n it "log_buffer m" "get_log_buffer_size m"] f
  obtain j where j: "b = log_buffer m @ map (entity A) (take j it)" "it \<noteq> [] \<longrightarrow> 0 < j" by auto
  have "b \<noteq> []" if "n \<le> e"
  proof
    assume "b = []"
    with j have z: "log_buffer m = []" "it = []" by auto
    from f [unfolded z(2)] z(1) have "e = 0" by (simp add: get_log_buffer_size_def)
    with that assms show False by simp
  qed
  then show ?thesis unfolding log_flush_def Let_def it_def [symmetric] f by auto
qed

lemma wrapper_ok_flush:
  assumes "wrapper_ok E k w hist M" "0 < flush_log_size E"
  shows "\<exists>w' fs' st. flush_log E False w fs = Done (w', fs', st) \<and> wrapper_ok E k w' hist M"
proof (cases "can_open E (base_path w @ ''.log'')")
  case False
  then show ?thesis using assms(1) by (simp add: flush_log_def)
next
  case True
  from assms(1) obtain ix l0 l1 l2 where
    w: "w_status w = NORMAL" "last_merged_log_id w = M" "sorted (map fst hist)"
       "\<forall>r\<in>set hist. well_formed (int_traits E k) (snd r)"
    and i: "ri_index w = IntIndex k ix" "index_ok ix" "log (log_manager w) = l1 @ l2" "hist = l0 @ l1 @ l2"
       "\<forall>r\<in>set (l0 @ l1). fst r \<le> M" "\<forall>r\<in>set l2. M < fst r"
       "records ix = foldl record_spec {} (effects (int_traits E k) (map snd (l0 @ l1)))"
    unfolding wrapper_ok_def by blast
  from log_flush_plain [OF assms(2)] obtain lm os where
    f: "log_flush (log_codec E) (flush_log_size E) False (log_manager w) (file_content fs (base_path w @ ''.log'')) =
          Done (lm, os, OK)" "log lm = l1 @ l2" using i(3) by metis
  let ?e = "min M (last_flushed_txn_id lm)"
  let ?P = "\<lambda>r. fst r \<le> ?e"
  let ?w = "w\<lparr>log_manager := log_erase ?e lm\<rparr>"
  have "dropWhile ?P l2 = l2" using i(6) by (cases l2) auto
  then have d: "dropWhile ?P (l1 @ l2) = dropWhile ?P l1 @ l2"
    by (induction l1) auto
  have "wrapper_ok E k ?w hist M"
    unfolding wrapper_ok_def using w i f(2) d
    by (intro conjI exI [of _ ix] exI [of _ "l0 @ takeWhile ?P l1"] exI [of _ "dropWhile ?P l1"] exI [of _ l2])
       (simp_all add: log_erase_def)
  then show ?thesis using True f(1) w(2) by (simp add: flush_log_def Let_def)
qed

text \<open>Interleavings of updates, searches and rounds of the background flusher on one index.\<close>

datatype index_op = IUpdate TxnIdType RpcIndexRecordUpdateList | ISearch TxnIdType RpcRangeQuery | IFlush

fun run_ops ::
  "'f::linorder index_env \<Rightarrow> index_op list \<Rightarrow> 'f RangeIndexWrapper \<Rightarrow> file_map \<Rightarrow> (ObjectId list \<times> Status) list outcome" where
  "run_ops E [] w fs = Done []"
| "run_ops E (IUpdate t us # ops) w fs =
     bindo (wrapper_update E t us w) (\<lambda>(w', _). run_ops E ops w' fs)"
| "run_ops E (ISearch t q # ops) w fs =
     bindo (wrapper_search E t q w []) (\<lambda>(w', rs, st).
       bindo (run_ops E ops w' fs) (\<lambda>rss. Done ((rs, st) # rss)))"
| "run_ops E (IFlush # ops) w fs =
     bindo (flush_log E False w fs) (\<lambda>(w', fs', _). run_ops E ops w' fs')"

text \<open>A search at a transaction id sees the updates up to it, and nothing else.\<close>

fun spec_answers ::
  "'k::linorder key_traits \<Rightarrow> index_op list \<Rightarrow> RpcIndexRecordUpdateList LogRecord list \<Rightarrow> ObjectId set list" where
  "spec_answers T [] hist = []"
| "spec_answers T (IUpdate t us # ops) hist = spec_answers T ops (hist @ [(t, us)])"
| "spec_answers T (ISearch t q # ops) hist =
     answer T q (foldl record_spec {} (effects T (map snd (filter (\<lambda>r. fst r \<le> t) hist)))) # spec_answers T ops hist"
| "spec_answers T (IFlush # ops) hist = spec_answers T ops hist"

text \<open>
  The transaction ids come in order: an update's is not below that of the update before it and above that of
  the search before it, a search's not below that of the search before it.
\<close>

fun ops_ok :: "'k key_traits \<Rightarrow> index_op list \<Rightarrow> TxnIdType \<Rightarrow> TxnIdType \<Rightarrow> bool" where
  "ops_ok T [] u s \<longleftrightarrow> True"
| "ops_ok T (IUpdate t us # ops) u s \<longleftrightarrow> u \<le> t \<and> s < t \<and> well_formed T us \<and> ops_ok T ops t s"
| "ops_ok T (ISearch t q # ops) u s \<longleftrightarrow> s \<le> t \<and> ops_ok T ops u t"
| "ops_ok T (IFlush # ops) u s \<longleftrightarrow> ops_ok T ops u s"

lemma run_ops_spec:
  assumes "zero_init (int_traits E k)" "\<not> update_immediately E" "0 < flush_log_size E"
    and "wrapper_ok E k w hist s" "\<forall>r\<in>set hist. fst r \<le> u" "ops_ok (int_traits E k) ops u s"
  shows "\<exists>rss. run_ops E ops w fs = Done rss \<and> map (\<lambda>r. set (fst r)) rss = spec_answers (int_traits E k) ops hist \<and>
    (\<forall>r\<in>set rss. snd r = OK)"
  using assms(4-6)
proof (induction ops arbitrary: w hist u s fs)
  case (Cons p ops)
  show ?case
  proof (cases p)
    case (IUpdate t us)
    with Cons.prems have o: "u \<le> t" "s < t" "well_formed (int_traits E k) us" "ops_ok (int_traits E k) ops t s" by auto
    have le: "\<forall>r\<in>set hist. fst r \<le> t" using Cons.prems(2) o(1) by (meson order_trans)
    from wrapper_ok_update [OF Cons.prems(1) assms(2) o(2) le o(3)] obtain w' where
      w': "wrapper_update E t us w = Done (w', OK)" "wrapper_ok E k w' (hist @ [(t, us)]) s" by blast
    from Cons.IH [OF w'(2), of t fs] le o(4) show ?thesis by (simp add: IUpdate w'(1))
  next
    case (ISearch t q)
    with Cons.prems have o: "s \<le> t" "ops_ok (int_traits E k) ops u t" by auto
    from wrapper_ok_search [OF Cons.prems(1) o(1) assms(1), of q] obtain w' rs where
      w': "wrapper_search E t q w [] = Done (w', rs, OK)" "wrapper_ok E k w' hist t"
        "set rs = answer (int_traits E k) q
           (foldl record_spec {} (effects (int_traits E k) (map snd (filter (\<lambda>r. fst r \<le> t) hist))))" by blast
    from Cons.IH [OF w'(2) Cons.prems(2) o(2), of fs] obtain rss where
      r: "run_ops E ops w' fs = Done rss" "map (\<lambda>r. set (fst r)) rss = spec_answers (int_traits E k) ops hist"
        "\<forall>r\<in>set rss. snd r = OK" by blast
    then show ?thesis by (simp add: ISearch w'(1,3))
  next
    case IFlush
    from wrapper_ok_flush [OF Cons.prems(1) assms(3)] obtain w' fs' st where
      w': "flush_log E False w fs = Done (w', fs', st)" "wrapper_ok E k w' hist s" by blast
    from Cons.IH [OF w'(2) Cons.prems(2)] Cons.prems(3) IFlush w'(1) show ?thesis by simp
  qed
qed simp

section \<open>The manager's maps agree\<close>

definition im_ok :: "'f IndexManager \<Rightarrow> bool" where
  "im_ok m \<longleftrightarrow>
     (\<forall>root. map_of (index_info_map m) root = None \<longleftrightarrow> map_of (range_index_map m) root = None) \<and>
     (\<forall>root info. map_of (index_info_map m) root = Some info \<longrightarrow>
        info_index_type info = BTREE \<and> info_path info = root) \<and>
     smap_ok (index_info_map m) \<and> smap_ok (range_index_map m)"

datatype im_op =
    IMCreate string string int int
  | IMDestroy string string
  | IMUpdate RpcIndexUpdate
  | IMSearch RpcComplexQuery
  | IMInfo RpcIndexInfoRequest
  | IMMerge string TxnIdType
  | IMFlush
  | IMBackground

definition empty_info :: RpcIndexInfo where
  "empty_info = \<lparr>ii_path = [], ii_name = [], ii_type = 0, ii_key_type = 0, ii_num_records = 0\<rparr>"

fun im_step ::
  "'f::linorder index_env \<Rightarrow> (RpcIndexRecordUpdateList list \<Rightarrow> RpcIndexRecordUpdateList list) \<Rightarrow> im_op \<Rightarrow>
     'f IndexManager \<Rightarrow> 'f IndexManager outcome" where
  "im_step E sched (IMCreate root name it kt) m = Done (fst (im_create E 0 root name it kt m))"
| "im_step E sched (IMDestroy root name) m = Done (fst (im_destroy E 0 root name m))"
| "im_step E sched (IMUpdate us) m = bindo (im_update E sched us m) (\<lambda>(m', _). Done m')"
| "im_step E sched (IMSearch q) m = bindo (im_search E q m []) (\<lambda>(m', _). Done m')"
| "im_step E sched (IMInfo r) m = bindo (im_info E r m empty_info) (\<lambda>(m', _). Done m')"
| "im_step E sched (IMMerge p t) m = bindo (merge_log_to_index E p t m) (\<lambda>(m', _). Done m')"
| "im_step E sched IMFlush m = Done (fst (im_flush m))"
| "im_step E sched IMBackground m = background_flush E m"

fun im_run ::
  "'f::linorder index_env \<Rightarrow> (RpcIndexRecordUpdateList list \<Rightarrow> RpcIndexRecordUpdateList list) \<Rightarrow> im_op list \<Rightarrow>
     'f IndexManager \<Rightarrow> 'f IndexManager outcome" where
  "im_run E sched [] m = Done m"
| "im_run E sched (p # ps) m = bindo (im_step E sched p m) (im_run E sched ps)"

text \<open>A result keeps the invariant, and a call that does not return is one with no defined result.\<close>

definition safe :: "('a \<Rightarrow> bool) \<Rightarrow> 'a outcome \<Rightarrow> bool" where
  "safe P r = (case r of Done a \<Rightarrow> P a | Fail e \<Rightarrow> e = Undefined)"

lemma safe_simps [simp]: "safe P (Done a) = P a" "safe P (Fail e) = (e = Undefined)"
  by (simp_all add: safe_def)

lemma safe_bindo: "safe Q r \<Longrightarrow> (\<And>a. Q a \<Longrightarrow> safe P (f a)) \<Longrightarrow> safe P (bindo r f)"
  by (cases r) auto

lemma apply_updates_safe: "safe (\<lambda>_. True) (apply_updates T ix us)"
  by (induction T ix us rule: apply_updates.induct)
     (auto split: option.split RpcIndexUpdateOpCode.split)

lemma ri_apply_safe: "safe (\<lambda>_. True) (ri_apply E ix us)"
  by (cases ix) (auto intro: safe_bindo [OF apply_updates_safe])

lemma merge_records_safe: "safe (\<lambda>_. True) (merge_records E ix uss)"
  by (induction uss arbitrary: ix) (auto intro!: safe_bindo [OF ri_apply_safe])

lemma wrapper_merge_safe: "safe (\<lambda>_. True) (wrapper_merge E t w)"
  by (auto simp: wrapper_merge_def intro!: safe_bindo [OF merge_records_safe])

lemma wrapper_update_safe: "safe (\<lambda>_. True) (wrapper_update E t us w)"
  by (auto simp: wrapper_update_def log_append_def intro!: safe_bindo [OF ri_apply_safe])

lemma wrapper_search_safe: "safe (\<lambda>_. True) (wrapper_search E t q w rs)"
  by (auto simp: wrapper_search_def intro!: safe_bindo [OF wrapper_merge_safe])

lemma flush_log_safe: "safe (\<lambda>_. True) (flush_log E force w fs)"
proof -
  have "safe (\<lambda>_. True) (log_flush A n force m os)" for A :: "RpcIndexRecordUpdateList log_api" and n m os
    by (auto simp: log_flush_def Let_def split: prod.split)
  then show ?thesis
    by (auto simp: flush_log_def Let_def intro!: safe_bindo [of "\<lambda>_. True"])
qed

lemma im_ok_put: "im_ok m \<Longrightarrow> map_of (range_index_map m) key = Some w0 \<Longrightarrow> im_ok (put_wrapper key w m)"
  by (auto simp: im_ok_def put_wrapper_def intro: smap_intros)

lemma im_ok_wrapper:
  assumes "im_ok m" "get_index_info m key = Some info"
  shows "info_index_type info = BTREE" "\<exists>w. map_of (range_index_map m) key = Some w"
  using assms by (auto simp: im_ok_def get_index_info_def) (metis not_None_eq)

lemma update_single_index_safe: "im_ok m \<Longrightarrow> safe (im_ok \<circ> fst) (update_single_index E t us m)"
proof (cases "get_index_info m (ul_root_path us)")
  case (Some info)
  assume m: "im_ok m"
  from im_ok_wrapper [OF m Some] obtain w where
    w: "info_index_type info = BTREE" "map_of (range_index_map m) (ul_root_path us) = Some w" by blast
  show ?thesis
    unfolding update_single_index_def Let_def Some
    using w im_ok_put [OF m w(2)]
    by (auto simp: wrapper_of_def intro!: safe_bindo [where Q = "im_ok \<circ> fst"] safe_bindo [OF wrapper_update_safe])
qed (simp add: update_single_index_def)

lemma update_logs_safe: "im_ok m \<Longrightarrow> safe (im_ok \<circ> fst) (update_logs E t uss m)"
  by (induction uss arbitrary: m) (auto intro!: safe_bindo [OF update_single_index_safe])

lemma update_threads_safe: "im_ok m \<Longrightarrow> safe (im_ok \<circ> fst) (update_threads E t uss b m)"
  by (induction uss arbitrary: b m) (auto intro!: safe_bindo [OF update_single_index_safe])

lemma im_search_loop_safe: "im_ok m \<Longrightarrow> safe (im_ok \<circ> fst) (im_search_loop E t qs m rs)"
proof (induction qs arbitrary: m rs)
  case (Cons q qs)
  show ?case
  proof (cases "get_index_info m (rq_index_path q)")
    case (Some info)
    from im_ok_wrapper [OF Cons.prems Some] obtain w where
      w: "info_index_type info = BTREE" "map_of (range_index_map m) (rq_index_path q) = Some w" by blast
    with Some Cons.IH im_ok_put [OF Cons.prems w(2)] show ?thesis
      by (auto simp: wrapper_of_def Let_def intro!: safe_bindo [OF wrapper_search_safe])
  qed (use Cons.prems in simp)
qed simp

lemma im_info_safe: "im_ok m \<Longrightarrow> safe (im_ok \<circ> fst) (im_info E r m i)"
proof (cases "get_index_info m (ir_path r)")
  case (Some info)
  assume m: "im_ok m"
  from im_ok_wrapper [OF m Some] obtain w where
    w: "info_index_type info = BTREE" "map_of (range_index_map m) (ir_path r) = Some w" by blast
  with Some im_ok_put [OF m w(2)] show ?thesis
    by (auto simp: im_info_def wrapper_of_def Let_def intro!: safe_bindo [OF wrapper_merge_safe])
qed (simp add: im_info_def)

lemma background_round_safe: "safe (\<lambda>(ws', _). map fst ws' = map fst ws) (background_round E ws fs)"
proof (induction ws arbitrary: fs)
  case (Cons p rest)
  then show ?case
    by (cases p) (auto intro!: safe_bindo [OF flush_log_safe] safe_bindo [where Q = "\<lambda>(ws', _). map fst ws' = map fst rest"])
qed simp

lemma flush_wrappers_keys: "map fst (fst (flush_wrappers ws b)) = map fst ws"
proof (induction ws arbitrary: b)
  case (Cons p ws)
  obtain k w where p: "p = (k, w)" by (cases p)
  obtain ws1 f1 where 1: "flush_wrappers ws b = (ws1, f1)" by (cases "flush_wrappers ws b")
  with Cons.IH [of b] have "map fst ws1 = map fst ws" by simp
  with p 1 show ?case by (simp add: flush_index_def)
qed simp

lemma im_ok_same_keys:
  assumes "im_ok m" "map fst ws = map fst (range_index_map m)"
  shows "im_ok (m\<lparr>range_index_map := ws\<rparr>)"
proof -
  have "map_of ws root = None \<longleftrightarrow> map_of (range_index_map m) root = None" for root
    using assms(2) by (metis map_of_eq_None_iff list.set_map)
  with assms show ?thesis by (simp add: im_ok_def smap_ok_def)
qed

lemma im_ok_create: "im_ok m \<Longrightarrow> im_ok (fst (im_create E t root name it kt m))"
  by (auto simp: im_ok_def im_create_def intro: smap_intros split: option.split)

lemma im_ok_destroy: "im_ok m \<Longrightarrow> im_ok (fst (im_destroy E t root name m))"
  by (auto simp: im_ok_def im_destroy_def get_index_info_def Let_def intro: smap_intros split: option.split)

lemma im_ok_files: "im_ok (m\<lparr>im_files := fs\<rparr>) \<longleftrightarrow> im_ok m"
  by (simp add: im_ok_def)

lemma im_step_safe:
  assumes "im_ok m"
  shows "safe im_ok (im_step E sched p m)"
proof (cases p)
  case (IMUpdate us)
  have "safe (im_ok \<circ> fst) (im_update E sched us m)"
    by (auto simp: im_update_def Let_def intro!: safe_bindo [OF update_threads_safe [OF assms]] update_logs_safe [OF assms])
  then show ?thesis unfolding IMUpdate im_step.simps by (rule safe_bindo) auto
next
  case (IMSearch q)
  show ?thesis unfolding IMSearch im_step.simps im_search_def
    by (rule safe_bindo [OF im_search_loop_safe [OF assms]]) auto
next
  case (IMInfo r)
  show ?thesis unfolding IMInfo im_step.simps by (rule safe_bindo [OF im_info_safe [OF assms]]) auto
next
  case (IMMerge path t)
  show ?thesis
    using assms im_ok_put [OF assms]
    by (auto simp: IMMerge merge_log_to_index_def split: option.split intro!: safe_bindo [where Q = "im_ok \<circ> fst"]
        safe_bindo [OF wrapper_merge_safe])
next
  case IMBackground
  have "im_ok (m\<lparr>range_index_map := ws, im_files := fs\<rparr>)" if "map fst ws = map fst (range_index_map m)" for ws fs
    using im_ok_same_keys [OF assms that] im_ok_files [of fs "m\<lparr>range_index_map := ws\<rparr>"] by simp
  then show ?thesis unfolding IMBackground im_step.simps background_flush_def
    by (intro safe_bindo [OF background_round_safe]) auto
next
  case IMFlush
  then show ?thesis
    using im_ok_same_keys [OF assms flush_wrappers_keys] assms
    by (auto simp: im_flush_def split: prod.splits) (metis fst_conv)
qed (use assms im_ok_create im_ok_destroy in auto)

lemma im_run_safe: "im_ok m \<Longrightarrow> safe im_ok (im_run E sched ps m)"
  by (induction ps arbitrary: m) (auto intro!: safe_bindo [OF im_step_safe])

section \<open>Properties\<close>

text \<open>
  No round of the flusher comes before the first search. From the first search on, the member
  \<open>last_merged_log_id_\<close>, which no constructor sets, has a value.
\<close>

fun search_first :: "index_op list \<Rightarrow> bool" where
  "search_first [] = True"
| "search_first (IUpdate t us # ops) = search_first ops"
| "search_first (ISearch t q # ops) = True"
| "search_first (IFlush # ops) = False"

lemma update_merged:
  assumes "\<not> update_immediately E" "wrapper_update E t us (w\<lparr>last_merged_log_id := x\<rparr>) = Done (w', st)"
  shows "\<exists>w''. wrapper_update E t us w = Done (w'', st) \<and> w' = w''\<lparr>last_merged_log_id := x\<rparr>"
  using assms by (auto simp: wrapper_update_def split: prod.splits if_splits)

lemma search_merged:
  assumes "wrapper_search E t q (w\<lparr>last_merged_log_id := x\<rparr>) [] = Done (w', rs, OK)"
  shows "wrapper_search E t q w [] = Done (w', rs, OK)"
proof (cases "merge_records E (ri_index w) (log_scan t (log_manager w))")
  case (Done p)
  obtain ix st where p: "p = (ix, st)" by (cases p)
  show ?thesis
  proof (cases "w_status w = MIGRATING")
    case True
    then have "wrapper_search E t q (w\<lparr>last_merged_log_id := x\<rparr>) [] = Done (w\<lparr>last_merged_log_id := x\<rparr>, [], Err (-2) ''This index is under migration.'')"
      by (simp add: wrapper_search_def wrapper_merge_def)
    with assms show ?thesis by simp
  next
    case False
    with assms Done p show ?thesis by (cases "ok st") (auto simp: wrapper_search_def wrapper_merge_def)
  qed
next
  case (Fail e)
  with assms show ?thesis by (cases "w_status w = MIGRATING") (simp_all add: wrapper_search_def wrapper_merge_def)
qed

lemma run_merged:
  assumes "\<not> update_immediately E" "search_first ops" "run_ops E ops (w\<lparr>last_merged_log_id := x\<rparr>) fs = Done rss" "\<forall>r\<in>set rss. snd r = OK"
  shows "run_ops E ops w fs = Done rss"
  using assms(2-4)
proof (induction ops arbitrary: w rss)
  case (Cons op ops)
  show ?case
  proof (cases op)
    case (IUpdate t us)
    with Cons.prems(2) obtain w' st where
      u: "wrapper_update E t us (w\<lparr>last_merged_log_id := x\<rparr>) = Done (w', st)" "run_ops E ops w' fs = Done rss" by auto
    from update_merged [OF assms(1) u(1)] obtain w'' where
      w: "wrapper_update E t us w = Done (w'', st)" "w' = w''\<lparr>last_merged_log_id := x\<rparr>" by blast
    from Cons.IH [OF _ u(2) [unfolded w(2)] Cons.prems(3)] Cons.prems(1) IUpdate w(1) show ?thesis by simp
  next
    case (ISearch t q)
    with Cons.prems(2) obtain w' rs st rest where
      r: "wrapper_search E t q (w\<lparr>last_merged_log_id := x\<rparr>) [] = Done (w', rs, st)" "run_ops E ops w' fs = Done rest" "rss = (rs, st) # rest"
      by auto
    with Cons.prems(3) search_merged [where x = x and w = w] ISearch show ?thesis by simp
  qed (use Cons.prems(1) in simp)
qed simp


definition list_log_api :: "RpcIndexRecordUpdateList log_api" where
  "list_log_api = \<lparr>serialize_record = (\<lambda>r. ul_name r), parse_record = (\<lambda>s. (\<lparr>ul_root_path = [], ul_name = s, record_updates = []\<rparr>, True)),
     serialize_buffer = (\<lambda>b. ''L''), parse_buffer = (\<lambda>s. None), string_max_size = 2 ^ 62\<rparr>"

definition im_demo_env :: "TxnIdType \<Rightarrow> int index_env" where
  "im_demo_env junk = \<lparr>int_traits = (\<lambda>_. demo_traits), float_traits = (\<lambda>_. demo_traits), str_traits = string_traits (\<lambda>_. None),
     type_ids = (\<lambda>k. 0), log_codec = list_log_api, md5 = (\<lambda>_. []), update_immediately = False,
     flush_log_size = 1, can_open = (\<lambda>_. True), uninit_txn = junk\<rparr>"

definition demo_query :: RpcRangeQuery where
  "demo_query = \<lparr>rq_index_path = ''/a'', rq_name = ''x'', rq_lower = ''2'', rq_lower_open = False,
     rq_upper = ''9'', rq_upper_open = True\<rparr>"

definition demo_list :: "RpcIndexUpdateOpCode \<Rightarrow> string \<Rightarrow> string \<Rightarrow> RpcIndexRecordUpdateList" where
  "demo_list code key v = \<lparr>ul_root_path = ''/a'', ul_name = ''x'',
     record_updates = [\<lparr>up_op = code, up_key = key, up_value = Some v\<rparr>]\<rparr>"

definition demo_ops :: "index_op list" where
  "demo_ops = [IUpdate 1 (demo_list INSERT ''3'' ''7''), ISearch 1 demo_query, IFlush,
     IUpdate 2 (demo_list REMOVE ''3'' ''7''), IUpdate 3 (demo_list INSERT ''5'' ''8''), ISearch 2 demo_query, ISearch 3 demo_query]"

lemmas demo_simps = im_demo_env_def demo_query_def demo_list_def demo_ops_def demo_traits_def int64_traits_def
  decode_def dec_value_def


text \<open>
  C40: What clients send is lost by the background flusher. The client leaves the transaction id of its updates and
  searches at zero. A round of the flusher erases the log up to the smaller of the merged and the flushed id, which
  is at least zero however little was merged or flushed; so an update with the id zero that no search has merged
  before the round is gone, whether the round wrote it to the file or not, and no search finds it.\<close>

theorem flush_loses_client_update:
  assumes "\<not> update_immediately E" "can_open E (path @ ''.log'')" "k \<notin> {KString, KFloat, KDouble}"
  shows "run_ops E [IUpdate 0 us, IFlush, ISearch 0 q] (RangeIndexWrapper_new E path (new_range_index k) True) fs =
    Done [([], OK)]"
proof -
  let ?w = "RangeIndexWrapper_new E path (new_range_index k) True :: 'a RangeIndexWrapper"
  let ?m = "LogManager_new\<lparr>log := [(0, us)]\<rparr>"
  have u: "wrapper_update E 0 us ?w = Done (?w\<lparr>log_manager := ?m\<rparr>, OK)"
    using assms(1) by (simp add: wrapper_update_def RangeIndexWrapper_new_def log_append_def LogManager_new_def)
  have "\<exists>lm os. log_flush (log_codec E) (flush_log_size E) False ?m s = Done (lm, os, OK) \<and>
      log lm = [(0, us)] \<and> last_flushed_txn_id lm = 0" for s
    by (simp add: log_flush_def LogManager_new_def get_log_buffer_size_def entity_bytes_def Let_def)
  then obtain lm fs' where f: "flush_log E False (?w\<lparr>log_manager := ?m\<rparr>) fs = Done (?w\<lparr>log_manager := log_erase 0 lm\<rparr>, fs', OK)"
    "log lm = [(0, us)]"
    using assms(2) by (fastforce simp: flush_log_def RangeIndexWrapper_new_def Let_def)
  have e: "fst (search_query T [] q []) = []" for T :: "int key_traits"
    by (simp add: search_query_def range_search_def lower_bound_def upper_bound_def split: option.split)
  have "\<exists>w'. wrapper_search E 0 q (?w\<lparr>log_manager := log_erase 0 lm\<rparr>) [] = Done (w', [], OK)"
    using assms(3) e f(2)
    by (simp add: wrapper_search_def wrapper_merge_def RangeIndexWrapper_new_def new_range_index_def log_scan_def log_erase_def)
  then show ?thesis by (auto simp: u f(1) simp del: bindo_Done_iff)
qed

theorem flush_loses_client_update_witness:
  "run_ops (im_demo_env 0) [IUpdate 0 (demo_list INSERT ''3'' ''7''), IFlush, ISearch 0 demo_query]
     (RangeIndexWrapper_new (im_demo_env 0) ''/d/1'' (new_range_index KInt64) True) [] = Done [([], OK)]"
  by (rule flush_loses_client_update) (simp_all add: im_demo_env_def)

text \<open>
  C31: The index server never fails a \<open>CHECK\<close>: after any sequence of requests and background rounds, every
  index that is recorded is a B-tree index with a wrapper of its own and the two maps have the same keys,
  so a request either returns or meets the undefined initialisation of a string key.\<close>

theorem index_manager_invariant:
  "case im_run E sched ps (IndexManager_new dir fs) of Done m \<Rightarrow> im_ok m | Fail e \<Rightarrow> e = Undefined"
proof -
  have "im_ok (IndexManager_new dir fs)" by (simp add: im_ok_def IndexManager_new_def)
  from im_run_safe [OF this] show ?thesis by (simp add: safe_def)
qed

end
