(* ===== verification/Master_Controller.thy ===== *)
theory Master_Controller
  imports Namespace_Store Index_Namespace Partition_Manager Server_Map Index
begin

text \<open>
  The master server: \<open>MasterController\<close> (\<open>vsfs/masterd/master_controller.cpp\<close>), which puts the
  namespace, the index namespace, the partition manager and the two server maps together, and the
  handlers of \<open>MasterServer\<close> (\<open>master_server.cpp\<close>). Each component keeps its own store.
\<close>

section \<open>State\<close>

text \<open>
  The components' parameters, the ring of the servers, the host's name, \<open>fs::absolute\<close> and the
  construction of a store on a path.
\<close>

record ('s, 'q, 'r) mc_env =
  mc_ns :: "'s ns_env"
  mc_ix :: "'s ix_env"
  mc_pm :: "('s, 'q) pm_env"
  mc_ring :: "('r, NodeInfo) ring_api"
  mc_ring_new :: 'r
  mc_host_name :: string
  mc_absolute :: "string \<Rightarrow> string"
  mc_new_store :: "string \<Rightarrow> 's"

text \<open>The server maps exist on the primary node only.\<close>

record ('s, 'q, 'r) MasterController =
  mc_host :: string
  mc_port :: int
  is_primary_node :: bool
  primary_host :: string
  primary_port :: int
  index_server_manager :: "'r option"
  master_server_manager :: "'r option"
  mc_namespace :: "'s Namespace"
  index_namespace :: "'s IndexNamespace"
  index_partition_manager :: "('s, 'q) PartitionManager"

text \<open>
  \<open>r1\<close> and \<open>r2\<close> are what \<open>rand()\<close> returns, \<open>junk\<close> what the memory of the namespace's counter holds.
  The status of adding the node itself is not looked at.
\<close>

definition MasterController_new ::
  "('s, 'q, 'r) mc_env \<Rightarrow> int \<Rightarrow> int \<Rightarrow> ObjectId \<Rightarrow> string \<Rightarrow> string \<Rightarrow> int \<Rightarrow> bool \<Rightarrow> string \<Rightarrow> int \<Rightarrow>
     ('s, 'q, 'r) MasterController outcome" where
  "MasterController_new E r1 r2 junk basedir h p primary phost pport =
     (let host' = (if h = [] then mc_host_name E else h);
          primary_host' = (if \<not> primary \<and> phost = [] then mc_host_name E else phost);
          self = NodeInfo_default\<lparr>address := \<lparr>host = host', port = p\<rparr>\<rparr>;
          abs_basedir = mc_absolute E basedir;
          c = \<lparr>mc_host = host', mc_port = p, is_primary_node = primary, primary_host = primary_host',
               primary_port = pport, index_server_manager = None, master_server_manager = None,
               mc_namespace = Namespace_new junk (mc_new_store E (abs_basedir @ ''/namespace.db'')),
               index_namespace = IndexNamespace_new (mc_new_store E (abs_basedir @ ''/namespace.primer.db'')),
               index_partition_manager = PartitionManager_new (mc_new_store E (abs_basedir @ ''/partition_map.db''))\<rparr>
      in if primary then
           bindo (ServerMap_add (mc_ring E) r1 r2 (mc_ring_new E) self) (\<lambda>(masters, _).
             Done (c\<lparr>index_server_manager := Some (mc_ring_new E), master_server_manager := Some masters\<rparr>))
         else Done c)"

definition mc_init :: "('s, 'q, 'r) mc_env \<Rightarrow> ('s, 'q, 'r) MasterController \<Rightarrow>
    (('s, 'q, 'r) MasterController \<times> Status) outcome" where
  "mc_init E c =
     bindo (ix_init (mc_ix E) (index_namespace c)) (\<lambda>(ix, status).
       let c1 = c\<lparr>index_namespace := ix\<rparr> in
       if \<not> ok status then Done (c1, status)
       else bindo (pm_init (mc_pm E) (index_partition_manager c1)) (\<lambda>(pm, status).
         let c2 = c1\<lparr>index_partition_manager := pm\<rparr> in
         if \<not> ok status then Done (c2, status)
         else bindo (ns_init (mc_ns E) (mc_namespace c2)) (\<lambda>(ns, status).
           Done (c2\<lparr>mc_namespace := ns\<rparr>, status))))"

section \<open>Servers\<close>

text \<open>A call through a null server map has no defined result.\<close>

definition mc_join_master_server ::
  "('s, 'q, 'r) mc_env \<Rightarrow> int \<Rightarrow> int \<Rightarrow> NodeInfo \<Rightarrow> ('s, 'q, 'r) MasterController \<Rightarrow>
     (('s, 'q, 'r) MasterController \<times> Status) outcome" where
  "mc_join_master_server E r1 r2 node c =
     (if \<not> is_primary_node c then Done (c, Err (-1) ''Attempt to join a non-primary master node.'')
      else case master_server_manager c of
        None \<Rightarrow> Fail Undefined
      | Some ring \<Rightarrow>
          bindo (ServerMap_add (mc_ring E) r1 r2 ring node) (\<lambda>(ring', status).
            Done (c\<lparr>master_server_manager := Some ring'\<rparr>, status)))"

definition mc_join_index_server ::
  "('s, 'q, 'r) mc_env \<Rightarrow> int \<Rightarrow> int \<Rightarrow> NodeInfo \<Rightarrow> ('s, 'q, 'r) MasterController \<Rightarrow> RpcNodeAddress list \<Rightarrow>
     (('s, 'q, 'r) MasterController \<times> RpcNodeAddress list \<times> Status) outcome" where
  "mc_join_index_server E r1 r2 node c replicas =
     (case index_server_manager c of
        None \<Rightarrow> Fail Undefined
      | Some ring \<Rightarrow>
          bindo (ServerMap_add (mc_ring E) r1 r2 ring node) (\<lambda>(ring', status).
            let c' = c\<lparr>index_server_manager := Some ring'\<rparr> in
            if \<not> ok status then Done (c', replicas, status)
            else Done (c', replicas @ map address (get_replica_servers (mc_ring E) ring' node 2), status)))"

text \<open>\<open>std::map::insert\<close> keeps an entry that is there.\<close>

definition ring_put :: "HashValueType \<times> NodeInfo \<Rightarrow> (HashValueType \<times> RpcNodeAddress) list \<Rightarrow>
    (HashValueType \<times> RpcNodeAddress) list" where
  "ring_put p ring = (if map_of ring (fst p) = None then smap_put (fst p) (address (snd p)) ring else ring)"

definition ring_addresses ::
  "('r, NodeInfo) ring_api \<Rightarrow> 'r \<Rightarrow> (HashValueType \<times> RpcNodeAddress) list \<Rightarrow> (HashValueType \<times> RpcNodeAddress) list" where
  "ring_addresses R servers ring = foldl (\<lambda>m p. ring_put p m) ring (get_ch_ring_as_map R servers)"

definition mc_get_all_masters ::
  "('s, 'q, 'r) mc_env \<Rightarrow> ('s, 'q, 'r) MasterController \<Rightarrow> (HashValueType \<times> RpcNodeAddress) list \<Rightarrow>
     ((HashValueType \<times> RpcNodeAddress) list \<times> Status) outcome" where
  "mc_get_all_masters E c ring =
     (if \<not> is_primary_node c then Done (ring, Err (-1) ''This is not the primary node.'')
      else case master_server_manager c of
        None \<Rightarrow> Fail Undefined
      | Some servers \<Rightarrow> Done (ring_addresses (mc_ring E) servers ring, OK))"

definition mc_get_all_index_servers ::
  "('s, 'q, 'r) mc_env \<Rightarrow> ('s, 'q, 'r) MasterController \<Rightarrow> (HashValueType \<times> RpcNodeAddress) list \<Rightarrow>
     ((HashValueType \<times> RpcNodeAddress) list \<times> Status) outcome" where
  "mc_get_all_index_servers E c ring =
     (if \<not> is_primary_node c then Done (ring, Err (-1) ''This is not the primary node.'')
      else case index_server_manager c of
        None \<Rightarrow> Fail Undefined
      | Some servers \<Rightarrow> Done (ring_addresses (mc_ring E) servers ring, OK))"

section \<open>Files and directories\<close>

definition is_valid_path :: "('s, 'q, 'r) mc_env \<Rightarrow> string \<Rightarrow> bool" where
  "is_valid_path E path = is_absolute (env_paths (mc_ns E)) path"

definition not_absolute :: Status where
  "not_absolute = Err (-1) ''The path must be absolute path.''"

text \<open>Running an operation of the namespace inside the controller.\<close>

definition on_namespace ::
  "('s, 'q, 'r) MasterController \<Rightarrow> ('s Namespace \<times> 'a) outcome \<Rightarrow> (('s, 'q, 'r) MasterController \<times> 'a) outcome" where
  "on_namespace c r = bindo r (\<lambda>(ns, x). Done (c\<lparr>mc_namespace := ns\<rparr>, x))"

definition mc_mkdir ::
  "('s, 'q, 'r) mc_env \<Rightarrow> rat \<Rightarrow> ('s, 'q, 'r) MasterController \<Rightarrow> string \<Rightarrow> 32 word \<Rightarrow> 32 word \<Rightarrow> 32 word \<Rightarrow>
     (('s, 'q, 'r) MasterController \<times> Status) outcome" where
  "mc_mkdir E now c path md u g =
     (if \<not> is_valid_path E path then Done (c, not_absolute)
      else on_namespace c (mkdir (mc_ns E) now (mc_namespace c) path md u g))"

definition mc_rmdir ::
  "('s, 'q, 'r) mc_env \<Rightarrow> ('s, 'q, 'r) MasterController \<Rightarrow> string \<Rightarrow> (('s, 'q, 'r) MasterController \<times> Status) outcome" where
  "mc_rmdir E c path = on_namespace c (rmdir (mc_ns E) (mc_namespace c) path)"

definition mc_add_subfile ::
  "('s, 'q, 'r) mc_env \<Rightarrow> ('s, 'q, 'r) MasterController \<Rightarrow> string \<Rightarrow> string \<Rightarrow>
     (('s, 'q, 'r) MasterController \<times> Status) outcome" where
  "mc_add_subfile E c parent subfile =
     (if \<not> is_valid_path E parent then Done (c, not_absolute)
      else on_namespace c (add_subfile (mc_ns E) (mc_namespace c) parent subfile))"

definition mc_remove_subfile ::
  "('s, 'q, 'r) mc_env \<Rightarrow> ('s, 'q, 'r) MasterController \<Rightarrow> string \<Rightarrow> string \<Rightarrow>
     (('s, 'q, 'r) MasterController \<times> Status) outcome" where
  "mc_remove_subfile E c parent subfile = on_namespace c (remove_subfile (mc_ns E) (mc_namespace c) parent subfile)"

definition mc_readdir ::
  "('s, 'q, 'r) mc_env \<Rightarrow> ('s, 'q, 'r) MasterController \<Rightarrow> string \<Rightarrow> Status + string list" where
  "mc_readdir E c path = (if \<not> is_valid_path E path then Inl not_absolute else readdir (mc_namespace c) path)"

definition mc_create ::
  "('s, 'q, 'r) mc_env \<Rightarrow> rat \<Rightarrow> ('s, 'q, 'r) MasterController \<Rightarrow> string \<Rightarrow> 32 word \<Rightarrow> 32 word \<Rightarrow> 32 word \<Rightarrow>
     (('s, 'q, 'r) MasterController \<times> (Status + ObjectId)) outcome" where
  "mc_create E now c path md u g =
     (if \<not> is_valid_path E path then Done (c, Inl not_absolute)
      else on_namespace c (create (mc_ns E) now (mc_namespace c) path md u g))"

definition mc_remove ::
  "('s, 'q, 'r) mc_env \<Rightarrow> ('s, 'q, 'r) MasterController \<Rightarrow> string \<Rightarrow>
     (('s, 'q, 'r) MasterController \<times> (Status + ObjectId)) outcome" where
  "mc_remove E c path = on_namespace c (ns_remove (mc_ns E) (mc_namespace c) path)"

definition mc_object_id :: "('s, 'q, 'r) MasterController \<Rightarrow> string \<Rightarrow> Status + ObjectId" where
  "mc_object_id c path = ns_object_id (mc_namespace c) path"

definition mc_getattr :: "('s, 'q, 'r) MasterController \<Rightarrow> string \<Rightarrow> (Status + RpcFileInfo) outcome" where
  "mc_getattr c path = getattr (mc_namespace c) path"

definition mc_setattr ::
  "('s, 'q, 'r) mc_env \<Rightarrow> ('s, 'q, 'r) MasterController \<Rightarrow> string \<Rightarrow> RpcFileInfo \<Rightarrow>
     (('s, 'q, 'r) MasterController \<times> Status) outcome" where
  "mc_setattr E c path info = on_namespace c (setattr (mc_ns E) (mc_namespace c) path info)"

definition mc_find_objects :: "('s, 'q, 'r) MasterController \<Rightarrow> string list \<Rightarrow> ObjectId list" where
  "mc_find_objects c files = find_objects (mc_namespace c) files"

definition mc_find_files :: "('s, 'q, 'r) MasterController \<Rightarrow> ObjectId list \<Rightarrow> string list" where
  "mc_find_files c objects = find_files (mc_namespace c) objects"

section \<open>Indices\<close>

definition mc_create_index ::
  "('s, 'q, 'r) mc_env \<Rightarrow> rat \<Rightarrow> ('s, 'q, 'r) MasterController \<Rightarrow> RpcIndexCreateRequest \<Rightarrow>
     (('s, 'q, 'r) MasterController \<times> Status) outcome" where
  "mc_create_index E now c request =
     bindo (ix_insert (mc_ix E) (index_namespace c) (cr_root request) (cr_name request)) (\<lambda>(ix, status).
       let c1 = c\<lparr>index_namespace := ix\<rparr> in
       if \<not> ok status then Done (c1, status)
       else
         let full_path = index_path (env_paths (mc_ns E)) (cr_root request) (cr_name request) in
         bindo (on_namespace c1 (mkdir (mc_ns E) now (mc_namespace c1) full_path (i64_to_i32 (cr_mode request))
                  (i64_to_i32 (cr_uid request)) (i64_to_i32 (cr_gid request)))) (\<lambda>(c2, status).
           if \<not> ok status then
             bindo (ix_remove (mc_ix E) (index_namespace c2) (cr_root request) (cr_name request)) (\<lambda>(ix', _).
               Done (c2\<lparr>index_namespace := ix'\<rparr>, status))
           else Done (c2, status)))"

definition mc_remove_index ::
  "('s, 'q, 'r) mc_env \<Rightarrow> ('s, 'q, 'r) MasterController \<Rightarrow> string \<Rightarrow> string \<Rightarrow>
     (('s, 'q, 'r) MasterController \<times> Status) outcome" where
  "mc_remove_index E c root_path name =
     bindo (ix_remove (mc_ix E) (index_namespace c) root_path name) (\<lambda>(ix, status).
       let c1 = c\<lparr>index_namespace := ix\<rparr>;
           full_path = index_path (env_paths (mc_ns E)) root_path name in
       bindo (remove_index (mc_pm E) (index_partition_manager c1) full_path) (\<lambda>(pm, _).
         Done (c1\<lparr>index_partition_manager := pm\<rparr>, status)))"

definition mc_locate_indices_for ::
  "('s, 'q, 'r) mc_env \<Rightarrow> ('s, 'q, 'r) MasterController \<Rightarrow> string \<Rightarrow> string list \<Rightarrow> string list" where
  "mc_locate_indices_for E c root_path names =
     concat (map (\<lambda>name. map (\<lambda>idx_root. index_path (env_paths (mc_ns E)) idx_root name)
                            (collect (index_namespace c) root_path name)) names)"

definition mc_locate_indices ::
  "('s, 'q, 'r) mc_env \<Rightarrow> ('s, 'q, 'r) MasterController \<Rightarrow> string \<Rightarrow> bool \<Rightarrow> string list" where
  "mc_locate_indices E c root_path recursive = get_indices (mc_ix E) (index_namespace c) root_path recursive"

section \<open>The handlers of MasterServer\<close>

definition reply :: "vobla_api \<Rightarrow> ('c \<times> Status) outcome \<Rightarrow> ('c \<times> (RpcInvalidOp + unit)) outcome" where
  "reply V r = bindo r (\<lambda>(c, status). Done (c, check_status V status ()))"

definition reply_value :: "vobla_api \<Rightarrow> ('c \<times> (Status + 'a)) outcome \<Rightarrow> ('c \<times> (RpcInvalidOp + 'a)) outcome" where
  "reply_value V r =
     bindo r (\<lambda>(c, x). Done (c, case x of Inl status \<Rightarrow> Inl (status_to_rpc_invalid_op V status) | Inr a \<Rightarrow> Inr a))"

text \<open>An unset field of a request reads as zero.\<close>

definition field :: "int option \<Rightarrow> 32 word" where
  "field v = i64_to_i32 (case v of None \<Rightarrow> 0 | Some x \<Rightarrow> x)"

definition ms_mkdir ::
  "vobla_api \<Rightarrow> ('s, 'q, 'r) mc_env \<Rightarrow> rat \<Rightarrow> ('s, 'q, 'r) MasterController \<Rightarrow> string \<Rightarrow> RpcFileInfo \<Rightarrow>
     (('s, 'q, 'r) MasterController \<times> (RpcInvalidOp + unit)) outcome" where
  "ms_mkdir V E now c path info = reply V (mc_mkdir E now c path (field (fi_mode info)) (field (fi_uid info)) (field (fi_gid info)))"

definition ms_rmdir ::
  "vobla_api \<Rightarrow> ('s, 'q, 'r) mc_env \<Rightarrow> ('s, 'q, 'r) MasterController \<Rightarrow> string \<Rightarrow>
     (('s, 'q, 'r) MasterController \<times> (RpcInvalidOp + unit)) outcome" where
  "ms_rmdir V E c path = reply V (mc_rmdir E c path)"

definition ms_add_subfile ::
  "vobla_api \<Rightarrow> ('s, 'q, 'r) mc_env \<Rightarrow> ('s, 'q, 'r) MasterController \<Rightarrow> string \<Rightarrow> string \<Rightarrow>
     (('s, 'q, 'r) MasterController \<times> (RpcInvalidOp + unit)) outcome" where
  "ms_add_subfile V E c parent subfile = reply V (mc_add_subfile E c parent subfile)"

definition ms_remove_subfile ::
  "vobla_api \<Rightarrow> ('s, 'q, 'r) mc_env \<Rightarrow> ('s, 'q, 'r) MasterController \<Rightarrow> string \<Rightarrow> string \<Rightarrow>
     (('s, 'q, 'r) MasterController \<times> (RpcInvalidOp + unit)) outcome" where
  "ms_remove_subfile V E c parent subfile = reply V (mc_remove_subfile E c parent subfile)"

definition ms_readdir ::
  "vobla_api \<Rightarrow> ('s, 'q, 'r) mc_env \<Rightarrow> ('s, 'q, 'r) MasterController \<Rightarrow> string \<Rightarrow> RpcInvalidOp + string list" where
  "ms_readdir V E c path =
     (case mc_readdir E c path of Inl status \<Rightarrow> Inl (status_to_rpc_invalid_op V status) | Inr l \<Rightarrow> Inr l)"

definition ms_create ::
  "vobla_api \<Rightarrow> ('s, 'q, 'r) mc_env \<Rightarrow> rat \<Rightarrow> ('s, 'q, 'r) MasterController \<Rightarrow> string \<Rightarrow> int \<Rightarrow> int \<Rightarrow> int \<Rightarrow>
     (('s, 'q, 'r) MasterController \<times> (RpcInvalidOp + ObjectId)) outcome" where
  "ms_create V E now c path md u g =
     reply_value V (mc_create E now c path (i64_to_i32 md) (i64_to_i32 u) (i64_to_i32 g))"

definition ms_remove ::
  "vobla_api \<Rightarrow> ('s, 'q, 'r) mc_env \<Rightarrow> ('s, 'q, 'r) MasterController \<Rightarrow> string \<Rightarrow>
     (('s, 'q, 'r) MasterController \<times> (RpcInvalidOp + ObjectId)) outcome" where
  "ms_remove V E c path = reply_value V (mc_remove E c path)"

definition ms_object_id ::
  "vobla_api \<Rightarrow> ('s, 'q, 'r) MasterController \<Rightarrow> string \<Rightarrow> RpcInvalidOp + ObjectId" where
  "ms_object_id V c path =
     (case mc_object_id c path of Inl status \<Rightarrow> Inl (status_to_rpc_invalid_op V status) | Inr oid \<Rightarrow> Inr oid)"

definition ms_getattr ::
  "vobla_api \<Rightarrow> ('s, 'q, 'r) MasterController \<Rightarrow> string \<Rightarrow> (RpcInvalidOp + RpcFileInfo) outcome" where
  "ms_getattr V c path =
     bindo (mc_getattr c path) (\<lambda>x.
       Done (case x of Inl status \<Rightarrow> Inl (status_to_rpc_invalid_op V status) | Inr info \<Rightarrow> Inr info))"

definition ms_setattr ::
  "vobla_api \<Rightarrow> ('s, 'q, 'r) mc_env \<Rightarrow> ('s, 'q, 'r) MasterController \<Rightarrow> string \<Rightarrow> RpcFileInfo \<Rightarrow>
     (('s, 'q, 'r) MasterController \<times> (RpcInvalidOp + unit)) outcome" where
  "ms_setattr V E c path info = reply V (mc_setattr E c path info)"

definition ms_create_index ::
  "vobla_api \<Rightarrow> ('s, 'q, 'r) mc_env \<Rightarrow> rat \<Rightarrow> ('s, 'q, 'r) MasterController \<Rightarrow> RpcIndexCreateRequest \<Rightarrow>
     (('s, 'q, 'r) MasterController \<times> (RpcInvalidOp + unit)) outcome" where
  "ms_create_index V E now c request = reply V (mc_create_index E now c request)"

definition ms_remove_index ::
  "vobla_api \<Rightarrow> ('s, 'q, 'r) mc_env \<Rightarrow> ('s, 'q, 'r) MasterController \<Rightarrow> string \<Rightarrow> string \<Rightarrow>
     (('s, 'q, 'r) MasterController \<times> (RpcInvalidOp + unit)) outcome" where
  "ms_remove_index V E c root_path name = reply V (mc_remove_index E c root_path name)"

definition ms_locate_indices ::
  "('s, 'q, 'r) mc_env \<Rightarrow> ('s, 'q, 'r) MasterController \<Rightarrow> RpcIndexInfoRequest \<Rightarrow> string list" where
  "ms_locate_indices E c request =
     mc_locate_indices E c (ir_path request) (case ir_recursive request of None \<Rightarrow> False | Some b \<Rightarrow> b)"

definition ms_join_master_server ::
  "vobla_api \<Rightarrow> ('s, 'q, 'r) mc_env \<Rightarrow> int \<Rightarrow> int \<Rightarrow> NodeInfo \<Rightarrow> ('s, 'q, 'r) MasterController \<Rightarrow>
     (('s, 'q, 'r) MasterController \<times> (RpcInvalidOp + unit)) outcome" where
  "ms_join_master_server V E r1 r2 info c = reply V (mc_join_master_server E r1 r2 info c)"

definition ms_join_index_server ::
  "vobla_api \<Rightarrow> ('s, 'q, 'r) mc_env \<Rightarrow> int \<Rightarrow> int \<Rightarrow> NodeInfo \<Rightarrow> ('s, 'q, 'r) MasterController \<Rightarrow>
     (('s, 'q, 'r) MasterController \<times> (RpcInvalidOp + RpcNodeAddress list)) outcome" where
  "ms_join_index_server V E r1 r2 info c =
     bindo (mc_join_index_server E r1 r2 info c []) (\<lambda>(c', replicas, status).
       Done (c', check_status V status replicas))"

definition ms_get_all_masters ::
  "vobla_api \<Rightarrow> ('s, 'q, 'r) mc_env \<Rightarrow> ('s, 'q, 'r) MasterController \<Rightarrow>
     (RpcInvalidOp + (HashValueType \<times> RpcNodeAddress) list) outcome" where
  "ms_get_all_masters V E c = bindo (mc_get_all_masters E c []) (\<lambda>(ring, status). Done (check_status V status ring))"

definition ms_get_all_index_servers ::
  "vobla_api \<Rightarrow> ('s, 'q, 'r) mc_env \<Rightarrow> ('s, 'q, 'r) MasterController \<Rightarrow>
     (RpcInvalidOp + (HashValueType \<times> RpcNodeAddress) list) outcome" where
  "ms_get_all_index_servers V E c =
     bindo (mc_get_all_index_servers E c []) (\<lambda>(ring, status). Done (check_status V status ring))"

definition ms_find_objects :: "('s, 'q, 'r) MasterController \<Rightarrow> string list \<Rightarrow> ObjectId list" where
  "ms_find_objects c files = mc_find_objects c files"

definition ms_find_files :: "('s, 'q, 'r) MasterController \<Rightarrow> ObjectId list \<Rightarrow> string list" where
  "ms_find_files c objects = mc_find_files c objects"

definition ms_locate_indices_for_search ::
  "('s, 'q, 'r) mc_env \<Rightarrow> ('s, 'q, 'r) MasterController \<Rightarrow> string \<Rightarrow> string list \<Rightarrow> string list" where
  "ms_locate_indices_for_search E c root_path names = mc_locate_indices_for E c root_path names"

section \<open>What the controller keeps\<close>

definition servers_ok :: "('s, 'q, 'r) MasterController \<Rightarrow> bool" where
  "servers_ok c \<longleftrightarrow>
     (is_primary_node c \<longleftrightarrow> index_server_manager c \<noteq> None) \<and> (is_primary_node c \<longleftrightarrow> master_server_manager c \<noteq> None)"

lemma servers_ok_simps [simp]:
  "servers_ok (c\<lparr>mc_namespace := ns\<rparr>) = servers_ok c"
  "servers_ok (c\<lparr>index_namespace := ix\<rparr>) = servers_ok c"
  "servers_ok (c\<lparr>index_partition_manager := pm\<rparr>) = servers_ok c"
  by (simp_all add: servers_ok_def)

definition mc_inv :: "('s, 'q, 'r) MasterController \<Rightarrow> bool" where
  "mc_inv c \<longleftrightarrow> mem_inv (mc_namespace c) \<and> nodes_inv (index_namespace c) \<and> servers_ok c"

datatype mc_op =
    FileOp ns_op
  | CreateIndex rat RpcIndexCreateRequest
  | RemoveIndex string string
  | JoinMaster int int NodeInfo
  | JoinIndex int int NodeInfo

fun mc_file_op ::
  "('s, 'q, 'r) mc_env \<Rightarrow> ('s, 'q, 'r) MasterController \<Rightarrow> ns_op \<Rightarrow> (('s, 'q, 'r) MasterController \<times> Status) outcome" where
  "mc_file_op E c (Create now path md u g) = drop_result (mc_create E now c path md u g)"
| "mc_file_op E c (Remove path) = drop_result (mc_remove E c path)"
| "mc_file_op E c (Mkdir now path md u g) = mc_mkdir E now c path md u g"
| "mc_file_op E c (Rmdir path) = mc_rmdir E c path"
| "mc_file_op E c (Add_subfile parent subfile) = mc_add_subfile E c parent subfile"
| "mc_file_op E c (Remove_subfile parent subfile) = mc_remove_subfile E c parent subfile"
| "mc_file_op E c (Setattr path info) = mc_setattr E c path info"

fun mc_step ::
  "('s, 'q, 'r) mc_env \<Rightarrow> ('s, 'q, 'r) MasterController \<Rightarrow> mc_op \<Rightarrow> (('s, 'q, 'r) MasterController \<times> Status) outcome" where
  "mc_step E c (FileOp p) = mc_file_op E c p"
| "mc_step E c (CreateIndex now request) = mc_create_index E now c request"
| "mc_step E c (RemoveIndex root_path name) = mc_remove_index E c root_path name"
| "mc_step E c (JoinMaster r1 r2 node) = mc_join_master_server E r1 r2 node c"
| "mc_step E c (JoinIndex r1 r2 node) =
     bindo (mc_join_index_server E r1 r2 node c []) (\<lambda>(c', _, status). Done (c', status))"

text \<open>The one thing left to the callers: the ids handed out stay within the bits an id has for the counter.\<close>

definition mc_allowed :: "('s, 'q, 'r) mc_env \<Rightarrow> ('s, 'q, 'r) MasterController \<Rightarrow> mc_op \<Rightarrow> bool" where
  "mc_allowed E c p =
     (case p of
        FileOp (Create now path md u g) \<Rightarrow> unat (next_obj_id (mc_namespace c)) < 2 ^ 48
      | _ \<Rightarrow> True)"

inductive mc_reachable ::
  "('s, 'q, 'r) mc_env \<Rightarrow> ('s, 'q, 'r) MasterController \<Rightarrow> ('s, 'q, 'r) MasterController \<Rightarrow> bool" for E c0 where
  mc_start: "mc_reachable E c0 c0"
| mc_next: "mc_reachable E c0 c \<Longrightarrow> mc_allowed E c p \<Longrightarrow> mc_step E c p = Done (c', status) \<Longrightarrow> mc_reachable E c0 c'"

lemma on_namespace_Done:
  "on_namespace c r = Done (c', x) \<longleftrightarrow> (\<exists>ns. r = Done (ns, x) \<and> c' = c\<lparr>mc_namespace := ns\<rparr>)"
  by (cases r) (auto simp: on_namespace_def)

lemma drop_on_namespace: "drop_result (on_namespace c r) = on_namespace c (drop_result r)"
  by (cases r) (auto simp: drop_result_def on_namespace_def split: prod.split)

lemma drop_result_Done: "drop_result (Done (c, Inl st)) = Done (c, st)"
  by (simp add: drop_result_def)

text \<open>A file operation is refused, or it is the operation of the namespace.\<close>

lemma mc_file_op_cases:
  assumes "mc_file_op E c q = Done (c', status)"
  obtains "c' = c" "status = not_absolute"
  | ns where "ns_step (mc_ns E) (mc_namespace c) q = Done (ns, status)" "c' = c\<lparr>mc_namespace := ns\<rparr>"
proof -
  have "c' = c \<and> status = not_absolute \<or> mc_file_op E c q = on_namespace c (ns_step (mc_ns E) (mc_namespace c) q)"
    using assms
    by (cases q) (auto simp: mc_create_def mc_remove_def mc_mkdir_def mc_rmdir_def mc_add_subfile_def mc_remove_subfile_def
        mc_setattr_def drop_on_namespace drop_result_Done split: if_splits)
  with assms that show ?thesis by (metis on_namespace_Done)
qed

lemma mc_create_index_cases:
  assumes "mc_create_index E now c request = Done (c', status)"
  obtains ix where "ix_step (mc_ix E) (index_namespace c) (Ix_Insert (cr_root request) (cr_name request)) = Done (ix, status)"
      "\<not> ok status" "c' = c\<lparr>index_namespace := ix\<rparr>"
  | ix ns where "ix_step (mc_ix E) (index_namespace c) (Ix_Insert (cr_root request) (cr_name request)) = Done (ix, OK)"
      "mkdir (mc_ns E) now (mc_namespace c) (index_path (env_paths (mc_ns E)) (cr_root request) (cr_name request))
         (i64_to_i32 (cr_mode request)) (i64_to_i32 (cr_uid request)) (i64_to_i32 (cr_gid request)) = Done (ns, OK)"
      "status = OK" "c' = c\<lparr>index_namespace := ix, mc_namespace := ns\<rparr>"
  | ix ns ix' st where "ix_step (mc_ix E) (index_namespace c) (Ix_Insert (cr_root request) (cr_name request)) = Done (ix, OK)"
      "mkdir (mc_ns E) now (mc_namespace c) (index_path (env_paths (mc_ns E)) (cr_root request) (cr_name request))
         (i64_to_i32 (cr_mode request)) (i64_to_i32 (cr_uid request)) (i64_to_i32 (cr_gid request)) = Done (ns, status)"
      "\<not> ok status" "ix_step (mc_ix E) ix (Ix_Remove (cr_root request) (cr_name request)) = Done (ix', st)"
      "c' = c\<lparr>index_namespace := ix', mc_namespace := ns\<rparr>"
proof -
  from assms obtain ix s1 where i: "ix_insert (mc_ix E) (index_namespace c) (cr_root request) (cr_name request) = Done (ix, s1)"
    by (auto simp: mc_create_index_def)
  show ?thesis
  proof (cases "ok s1")
    case False
    have "c' = c\<lparr>index_namespace := ix\<rparr>" "status = s1" using assms i False by (simp_all add: mc_create_index_def)
    with i False show ?thesis by (intro that(1)) simp_all
  next
    case True
    then have s1: "s1 = OK" by (simp add: ok_iff)
    let ?mk = "mkdir (mc_ns E) now (mc_namespace c) (index_path (env_paths (mc_ns E)) (cr_root request) (cr_name request))
         (i64_to_i32 (cr_mode request)) (i64_to_i32 (cr_uid request)) (i64_to_i32 (cr_gid request))"
    from assms i s1 obtain ns s2 where k: "?mk = Done (ns, s2)"
      by (auto simp: mc_create_index_def on_namespace_Done)
    have m: "?mk = Done (ns, status)"
      "if ok status then c' = c\<lparr>index_namespace := ix, mc_namespace := ns\<rparr>
       else \<exists>ix' st. ix_remove (mc_ix E) ix (cr_root request) (cr_name request) = Done (ix', st) \<and>
          c' = c\<lparr>index_namespace := ix', mc_namespace := ns\<rparr>"
      using assms i s1 k by (auto simp: mc_create_index_def on_namespace_def Let_def split: if_splits)
    show ?thesis
    proof (cases "ok status")
      case True
      with m s1 i show ?thesis by (intro that(2) [of ix ns]) (simp_all add: ok_iff)
    next
      case False
      with m(2) obtain ix' st where "ix_remove (mc_ix E) ix (cr_root request) (cr_name request) = Done (ix', st)"
        "c' = c\<lparr>index_namespace := ix', mc_namespace := ns\<rparr>" by auto
      with m(1) s1 i False show ?thesis by (intro that(3) [of ix ns ix' st]) simp_all
    qed
  qed
qed

lemma mc_step_inv:
  assumes "mc_inv c" "mc_allowed E c p" "mc_step E c p = Done (c', status)"
  shows "mc_inv c'"
proof -
  have ns: "mem_inv (mc_namespace c)" and ix: "nodes_inv (index_namespace c)" using assms(1) by (simp_all add: mc_inv_def)
  show ?thesis
  proof (cases p)
    case (FileOp q)
    with assms(3) have "mc_file_op E c q = Done (c', status)" by simp
    then show ?thesis
    proof (cases rule: mc_file_op_cases)
      case (2 ns)
      have "mem_inv ns"
        by (rule ns_step_mem [OF \<open>mem_inv (mc_namespace c)\<close> _ 2(1)]) (use assms(2) FileOp in \<open>simp add: mc_allowed_def\<close>)
      with 2(2) assms(1) show ?thesis by (simp add: mc_inv_def)
    qed (use assms(1) in simp)
  next
    case (CreateIndex now request)
    with assms(3) have "mc_create_index E now c request = Done (c', status)" by simp
    then show ?thesis
    proof (cases rule: mc_create_index_cases)
      case (1 x)
      from ix_step_refines [OF ix 1(1)] 1(3) assms(1) show ?thesis by (simp add: mc_inv_def)
    next
      case (2 x n)
      have "mem_inv n" by (rule mkdir_mem [OF ns 2(2)])
      with ix_step_refines [OF ix 2(1)] 2(4) assms(1) show ?thesis by (simp add: mc_inv_def)
    next
      case (3 x n x' st)
      have "mem_inv n" by (rule mkdir_mem [OF ns 3(2)])
      moreover have "nodes_inv x" using ix_step_refines [OF ix 3(1)] by simp
      ultimately show ?thesis using ix_step_refines [OF _ 3(4)] 3(5) assms(1) by (simp add: mc_inv_def)
    qed
  next
    case (RemoveIndex root_path name)
    with assms(3) obtain x pm where
      x: "ix_step (mc_ix E) (index_namespace c) (Ix_Remove root_path name) = Done (x, status)"
        "c' = c\<lparr>index_namespace := x, index_partition_manager := pm\<rparr>"
      by (auto simp: mc_remove_index_def)
    from ix_step_refines [OF ix x(1)] x(2) assms(1) show ?thesis by (simp add: mc_inv_def)
  next
    case (JoinMaster r1 r2 node)
    with assms(1,3) show ?thesis
      by (auto simp: mc_join_master_server_def mc_inv_def servers_ok_def split: if_splits option.splits)
  next
    case (JoinIndex r1 r2 node)
    with assms(1,3) show ?thesis
      by (auto simp: mc_join_index_server_def mc_inv_def servers_ok_def Let_def split: if_splits option.splits)
  qed
qed

lemma mc_reachable_inv:
  assumes "mc_inv c0" "mc_reachable E c0 c"
  shows "mc_inv c"
  using assms(2) by (induction rule: mc_reachable.induct) (use assms(1) mc_step_inv in blast)+

section \<open>Properties\<close>

text \<open>What the index namespace does while its database accepts writes.\<close>

abbreviation ix_writable :: "('s, 'q, 'r) mc_env \<Rightarrow> 's IndexNamespace \<Rightarrow> bool" where
  "ix_writable E s \<equiv> accepts_writes (ix_kv (mc_ix E)) (ix_store s)"

lemma ix_insert_writes:
  assumes "ix_writable E s" "nodes_inv s" "cleanup_path path = Done key"
  shows "\<exists>s'. ix_step (mc_ix E) s (Ix_Insert path name) = Done (s', if (key, name) \<in> ix_abs s
      then Err (- EEXIST) ''The named index have existed.'' else OK) \<and> ix_writable E s'"
proof -
  let ?n = "old_node s key"
  obtain st where "kv_put (ix_kv (mc_ix E)) (ix_store s) key
      (serialize_namespace_node (mc_ix E) (?n\<lparr>nd_names := sset_insert name (nd_names ?n)\<rparr>)) = Done (st, OK)"
      "accepts_writes (ix_kv (mc_ix E)) st"
    using assms(1) by (rule accepts_put)
  moreover have "(key, name) \<in> ix_abs s \<longleftrightarrow> name \<in> set (nd_names ?n)"
    by (simp add: ix_abs_def node_has_old)
  ultimately show ?thesis
    using assms(1,3) by (simp add: ix_insert_def put_node_def old_node_def [symmetric] Let_def)
qed

lemma ix_insert_abs:
  assumes "nodes_inv s" "ix_step E s (Ix_Insert path name) = Done (s', OK)"
  shows "\<exists>key. cleanup_path path = Done key \<and> (key, name) \<notin> ix_abs s \<and> ix_abs s' = insert (key, name) (ix_abs s)"
  using ix_step_refines [OF assms] by (auto split: if_splits)

lemma create_index_abs:
  assumes "mc_inv c" "mc_create_index E now c request = Done (c', OK)"
  shows "\<exists>key. cleanup_path (cr_root request) = Done key \<and> (key, cr_name request) \<in> ix_abs (index_namespace c')"
  using assms(2)
proof (cases rule: mc_create_index_cases)
  case (2 x n)
  have "nodes_inv (index_namespace c)" using assms(1) by (simp add: mc_inv_def)
  from ix_insert_abs [OF this 2(1)] 2(4) show ?thesis by auto
qed simp_all

lemma ix_remove_returns:
  assumes "ix_writable E s" "cleanup_path path = Done key" "(key, name) \<in> ix_abs s"
  shows "\<exists>s'. ix_remove (mc_ix E) s path name = Done (s', OK)"
proof -
  from assms(3) obtain node where n: "map_of (nodes s) key = Some node" "name \<in> set (nd_names node)"
    by (auto simp: ix_abs_def node_has_def split: option.splits)
  obtain d where "kv_put (ix_kv (mc_ix E)) (ix_store s) key
      (serialize_namespace_node (mc_ix E) (node\<lparr>nd_names := sset_erase name (nd_names node)\<rparr>)) = Done (d, OK)"
    using assms(1) by (rule accepts_put)
  with assms(2) n show ?thesis by (simp add: ix_remove_def put_node_def Let_def)
qed


text \<open>
  An index that was created and removed cannot be created again: \<open>remove_index\<close> forgets the record and
  the partitions but leaves the directory the creation made, on which the next \<open>create_index\<close> of the same
  root and name fails with \<open>EEXIST\<close>, whoever asks and with whatever type.\<close>

theorem recreate_index_fails:
  assumes "mc_inv c" "mc_create_index E now c request = Done (c1, OK)"
    and "mc_remove_index E c1 (cr_root request) (cr_name request) = Done (c2, OK)" "ix_writable E (index_namespace c2)"
    and "cr_root again = cr_root request" "cr_name again = cr_name request"
  shows "\<exists>c3. mc_create_index E later c2 again = Done (c3, Err (- EEXIST) (strerror EEXIST))"
  using assms(2)
proof (cases rule: mc_create_index_cases)
  case (2 x n)
  let ?full = "index_path (env_paths (mc_ns E)) (cr_root request) (cr_name request)"
  have d: "dirs_known (mc_namespace c)" using assms(1) by (simp add: mc_inv_def mem_known)
  from 2(2) d have m: "metadata_map n ?full \<noteq> None" by (cases rule: mkdir_known_cases) simp_all
  have inv1: "nodes_inv x" using mc_step_inv [OF assms(1), of E "CreateIndex now request" c1 OK] assms(2) 2(4)
    by (simp add: mc_inv_def mc_allowed_def)
  from assms(3) 2(4) obtain x2 pm where r: "ix_step (mc_ix E) x (Ix_Remove (cr_root request) (cr_name request)) = Done (x2, OK)"
    "c2 = c\<lparr>mc_namespace := n, index_namespace := x2, index_partition_manager := pm\<rparr>"
    by (auto simp: mc_remove_index_def Let_def)
  from ix_step_refines [OF inv1 r(1)] obtain key where
    k: "nodes_inv x2" "cleanup_path (cr_root request) = Done key" "(key, cr_name request) \<notin> ix_abs x2"
    by (auto split: if_splits)
  have w: "ix_writable E x2" using assms(4) r(2) by simp
  from ix_insert_writes [OF w k(1,2), of "cr_name request"] k(3) obtain x3 where
    i: "ix_insert (mc_ix E) x2 (cr_root request) (cr_name request) = Done (x3, OK)" "ix_writable E x3" by auto
  have x3: "nodes_inv x3" "(key, cr_name request) \<in> ix_abs x3"
    using ix_step_refines [OF k(1), of "mc_ix E" "Ix_Insert (cr_root request) (cr_name request)" x3 OK] i k(2) by (auto split: if_splits)
  from ix_remove_returns [OF i(2) k(2) x3(2)] obtain x4 s4 where "ix_remove (mc_ix E) x3 (cr_root request) (cr_name request) = Done (x4, s4)" by blast
  then show ?thesis
    using i m by (simp add: mc_create_index_def r(2) assms(5,6) Let_def on_namespace_def mkdir_def)
qed simp_all

lemma collect_member:
  assumes "nodes_inv s" "(key, name) \<in> ix_abs s" "starts_with key p"
  shows "key \<in> set (collect s p name)"
proof -
  from assms(2) obtain node where n: "map_of (nodes s) key = Some node" "name \<in> set (nd_names node)"
    by (auto simp: ix_abs_def node_has_def split: option.splits)
  have ok: "smap_ok (nodes s)" using assms(1) by (simp add: nodes_inv_def)
  from n(1) have "(key, node) \<in> set (nodes s)" by (rule map_of_SomeD)
  with n(2) assms(3) show ?thesis unfolding collect_filter [OF ok] by force
qed

lemma get_indices_member:
  assumes "nodes_inv s" "(key, name) \<in> ix_abs s" "starts_with key p"
  shows "index_path (ix_paths E) key name \<in> set (get_indices E s p True)"
    "index_path (ix_paths E) key name \<in> set (get_indices E s key False)"
proof -
  from assms(2) obtain node where n: "map_of (nodes s) key = Some node" "name \<in> set (nd_names node)"
    by (auto simp: ix_abs_def node_has_def split: option.splits)
  have ok: "smap_ok (nodes s)" using assms(1) by (simp add: nodes_inv_def)
  from n(1) have "(key, node) \<in> set (nodes s)" by (rule map_of_SomeD)
  with n(2) assms(3) show "index_path (ix_paths E) key name \<in> set (get_indices E s p True)"
    unfolding get_indices_def indices_loop_concat takeWhile_lower_bound_prefix [OF ok] by force
  show "index_path (ix_paths E) key name \<in> set (get_indices E s key False)"
    using n by (simp add: get_indices_def get_index_names_def)
qed

text \<open>
  C14: A created index is found from every directory above it: after \<open>create_index\<close> on a root without
  trailing slashes, both kinds of lookup (by name below a prefix, and the recursive listing) return the path of the
  index, and that path is a directory of the namespace.\<close>

theorem created_index_is_located:
  assumes "mc_inv c" "mc_create_index E now c request = Done (c', OK)"
    and "cleanup_path (cr_root request) = Done (cr_root request)" "starts_with (cr_root request) p"
    and "ix_paths (mc_ix E) = env_paths (mc_ns E)"
  shows "\<exists>path. path = index_path (env_paths (mc_ns E)) (cr_root request) (cr_name request) \<and>
    path \<in> set (mc_locate_indices_for E c' p [cr_name request]) \<and>
    path \<in> set (mc_locate_indices E c' p True) \<and> path \<in> set (mc_locate_indices E c' (cr_root request) False) \<and>
    directories (mc_namespace c') path = Some []"
  using assms(2)
proof (cases rule: mc_create_index_cases)
  case (2 x n)
  have ix: "nodes_inv (index_namespace c)" and d: "dirs_known (mc_namespace c)"
    using assms(1) by (simp_all add: mc_inv_def mem_known)
  have nx: "nodes_inv x" using ix_step_refines [OF ix 2(1)] by simp
  have m: "(cr_root request, cr_name request) \<in> ix_abs x" using ix_insert_abs [OF ix 2(1)] assms(3) by auto
  from 2(2) d have "directories n (index_path (env_paths (mc_ns E)) (cr_root request) (cr_name request)) = Some []"
    by (cases rule: mkdir_known_cases) simp_all
  with collect_member [OF nx m assms(4)] get_indices_member [OF nx m assms(4), of "mc_ix E"] 2(4) assms(5)
  show ?thesis by (simp add: mc_locate_indices_for_def mc_locate_indices_def)
qed simp_all

lemma mc_init_parts:
  assumes "mc_init E c = Done (c', OK)"
  shows "\<exists>x n pm. ix_init (mc_ix E) (index_namespace c) = Done (x, OK) \<and> ns_init (mc_ns E) (mc_namespace c) = Done (n, OK) \<and>
    c' = c\<lparr>index_namespace := x, index_partition_manager := pm, mc_namespace := n\<rparr>"
proof -
  from assms obtain x s1 where x: "ix_init (mc_ix E) (index_namespace c) = Done (x, s1)" by (auto simp: mc_init_def)
  then have s1: "s1 = OK" using assms by (cases "ok s1") (simp_all add: mc_init_def ok_iff)
  from assms x s1 obtain pm s2 where pm: "pm_init (mc_pm E) (index_partition_manager c) = Done (pm, s2)" by (auto simp: mc_init_def)
  then have s2: "s2 = OK" using assms x s1 by (cases "ok s2") (simp_all add: mc_init_def ok_iff)
  show ?thesis using assms x s1 pm s2 by (auto simp: mc_init_def)
qed

lemma init_empty:
  "ns_init NE ns = Done (ns', status) \<Longrightarrow> kv_scan (env_kv NE) (fst (kv_open (env_kv NE) (ns_store ns))) = Done [] \<Longrightarrow>
     \<exists>st. ns' = ns\<lparr>ns_store := st\<rparr>"
  "ix_init XE ix = Done (ix', status) \<Longrightarrow> kv_scan (ix_kv XE) (fst (kv_open (ix_kv XE) (ix_store ix))) = Done [] \<Longrightarrow>
     \<exists>st. ix' = ix\<lparr>ix_store := st\<rparr>"
  by (cases "kv_open (env_kv NE) (ns_store ns)", fastforce simp: ns_init_def Let_def split: if_splits)
     (cases "kv_open (ix_kv XE) (ix_store ix)", fastforce simp: ix_init_def Let_def split: if_splits)

text \<open>
  C12: In every state of a master that was started on empty databases, after file calls with whatever modes and
  attributes, index calls and joining servers, whichever of them failed, an id leads to a path exactly when the path is
  not a directory and has that id, the ids of the files are below the counter of the next one, a listing belongs to
  a path that exists and is ordered, the index namespace is a sorted map of sets, and the server maps exist exactly
  on the primary. The ids handed out stay below \<open>2 ^ 48\<close>, and so does the value the counter starts from.\<close>

theorem master_invariant:
  assumes "MasterController_new E r1 r2 junk basedir h pt primary phost pport = Done c_new" "unat junk \<le> 2 ^ 48"
    and "mc_init E c_new = Done (c0, OK)"
    and "kv_scan (env_kv (mc_ns E)) (fst (kv_open (env_kv (mc_ns E)) (ns_store (mc_namespace c_new)))) = Done []"
    and "kv_scan (ix_kv (mc_ix E)) (fst (kv_open (ix_kv (mc_ix E)) (ix_store (index_namespace c_new)))) = Done []"
    and "mc_reachable E c0 c"
  shows "(\<forall>oid path. file_path (mc_namespace c) oid = Inr path \<longleftrightarrow> plain_file (mc_namespace c) path oid) \<and>
    (\<forall>path oid. plain_file (mc_namespace c) path oid \<longrightarrow> serial oid < unat (next_obj_id (mc_namespace c))) \<and>
    (\<forall>path names. readdir (mc_namespace c) path = Inr names \<longrightarrow> ns_exists (mc_namespace c) path \<and> sset_ok names) \<and>
    nodes_inv (index_namespace c) \<and>
    (is_primary_node c \<longleftrightarrow> index_server_manager c \<noteq> None) \<and> (is_primary_node c \<longleftrightarrow> master_server_manager c \<noteq> None)"
proof -
  have new: "mem_inv (mc_namespace c_new)" "nodes_inv (index_namespace c_new)" "servers_ok c_new"
    using assms(1) Namespace_new_mem [OF assms(2)]
    by (auto simp: MasterController_new_def Let_def servers_ok_def IndexNamespace_new_def nodes_inv_def split: if_splits)
  from mc_init_parts [OF assms(3)] obtain x n pm where i: "ix_init (mc_ix E) (index_namespace c_new) = Done (x, OK)"
    "ns_init (mc_ns E) (mc_namespace c_new) = Done (n, OK)"
    "c0 = c_new\<lparr>index_namespace := x, index_partition_manager := pm, mc_namespace := n\<rparr>" by blast
  from init_empty(2) [OF i(1) assms(5)] have "\<exists>st. x = (index_namespace c_new)\<lparr>ix_store := st\<rparr>" by blast
  moreover from init_empty(1) [OF i(2) assms(4)] have "\<exists>st. n = (mc_namespace c_new)\<lparr>ns_store := st\<rparr>" by blast
  ultimately have "mc_inv c0" using new i(3) by (auto simp: mc_inv_def nodes_inv_def servers_ok_def)
  from mc_reachable_inv [OF this assms(6)]
  have m: "mem_inv (mc_namespace c)" "nodes_inv (index_namespace c)" "servers_ok c" by (simp_all add: mc_inv_def)
  have "serial oid < unat (next_obj_id (mc_namespace c))" if "plain_file (mc_namespace c) path oid" for path oid
    using that m(1) unfolding mem_inv_def fresh_inv_def by (metis option.distinct(1))
  moreover have "ns_exists (mc_namespace c) path \<and> sset_ok names" if "readdir (mc_namespace c) path = Inr names" for path names
    using that m(1) by (auto simp: readdir_def ns_exists_def mem_inv_def dirs_known_def split: option.splits)
  moreover have "file_path (mc_namespace c) oid = Inr path \<longleftrightarrow> plain_file (mc_namespace c) path oid" for oid path
    using m(1) by (simp add: file_path_iff mem_inv_def)
  ultimately show ?thesis using m(2,3) unfolding servers_ok_def by blast
qed

section \<open>A master on in-memory stores\<close>

definition test_mc_env ::
  "(TestLevelDBStore, (HashValueType \<times> string option) list, (HashValueType \<times> NodeInfo option) list) mc_env" where
  "test_mc_env =
     \<lparr>mc_ns = test_env, mc_ix = test_ix_env, mc_pm = test_pm_env, mc_ring = list_ring, mc_ring_new = [],
      mc_host_name = ''localhost'', mc_absolute = (\<lambda>p. p), mc_new_store = (\<lambda>_. [])\<rparr>"

definition demo_master ::
  "(TestLevelDBStore, (HashValueType \<times> string option) list, (HashValueType \<times> NodeInfo option) list) MasterController" where
  "demo_master =
     \<lparr>mc_host = ''h'', mc_port = 1, is_primary_node = False, primary_host = ''p'', primary_port = 2,
      index_server_manager = None, master_server_manager = None, mc_namespace = Namespace_new 0 [],
      index_namespace = IndexNamespace_new [], index_partition_manager = PartitionManager_new []\<rparr>"

definition demo_request :: "string \<Rightarrow> string \<Rightarrow> RpcIndexCreateRequest" where
  "demo_request root_path name =
     \<lparr>cr_root = root_path, cr_name = name, cr_index_type = BTREE, cr_key_type = 0, cr_mode = 0, cr_uid = 0, cr_gid = 0\<rparr>"

lemma demo_master_new: "MasterController_new test_mc_env 0 0 0 ''/d'' ''h'' 1 False ''p'' 2 = Done demo_master"
  by (simp add: MasterController_new_def demo_master_def test_mc_env_def)

lemma demo_master_ns_inv: "ns_inv (mc_namespace demo_master)"
  by (auto simp: demo_master_def Namespace_new_def ns_inv_def ids_inv_def fresh_inv_def dirs_inv_def is_file_def is_dir_def)

lemma demo_master_inv: "mc_inv demo_master"
  using ns_inv_mem [OF demo_master_ns_inv] by (simp add: mc_inv_def demo_master_def servers_ok_def IndexNamespace_new_def nodes_inv_def)

lemma test_ix_writable: "ix_writable test_mc_env s"
  by (simp add: test_mc_env_def test_ix_env_def test_accepts_writes)

lemma demo_allowed: "mc_allowed test_mc_env c (CreateIndex now (demo_request root_path name))"
  by (simp add: mc_allowed_def)

lemma demo_create:
  assumes "cleanup_path root_path = Done key"
  shows "\<exists>ix. mc_create_index test_mc_env now demo_master (demo_request root_path name) =
    Done (demo_master\<lparr>index_namespace := ix,
      mc_namespace := (Namespace_new 0 [])\<lparr>
        metadata_map := [index_path posix_paths root_path name \<mapsto> new_meta now 0 S_IFDIR 0 0],
        directories := [index_path posix_paths root_path name \<mapsto> []],
        ns_store := [(index_path posix_paths root_path name, ser_metadata (new_meta now 0 S_IFDIR 0 0))]\<rparr>\<rparr>, OK)"
proof -
  have "nodes_inv (IndexNamespace_new [])" by (simp add: IndexNamespace_new_def nodes_inv_def)
  from ix_insert_writes [OF test_ix_writable this assms, of name] obtain ix where
    "ix_insert test_ix_env (IndexNamespace_new []) root_path name = Done (ix, OK)"
    by (auto simp: test_mc_env_def ix_abs_def node_has_def IndexNamespace_new_def)
  then show ?thesis
    by (simp add: mc_create_index_def demo_master_def demo_request_def test_mc_env_def test_env_def on_namespace_def
        mkdir_def store_metadata_def test_kv_defs Namespace_new_def Let_def new_meta_def i64_to_i32_def)
qed

lemma demo_clean: "cleanup_path ''/a'' = Done ''/a''"
  by (rule cleanup_path_clean) simp_all


theorem recreate_index_fails_witness:
  "\<exists>c1 c2 c3. mc_create_index test_mc_env 0 demo_master (demo_request ''/a'' ''i'') = Done (c1, OK) \<and>
     mc_remove_index test_mc_env c1 ''/a'' ''i'' = Done (c2, OK) \<and>
     mc_create_index test_mc_env 1 c2 (demo_request ''/a'' ''i'') = Done (c3, Err (- EEXIST) (strerror EEXIST))"
proof -
  from demo_create [OF demo_clean, of 0 "''i''"] obtain c1 where
    c: "mc_create_index test_mc_env 0 demo_master (demo_request ''/a'' ''i'') = Done (c1, OK)" by blast
  have i: "nodes_inv (index_namespace c1)"
    using mc_step_inv [OF demo_master_inv demo_allowed [of demo_master 0 "''/a''" "''i''"], of c1 OK] c
    by (simp add: mc_inv_def)
  have "\<exists>key. cleanup_path ''/a'' = Done key \<and> (key, ''i'') \<in> ix_abs (index_namespace c1)"
    using create_index_abs [OF demo_master_inv c] by (simp add: demo_request_def)
  then have m: "(''/a'', ''i'') \<in> ix_abs (index_namespace c1)" by (simp add: demo_clean)
  from ix_remove_returns [OF test_ix_writable demo_clean m] obtain x where
    x: "ix_remove (mc_ix test_mc_env) (index_namespace c1) ''/a'' ''i'' = Done (x, OK)" by blast
  have "\<exists>c2. mc_remove_index test_mc_env c1 ''/a'' ''i'' = Done (c2, OK)"
    using x by (simp add: mc_remove_index_def Let_def remove_index_def test_mc_env_def test_pm_env_def test_kv_defs)
  then obtain c2 where r: "mc_remove_index test_mc_env c1 ''/a'' ''i'' = Done (c2, OK)" by blast
  have "\<exists>c3. mc_create_index test_mc_env 1 c2 (demo_request ''/a'' ''i'') = Done (c3, Err (- EEXIST) (strerror EEXIST))"
    by (rule recreate_index_fails [OF demo_master_inv c _ test_ix_writable refl refl])
       (use r in \<open>simp add: demo_request_def\<close>)
  with c r show ?thesis by blast
qed

theorem created_index_is_located_witness:
  "\<exists>c'. mc_create_index test_mc_env 0 demo_master (demo_request ''/a'' ''i'') = Done (c', OK) \<and>
     ''/a/.vsfs/i'' \<in> set (mc_locate_indices test_mc_env c' ''/'' True)"
proof -
  from demo_create [OF demo_clean, of 0 "''i''"] obtain c' where
    c: "mc_create_index test_mc_env 0 demo_master (demo_request ''/a'' ''i'') = Done (c', OK)" by blast
  have h: "cleanup_path (cr_root (demo_request ''/a'' ''i'')) = Done (cr_root (demo_request ''/a'' ''i''))"
    "starts_with (cr_root (demo_request ''/a'' ''i'')) ''/''" "ix_paths (mc_ix test_mc_env) = env_paths (mc_ns test_mc_env)"
    by (simp_all add: demo_request_def demo_clean test_mc_env_def test_ix_env_def test_env_def)
  have "index_path (env_paths (mc_ns test_mc_env)) ''/a'' ''i'' = ''/a/.vsfs/i''"
    by (simp add: test_mc_env_def test_env_def index_path_def posix_paths_def)
  with created_index_is_located [OF demo_master_inv c h] c show ?thesis by (auto simp: demo_request_def)
qed

theorem master_invariant_witness:
  "\<exists>c0 c. mc_init test_mc_env demo_master = Done (c0, OK) \<and> mc_reachable test_mc_env c0 c \<and>
     nodes_inv (index_namespace c) \<and> ix_abs (index_namespace c) \<noteq> {} \<and> index_server_manager c = None"
proof -
  have n: "mc_init test_mc_env demo_master = Done (demo_master, OK)"
    by (simp add: mc_init_def demo_master_def test_mc_env_def test_env_def test_ix_env_def test_pm_env_def test_kv_defs
        ix_init_def ns_init_def pm_init_def Namespace_new_def IndexNamespace_new_def PartitionManager_new_def Let_def)
  from demo_create [OF demo_clean, of 0 "''i''"] obtain c where
    c: "mc_create_index test_mc_env 0 demo_master (demo_request ''/a'' ''i'') = Done (c, OK)" "index_server_manager c = None"
      "\<not> is_primary_node c"
    by (force simp: demo_master_def)
  have r: "mc_reachable test_mc_env demo_master c"
    by (rule mc_reachable.mc_next [OF mc_reachable.mc_start demo_allowed, of _ 0 "''/a''" "''i''" c OK]) (simp add: c)
  have e: "kv_scan (env_kv (mc_ns test_mc_env)) (fst (kv_open (env_kv (mc_ns test_mc_env)) (ns_store (mc_namespace demo_master)))) = Done []"
    "kv_scan (ix_kv (mc_ix test_mc_env)) (fst (kv_open (ix_kv (mc_ix test_mc_env)) (ix_store (index_namespace demo_master)))) = Done []"
    by (simp_all add: demo_master_def test_mc_env_def test_env_def test_ix_env_def test_kv_defs Namespace_new_def IndexNamespace_new_def)
  have "ix_abs (index_namespace c) \<noteq> {}" using create_index_abs [OF demo_master_inv c(1)] by auto
  with n r c master_invariant [OF demo_master_new _ n e r] show ?thesis by auto
qed

text \<open>
  \<open>create_index\<close> does not check that its root is absolute, as \<open>mkdir\<close> does. On a relative root it succeeds and
  writes a record to the namespace's database under a key that the next start of the master does not
  know: \<open>init\<close> then reports a corrupted database and the master does not come up.\<close>

theorem relative_index_root_corrupts:
  assumes "root_path \<noteq> []"
    and "\<not> starts_with (index_path posix_paths root_path name) ''/''"
    and "\<not> starts_with (index_path posix_paths root_path name) ''dir:''"
    and "\<not> starts_with (index_path posix_paths root_path name) ''meta:''"
  shows "\<exists>c ns. mc_create_index test_mc_env now demo_master (demo_request root_path name) = Done (c, OK) \<and>
    ns_init (mc_ns test_mc_env) (Namespace_new junk (ns_store (mc_namespace c))) =
      Done (ns, Err (-1) ''The metadata db is corrupted.'')"
proof -
  obtain key where "cleanup_path root_path = Done key" using assms(1) by (simp add: cleanup_path_def)
  from demo_create [OF this, of now name] obtain ix c where
    c: "mc_create_index test_mc_env now demo_master (demo_request root_path name) = Done (c, OK)"
    "ns_store (mc_namespace c) = [(index_path posix_paths root_path name, ser_metadata (new_meta now 0 S_IFDIR 0 0))]"
    by fastforce
  have "ns_init (mc_ns test_mc_env) (Namespace_new junk (ns_store (mc_namespace c))) =
      Done ((Namespace_new junk (ns_store (mc_namespace c))), Err (-1) ''The metadata db is corrupted.'')"
    using assms(2-4)
    by (simp add: c(2) ns_init_def test_mc_env_def test_env_def test_kv_defs Namespace_new_def load_record_def Let_def)
  with c(1) show ?thesis by blast
qed

theorem relative_index_root_corrupts_witness:
  "\<exists>c ns. mc_create_index test_mc_env 0 demo_master (demo_request ''data'' ''i'') = Done (c, OK) \<and>
    ns_init (mc_ns test_mc_env) (Namespace_new 0 (ns_store (mc_namespace c))) =
      Done (ns, Err (-1) ''The metadata db is corrupted.'')"
  by (rule relative_index_root_corrupts) (simp_all add: index_path_def posix_paths_def)

end
