(* ===== verification/Query_Ast.thy ===== *)
theory Query_Ast
  imports Vsfs_Prelude
begin

text \<open>
  The syntax tree of queries (\<open>vsfs/query/ast.h\<close>, \<open>ast.cpp\<close>). The only node class the sources
  define is the binary operator, so a tree is made of these; a null child is \<^const>\<open>None\<close>.
\<close>

section \<open>Nodes\<close>

datatype ast_type = AST_UNKNOWN | BINARY_OP

datatype value_type =
    VT_UNKNOWN | BOOL | INT8 | UINT8 | INT16 | UINT16 | INT32 | UINT32 | INT64 | UINT64 | FLOAT | DOUBLE | STRING

datatype OpCode =
    OP_UNKNOWN | OP_EQ | OP_NEQ | OP_GT | OP_GE | OP_LT | OP_LE | OP_ADD | OP_SUB | OP_MUL | OP_DIV | OP_MOD
  | OP_AND | OP_OR | OP_XOR

text \<open>An enumeration class is ordered as its constants are declared.\<close>

definition op_codes :: "OpCode list" where
  "op_codes = [OP_UNKNOWN, OP_EQ, OP_NEQ, OP_GT, OP_GE, OP_LT, OP_LE, OP_ADD, OP_SUB, OP_MUL, OP_DIV, OP_MOD,
     OP_AND, OP_OR, OP_XOR]"

definition op_index :: "OpCode \<Rightarrow> nat" where
  "op_index c = the (find_idx (\<lambda>x. x = c) op_codes)"

instantiation OpCode :: linorder
begin

definition less_eq_OpCode :: "OpCode \<Rightarrow> OpCode \<Rightarrow> bool" where
  "a \<le> b \<longleftrightarrow> op_index a \<le> op_index b"

definition less_OpCode :: "OpCode \<Rightarrow> OpCode \<Rightarrow> bool" where
  "a < b \<longleftrightarrow> op_index a < op_index b"

instance
proof
  have "op_index a = op_index b \<Longrightarrow> a = b" for a b
    by (cases a; cases b) (simp_all add: op_index_def op_codes_def)
  then show "a \<le> b \<Longrightarrow> b \<le> a \<Longrightarrow> a = b" for a b :: OpCode
    by (simp add: less_eq_OpCode_def)
qed (auto simp: less_eq_OpCode_def less_OpCode_def)

end

datatype ast = BinaryOpAst (ast_opcode: OpCode) (ast_left: "ast option") (ast_right: "ast option")

section \<open>Operations\<close>

definition parse_op :: "string \<Rightarrow> OpCode" where
  "parse_op s =
     (if s = ''='' then OP_EQ
      else if s = ''!='' then OP_NEQ
      else if s = ''>'' then OP_GT
      else if s = ''>='' then OP_GE
      else if s = ''<'' then OP_LT
      else if s = ''<='' then OP_LE
      else if s = ''+'' then OP_ADD
      else if s = ''-'' then OP_SUB
      else if s = ''*'' then OP_MUL
      else if s = ''/'' then OP_DIV
      else if s = ''%'' then OP_MOD
      else if s = ''&'' then OP_AND
      else if s = ''|'' then OP_OR
      else if s = ''^'' then OP_XOR
      else OP_UNKNOWN)"

definition BinaryOpAst_new :: ast where
  "BinaryOpAst_new = BinaryOpAst OP_UNKNOWN None None"

definition BinaryOpAst_op :: "OpCode \<Rightarrow> ast" where
  "BinaryOpAst_op code = BinaryOpAst code None None"

definition BinaryOpAst_str :: "string \<Rightarrow> ast" where
  "BinaryOpAst_str opstr = BinaryOpAst (parse_op opstr) None None"

definition ast_kind :: "ast \<Rightarrow> ast_type" where
  "ast_kind t = BINARY_OP"

definition set_left :: "ast option \<Rightarrow> ast \<Rightarrow> ast" where
  "set_left l t = BinaryOpAst (ast_opcode t) l (ast_right t)"

definition set_right :: "ast option \<Rightarrow> ast \<Rightarrow> ast" where
  "set_right r t = BinaryOpAst (ast_opcode t) (ast_left t) r"

definition set_opcode :: "OpCode \<Rightarrow> ast \<Rightarrow> ast" where
  "set_opcode code t = BinaryOpAst code (ast_left t) (ast_right t)"

fun ast_valid :: "ast \<Rightarrow> bool" where
  "ast_valid (BinaryOpAst code l r) =
     (case (l, r) of (Some a, Some b) \<Rightarrow> ast_valid a \<and> ast_valid b | _ \<Rightarrow> False)"

definition ast_value_type :: "ast \<Rightarrow> value_type" where
  "ast_value_type t = (if OP_AND \<le> ast_opcode t \<and> ast_opcode t \<le> OP_XOR then BOOL else INT64)"

section \<open>Properties\<close>

text \<open>
  The tree operations change only the part they name, an operator string is read as the operator it
  spells, and only the three logical operators have a truth value for their type. No tree is ever
  valid, however it is built: a node is valid only below two valid children, and the sources have no
  kind of node that is valid without children.\<close>

theorem ast_never_valid:
  "\<not> ast_valid t \<and> (ast_value_type (BinaryOpAst_str s) = BOOL \<longleftrightarrow> s \<in> {''&'', ''|'', ''^''}) \<and>
     ast_left (set_left l t) = l \<and> ast_right (set_left l t) = ast_right t \<and>
     ast_right (set_right r t) = r \<and> ast_left (set_right r t) = ast_left t"
proof -
  have "\<not> ast_valid t"
  proof (induction t)
    case (BinaryOpAst code l r)
    then show ?case by (cases l; cases r) auto
  qed
  moreover have "ast_value_type (BinaryOpAst_str s) = BOOL \<longleftrightarrow> s \<in> {''&'', ''|'', ''^''}"
    by (simp add: ast_value_type_def BinaryOpAst_str_def parse_op_def less_eq_OpCode_def op_index_def op_codes_def)
  ultimately show ?thesis by (simp add: set_left_def set_right_def)
qed

end
