(* ===== verification/Storage.thy ===== *)
theory Storage
  imports Path_Util
begin

text \<open>
  The storage below the file system: open files (\<open>vsfs/common/file.cpp\<close>, \<open>posix_file_handler.cpp\<close>)
  and the two storage managers, \<open>PosixStorageManager\<close> and \<open>ObjectStorageManager\<close>
  (\<open>posix_storage_manager.cpp\<close>, \<open>object_storage_manager.cpp\<close>). The system calls are the record
  \<open>os_api\<close> over a state of the operating system; a call gives the new state, its return value, what it
  wrote to its buffers and \<open>errno\<close>.
\<close>

section \<open>System calls\<close>

record ('o, 'st, 'sv) os_api =
  sys_open :: "string \<Rightarrow> int \<Rightarrow> 32 word option \<Rightarrow> 'o \<Rightarrow> 'o \<times> int \<times> int"
  sys_close :: "int \<Rightarrow> 'o \<Rightarrow> 'o \<times> int \<times> int"
  sys_pread :: "int \<Rightarrow> nat \<Rightarrow> int \<Rightarrow> 'o \<Rightarrow> 'o \<times> int \<times> string"
  sys_pwrite :: "int \<Rightarrow> string \<Rightarrow> int \<Rightarrow> 'o \<Rightarrow> 'o \<times> int"
  sys_unlink :: "string \<Rightarrow> 'o \<Rightarrow> 'o \<times> int \<times> int"
  sys_mkdir :: "string \<Rightarrow> 32 word \<Rightarrow> 'o \<Rightarrow> 'o \<times> int \<times> int"
  sys_rmdir :: "string \<Rightarrow> 'o \<Rightarrow> 'o \<times> int \<times> int"
  sys_readlink :: "string \<Rightarrow> nat \<Rightarrow> 'o \<Rightarrow> int \<times> string \<times> int"
  sys_stat :: "string \<Rightarrow> 'o \<Rightarrow> int \<times> 'st \<times> int"
  sys_statvfs :: "string \<Rightarrow> 'o \<Rightarrow> int \<times> 'sv \<times> int"
  sys_symlink :: "string \<Rightarrow> string \<Rightarrow> 'o \<Rightarrow> 'o \<times> int \<times> int"
  create_directories :: "string \<Rightarrow> 'o \<Rightarrow> 'o \<times> int \<times> string"

section \<open>Open files\<close>

record PosixFileHandler =
  fh_fd :: int

definition handler_close ::
  "('o, 'st, 'sv) os_api \<Rightarrow> PosixFileHandler \<Rightarrow> 'o \<Rightarrow> 'o \<times> PosixFileHandler \<times> Status" where
  "handler_close A h os =
     (case sys_close A (fh_fd h) os of (os', ret, err) \<Rightarrow>
        if ret \<noteq> 0 then (os', h, SysErr err) else (os', h\<lparr>fh_fd := -1\<rparr>, OK))"

definition handler_destroy :: "('o, 'st, 'sv) os_api \<Rightarrow> PosixFileHandler \<Rightarrow> 'o \<Rightarrow> 'o" where
  "handler_destroy A h os = (if 0 \<le> fh_fd h then fst (handler_close A h os) else os)"

definition handler_read ::
  "('o, 'st, 'sv) os_api \<Rightarrow> PosixFileHandler \<Rightarrow> nat \<Rightarrow> int \<Rightarrow> 'o \<Rightarrow> 'o \<times> int \<times> string" where
  "handler_read A h nbytes offset os = sys_pread A (fh_fd h) nbytes offset os"

definition handler_write ::
  "('o, 'st, 'sv) os_api \<Rightarrow> PosixFileHandler \<Rightarrow> string \<Rightarrow> int \<Rightarrow> 'o \<Rightarrow> 'o \<times> int" where
  "handler_write A h buf offset os = sys_pwrite A (fh_fd h) buf offset os"

record File =
  file_handler :: "PosixFileHandler option"

definition File_new :: "int \<Rightarrow> File" where
  "File_new fd = \<lparr>file_handler = Some \<lparr>fh_fd = fd\<rparr>\<rparr>"

definition File_read :: "('o, 'st, 'sv) os_api \<Rightarrow> File \<Rightarrow> nat \<Rightarrow> int \<Rightarrow> 'o \<Rightarrow> 'o \<times> int \<times> string" where
  "File_read A f count offset os =
     (case file_handler f of Some h \<Rightarrow> handler_read A h count offset os | None \<Rightarrow> (os, -1, []))"

definition File_write :: "('o, 'st, 'sv) os_api \<Rightarrow> File \<Rightarrow> string \<Rightarrow> int \<Rightarrow> 'o \<Rightarrow> 'o \<times> int" where
  "File_write A f buf offset os =
     (case file_handler f of Some h \<Rightarrow> handler_write A h buf offset os | None \<Rightarrow> (os, -1))"

text \<open>Resetting the pointer runs the handler's destructor.\<close>

definition File_close :: "('o, 'st, 'sv) os_api \<Rightarrow> File \<Rightarrow> 'o \<Rightarrow> 'o \<times> File \<times> Status" where
  "File_close A f os =
     (case file_handler f of
        None \<Rightarrow> (os, f, OK)
      | Some h \<Rightarrow>
          (case handler_close A h os of (os', h', status) \<Rightarrow>
             if ok status then (handler_destroy A h' os', f\<lparr>file_handler := None\<rparr>, status)
             else (os', f\<lparr>file_handler := Some h'\<rparr>, status)))"

definition File_fd :: "File \<Rightarrow> int" where
  "File_fd f = (case file_handler f of Some h \<Rightarrow> fh_fd h | None \<Rightarrow> -1)"

text \<open>The destructor of a file closes it and then destroys what handler is left.\<close>

definition File_destroy :: "('o, 'st, 'sv) os_api \<Rightarrow> File \<Rightarrow> 'o \<Rightarrow> 'o" where
  "File_destroy A f os =
     (case File_close A f os of (os', f', _) \<Rightarrow>
        (case file_handler f' of None \<Rightarrow> os' | Some h \<Rightarrow> handler_destroy A h os'))"

section \<open>What both managers do with a local path\<close>

definition open_at ::
  "('o, 'st, 'sv) os_api \<Rightarrow> string \<Rightarrow> int \<Rightarrow> 32 word option \<Rightarrow> 'o \<Rightarrow> 'o \<times> (Status + File)" where
  "open_at A local_path flags md os =
     (case sys_open A local_path flags md os of (os', fd, err) \<Rightarrow>
        if fd < 0 then (os', Inl (SysErr err)) else (os', Inr (File_new fd)))"

definition checked :: "'o \<times> int \<times> int \<Rightarrow> 'o \<times> Status" where
  "checked r = (case r of (os, ret, err) \<Rightarrow> (os, if ret = -1 then SysErr err else OK))"

definition readlink_at :: "('o, 'st, 'sv) os_api \<Rightarrow> string \<Rightarrow> nat \<Rightarrow> 'o \<Rightarrow> int \<times> string \<times> Status" where
  "readlink_at A local_path sz os =
     (case sys_readlink A local_path sz os of (retlen, buf, err) \<Rightarrow>
        (retlen, buf, if retlen < 0 then SysErr err else OK))"

definition stat_at :: "int \<times> 'a \<times> int \<Rightarrow> 'a \<times> Status" where
  "stat_at r = (case r of (ret, stbuf, err) \<Rightarrow> (stbuf, if ret = -1 then SysErr err else OK))"

section \<open>PosixStorageManager\<close>

definition posix_translate_path :: "string \<Rightarrow> string \<Rightarrow> string" where
  "posix_translate_path base path = base @ path"

definition posix_open ::
  "('o, 'st, 'sv) os_api \<Rightarrow> string \<Rightarrow> string \<Rightarrow> ObjectId \<Rightarrow> int \<Rightarrow> 32 word option \<Rightarrow> 'o \<Rightarrow> 'o \<times> (Status + File)" where
  "posix_open A base path oid flags md os = open_at A (posix_translate_path base path) flags md os"

definition posix_unlink :: "('o, 'st, 'sv) os_api \<Rightarrow> string \<Rightarrow> string \<Rightarrow> ObjectId \<Rightarrow> 'o \<Rightarrow> 'o \<times> Status" where
  "posix_unlink A base path oid os = checked (sys_unlink A (posix_translate_path base path) os)"

definition posix_mkdir :: "('o, 'st, 'sv) os_api \<Rightarrow> string \<Rightarrow> string \<Rightarrow> 32 word \<Rightarrow> 'o \<Rightarrow> 'o \<times> Status" where
  "posix_mkdir A base path md os = checked (sys_mkdir A (posix_translate_path base path) md os)"

definition posix_rmdir :: "('o, 'st, 'sv) os_api \<Rightarrow> string \<Rightarrow> string \<Rightarrow> 'o \<Rightarrow> 'o \<times> Status" where
  "posix_rmdir A base path os = checked (sys_rmdir A (posix_translate_path base path) os)"

definition posix_readlink ::
  "('o, 'st, 'sv) os_api \<Rightarrow> string \<Rightarrow> string \<Rightarrow> ObjectId \<Rightarrow> nat \<Rightarrow> 'o \<Rightarrow> int \<times> string \<times> Status" where
  "posix_readlink A base path oid sz os = readlink_at A (posix_translate_path base path) sz os"

definition posix_getattr :: "('o, 'st, 'sv) os_api \<Rightarrow> string \<Rightarrow> string \<Rightarrow> ObjectId \<Rightarrow> 'o \<Rightarrow> 'st \<times> Status" where
  "posix_getattr A base path oid os = stat_at (sys_stat A (posix_translate_path base path) os)"

definition posix_statfs :: "('o, 'st, 'sv) os_api \<Rightarrow> string \<Rightarrow> 'o \<Rightarrow> 'sv \<times> Status" where
  "posix_statfs A base os = stat_at (sys_statvfs A base os)"

definition posix_symlink ::
  "('o, 'st, 'sv) os_api \<Rightarrow> string \<Rightarrow> string \<Rightarrow> string \<Rightarrow> ObjectId \<Rightarrow> 'o \<Rightarrow> 'o \<times> Status" where
  "posix_symlink A base fpath link_path oid os = checked (sys_symlink A fpath (posix_translate_path base link_path) os)"

section \<open>ObjectStorageManager\<close>

record ObjectStorageManager =
  osm_base :: string
  num_subdirs :: "32 word"

text \<open>
  \<open>obj_id % num_subdirs_\<close> on unsigned 64-bit numbers, with no defined result for zero; \<open>to_string\<close> of the
  id is signed.
\<close>

definition object_translate_path :: "path_api \<Rightarrow> ObjectStorageManager \<Rightarrow> ObjectId \<Rightarrow> string outcome" where
  "object_translate_path P m obj_id =
     (let n = unat (scast (num_subdirs m) :: 64 word) in
      if n = 0 then Fail Undefined
      else
        let subdir_num = unat obj_id mod n in
        Done (path_join P (path_join P (osm_base m) (nat_to_string subdir_num)) (int_to_string (sint obj_id))))"

fun object_init_loop ::
  "('o, 'st, 'sv) os_api \<Rightarrow> path_api \<Rightarrow> string \<Rightarrow> nat list \<Rightarrow> 'o \<Rightarrow> 'o \<times> Status" where
  "object_init_loop A P base [] os = (os, OK)"
| "object_init_loop A P base (i # is) os =
     (case create_directories A (path_join P base (nat_to_string i)) os of (os', ec, message) \<Rightarrow>
        if 0 < ec then (os', Err ec message) else object_init_loop A P base is os')"

definition object_init ::
  "('o, 'st, 'sv) os_api \<Rightarrow> path_api \<Rightarrow> ObjectStorageManager \<Rightarrow> 'o \<Rightarrow> 'o \<times> Status" where
  "object_init A P m os = object_init_loop A P (osm_base m) [0..<nat (sint (num_subdirs m))] os"

definition object_open ::
  "('o, 'st, 'sv) os_api \<Rightarrow> path_api \<Rightarrow> ObjectStorageManager \<Rightarrow> string \<Rightarrow> ObjectId \<Rightarrow> int \<Rightarrow> 32 word option \<Rightarrow> 'o \<Rightarrow>
     ('o \<times> (Status + File)) outcome" where
  "object_open A P m path obj_id flags md os =
     bindo (object_translate_path P m obj_id) (\<lambda>local_path. Done (open_at A local_path flags md os))"

definition object_unlink ::
  "('o, 'st, 'sv) os_api \<Rightarrow> path_api \<Rightarrow> ObjectStorageManager \<Rightarrow> string \<Rightarrow> ObjectId \<Rightarrow> 'o \<Rightarrow> ('o \<times> Status) outcome" where
  "object_unlink A P m path obj_id os =
     bindo (object_translate_path P m obj_id) (\<lambda>local_path. Done (checked (sys_unlink A local_path os)))"

definition object_mkdir :: "string \<Rightarrow> 32 word \<Rightarrow> Status" where
  "object_mkdir path md = OK"

definition object_rmdir :: "string \<Rightarrow> Status" where
  "object_rmdir path = OK"

definition object_readlink ::
  "('o, 'st, 'sv) os_api \<Rightarrow> path_api \<Rightarrow> ObjectStorageManager \<Rightarrow> string \<Rightarrow> ObjectId \<Rightarrow> nat \<Rightarrow> 'o \<Rightarrow>
     (int \<times> string \<times> Status) outcome" where
  "object_readlink A P m path oid sz os =
     bindo (object_translate_path P m oid) (\<lambda>local_path. Done (readlink_at A local_path sz os))"

definition object_getattr ::
  "('o, 'st, 'sv) os_api \<Rightarrow> path_api \<Rightarrow> ObjectStorageManager \<Rightarrow> string \<Rightarrow> ObjectId \<Rightarrow> 'o \<Rightarrow> ('st \<times> Status) outcome" where
  "object_getattr A P m path obj_id os =
     bindo (object_translate_path P m obj_id) (\<lambda>local_path. Done (stat_at (sys_stat A local_path os)))"

definition object_statfs :: "('o, 'st, 'sv) os_api \<Rightarrow> ObjectStorageManager \<Rightarrow> 'o \<Rightarrow> 'sv \<times> Status" where
  "object_statfs A m os = stat_at (sys_statvfs A (osm_base m) os)"

definition object_symlink ::
  "('o, 'st, 'sv) os_api \<Rightarrow> path_api \<Rightarrow> ObjectStorageManager \<Rightarrow> string \<Rightarrow> string \<Rightarrow> ObjectId \<Rightarrow> 'o \<Rightarrow> ('o \<times> Status) outcome" where
  "object_symlink A P m fpath link_path link_obj_id os =
     bindo (object_translate_path P m link_obj_id) (\<lambda>local_path. Done (checked (sys_symlink A fpath local_path os)))"

section \<open>Objects do not share files\<close>

text \<open>
  The documented behaviour of the calls on the files there are: a successful \<open>unlink\<close> removes the file it
  names and no other, a failed one removes nothing, and \<open>open\<close> touches no other file.
\<close>

definition os_laws :: "('o, 'st, 'sv) os_api \<Rightarrow> ('o \<Rightarrow> string \<Rightarrow> 'c option) \<Rightarrow> bool" where
  "os_laws A files \<longleftrightarrow>
     (\<forall>p os. case sys_unlink A p os of (os', ret, _) \<Rightarrow>
        ret = 0 \<and> files os' = (files os)(p := None) \<or> ret = -1 \<and> files os' = files os) \<and>
     (\<forall>p flags md os q. q \<noteq> p \<longrightarrow> files (fst (sys_open A p flags md os)) q = files os q)"

text \<open>A manager that gives each of its objects a place of its own.\<close>

locale placed_storage =
  fixes place :: "'k \<Rightarrow> string"
  assumes place_inject: "place a = place b \<Longrightarrow> a = b"
begin

lemma unlink_isolated:
  assumes "os_laws A files" "checked (sys_unlink A (place a) os) = (os', status)"
  shows "(if ok status then files os' (place a) = None else files os' = files os) \<and>
    (\<forall>b. b \<noteq> a \<longrightarrow> files os' (place b) = files os (place b))"
proof -
  obtain ret err where r: "sys_unlink A (place a) os = (os', ret, err)" "status = (if ret = -1 then SysErr err else OK)"
    using assms(2) by (cases "sys_unlink A (place a) os") (auto simp: checked_def)
  have "case sys_unlink A (place a) os of (os', ret, _) \<Rightarrow>
      ret = 0 \<and> files os' = (files os)(place a := None) \<or> ret = -1 \<and> files os' = files os"
    by (rule assms(1) [unfolded os_laws_def, THEN conjunct1, rule_format])
  then have f: "ret = 0 \<and> files os' = (files os)(place a := None) \<or> ret = -1 \<and> files os' = files os"
    by (simp add: r(1))
  have "b \<noteq> a \<Longrightarrow> place b \<noteq> place a" for b using place_inject by blast
  with f r(2) show ?thesis by auto
qed

lemma open_isolated:
  assumes "os_laws A files" "open_at A (place a) flags md os = (os', r)" "b \<noteq> a"
  shows "files os' (place b) = files os (place b)"
proof -
  have "fst (open_at A (place a) flags md os) = fst (sys_open A (place a) flags md os)"
    by (simp add: open_at_def split: prod.split)
  moreover have "place b \<noteq> place a" using assms(3) place_inject by blast
  ultimately show ?thesis
    using assms(1) [unfolded os_laws_def, THEN conjunct2, rule_format, where q = "place b" and p = "place a" and flags = flags and md = md and os = os] assms(2)
    by simp
qed

end

interpretation posix_place: placed_storage "posix_translate_path base" for base
  by unfold_locales (simp add: posix_translate_path_def)

definition object_place :: "path_api \<Rightarrow> string \<Rightarrow> nat \<Rightarrow> ObjectId \<Rightarrow> string" where
  "object_place P base n obj_id =
     path_join P (path_join P base (nat_to_string (unat obj_id mod n))) (int_to_string (sint obj_id))"

lemma slash_not_digit: "\<not> is_digit (CHR ''/'')"
  by (simp add: is_digit_def)

lemma nat_to_string_no_slash: "CHR ''/'' \<notin> set (nat_to_string n)"
  using nat_to_string_digits slash_not_digit by blast

lemma int_to_string_no_slash: "CHR ''/'' \<notin> set (int_to_string i)"
  using nat_to_string_no_slash by (simp add: int_to_string_def)

lemma int_to_string_nonempty: "int_to_string i \<noteq> []"
  by (simp add: int_to_string_def)

lemma join_number:
  assumes "join_law P" "a \<noteq> []" "s \<noteq> []" "CHR ''/'' \<notin> set s"
  shows "\<exists>d. path_join P a s = d @ CHR ''/'' # s"
proof -
  have h: "hd s \<noteq> CHR ''/''" using assms(3,4) hd_in_set by metis
  from assms(1) assms(2,3) h have "path_join P a s = (if last a = CHR ''/'' then a @ s else a @ CHR ''/'' # s)"
    unfolding join_law_def by blast
  moreover have "a @ s = butlast a @ CHR ''/'' # s" if "last a = CHR ''/''"
    using that assms(2) by (metis append.assoc append_Cons append_Nil append_butlast_last_id)
  ultimately show ?thesis by metis
qed

lemma after_last_slash:
  assumes "d @ CHR ''/'' # s = e @ CHR ''/'' # t" "CHR ''/'' \<notin> set s" "CHR ''/'' \<notin> set t"
  shows "s = t"
proof -
  have "takeWhile (\<lambda>c. c \<noteq> CHR ''/'') (rev (x @ CHR ''/'' # y)) = rev y" if "CHR ''/'' \<notin> set y" for x y
    using that by (auto simp: takeWhile_append)
  from this [OF assms(2), of d] this [OF assms(3), of e] assms(1) show ?thesis by simp
qed

lemma placed_object:
  assumes "join_law P" "base \<noteq> []"
  shows "placed_storage (object_place P base n)"
proof
  fix a b assume eq: "object_place P base n a = object_place P base n b"
  have ex: "\<exists>d. object_place P base n x = d @ CHR ''/'' # int_to_string (sint x)" for x
  proof -
    have "\<exists>d. path_join P base (nat_to_string (unat x mod n)) = d @ CHR ''/'' # nat_to_string (unat x mod n)"
      by (rule join_number [OF assms]) (simp_all add: nat_to_string_no_slash)
    then have "path_join P base (nat_to_string (unat x mod n)) \<noteq> []" by auto
    from join_number [OF assms(1) this int_to_string_nonempty int_to_string_no_slash] show ?thesis
      unfolding object_place_def .
  qed
  from ex [of a] ex [of b] eq have "int_to_string (sint a) = int_to_string (sint b)"
    using after_last_slash int_to_string_no_slash by metis
  then have "sint a = sint b" by (simp add: int_to_string_inject)
  then show "a = b" by (rule signed_word_eqI)
qed

interpretation object_place: placed_storage "object_place posix_paths (CHR ''/'' # dir) n" for dir n
  by (rule placed_object) (simp_all add: join_law_posix)

lemma uint_scast_64: "uint (scast (w :: 32 word) :: 64 word) = take_bit 64 (sint w)"
  by transfer simp

lemma object_translate_place:
  assumes "0 < sint (num_subdirs m)"
  shows "object_translate_path P m a = Done (object_place P (osm_base m) (nat (sint (num_subdirs m))) a)"
proof -
  have b: "sint (num_subdirs m) < 2147483648" using sint_less [of "num_subdirs m"] by simp
  have "uint (scast (num_subdirs m) :: 64 word) = take_bit 64 (sint (num_subdirs m))"
    by (rule uint_scast_64)
  also have "\<dots> = sint (num_subdirs m)"
    by (rule take_bit_int_eq_self) (use assms b in simp_all)
  finally have n: "unat (scast (num_subdirs m) :: 64 word) = nat (sint (num_subdirs m))"
    by (metis nat_uint_eq)
  have "nat (sint (num_subdirs m)) \<noteq> 0" using assms by simp
  then show ?thesis
    by (simp only: object_translate_path_def object_place_def Let_def n if_False)
qed

section \<open>Properties\<close>

text \<open>
  C34: Objects of the object storage never share a file: with at least one sub-directory, every object id
  has a path, removing an object that succeeds removes its file, a failed removal removes nothing,
  and neither a removal nor an opening touches the file of any other object, whatever path of the file
  system it is opened under.\<close>

theorem object_storage_isolated:
  assumes "join_law P" "osm_base m \<noteq> []" "0 < sint (num_subdirs m)" "os_laws A files" "b \<noteq> a"
  shows "\<exists>place os1 status os2 r. object_translate_path P m b = Done place \<and>
    object_unlink A P m path a os = Done (os1, status) \<and>
    object_open A P m path a flags md os = Done (os2, r) \<and>
    (if ok status then (\<forall>p. object_translate_path P m a = Done p \<longrightarrow> files os1 p = None) else files os1 = files os) \<and>
    files os1 place = files os place \<and> files os2 place = files os place"
proof -
  let ?place = "object_place P (osm_base m) (nat (sint (num_subdirs m)))"
  note ps = placed_object [OF assms(1,2), of "nat (sint (num_subdirs m))"]
  note tr = object_translate_place [OF assms(3), of P]
  obtain os1 status where u: "checked (sys_unlink A (?place a) os) = (os1, status)" by fastforce
  obtain os2 r where o: "open_at A (?place a) flags md os = (os2, r)" by fastforce
  note U = placed_storage.unlink_isolated [OF ps assms(4) u]
  note O = placed_storage.open_isolated [OF ps assms(4) o assms(5)]
  have "files os1 (?place b) = files os (?place b)" using U assms(5) by blast
  moreover have "if ok status then (\<forall>p. object_translate_path P m a = Done p \<longrightarrow> files os1 p = None) else files os1 = files os"
    using U tr by simp
  ultimately show ?thesis
    using O u o tr by (simp add: object_unlink_def object_open_def)
qed

text \<open>A file system that is the map of its files.\<close>

definition map_os :: "(string \<Rightarrow> string option, unit, unit) os_api" where
  "map_os =
     \<lparr>sys_open = (\<lambda>p flags md os. (os, 3, 0)), sys_close = (\<lambda>fd os. (os, 0, 0)),
      sys_pread = (\<lambda>fd n off os. (os, 0, [])), sys_pwrite = (\<lambda>fd s off os. (os, 0)),
      sys_unlink = (\<lambda>p os. if os p = None then (os, -1, ENOENT) else (os(p := None), 0, 0)),
      sys_mkdir = (\<lambda>p md os. (os, 0, 0)), sys_rmdir = (\<lambda>p os. (os, 0, 0)),
      sys_readlink = (\<lambda>p n os. (-1, [], EINVAL)), sys_stat = (\<lambda>p os. (0, (), 0)),
      sys_statvfs = (\<lambda>p os. (0, (), 0)), sys_symlink = (\<lambda>p q os. (os, 0, 0)),
      create_directories = (\<lambda>p os. (os, 0, []))\<rparr>"

lemma os_laws_map: "os_laws map_os (\<lambda>os. os)"
  by (simp add: os_laws_def map_os_def)

theorem object_storage_isolated_witness:
  "\<exists>place os1 status os2 r. object_translate_path posix_paths \<lparr>osm_base = ''/d'', num_subdirs = 8192\<rparr> 2 = Done place \<and>
    object_unlink map_os posix_paths \<lparr>osm_base = ''/d'', num_subdirs = 8192\<rparr> ''/a'' 1 (\<lambda>_. Some ''x'') = Done (os1, status) \<and>
    object_open map_os posix_paths \<lparr>osm_base = ''/d'', num_subdirs = 8192\<rparr> ''/a'' 1 0 None (\<lambda>_. Some ''x'') = Done (os2, r) \<and>
    (if ok status then (\<forall>p. object_translate_path posix_paths \<lparr>osm_base = ''/d'', num_subdirs = 8192\<rparr> 1 = Done p \<longrightarrow> os1 p = None)
     else os1 = (\<lambda>_. Some ''x'')) \<and> os1 place = Some ''x'' \<and> os2 place = Some ''x''"
  by (rule object_storage_isolated [OF join_law_posix _ _ os_laws_map]) simp_all

text \<open>
  A file is closed once. A close that succeeds makes exactly one system call; from then on reads and
  writes fail without a system call, the descriptor is \<open>-1\<close>, and closing or destroying the file
  again does nothing. A close that fails keeps the file open.\<close>

theorem file_close_once:
  assumes "File_close A (File_new fd) os = (os', f, status)"
  shows "(os', status) = (case sys_close A fd os of (o1, ret, err) \<Rightarrow> (o1, if ret = 0 then OK else SysErr err)) \<and>
    (if ok status then
       File_fd f = -1 \<and> File_read A f count offset o2 = (o2, -1, []) \<and> File_write A f buf offset o2 = (o2, -1) \<and>
       File_close A f o2 = (o2, f, OK) \<and> File_destroy A f o2 = o2
     else f = File_new fd)"
proof -
  obtain o1 ret err where c: "sys_close A fd os = (o1, ret, err)" by (cases "sys_close A fd os")
  with assms show ?thesis
    by (cases "ret = 0")
       (auto simp: File_close_def File_new_def handler_close_def handler_destroy_def File_fd_def File_read_def
          File_write_def File_destroy_def)
qed

theorem file_close_once_witness:
  "File_fd \<lparr>file_handler = None\<rparr> = -1 \<and> File_destroy map_os \<lparr>file_handler = None\<rparr> Map.empty = Map.empty"
proof -
  have "File_close map_os (File_new 3) Map.empty = (Map.empty, \<lparr>file_handler = None\<rparr>, OK)"
    by (simp add: File_close_def File_new_def handler_close_def handler_destroy_def map_os_def)
  from file_close_once [OF this, where count = 0 and offset = 0 and buf = "[]" and ?o2.0 = Map.empty] show ?thesis by simp
qed

end
