(* ===== verification/Client.thy ===== *)
theory Client
  imports Server_Map Complex_Query
begin

text \<open>
  The client library: \<open>VSFSRpcClient\<close> (\<open>vsfs/client/vsfs_rpc_client.cpp\<close>), its connection to the masters and
  its operations on files and directories. A remote call, from opening the connection to closing it, is a
  function of the record \<open>rpc_api\<close> on the state \<open>'w\<close> of the cluster; \<open>Cluster\<close> puts the models
  of the servers there.
\<close>

section \<open>Remote calls\<close>

text \<open>A call answers, is refused with \<open>RpcInvalidOp\<close>, or loses its connection.\<close>

datatype 'a rpc_result = Reply 'a | Refused RpcInvalidOp | TransportError int string

type_synonym ch_ring = "(HashValueType \<times> RpcNodeAddress) list"

record 'w rpc_api =
  m_open :: "RpcNodeAddress \<Rightarrow> 'w \<Rightarrow> 'w \<times> unit rpc_result"
  m_close :: "RpcNodeAddress \<Rightarrow> 'w \<Rightarrow> 'w \<times> unit rpc_result"
  m_get_all_masters :: "RpcNodeAddress \<Rightarrow> 'w \<Rightarrow> 'w \<times> ch_ring rpc_result"
  m_get_all_index_servers :: "RpcNodeAddress \<Rightarrow> 'w \<Rightarrow> 'w \<times> ch_ring rpc_result"
  m_create :: "RpcNodeAddress \<Rightarrow> string \<Rightarrow> int \<Rightarrow> int \<Rightarrow> int \<Rightarrow> 'w \<Rightarrow> 'w \<times> ObjectId rpc_result"
  m_remove :: "RpcNodeAddress \<Rightarrow> string \<Rightarrow> 'w \<Rightarrow> 'w \<times> ObjectId rpc_result"
  m_object_id :: "RpcNodeAddress \<Rightarrow> string \<Rightarrow> 'w \<Rightarrow> 'w \<times> ObjectId rpc_result"
  m_mkdir :: "RpcNodeAddress \<Rightarrow> string \<Rightarrow> RpcFileInfo \<Rightarrow> 'w \<Rightarrow> 'w \<times> unit rpc_result"
  m_rmdir :: "RpcNodeAddress \<Rightarrow> string \<Rightarrow> 'w \<Rightarrow> 'w \<times> unit rpc_result"
  m_readdir :: "RpcNodeAddress \<Rightarrow> string \<Rightarrow> 'w \<Rightarrow> 'w \<times> string list rpc_result"
  m_getattr :: "RpcNodeAddress \<Rightarrow> string \<Rightarrow> 'w \<Rightarrow> 'w \<times> RpcFileInfo rpc_result"
  m_setattr :: "RpcNodeAddress \<Rightarrow> string \<Rightarrow> RpcFileInfo \<Rightarrow> 'w \<Rightarrow> 'w \<times> unit rpc_result"
  m_add_subfile :: "RpcNodeAddress \<Rightarrow> string \<Rightarrow> string \<Rightarrow> 'w \<Rightarrow> 'w \<times> unit rpc_result"
  m_remove_subfile :: "RpcNodeAddress \<Rightarrow> string \<Rightarrow> string \<Rightarrow> 'w \<Rightarrow> 'w \<times> unit rpc_result"
  m_find_objects :: "RpcNodeAddress \<Rightarrow> string list \<Rightarrow> 'w \<Rightarrow> 'w \<times> ObjectId list rpc_result"
  m_find_files :: "RpcNodeAddress \<Rightarrow> ObjectId list \<Rightarrow> 'w \<Rightarrow> 'w \<times> string list rpc_result"
  m_create_index :: "RpcNodeAddress \<Rightarrow> RpcIndexCreateRequest \<Rightarrow> 'w \<Rightarrow> 'w \<times> unit rpc_result"
  m_locate_indices_for_search :: "RpcNodeAddress \<Rightarrow> string \<Rightarrow> string list \<Rightarrow> 'w \<Rightarrow> 'w \<times> string list rpc_result"
  m_locate_indices :: "RpcNodeAddress \<Rightarrow> RpcIndexInfoRequest \<Rightarrow> 'w \<Rightarrow> 'w \<times> string list rpc_result"
  i_create_index :: "RpcNodeAddress \<Rightarrow> RpcIndexCreateRequest \<Rightarrow> 'w \<Rightarrow> 'w \<times> unit rpc_result"
  i_remove_index :: "RpcNodeAddress \<Rightarrow> RpcIndexName \<Rightarrow> 'w \<Rightarrow> 'w \<times> unit rpc_result"
  i_search :: "RpcNodeAddress \<Rightarrow> RpcComplexQuery \<Rightarrow> 'w \<Rightarrow> 'w \<times> ObjectId list rpc_result"
  i_update :: "RpcNodeAddress \<Rightarrow> RpcIndexUpdate \<Rightarrow> 'w \<Rightarrow> 'w \<times> unit rpc_result"
  i_info :: "RpcNodeAddress \<Rightarrow> RpcIndexInfoRequest \<Rightarrow> 'w \<Rightarrow> 'w \<times> RpcIndexInfo rpc_result"

text \<open>
  \<open>both_caught\<close> is a call inside handlers for both exceptions, each turned into the status of its code and
  message. Where only the transport's exception is caught, a refusal leaves the function.
\<close>

definition both_caught :: "'a rpc_result \<Rightarrow> Status + 'a" where
  "both_caught r =
     (case r of Reply a \<Rightarrow> Inr a | Refused ouch \<Rightarrow> Inl (Err (what ouch) (why ouch)) | TransportError t m \<Rightarrow> Inl (Err t m))"

definition transport_caught :: "'a rpc_result \<Rightarrow> (Status + 'a) outcome" where
  "transport_caught r =
     (case r of Reply a \<Rightarrow> Done (Inr a) | Refused ouch \<Rightarrow> Fail UncaughtException | TransportError t m \<Rightarrow> Done (Inl (Err t m)))"

definition status_of :: "Status + 'a \<Rightarrow> Status" where
  "status_of r = (case r of Inl status \<Rightarrow> status | Inr _ \<Rightarrow> OK)"

section \<open>Addresses as strings\<close>

text \<open>\<open>boost::split\<close> at one character gives one field more than there are separators.\<close>

fun split_at :: "char \<Rightarrow> string \<Rightarrow> string list" where
  "split_at c [] = [[]]"
| "split_at c (x # xs) =
     (if x = c then [] # split_at c xs
      else case split_at c xs of [] \<Rightarrow> [[x]] | f # fs \<Rightarrow> (x # f) # fs)"

text \<open>
  \<open>std::stoi\<close>: white space, a sign, and the longest run of digits; the rest is ignored. No digits, and a
  value that is no \<open>int\<close>, raise exceptions nobody catches.
\<close>

definition stoi :: "string \<Rightarrow> int outcome" where
  "stoi s =
     (let t = dropWhile is_space s;
          negative = (case t of c # _ \<Rightarrow> c = CHR ''-'' | [] \<Rightarrow> False);
          u = (case t of c # r \<Rightarrow> if c = CHR ''-'' \<or> c = CHR ''+'' then r else t | [] \<Rightarrow> []);
          digits = takeWhile is_digit u;
          v = (if negative then - int (dec_value digits) else int (dec_value digits))
      in if digits = [] then Fail UncaughtException
         else if - (2 ^ 31) \<le> v \<and> v < 2 ^ 31 then Done v
         else Fail OutOfRange)"

definition string_to_address :: "string \<Rightarrow> RpcNodeAddress outcome" where
  "string_to_address addr_str =
     (case split_at CHR '':'' addr_str of
        [h, p] \<Rightarrow> bindo (stoi p) (\<lambda>n. Done \<lparr>host = h, port = n\<rparr>)
      | _ \<Rightarrow> Fail CheckFailed)"

definition address_to_string :: "RpcNodeAddress \<Rightarrow> string" where
  "address_to_string addr = host addr @ '':'' @ int_to_string (port addr)"

section \<open>The client\<close>

text \<open>
  The parameters: the remote calls, the ring, Boost's paths, the digest, vobla's reading of a system error, and
  what reading the result of a task of the thread pool a second time gives.
\<close>

record ('w, 'r) client_env =
  cl_rpc :: "'w rpc_api"
  cl_ring :: "('r, NodeInfo) ring_api"
  cl_ring_new :: 'r
  cl_paths :: path_api
  cl_md5 :: "string \<Rightarrow> 8 word list"
  cl_vobla :: vobla_api
  cl_get_again :: "Status \<Rightarrow> Status outcome"

text \<open>\<open>connected\<close> is that \<open>master_client_\<close> is not null.\<close>

record 'r VSFSRpcClient =
  connected :: bool
  master_map :: 'r
  index_server_map :: 'r
  cl_host :: string
  cl_port :: int

definition VSFSRpcClient_new :: "('w, 'r) client_env \<Rightarrow> string \<Rightarrow> int \<Rightarrow> 'r VSFSRpcClient" where
  "VSFSRpcClient_new E h p =
     \<lparr>connected = False, master_map = cl_ring_new E, index_server_map = cl_ring_new E, cl_host = h, cl_port = p\<rparr>"

definition primary :: "'r VSFSRpcClient \<Rightarrow> RpcNodeAddress" where
  "primary c = \<lparr>host = cl_host c, port = cl_port c\<rparr>"

text \<open>The status of adding a node to the cached map is not looked at.\<close>

definition cache_ring :: "('r, NodeInfo) ring_api \<Rightarrow> 'r \<Rightarrow> ch_ring \<Rightarrow> 'r" where
  "cache_ring R = foldl (\<lambda>m (sep, addr). fst (ServerMap_add_at R m sep (NodeInfo_default\<lparr>address := addr\<rparr>)))"

definition sync_master_server_map ::
  "('w, 'r) client_env \<Rightarrow> 'r VSFSRpcClient \<Rightarrow> 'w \<Rightarrow> ('w \<times> 'r VSFSRpcClient \<times> Status) outcome" where
  "sync_master_server_map E c w =
     (if \<not> connected c then Fail Undefined
      else case m_get_all_masters (cl_rpc E) (primary c) w of (w', r) \<Rightarrow>
        bindo (transport_caught r) (\<lambda>x. case x of
          Inl status \<Rightarrow> Done (w', c, status)
        | Inr ring \<Rightarrow> Done (w', c\<lparr>master_map := cache_ring (cl_ring E) (master_map c) ring\<rparr>, OK)))"

definition sync_index_server_map ::
  "('w, 'r) client_env \<Rightarrow> 'r VSFSRpcClient \<Rightarrow> 'w \<Rightarrow> ('w \<times> 'r VSFSRpcClient \<times> Status) outcome" where
  "sync_index_server_map E c w =
     (if \<not> connected c then Fail Undefined
      else case m_get_all_index_servers (cl_rpc E) (primary c) w of (w', r) \<Rightarrow>
        bindo (transport_caught r) (\<lambda>x. case x of
          Inl status \<Rightarrow> Done (w', c, status)
        | Inr ring \<Rightarrow> Done (w', c\<lparr>index_server_map := cache_ring (cl_ring E) (index_server_map c) ring\<rparr>, OK)))"

text \<open>Any other exception of \<open>open\<close> is caught too.\<close>

definition connect ::
  "('w, 'r) client_env \<Rightarrow> 'r VSFSRpcClient \<Rightarrow> string \<Rightarrow> int \<Rightarrow> 'w \<Rightarrow> 'w \<times> 'r VSFSRpcClient \<times> Status" where
  "connect E c h p w =
     (let c1 = c\<lparr>cl_host := h, cl_port := p\<rparr> in
      case m_open (cl_rpc E) (primary c1) w of
        (w', Reply _) \<Rightarrow> (w', c1\<lparr>connected := True\<rparr>, OK)
      | (w', TransportError t m) \<Rightarrow> (w', c1, Err t m)
      | (w', Refused _) \<Rightarrow> (w', c1, Err (-1) ''Unknown connection error''))"

definition disconnect :: "('w, 'r) client_env \<Rightarrow> 'r VSFSRpcClient \<Rightarrow> 'w \<Rightarrow> ('w \<times> Status) outcome" where
  "disconnect E c w =
     (if \<not> connected c then Fail Undefined
      else case m_close (cl_rpc E) (primary c) w of (w', r) \<Rightarrow>
        bindo (transport_caught r) (\<lambda>x. Done (w', status_of x)))"

definition client_init ::
  "('w, 'r) client_env \<Rightarrow> 'r VSFSRpcClient \<Rightarrow> 'w \<Rightarrow> ('w \<times> 'r VSFSRpcClient \<times> Status) outcome" where
  "client_init E c w =
     (case connect E c (cl_host c) (cl_port c) w of (w1, c1, status) \<Rightarrow>
        if \<not> ok status then Done (w1, c1, status)
        else bindo (sync_master_server_map E c1 w1) (\<lambda>(w2, c2, status).
          if \<not> ok status then Done (w2, c2, status)
          else bindo (sync_index_server_map E c2 w2) (\<lambda>(w3, c3, status). Done (w3, c3, status))))"

definition is_initialized :: "('w, 'r) client_env \<Rightarrow> 'r VSFSRpcClient \<Rightarrow> bool" where
  "is_initialized E c \<longleftrightarrow> \<not> ServerMap_empty (cl_ring E) (master_map c)"

definition not_initialized :: Status where
  "not_initialized = Err (-1) ''The client has not initialized yet.''"

text \<open>The master of a path, by its hash.\<close>

definition master_of :: "('w, 'r) client_env \<Rightarrow> 'r VSFSRpcClient \<Rightarrow> string \<Rightarrow> Status + NodeInfo" where
  "master_of E c path = ServerMap_get_path (cl_ring E) (cl_md5 E) (master_map c) path"

definition index_server_of :: "('w, 'r) client_env \<Rightarrow> 'r VSFSRpcClient \<Rightarrow> string \<Rightarrow> Status + NodeInfo" where
  "index_server_of E c path = ServerMap_get_path (cl_ring E) (cl_md5 E) (index_server_map c) path"

text \<open>\<open>CHECK(map.get(...).ok())\<close>.\<close>

definition found_node :: "Status + NodeInfo \<Rightarrow> RpcNodeAddress outcome" where
  "found_node r = (case r of Inl _ \<Rightarrow> Fail CheckFailed | Inr node \<Rightarrow> Done (address node))"

section \<open>Retries\<close>

definition kNumBackOffs :: nat where
  "kNumBackOffs = 3"

text \<open>
  The loop of \<open>add_subfile\<close> and \<open>remove_subfile\<close>. A lost connection uses up one try; a refusal uses up none, so
  the loop may go on for ever. The status of a failed try stays when a later one succeeds.
\<close>

partial_function (option) subfile_loop ::
  "('w \<Rightarrow> 'w \<times> unit rpc_result) \<Rightarrow> nat \<Rightarrow> Status \<Rightarrow> 'w \<Rightarrow> ('w \<times> Status) option" where
  "subfile_loop call backoff status w =
     (if backoff = 0 then Some (w, status)
      else case call w of (w', r) \<Rightarrow>
        (case r of
           Reply _ \<Rightarrow> Some (w', status)
         | Refused ouch \<Rightarrow> subfile_loop call backoff (Err (what ouch) (why ouch)) w'
         | TransportError t m \<Rightarrow> subfile_loop call (backoff - 1) (Err t m) w'))"

definition returned :: "'a option \<Rightarrow> 'a outcome" where
  "returned r = (case r of None \<Rightarrow> Fail NoReturn | Some a \<Rightarrow> Done a)"

definition cl_add_subfile ::
  "('w, 'r) client_env \<Rightarrow> 'r VSFSRpcClient \<Rightarrow> string \<Rightarrow> 'w \<Rightarrow> ('w \<times> Status) outcome" where
  "cl_add_subfile E c path w =
     (if path = ''/'' then Done (w, OK)
      else
        let parent = parent_path (cl_paths E) path;
            name = filename (cl_paths E) path
        in bindo (found_node (master_of E c parent)) (\<lambda>addr.
             returned (subfile_loop (m_add_subfile (cl_rpc E) addr parent name) kNumBackOffs OK w)))"

definition cl_remove_subfile ::
  "('w, 'r) client_env \<Rightarrow> 'r VSFSRpcClient \<Rightarrow> string \<Rightarrow> 'w \<Rightarrow> ('w \<times> Status) outcome" where
  "cl_remove_subfile E c path w =
     (if path = ''/'' then Done (w, OK)
      else
        let parent = parent_path (cl_paths E) path;
            name = filename (cl_paths E) path
        in bindo (found_node (master_of E c parent)) (\<lambda>addr.
             returned (subfile_loop (m_remove_subfile (cl_rpc E) addr parent name) kNumBackOffs OK w)))"

text \<open>The loop of \<open>create\<close>: every failed try counts. \<open>None\<close> is that \<open>*id\<close> was not written.\<close>

fun create_loop ::
  "('w \<Rightarrow> 'w \<times> ObjectId rpc_result) \<Rightarrow> nat \<Rightarrow> Status \<Rightarrow> 'w \<Rightarrow> 'w \<times> Status \<times> ObjectId option" where
  "create_loop call 0 status w = (w, status, None)"
| "create_loop call (Suc backoff) status w =
     (case call w of (w', r) \<Rightarrow>
        (case both_caught r of
           Inr oid \<Rightarrow> (w', status, Some oid)
         | Inl status' \<Rightarrow> create_loop call backoff status' w'))"

section \<open>Files and directories\<close>

text \<open>
  The result is the status and what was written to \<open>*id\<close>. After a failed \<open>add_subfile\<close> the record is removed
  and, when that succeeds, \<open>OK\<close> is returned.
\<close>

definition cl_create ::
  "('w, 'r) client_env \<Rightarrow> 'r VSFSRpcClient \<Rightarrow> string \<Rightarrow> int \<Rightarrow> int \<Rightarrow> int \<Rightarrow> 'w \<Rightarrow>
     ('w \<times> Status \<times> ObjectId option) outcome" where
  "cl_create E c path md u g w =
     (if \<not> is_initialized E c then Done (w, not_initialized, None)
      else case master_of E c path of
        Inl status \<Rightarrow> Done (w, status, None)
      | Inr node \<Rightarrow>
          (case create_loop (m_create (cl_rpc E) (address node) path (md OR 0x8000) u g) kNumBackOffs OK w of
             (w1, status, oid) \<Rightarrow>
               if \<not> ok status then Done (w1, status, oid)
               else bindo (cl_add_subfile E c path w1) (\<lambda>(w2, status).
                 if \<not> ok status then
                   (case m_remove (cl_rpc E) (address node) path w2 of (w3, r) \<Rightarrow>
                      (case both_caught r of Inl status' \<Rightarrow> Done (w3, status', oid) | Inr _ \<Rightarrow> Done (w3, OK, oid)))
                 else Done (w2, OK, oid))))"

definition cl_open ::
  "('w, 'r) client_env \<Rightarrow> 'r VSFSRpcClient \<Rightarrow> string \<Rightarrow> 'w \<Rightarrow> ('w \<times> (Status + ObjectId)) outcome" where
  "cl_open E c path w =
     (case master_of E c path of
        Inl status \<Rightarrow> Done (w, Inl status)
      | Inr node \<Rightarrow>
          (case m_object_id (cl_rpc E) (address node) path w of (w', r) \<Rightarrow>
             bindo (transport_caught r) (\<lambda>x. Done (w', x))))"

definition cl_unlink ::
  "('w, 'r) client_env \<Rightarrow> 'r VSFSRpcClient \<Rightarrow> string \<Rightarrow> 'w \<Rightarrow> ('w \<times> (Status + ObjectId)) outcome" where
  "cl_unlink E c path w =
     bindo (cl_remove_subfile E c path w) (\<lambda>(w1, status).
       if \<not> ok status then Done (w1, Inl status)
       else bindo (found_node (master_of E c path)) (\<lambda>addr.
         case m_remove (cl_rpc E) addr path w1 of (w2, r) \<Rightarrow> Done (w2, both_caught r)))"

definition RpcFileInfo_default :: RpcFileInfo where
  "RpcFileInfo_default =
     \<lparr>fi_object_id = None, fi_uid = None, fi_gid = None, fi_mode = None, fi_size = None,
      fi_ctime = None, fi_mtime = None, fi_atime = None\<rparr>"

definition cl_mkdir ::
  "('w, 'r) client_env \<Rightarrow> 'r VSFSRpcClient \<Rightarrow> string \<Rightarrow> int \<Rightarrow> int \<Rightarrow> int \<Rightarrow> 'w \<Rightarrow> ('w \<times> Status) outcome" where
  "cl_mkdir E c path md u g w =
     (if \<not> is_initialized E c then Done (w, not_initialized)
      else case master_of E c path of
        Inl status \<Rightarrow> Done (w, status)
      | Inr node \<Rightarrow>
          (let dir_info = RpcFileInfo_default\<lparr>fi_uid := Some u, fi_gid := Some g, fi_mode := Some (md OR 0x4000)\<rparr>
           in case m_mkdir (cl_rpc E) (address node) path dir_info w of (w1, r) \<Rightarrow>
             (case both_caught r of
                Inl status \<Rightarrow> Done (w1, status)
              | Inr _ \<Rightarrow>
                  bindo (cl_add_subfile E c path w1) (\<lambda>(w2, status).
                    if \<not> ok status then
                      (case m_remove (cl_rpc E) (address node) path w2 of (w3, r) \<Rightarrow>
                         bindo (transport_caught r) (\<lambda>x. Done (w3, status_of x)))
                    else Done (w2, OK)))))"

definition cl_rmdir ::
  "('w, 'r) client_env \<Rightarrow> 'r VSFSRpcClient \<Rightarrow> string \<Rightarrow> 'w \<Rightarrow> ('w \<times> Status) outcome" where
  "cl_rmdir E c path w =
     (if \<not> is_initialized E c then Done (w, not_initialized)
      else case master_of E c path of
        Inl status \<Rightarrow> Done (w, status)
      | Inr node \<Rightarrow>
          (case m_rmdir (cl_rpc E) (address node) path w of (w1, r) \<Rightarrow>
             (case both_caught r of
                Inl status \<Rightarrow> Done (w1, status)
              | Inr _ \<Rightarrow> cl_remove_subfile E c path w1)))"

text \<open>A call on the master of a path, with both exceptions caught and a \<open>CHECK\<close> that there is one.\<close>

definition on_master ::
  "('w, 'r) client_env \<Rightarrow> 'r VSFSRpcClient \<Rightarrow> string \<Rightarrow> (RpcNodeAddress \<Rightarrow> 'w \<Rightarrow> 'w \<times> 'a rpc_result) \<Rightarrow> 'w \<Rightarrow>
     ('w \<times> (Status + 'a)) outcome" where
  "on_master E c path call w =
     bindo (found_node (master_of E c path)) (\<lambda>addr. case call addr w of (w', r) \<Rightarrow> Done (w', both_caught r))"

definition cl_readdir ::
  "('w, 'r) client_env \<Rightarrow> 'r VSFSRpcClient \<Rightarrow> string \<Rightarrow> 'w \<Rightarrow> ('w \<times> (Status + string list)) outcome" where
  "cl_readdir E c dirpath w = on_master E c dirpath (\<lambda>addr. m_readdir (cl_rpc E) addr dirpath) w"

definition cl_getattr ::
  "('w, 'r) client_env \<Rightarrow> 'r VSFSRpcClient \<Rightarrow> string \<Rightarrow> 'w \<Rightarrow> ('w \<times> (Status + RpcFileInfo)) outcome" where
  "cl_getattr E c path w = on_master E c path (\<lambda>addr. m_getattr (cl_rpc E) addr path) w"

text \<open>An unset field reads as zero; \<open>mode_t\<close>, \<open>uid_t\<close> and \<open>gid_t\<close> have 32 bits.\<close>

record stat =
  st_mode :: "32 word"
  st_size :: int
  st_uid :: "32 word"
  st_gid :: "32 word"
  st_atime :: int
  st_ctime :: int
  st_mtime :: int

definition or_zero :: "int option \<Rightarrow> int" where
  "or_zero v = (case v of None \<Rightarrow> 0 | Some x \<Rightarrow> x)"

definition stat_of_info :: "RpcFileInfo \<Rightarrow> stat" where
  "stat_of_info info =
     \<lparr>st_mode = word_of_int (or_zero (fi_mode info)), st_size = or_zero (fi_size info),
      st_uid = word_of_int (or_zero (fi_uid info)), st_gid = word_of_int (or_zero (fi_gid info)),
      st_atime = or_zero (fi_atime info), st_ctime = or_zero (fi_ctime info), st_mtime = or_zero (fi_mtime info)\<rparr>"

definition cl_getattr_stat ::
  "('w, 'r) client_env \<Rightarrow> 'r VSFSRpcClient \<Rightarrow> string \<Rightarrow> 'w \<Rightarrow> ('w \<times> (Status + stat)) outcome" where
  "cl_getattr_stat E c path w =
     bindo (cl_getattr E c path w) (\<lambda>(w', x). Done (w', map_sum id stat_of_info x))"

definition cl_object_id ::
  "('w, 'r) client_env \<Rightarrow> 'r VSFSRpcClient \<Rightarrow> string \<Rightarrow> 'w \<Rightarrow> ('w \<times> (Status + ObjectId)) outcome" where
  "cl_object_id E c path w = on_master E c path (\<lambda>addr. m_object_id (cl_rpc E) addr path) w"

definition cl_setattr ::
  "('w, 'r) client_env \<Rightarrow> 'r VSFSRpcClient \<Rightarrow> string \<Rightarrow> RpcFileInfo \<Rightarrow> 'w \<Rightarrow> ('w \<times> Status) outcome" where
  "cl_setattr E c path info w =
     bindo (on_master E c path (\<lambda>addr. m_setattr (cl_rpc E) addr path info) w) (\<lambda>(w', x). Done (w', status_of x))"

definition cl_chmod ::
  "('w, 'r) client_env \<Rightarrow> 'r VSFSRpcClient \<Rightarrow> string \<Rightarrow> 32 word \<Rightarrow> 'w \<Rightarrow> ('w \<times> Status) outcome" where
  "cl_chmod E c path md w = cl_setattr E c path (RpcFileInfo_default\<lparr>fi_mode := Some (uint md)\<rparr>) w"

definition cl_chown ::
  "('w, 'r) client_env \<Rightarrow> 'r VSFSRpcClient \<Rightarrow> string \<Rightarrow> int \<Rightarrow> int \<Rightarrow> 'w \<Rightarrow> ('w \<times> Status) outcome" where
  "cl_chown E c path u g w =
     cl_setattr E c path (RpcFileInfo_default\<lparr>fi_uid := Some u, fi_gid := Some g\<rparr>) w"

definition cl_utimens ::
  "('w, 'r) client_env \<Rightarrow> 'r VSFSRpcClient \<Rightarrow> string \<Rightarrow> int \<Rightarrow> int \<Rightarrow> 'w \<Rightarrow> ('w \<times> Status) outcome" where
  "cl_utimens E c path at mt w =
     cl_setattr E c path (RpcFileInfo_default\<lparr>fi_mtime := Some mt, fi_atime := Some at\<rparr>) w"

section \<open>Addresses survive the way through a string\<close>

lemma split_at_none: "c \<notin> set s \<Longrightarrow> split_at c s = [s]"
  by (induction s) auto

lemma split_at_nonempty [simp]: "split_at c s \<noteq> []"
  by (induction s) (auto split: list.split)

lemma length_split_at: "length (split_at c s) = Suc (length (filter (\<lambda>x. x = c) s))"
proof (induction s)
  case (Cons x xs)
  then show ?case by (cases "split_at c xs") auto
qed simp

lemma split_at_append: "c \<notin> set s \<Longrightarrow> split_at c (s @ c # t) = s # split_at c t"
  by (induction s) auto

lemma digit_not_colon: "is_digit c \<Longrightarrow> c \<noteq> CHR '':'' \<and> \<not> is_space c \<and> c \<noteq> CHR ''-'' \<and> c \<noteq> CHR ''+''"
  by (auto simp: is_digit_def is_space_def)

lemma int_to_string_no_colon: "CHR '':'' \<notin> set (int_to_string i)"
  using nat_to_string_digits digit_not_colon by (auto simp: int_to_string_def)

lemma takeWhile_digits [simp]: "takeWhile is_digit (nat_to_string n) = nat_to_string n"
  by (simp add: takeWhile_eq_all_conv nat_to_string_digits)

lemma stoi_int_to_string:
  "stoi (int_to_string i) = (if - (2 ^ 31) \<le> i \<and> i < 2 ^ 31 then Done i else Fail OutOfRange)"
proof -
  obtain c s where n: "nat_to_string (nat i) = c # s" by (metis nat_to_string_nonempty neq_Nil_conv)
  then have "is_digit c" using hd_nat_to_string_digit [of "nat i"] by simp
  note c = digit_not_colon [OF this]
  have dash: "\<not> is_space CHR ''-''" by (simp add: is_space_def)
  show ?thesis
  proof (cases "i < 0")
    case True
    with dash show ?thesis by (simp add: stoi_def int_to_string_def Let_def)
  next
    case False
    have t: "takeWhile is_digit (c # s) = c # s" using n takeWhile_digits [of "nat i"] by simp
    have v: "int (dec_value (c # s)) = i" using n False dec_value_nat_to_string [of "nat i"] by simp
    show ?thesis using False c n v by (simp add: stoi_def int_to_string_def Let_def t del: takeWhile.simps)
  qed
qed

lemma string_to_address_plain:
  assumes "CHR '':'' \<notin> set (host a)"
  shows "string_to_address (address_to_string a) =
    (if - (2 ^ 31) \<le> port a \<and> port a < 2 ^ 31 then Done a else Fail OutOfRange)"
  using split_at_append [OF assms, of "int_to_string (port a)"]
  by (simp add: string_to_address_def address_to_string_def split_at_none int_to_string_no_colon stoi_int_to_string)

text \<open>The addresses that survive the way through a string.\<close>

definition plain_address :: "RpcNodeAddress \<Rightarrow> bool" where
  "plain_address a \<longleftrightarrow> CHR '':'' \<notin> set (host a) \<and> - (2 ^ 31) \<le> port a \<and> port a < 2 ^ 31"

lemma string_to_plain_address: "plain_address a \<Longrightarrow> string_to_address (address_to_string a) = Done a"
  by (simp add: plain_address_def string_to_address_plain)

text \<open>
  The keys of the client's maps are addresses written as \<open>host:port\<close>. Reading such a key back gives the
  address it was made from for every port an \<open>int\<close> holds, unless the host itself has a colon, as an
  IPv6 address does: then the client aborts.\<close>

theorem address_roundtrip:
  "string_to_address (address_to_string a) =
     (if CHR '':'' \<in> set (host a) then Fail CheckFailed
      else if - (2 ^ 31) \<le> port a \<and> port a < 2 ^ 31 then Done a
      else Fail OutOfRange)"
proof (cases "CHR '':'' \<in> set (host a)")
  case True
  let ?fs = "split_at CHR '':'' (address_to_string a)"
  from True have "0 < length (filter (\<lambda>x. x = CHR '':'') (host a))" by (auto simp: filter_empty_conv)
  then have "2 < length ?fs" by (simp add: length_split_at address_to_string_def)
  with True show ?thesis by (auto simp: string_to_address_def split: list.split)
qed (simp add: string_to_address_plain)

section \<open>When the retries end\<close>

text \<open>
  The state after a number of tries, and how many of them lost their connection. The tries before the loop
  returns are these.
\<close>

fun after_tries :: "('w \<Rightarrow> 'w \<times> unit rpc_result) \<Rightarrow> nat \<Rightarrow> 'w \<Rightarrow> 'w" where
  "after_tries call 0 w = w"
| "after_tries call (Suc n) w = after_tries call n (fst (call w))"

definition lost :: "'a rpc_result \<Rightarrow> bool" where
  "lost r \<longleftrightarrow> (\<exists>t m. r = TransportError t m)"

fun lost_tries :: "('w \<Rightarrow> 'w \<times> unit rpc_result) \<Rightarrow> nat \<Rightarrow> 'w \<Rightarrow> nat" where
  "lost_tries call 0 w = 0"
| "lost_tries call (Suc n) w = (if lost (snd (call w)) then 1 else 0) + lost_tries call n (fst (call w))"

definition ends :: "('w \<Rightarrow> 'w \<times> unit rpc_result) \<Rightarrow> nat \<Rightarrow> 'w \<Rightarrow> bool" where
  "ends call backoff w \<longleftrightarrow>
     (\<exists>n. snd (call (after_tries call n w)) = Reply () \<or> backoff \<le> lost_tries call n w)"

lemma ends_step:
  assumes "snd (call w) \<noteq> Reply ()"
  shows "ends call backoff w \<longleftrightarrow> ends call (if lost (snd (call w)) then backoff - 1 else backoff) (fst (call w))"
    (is "?a \<longleftrightarrow> ?b")
proof
  assume ?a
  then obtain n where n: "snd (call (after_tries call n w)) = Reply () \<or> backoff \<le> lost_tries call n w"
    by (auto simp: ends_def)
  show ?b
  proof (cases n)
    case 0
    with n assms have "backoff = 0" by simp
    then show ?thesis by (simp add: ends_def)
  next
    case (Suc k)
    with n show ?thesis unfolding ends_def by (intro exI [of _ k]) (auto split: if_splits)
  qed
next
  assume ?b
  then obtain n where "snd (call (after_tries call n (fst (call w)))) = Reply () \<or>
      (if lost (snd (call w)) then backoff - 1 else backoff) \<le> lost_tries call n (fst (call w))"
    by (auto simp: ends_def)
  then have "snd (call (after_tries call (Suc n) w)) = Reply () \<or> backoff \<le> lost_tries call (Suc n) w"
    by (auto split: if_splits)
  then show ?a unfolding ends_def by blast
qed

lemma subfile_loop_ends: "subfile_loop call backoff status w = Some r \<Longrightarrow> ends call backoff w"
proof (rule subfile_loop.raw_induct [where P = "\<lambda>call backoff status w r. ends call backoff w"])
  fix loop and call :: "'a \<Rightarrow> 'a \<times> unit rpc_result" and b s w y
  assume IH: "\<And>call b s w y. loop call b s w = Some y \<Longrightarrow> ends call b w"
    and step: "(if b = 0 then Some (w, s) else case call w of (w', r) \<Rightarrow>
        (case r of Reply _ \<Rightarrow> Some (w', s) | Refused ouch \<Rightarrow> loop call b (Err (what ouch) (why ouch)) w'
         | TransportError t m \<Rightarrow> loop call (b - 1) (Err t m) w')) = Some y"
  obtain w' r where c: "call w = (w', r)" by fastforce
  show "ends call b w"
  proof (cases "b = 0 \<or> r = Reply ()")
    case True
    have "snd (call (after_tries call 0 w)) = Reply () \<or> b \<le> lost_tries call 0 w"
      using True c by auto
    then show ?thesis unfolding ends_def by blast
  next
    case False
    with ends_step [of call w b] c IH step show ?thesis
      by (cases r) (auto simp: lost_def)
  qed
qed

lemma subfile_loop_returns:
  "snd (call (after_tries call n w)) = Reply () \<or> backoff \<le> lost_tries call n w \<Longrightarrow>
     \<exists>r. subfile_loop call backoff status w = Some r"
proof (induction n arbitrary: backoff status w)
  case 0
  then show ?case by (subst subfile_loop.simps) (auto split: prod.splits)
next
  case (Suc n)
  obtain w' r where c: "call w = (w', r)" by fastforce
  show ?case
  proof (cases "backoff = 0 \<or> r = Reply ()")
    case True
    with c show ?thesis by (subst subfile_loop.simps) auto
  next
    case False
    have "\<exists>x. subfile_loop call (if lost r then backoff - 1 else backoff) status' w' = Some x" for status'
      using Suc.prems c by (intro Suc.IH) (auto split: if_splits)
    with False c show ?thesis by (subst subfile_loop.simps) (cases r; auto simp: lost_def)
  qed
qed

lemma subfile_loop_iff: "(\<exists>r. subfile_loop call backoff status w = Some r) \<longleftrightarrow> ends call backoff w"
  using subfile_loop_ends subfile_loop_returns unfolding ends_def by metis

lemma subfile_loop_refused:
  assumes "P w" "0 < backoff" "\<And>w. P w \<Longrightarrow> \<exists>w' e. call w = (w', Refused e) \<and> P w'"
  shows "subfile_loop call backoff status w = None"
proof -
  have "snd (call (after_tries call n v)) \<noteq> Reply () \<and> lost_tries call n v = 0" if "P v" for n v
    using that
  proof (induction n arbitrary: v)
    case 0
    then show ?case using assms(3) [OF 0] by auto
  next
    case (Suc n)
    with assms(3) [OF Suc.prems] show ?case by (auto simp: lost_def)
  qed
  with assms(1,2) have "\<not> ends call backoff w" by (auto simp: ends_def)
  then show ?thesis using subfile_loop_iff [of call backoff status w] by (cases "subfile_loop call backoff status w") auto
qed

section \<open>What the masters promise the client\<close>

text \<open>
  The contract of the masters as a client sees it. Each address has the files and directories it answers for:
  \<open>file_at\<close> the ids of its files, \<open>dir_at\<close> the entries of its directories. \<open>alive\<close> is that calls reach the master,
  \<open>free\<close> that it can create a path, \<open>valid_path\<close> that it accepts a path.
\<close>

locale file_service =
  fixes rpc :: "'w rpc_api"
    and alive :: "'w \<Rightarrow> RpcNodeAddress \<Rightarrow> bool"
    and valid_path :: "string \<Rightarrow> bool"
    and free :: "'w \<Rightarrow> RpcNodeAddress \<Rightarrow> string \<Rightarrow> bool"
    and file_at :: "'w \<Rightarrow> RpcNodeAddress \<Rightarrow> string \<Rightarrow> ObjectId option"
    and dir_at :: "'w \<Rightarrow> RpcNodeAddress \<Rightarrow> string \<Rightarrow> string list option"
  assumes create_replies: "alive w a \<Longrightarrow> valid_path p \<Longrightarrow> free w a p \<Longrightarrow>
      \<exists>w' oid. m_create rpc a p md u g w = (w', Reply oid) \<and> alive w' = alive w \<and> dir_at w' = dir_at w \<and>
        file_at w' = (file_at w)(a := (file_at w a)(p \<mapsto> oid))"
    and free_unused: "free w a p \<Longrightarrow> file_at w a p = None"
    and link_replies: "alive w a \<Longrightarrow> valid_path d \<Longrightarrow> dir_at w a d = Some fs \<Longrightarrow> f \<notin> set fs \<Longrightarrow>
      \<exists>w'. m_add_subfile rpc a d f w = (w', Reply ()) \<and> alive w' = alive w \<and> file_at w' = file_at w \<and>
        dir_at w' = (dir_at w)(a := (dir_at w a)(d \<mapsto> sset_insert f fs))"
    and link_refused: "alive w a \<Longrightarrow> \<forall>fs. dir_at w a d = Some fs \<longrightarrow> f \<in> set fs \<Longrightarrow>
      \<exists>e. m_add_subfile rpc a d f w = (w, Refused e)"
    and unlink_replies: "alive w a \<Longrightarrow> dir_at w a d = Some fs \<Longrightarrow> f \<in> set fs \<Longrightarrow>
      \<exists>w'. m_remove_subfile rpc a d f w = (w', Reply ()) \<and> alive w' = alive w \<and> file_at w' = file_at w \<and>
        dir_at w' = (dir_at w)(a := (dir_at w a)(d \<mapsto> sset_erase f fs))"
    and remove_replies: "alive w a \<Longrightarrow> file_at w a p = Some oid \<Longrightarrow>
      \<exists>w'. m_remove rpc a p w = (w', Reply oid) \<and> alive w' = alive w \<and> dir_at w' = dir_at w \<and>
        file_at w' = (file_at w)(a := (file_at w a)(p := None))"
    and id_replies: "alive w a \<Longrightarrow> file_at w a p = Some oid \<Longrightarrow> m_object_id rpc a p w = (w, Reply oid)"
    and readdir_replies: "alive w a \<Longrightarrow> valid_path d \<Longrightarrow> dir_at w a d = Some fs \<Longrightarrow> m_readdir rpc a d w = (w, Reply fs)"
    and dirs_sorted: "alive w a \<Longrightarrow> dir_at w a d = Some fs \<Longrightarrow> sset_ok fs"
begin

text \<open>The setting of a new path: the client knows a master of the path and one of its parent, and both are up.\<close>

definition placed ::
  "('w, 'r) client_env \<Rightarrow> 'r VSFSRpcClient \<Rightarrow> 'w \<Rightarrow> string \<Rightarrow> RpcNodeAddress \<Rightarrow> RpcNodeAddress \<Rightarrow> bool" where
  "placed E c w path a d \<longleftrightarrow>
     cl_rpc E = rpc \<and> is_initialized E c \<and> path \<noteq> ''/'' \<and> valid_path path \<and> valid_path (parent_path (cl_paths E) path) \<and>
     found_node (master_of E c path) = Done a \<and> found_node (master_of E c (parent_path (cl_paths E) path)) = Done d \<and>
     alive w a \<and> alive w d"

lemma found_node_iff: "found_node r = Done a \<longleftrightarrow> (\<exists>node. r = Inr node \<and> address node = a)"
  by (cases r) (auto simp: found_node_def)

lemma subfile_loop_first:
  "call w = (w', Reply ()) \<Longrightarrow> subfile_loop call kNumBackOffs OK w = Some (w', OK)"
  by (subst subfile_loop.simps) (simp add: kNumBackOffs_def)

lemma create_loop_first:
  "call w = (w', Reply oid) \<Longrightarrow> create_loop call kNumBackOffs OK w = (w', OK, Some oid)"
  by (simp add: kNumBackOffs_def numeral_3_eq_3 both_caught_def)

lemma create_linked:
  assumes "placed E c w path a d" "free w a path"
    and "dir_at w d (parent_path (cl_paths E) path) = Some fs" "filename (cl_paths E) path \<notin> set fs"
  shows "\<exists>w' oid. cl_create E c path md u g w = Done (w', OK, Some oid) \<and> alive w' = alive w \<and>
    file_at w' = (file_at w)(a := (file_at w a)(path \<mapsto> oid)) \<and>
    dir_at w' = (dir_at w)(d := (dir_at w d)(parent_path (cl_paths E) path \<mapsto> sset_insert (filename (cl_paths E) path) fs)) \<and>
    (\<exists>v. m_create rpc a path (md OR 0x8000) u g w = (v, Reply oid) \<and>
      m_add_subfile rpc d (parent_path (cl_paths E) path) (filename (cl_paths E) path) v = (w', Reply ()))"
proof -
  let ?d = "parent_path (cl_paths E) path" and ?f = "filename (cl_paths E) path"
  note p = assms(1) [unfolded placed_def found_node_iff]
  from create_replies [of w a path "md OR 0x8000" u g] p assms(2) obtain w1 oid where
    1: "m_create rpc a path (md OR 0x8000) u g w = (w1, Reply oid)" "alive w1 = alive w" "dir_at w1 = dir_at w"
      "file_at w1 = (file_at w)(a := (file_at w a)(path \<mapsto> oid))" by auto
  have "alive w1 d" "dir_at w1 d ?d = Some fs" using p 1 assms(3) by auto
  from link_replies [OF this(1) _ this(2) assms(4)] p obtain w2 where
    2: "m_add_subfile rpc d ?d ?f w1 = (w2, Reply ())" "alive w2 = alive w1" "file_at w2 = file_at w1"
      "dir_at w2 = (dir_at w1)(d := (dir_at w1 d)(?d \<mapsto> sset_insert ?f fs))" by blast
  have "cl_create E c path md u g w = Done (w2, OK, Some oid)"
    using p create_loop_first [of "m_create rpc a path (md OR 0x8000) u g" w, OF 1(1)]
      subfile_loop_first [of "m_add_subfile rpc d ?d ?f" w1, OF 2(1)]
    by (auto simp: cl_create_def cl_add_subfile_def found_node_def returned_def Let_def)
  with 1 2 show ?thesis by auto
qed

text \<open>A refused link is tried again for ever.\<close>

lemma create_refused:
  assumes "placed E c w path a d" "free w a path"
    and "\<forall>fs. dir_at w d (parent_path (cl_paths E) path) = Some fs \<longrightarrow> filename (cl_paths E) path \<in> set fs"
  shows "cl_create E c path md u g w = Fail NoReturn"
proof -
  let ?d = "parent_path (cl_paths E) path" and ?f = "filename (cl_paths E) path"
  note p = assms(1) [unfolded placed_def found_node_iff]
  from create_replies [of w a path "md OR 0x8000" u g] p assms(2) obtain w1 oid where
    1: "m_create rpc a path (md OR 0x8000) u g w = (w1, Reply oid)" "alive w1 = alive w" "dir_at w1 = dir_at w" by auto
  have "\<exists>e. m_add_subfile rpc d ?d ?f w1 = (w1, Refused e)"
    using p 1 assms(3) by (intro link_refused) auto
  then have "subfile_loop (m_add_subfile rpc d ?d ?f) kNumBackOffs OK w1 = None"
    by (intro subfile_loop_refused [of "\<lambda>w. w = w1"]) (auto simp: kNumBackOffs_def)
  with p create_loop_first [of "m_create rpc a path (md OR 0x8000) u g" w, OF 1(1)] show ?thesis
    by (auto simp: cl_create_def cl_add_subfile_def found_node_def returned_def Let_def)
qed

lemma unlink_linked:
  assumes "placed E c w path a d" "file_at w a path = Some oid"
    and "dir_at w d (parent_path (cl_paths E) path) = Some fs" "filename (cl_paths E) path \<in> set fs"
  shows "\<exists>w'. cl_unlink E c path w = Done (w', Inr oid) \<and> alive w' = alive w \<and>
    file_at w' = (file_at w)(a := (file_at w a)(path := None)) \<and>
    dir_at w' = (dir_at w)(d := (dir_at w d)(parent_path (cl_paths E) path \<mapsto> sset_erase (filename (cl_paths E) path) fs))"
proof -
  let ?d = "parent_path (cl_paths E) path" and ?f = "filename (cl_paths E) path"
  note p = assms(1) [unfolded placed_def found_node_iff]
  from unlink_replies [OF _ assms(3,4)] p obtain w1 where
    1: "m_remove_subfile rpc d ?d ?f w = (w1, Reply ())" "alive w1 = alive w" "file_at w1 = file_at w"
      "dir_at w1 = (dir_at w)(d := (dir_at w d)(?d \<mapsto> sset_erase ?f fs))" by blast
  have "alive w1 a" "file_at w1 a path = Some oid" using p 1 assms(2) by auto
  from remove_replies [OF this] obtain w2 where
    2: "m_remove rpc a path w1 = (w2, Reply oid)" "alive w2 = alive w1" "dir_at w2 = dir_at w1"
      "file_at w2 = (file_at w1)(a := (file_at w1 a)(path := None))" by blast
  have "cl_unlink E c path w = Done (w2, Inr oid)"
    using p subfile_loop_first [of "m_remove_subfile rpc d ?d ?f" w, OF 1(1)] 2(1)
    by (auto simp: cl_unlink_def cl_remove_subfile_def found_node_def returned_def both_caught_def Let_def
        simp del: bindo_Done_iff)
  with 1 2 show ?thesis by auto
qed

lemma create_seen:
  assumes "placed E c w path a d" "free w a path"
    and "dir_at w d (parent_path (cl_paths E) path) = Some fs" "filename (cl_paths E) path \<notin> set fs"
  shows "\<exists>w1 oid. cl_create E c path md u g w = Done (w1, OK, Some oid) \<and>
    cl_object_id E c path w1 = Done (w1, Inr oid) \<and>
    cl_readdir E c (parent_path (cl_paths E) path) w1 = Done (w1, Inr (sset_insert (filename (cl_paths E) path) fs)) \<and>
    (\<exists>w2. cl_unlink E c path w1 = Done (w2, Inr oid) \<and> file_at w2 = file_at w \<and> dir_at w2 = dir_at w)"
proof -
  let ?d = "parent_path (cl_paths E) path" and ?f = "filename (cl_paths E) path"
  note p = assms(1) [unfolded placed_def]
  from create_linked [OF assms, of md u g] obtain w1 oid where
    1: "cl_create E c path md u g w = Done (w1, OK, Some oid)" "alive w1 = alive w"
      "file_at w1 = (file_at w)(a := (file_at w a)(path \<mapsto> oid))"
      "dir_at w1 = (dir_at w)(d := (dir_at w d)(?d \<mapsto> sset_insert ?f fs))" by blast
  have p1: "placed E c w1 path a d" using assms(1) 1(2) by (simp add: placed_def)
  have f1: "file_at w1 a path = Some oid" and d1: "dir_at w1 d ?d = Some (sset_insert ?f fs)" using 1 by auto
  from unlink_linked [OF p1 f1 d1] obtain w2 where
    2: "cl_unlink E c path w1 = Done (w2, Inr oid)" "file_at w2 = (file_at w1)(a := (file_at w1 a)(path := None))"
      "dir_at w2 = (dir_at w1)(d := (dir_at w1 d)(?d \<mapsto> sset_erase ?f (sset_insert ?f fs)))" by auto
  have s: "sset_erase ?f (sset_insert ?f fs) = fs"
    using dirs_sorted [OF _ assms(3)] p assms(4) sset_erase_insert by blast
  have "file_at w2 = file_at w" using 1(3) 2(2) free_unused [OF assms(2)] by (auto simp: fun_eq_iff)
  moreover have "dir_at w2 = dir_at w" using 1(4) 2(3) s assms(3) by (auto simp: fun_eq_iff)
  moreover have "cl_object_id E c path w1 = Done (w1, Inr oid)"
    using p id_replies [OF _ f1] 1(2) by (auto simp: cl_object_id_def on_master_def both_caught_def)
  moreover have "cl_readdir E c ?d w1 = Done (w1, Inr (sset_insert ?f fs))"
    using p readdir_replies [OF _ _ d1] 1(2) by (auto simp: cl_readdir_def on_master_def both_caught_def)
  ultimately show ?thesis using 1(1) 2(1) by blast
qed

end

end
