(* ===== verification/Client_Index.thy ===== *)
theory Client_Index
  imports Client Index
begin

text \<open>
  The operations of \<open>VSFSRpcClient\<close> on indices (\<open>vsfs/client/vsfs_rpc_client.cpp\<close>): creating and removing an
  index, updates, searches and the listing of indices. The ordered maps the client groups its requests in are
  association lists in the order of their keys.
\<close>

section \<open>Creating and removing\<close>

definition status_error :: "vobla_api \<Rightarrow> Status \<Rightarrow> int" where
  "status_error V status = what (status_to_rpc_invalid_op V status)"

text \<open>Every partition is tried; the last error is the result, and that of \<open>unlink\<close> is dropped.\<close>

fun remove_partitions ::
  "('w, 'r) client_env \<Rightarrow> 'r VSFSRpcClient \<Rightarrow> RpcIndexName \<Rightarrow> string \<Rightarrow> string list \<Rightarrow> Status \<Rightarrow> 'w \<Rightarrow>
     ('w \<times> Status) outcome" where
  "remove_partitions E c request full_path [] status w = Done (w, status)"
| "remove_partitions E c request full_path (part # parts) status w =
     (let path = path_join (cl_paths E) full_path part in
      bindo (cl_unlink E c path w) (\<lambda>(w1, _).
      bindo (found_node (index_server_of E c path)) (\<lambda>addr.
        case i_remove_index (cl_rpc E) addr request w1 of (w2, r) \<Rightarrow>
          remove_partitions E c request full_path parts
            (case both_caught r of Inl status' \<Rightarrow> status' | Inr _ \<Rightarrow> status) w2)))"

definition cl_remove_index ::
  "('w, 'r) client_env \<Rightarrow> 'r VSFSRpcClient \<Rightarrow> string \<Rightarrow> string \<Rightarrow> 'w \<Rightarrow> ('w \<times> Status) outcome" where
  "cl_remove_index E c root_path name w =
     (let full_path = index_path (cl_paths E) root_path name in
      bindo (cl_readdir E c full_path w) (\<lambda>(w1, x).
        case x of
          Inl status \<Rightarrow> Done (w1, status)
        | Inr partitions \<Rightarrow>
            remove_partitions E c \<lparr>in_root = root_path, in_name = name\<rparr> full_path partitions OK w1))"

text \<open>
  The last step, the file of the first partition, is taken whatever became of the steps before, and its own
  failure is not reported.
\<close>

definition finish_index ::
  "('w, 'r) client_env \<Rightarrow> 'r VSFSRpcClient \<Rightarrow> string \<Rightarrow> string \<Rightarrow> int \<Rightarrow> int \<Rightarrow> 'w \<Rightarrow> ('w \<times> Status) outcome" where
  "finish_index E c root_path name u g w =
     bindo (cl_create E c (partition_path (cl_paths E) root_path name 0) 0x1ED u g w) (\<lambda>(w1, status, _).
       if \<not> ok status then
         bindo (cl_rmdir E c (index_path (cl_paths E) root_path name) w1) (\<lambda>(w2, _).
         bindo (cl_remove_index E c root_path name w2) (\<lambda>(w3, _). Done (w3, OK)))
       else Done (w1, OK))"

definition cl_create_index ::
  "('w, 'r) client_env \<Rightarrow> 'r VSFSRpcClient \<Rightarrow> string \<Rightarrow> string \<Rightarrow> int \<Rightarrow> int \<Rightarrow> int \<Rightarrow> int \<Rightarrow> int \<Rightarrow> 'w \<Rightarrow>
     ('w \<times> Status) outcome" where
  "cl_create_index E c root_path name itype ktype md u g w =
     bindo (cl_getattr_stat E c root_path w) (\<lambda>(w1, x). case x of
       Inl status \<Rightarrow> Done (w1, status)
     | Inr stbuf \<Rightarrow>
         if \<not> S_ISDIR (st_mode stbuf) then Done (w1, SysErr ENOTDIR)
         else
           let ppath = partition_path (cl_paths E) root_path name 0;
               request = \<lparr>cr_root = ppath, cr_name = name, cr_index_type = itype, cr_key_type = ktype,
                          cr_mode = md, cr_uid = u, cr_gid = g\<rparr>
           in bindo (found_node (index_server_of E c ppath)) (\<lambda>addr.
             case i_create_index (cl_rpc E) addr request w1 of (w2, r) \<Rightarrow>
               (case both_caught r of
                  Inl status \<Rightarrow> Done (w2, status)
                | Inr _ \<Rightarrow>
                    bindo (cl_mkdir E c (root_path @ ''/.vsfs'') md u g w2) (\<lambda>(w3, status).
                      if \<not> ok status \<and> status_error (cl_vobla E) status \<noteq> - EEXIST then
                        cl_remove_index E c root_path name w3
                      else
                        bindo (found_node (master_of E c (index_path (cl_paths E) root_path name))) (\<lambda>maddr.
                          case m_create_index (cl_rpc E) maddr (request\<lparr>cr_root := root_path\<rparr>) w3 of (w4, r) \<Rightarrow>
                            (case both_caught r of
                               Inr _ \<Rightarrow> finish_index E c root_path name u g w4
                             | Inl _ \<Rightarrow>
                                 bindo (cl_remove_index E c root_path name w4) (\<lambda>(w5, _).
                                   finish_index E c root_path name u g w5)))))))"

section \<open>Calls that every master answers\<close>

text \<open>The answers of the masters in the order of the ring, up to the first failure.\<close>

fun ask_masters ::
  "(RpcNodeAddress \<Rightarrow> 'w \<Rightarrow> 'w \<times> 'a list rpc_result) \<Rightarrow> (HashValueType \<times> NodeInfo) list \<Rightarrow> 'a list \<Rightarrow> 'w \<Rightarrow>
     'w \<times> (Status + 'a list)" where
  "ask_masters call [] acc w = (w, Inr acc)"
| "ask_masters call ((sep, node) # nodes) acc w =
     (case call (address node) w of (w', r) \<Rightarrow>
        (case both_caught r of
           Inl status \<Rightarrow> (w', Inl status)
         | Inr results \<Rightarrow> ask_masters call nodes (acc @ results) w'))"

definition locate_index_for_search ::
  "('w, 'r) client_env \<Rightarrow> 'r VSFSRpcClient \<Rightarrow> ComplexQuery \<Rightarrow> 'w \<Rightarrow> 'w \<times> (Status + string list)" where
  "locate_index_for_search E c query w =
     ask_masters (\<lambda>addr. m_locate_indices_for_search (cl_rpc E) addr (cq_root query) (get_names_of_range_queries query))
       (get_ch_ring_as_map (cl_ring E) (master_map c)) [] w"

text \<open>The information of each index, from the server of its partition.\<close>

fun fetch_infos ::
  "('w, 'r) client_env \<Rightarrow> 'r VSFSRpcClient \<Rightarrow> string list \<Rightarrow> IndexInfo list \<Rightarrow> 'w \<Rightarrow>
     ('w \<times> IndexInfo list \<times> Status) outcome" where
  "fetch_infos E c [] infos w = Done (w, infos, OK)"
| "fetch_infos E c (idx_path # rest) infos w =
     (case split_index_path idx_path of
        None \<Rightarrow> Done (w, infos, Err (-1) ''Wrong index path format.'')
      | Some (root_path, name) \<Rightarrow>
          (let ppath = idx_path @ ''/0'' in
           bindo (found_node (index_server_of E c ppath)) (\<lambda>addr.
             case i_info (cl_rpc E) addr \<lparr>ir_txn_id = 0, ir_path = ppath, ir_recursive = None\<rparr> w of (w', r) \<Rightarrow>
               (case both_caught r of
                  Inl status \<Rightarrow> Done (w', infos, status)
                | Inr info \<Rightarrow>
                    fetch_infos E c rest
                      (infos @ [\<lparr>info_path = root_path, info_index_name = name, info_index_type = ii_type info,
                                info_key_type = ii_key_type info\<rparr>]) w'))))"

definition get_index_infos ::
  "('w, 'r) client_env \<Rightarrow> 'r VSFSRpcClient \<Rightarrow> string \<Rightarrow> IndexInfo list \<Rightarrow> bool \<Rightarrow> 'w \<Rightarrow>
     ('w \<times> IndexInfo list \<times> Status) outcome" where
  "get_index_infos E c path infos recursive w =
     (case ask_masters (\<lambda>addr. m_locate_indices (cl_rpc E) addr
               \<lparr>ir_txn_id = 0, ir_path = path, ir_recursive = Some recursive\<rparr>)
             (get_ch_ring_as_map (cl_ring E) (master_map c)) [] w of
        (w', Inl status) \<Rightarrow> Done (w', infos, status)
      | (w', Inr indices) \<Rightarrow> fetch_infos E c indices infos w')"

section \<open>Grouping by server\<close>

text \<open>\<open>map[k].push_back(v)\<close> and \<open>map[k].insert(v)\<close>.\<close>

definition at_key :: "('k \<times> 'v list) list \<Rightarrow> 'k \<Rightarrow> 'v list" where
  "at_key m k = (case map_of m k of None \<Rightarrow> [] | Some v \<Rightarrow> v)"

definition push_at :: "'k::linorder \<Rightarrow> 'v \<Rightarrow> ('k \<times> 'v list) list \<Rightarrow> ('k \<times> 'v list) list" where
  "push_at k v m = smap_put k (at_key m k @ [v]) m"

definition insert_at :: "'k::linorder \<Rightarrow> 'v::linorder \<Rightarrow> ('k \<times> 'v list) list \<Rightarrow> ('k \<times> 'v list) list" where
  "insert_at k v m = smap_put k (sset_insert v (at_key m k)) m"

section \<open>Search\<close>

fun plan_partitions ::
  "('w, 'r) client_env \<Rightarrow> 'r VSFSRpcClient \<Rightarrow> string list \<Rightarrow> (string \<times> string list) list \<Rightarrow>
     (string \<times> string list) list outcome" where
  "plan_partitions E c [] plan = Done plan"
| "plan_partitions E c (idx_path # rest) plan =
     (let ppath = idx_path @ ''/0'' in
      bindo (found_node (index_server_of E c ppath)) (\<lambda>addr.
        plan_partitions E c rest (insert_at (address_to_string addr) ppath plan)))"

definition gen_search_plan ::
  "('w, 'r) client_env \<Rightarrow> 'r VSFSRpcClient \<Rightarrow> ComplexQuery \<Rightarrow> 'w \<Rightarrow>
     ('w \<times> (Status + (string \<times> string list) list)) outcome" where
  "gen_search_plan E c query w =
     (case locate_index_for_search E c query w of
        (w', Inl status) \<Rightarrow> Done (w', Inl status)
      | (w', Inr indices) \<Rightarrow> bindo (plan_partitions E c indices []) (\<lambda>plan. Done (w', Inr plan)))"

text \<open>The sub-query of a partition. A name the query has no range for is a null pointer.\<close>

definition sub_query :: "('w, 'r) client_env \<Rightarrow> ComplexQuery \<Rightarrow> string \<Rightarrow> RpcRangeQuery outcome" where
  "sub_query E query part =
     (let name = filename (cl_paths E) (parent_path (cl_paths E) part) in
      case range_query query name of
        None \<Rightarrow> Fail Undefined
      | Some rng \<Rightarrow>
          Done \<lparr>rq_index_path = part, rq_name = name, rq_lower = sr_lower rng,
                rq_lower_open = (\<not> sr_lower_closed rng), rq_upper = sr_upper rng,
                rq_upper_open = (\<not> sr_upper_closed rng)\<rparr>)"

fun sub_queries :: "('w, 'r) client_env \<Rightarrow> ComplexQuery \<Rightarrow> string list \<Rightarrow> RpcRangeQuery list outcome" where
  "sub_queries E query [] = Done []"
| "sub_queries E query (part # parts) =
     bindo (sub_query E query part) (\<lambda>q. bindo (sub_queries E query parts) (\<lambda>qs. Done (q # qs)))"

fun search_servers ::
  "('w, 'r) client_env \<Rightarrow> ComplexQuery \<Rightarrow> (string \<times> string list) list \<Rightarrow> ObjectId list \<Rightarrow> 'w \<Rightarrow>
     ('w \<times> (Status + ObjectId list)) outcome" where
  "search_servers E query [] objects w = Done (w, Inr objects)"
| "search_servers E query ((addr_str, parts) # plan) objects w =
     bindo (string_to_address addr_str) (\<lambda>addr.
     bindo (sub_queries E query parts) (\<lambda>qs.
       case i_search (cl_rpc E) addr \<lparr>qry_txn_id = 0, qry_root = cq_root query, range_queries = qs\<rparr> w of (w', r) \<Rightarrow>
         (case both_caught r of
            Inl status \<Rightarrow> Done (w', Inl status)
          | Inr tmp \<Rightarrow> search_servers E query plan (objects @ tmp) w')))"

text \<open>The master of an object is looked up with the object's id as the position on the ring.\<close>

fun group_objects ::
  "('w, 'r) client_env \<Rightarrow> 'r VSFSRpcClient \<Rightarrow> ObjectId list \<Rightarrow> (string \<times> ObjectId list) list \<Rightarrow>
     (string \<times> ObjectId list) list outcome" where
  "group_objects E c [] plan = Done plan"
| "group_objects E c (obj # objects) plan =
     bindo (found_node (ServerMap_get (cl_ring E) (master_map c) (sint obj))) (\<lambda>addr.
       group_objects E c objects (push_at (address_to_string addr) obj plan))"

fun resolve_objects ::
  "('w, 'r) client_env \<Rightarrow> (string \<times> ObjectId list) list \<Rightarrow> string list \<Rightarrow> 'w \<Rightarrow>
     ('w \<times> string list \<times> Status) outcome" where
  "resolve_objects E [] paths w = Done (w, paths, OK)"
| "resolve_objects E ((addr_str, objects) # plan) paths w =
     bindo (string_to_address addr_str) (\<lambda>addr.
       case m_find_files (cl_rpc E) addr objects w of (w', r) \<Rightarrow>
         (case both_caught r of
            Inl status \<Rightarrow> Done (w', paths, status)
          | Inr tmp \<Rightarrow> resolve_objects E plan (paths @ tmp) w'))"

definition get_file_paths_from_objects ::
  "('w, 'r) client_env \<Rightarrow> 'r VSFSRpcClient \<Rightarrow> ObjectId list \<Rightarrow> string list \<Rightarrow> 'w \<Rightarrow>
     ('w \<times> string list \<times> Status) outcome" where
  "get_file_paths_from_objects E c objects paths w =
     bindo (group_objects E c objects []) (\<lambda>plan. resolve_objects E plan paths w)"

definition cl_search ::
  "('w, 'r) client_env \<Rightarrow> 'r VSFSRpcClient \<Rightarrow> ComplexQuery \<Rightarrow> string list \<Rightarrow> 'w \<Rightarrow>
     ('w \<times> string list \<times> Status) outcome" where
  "cl_search E c query results w =
     bindo (gen_search_plan E c query w) (\<lambda>(w1, x). case x of
       Inl status \<Rightarrow> Done (w1, results, status)
     | Inr plan \<Rightarrow>
         bindo (search_servers E query plan [] w1) (\<lambda>(w2, y). case y of
           Inl status \<Rightarrow> Done (w2, results, status)
         | Inr objects \<Rightarrow> get_file_paths_from_objects E c objects results w2))"

text \<open>\<open>ThriftUtils::complex_query_to_rpc_complex_query\<close>: the index paths stay empty.\<close>

fun rpc_ranges :: "ComplexQuery \<Rightarrow> string list \<Rightarrow> RpcRangeQuery list outcome" where
  "rpc_ranges query [] = Done []"
| "rpc_ranges query (name # names) =
     (case range_query query name of
        None \<Rightarrow> Fail Undefined
      | Some rng \<Rightarrow>
          bindo (rpc_ranges query names) (\<lambda>qs.
            Done (\<lparr>rq_index_path = [], rq_name = name, rq_lower = sr_lower rng,
                   rq_lower_open = (\<not> sr_lower_closed rng), rq_upper = sr_upper rng,
                   rq_upper_open = (\<not> sr_upper_closed rng)\<rparr> # qs)))"

definition complex_query_to_rpc_complex_query :: "ComplexQuery \<Rightarrow> RpcComplexQuery outcome" where
  "complex_query_to_rpc_complex_query query =
     bindo (rpc_ranges query (get_names_of_range_queries query)) (\<lambda>qs.
       Done \<lparr>qry_txn_id = 0, qry_root = cq_root query, range_queries = qs\<rparr>)"

section \<open>Objects of paths\<close>

text \<open>Positions of the paths by the master that has them.\<close>

fun group_paths ::
  "('w, 'r) client_env \<Rightarrow> 'r VSFSRpcClient \<Rightarrow> nat \<Rightarrow> string list \<Rightarrow> (string \<times> nat list) list \<Rightarrow>
     (string \<times> nat list) list outcome" where
  "group_paths E c i [] plan = Done plan"
| "group_paths E c i (path # paths) plan =
     bindo (found_node (master_of E c path)) (\<lambda>addr.
       group_paths E c (Suc i) paths (push_at (address_to_string addr) i plan))"

text \<open>\<open>(*objects)[positions[i]] = tmp_objs[i]\<close>: writing past the size of a vector has no defined result.\<close>

fun write_objects :: "nat list \<Rightarrow> ObjectId list \<Rightarrow> ObjectId list \<Rightarrow> ObjectId list outcome" where
  "write_objects (pos # positions) (obj # objs) objects =
     (if pos < length objects then write_objects positions objs (objects[pos := obj]) else Fail Undefined)"
| "write_objects positions objs objects = Done objects"

fun find_on_masters ::
  "('w, 'r) client_env \<Rightarrow> string list \<Rightarrow> (string \<times> nat list) list \<Rightarrow> ObjectId list \<Rightarrow> 'w \<Rightarrow>
     ('w \<times> ObjectId list \<times> Status) outcome" where
  "find_on_masters E paths [] objects w = Done (w, objects, OK)"
| "find_on_masters E paths ((addr_str, positions) # plan) objects w =
     bindo (string_to_address addr_str) (\<lambda>addr.
       case m_find_objects (cl_rpc E) addr (map ((!) paths) positions) w of (w', r) \<Rightarrow>
         (case both_caught r of
            Inl status \<Rightarrow> Done (w', objects, status)
          | Inr tmp_objs \<Rightarrow>
              if length tmp_objs \<noteq> length positions then Fail CheckFailed
              else bindo (write_objects positions tmp_objs objects) (\<lambda>objects'.
                find_on_masters E paths plan objects' w')))"

text \<open>\<open>reserve\<close> leaves the size as it is.\<close>

definition cl_find_objects ::
  "('w, 'r) client_env \<Rightarrow> 'r VSFSRpcClient \<Rightarrow> string list \<Rightarrow> ObjectId list \<Rightarrow> 'w \<Rightarrow>
     ('w \<times> ObjectId list \<times> Status) outcome" where
  "cl_find_objects E c paths objects w =
     bindo (group_paths E c 0 paths []) (\<lambda>plan. find_on_masters E paths plan objects w)"

section \<open>Update\<close>

record IndexUpdateRequest =
  ur_op :: int
  ur_file_path :: string
  ur_index_name :: string
  ur_key :: string

text \<open>
  Looking for the index of a name from a directory upwards. Only the root directory ends the climb, so a path that
  is not absolute may be climbed for ever.
\<close>

definition index_verdict :: "vobla_api \<Rightarrow> string \<Rightarrow> Status + stat \<Rightarrow> (Status + string) option" where
  "index_verdict V path x =
     (case x of
        Inr stbuf \<Rightarrow> if S_ISDIR (st_mode stbuf) then Some (Inr path) else None
      | Inl status \<Rightarrow> if status_error V status \<noteq> - ENOENT then Some (Inl status) else None)"

partial_function (option) climb ::
  "('w, 'r) client_env \<Rightarrow> 'r VSFSRpcClient \<Rightarrow> string \<Rightarrow> string \<Rightarrow> 'w \<Rightarrow> ('w \<times> (Status + string)) outcome option" where
  "climb E c name tmp_parent w =
     (case cl_getattr_stat E c (index_path (cl_paths E) tmp_parent name) w of
        Fail e \<Rightarrow> Some (Fail e)
      | Done (w', x) \<Rightarrow>
          (case index_verdict (cl_vobla E) (index_path (cl_paths E) tmp_parent name) x of
             Some y \<Rightarrow> Some (Done (w', y))
           | None \<Rightarrow>
               if tmp_parent = ''/'' then Some (Done (w', Inl (Err (-1) ''Failed to find valid index.'')))
               else climb E c name (parent_path (cl_paths E) tmp_parent) w'))"

definition find_index_path ::
  "('w, 'r) client_env \<Rightarrow> 'r VSFSRpcClient \<Rightarrow> string \<Rightarrow> string \<Rightarrow> 'w \<Rightarrow> ('w \<times> (Status + string)) outcome" where
  "find_index_path E c parent name w = bindo (returned (climb E c name parent w)) id"

type_synonym path_map = "(string \<times> (string \<times> string) list) list"

fun find_index_paths ::
  "('w, 'r) client_env \<Rightarrow> 'r VSFSRpcClient \<Rightarrow> (string \<times> string) list \<Rightarrow> path_map \<Rightarrow> 'w \<Rightarrow>
     ('w \<times> (Status + path_map)) outcome" where
  "find_index_paths E c [] m w = Done (w, Inr m)"
| "find_index_paths E c ((parent, name) # rest) m w =
     bindo (find_index_path E c parent name w) (\<lambda>(w', x). case x of
       Inl status \<Rightarrow> Done (w', Inl status)
     | Inr path \<Rightarrow> find_index_paths E c rest (smap_put parent (smap_put name path (at_key m parent)) m) w')"

text \<open>The pairs of parent and index name, in the order of the two maps.\<close>

definition parents_and_names :: "('w, 'r) client_env \<Rightarrow> IndexUpdateRequest list \<Rightarrow> (string \<times> string) list" where
  "parents_and_names E requests =
     concat (map (\<lambda>(parent, names). map (Pair parent) names)
       (foldl (\<lambda>m r. insert_at (parent_path (cl_paths E) (ur_file_path r)) (ur_index_name r) m) [] requests))"

definition get_parent_path_to_index_path_map ::
  "('w, 'r) client_env \<Rightarrow> 'r VSFSRpcClient \<Rightarrow> IndexUpdateRequest list \<Rightarrow> 'w \<Rightarrow> ('w \<times> (Status + path_map)) outcome" where
  "get_parent_path_to_index_path_map E c requests w = find_index_paths E c (parents_and_names E requests) [] w"

text \<open>\<open>at\<close> raises \<open>out_of_range\<close> for a key that is not there.\<close>

definition map_at :: "('k \<times> 'v) list \<Rightarrow> 'k \<Rightarrow> 'v outcome" where
  "map_at m k = (case map_of m k of None \<Rightarrow> Fail OutOfRange | Some v \<Rightarrow> Done v)"

type_synonym request_map = "(string \<times> (string \<times> nat list) list) list"

fun reorder_requests ::
  "('w, 'r) client_env \<Rightarrow> 'r VSFSRpcClient \<Rightarrow> path_map \<Rightarrow> nat \<Rightarrow> IndexUpdateRequest list \<Rightarrow> request_map \<Rightarrow>
     request_map outcome" where
  "reorder_requests E c m pos [] request_map = Done request_map"
| "reorder_requests E c m pos (request # requests) request_map =
     bindo (map_at m (parent_path (cl_paths E) (ur_file_path request))) (\<lambda>names.
     bindo (map_at names (ur_index_name request)) (\<lambda>path.
       let ppath = path @ ''/0'' in
       bindo (found_node (index_server_of E c ppath)) (\<lambda>addr.
         let key = address_to_string addr in
         reorder_requests E c m (Suc pos) requests
           (smap_put key (push_at ppath pos (at_key request_map key)) request_map))))"

definition reorder_requests_to_index_servers ::
  "('w, 'r) client_env \<Rightarrow> 'r VSFSRpcClient \<Rightarrow> path_map \<Rightarrow> IndexUpdateRequest list \<Rightarrow> request_map outcome" where
  "reorder_requests_to_index_servers E c m requests = reorder_requests E c m 0 requests []"

definition update_opcode :: "int \<Rightarrow> RpcIndexUpdateOpCode" where
  "update_opcode opcode = (if opcode = 1 then INSERT else if opcode = 2 then UPDATE else if opcode = 3 then REMOVE else UNKNOWN)"

definition update_record :: "IndexUpdateRequest list \<Rightarrow> ObjectId list \<Rightarrow> nat \<Rightarrow> RpcIndexRecordUpdateOp outcome" where
  "update_record requests object_ids pos =
     (if pos < length requests \<and> pos < length object_ids then
        Done \<lparr>up_op = update_opcode (ur_op (requests ! pos)), up_key = ur_key (requests ! pos),
              up_value = Some (int_to_string (sint (object_ids ! pos)))\<rparr>
      else Fail Undefined)"

fun update_records ::
  "IndexUpdateRequest list \<Rightarrow> ObjectId list \<Rightarrow> nat list \<Rightarrow> RpcIndexRecordUpdateOp list outcome" where
  "update_records requests object_ids [] = Done []"
| "update_records requests object_ids (pos # positions) =
     bindo (update_record requests object_ids pos) (\<lambda>r.
     bindo (update_records requests object_ids positions) (\<lambda>rs. Done (r # rs)))"

fun update_lists ::
  "IndexUpdateRequest list \<Rightarrow> ObjectId list \<Rightarrow> (string \<times> nat list) list \<Rightarrow> RpcIndexRecordUpdateList list outcome" where
  "update_lists requests object_ids [] = Done []"
| "update_lists requests object_ids ((path, positions) # rest) =
     bindo (update_records requests object_ids positions) (\<lambda>rs.
     bindo (update_lists requests object_ids rest) (\<lambda>ls.
       Done (\<lparr>ul_root_path = path, ul_name = [], record_updates = rs\<rparr> # ls)))"

fun send_updates ::
  "('w, 'r) client_env \<Rightarrow> IndexUpdateRequest list \<Rightarrow> ObjectId list \<Rightarrow> request_map \<Rightarrow> 'w \<Rightarrow> ('w \<times> Status) outcome" where
  "send_updates E requests object_ids [] w = Done (w, OK)"
| "send_updates E requests object_ids ((addr_str, paths) # rest) w =
     bindo (update_lists requests object_ids paths) (\<lambda>ls.
     bindo (string_to_address addr_str) (\<lambda>addr.
       case i_update (cl_rpc E) addr \<lparr>iu_txn_id = 0, updates = ls\<rparr> w of (w', r) \<Rightarrow>
         (case both_caught r of
            Inl status \<Rightarrow> Done (w', status)
          | Inr _ \<Rightarrow> send_updates E requests object_ids rest w')))"

definition task_run ::
  "('w, 'r) client_env \<Rightarrow> 'r VSFSRpcClient \<Rightarrow> IndexUpdateRequest list \<Rightarrow> 'w \<Rightarrow> ('w \<times> Status) outcome" where
  "task_run E c requests w =
     bindo (get_parent_path_to_index_path_map E c requests w) (\<lambda>(w1, x). case x of
       Inl status \<Rightarrow> Done (w1, status)
     | Inr m \<Rightarrow>
         bindo (reorder_requests_to_index_servers E c m requests) (\<lambda>request_map.
         bindo (cl_find_objects E c (map ur_file_path requests) [] w1) (\<lambda>(w2, object_ids, status).
           if \<not> ok status then Done (w2, status)
           else send_updates E requests object_ids request_map w2)))"

text \<open>A task takes one request more than the batch size; the last task is run even when it is empty.\<close>

definition FLAGS_vsfs_client_batch_size :: nat where
  "FLAGS_vsfs_client_batch_size = 2048"

fun make_tasks :: "nat \<Rightarrow> 'a list \<Rightarrow> 'a list \<Rightarrow> 'a list list" where
  "make_tasks batch task [] = [task]"
| "make_tasks batch task (request # requests) =
     (let task' = task @ [request] in
      if batch < length task' then task' # make_tasks batch [] requests
      else make_tasks batch task' requests)"

text \<open>
  The tasks as the threads of the pool run them: one after the other in the order \<open>schedule\<close> gives, each a
  pair of its place and its requests; the results are kept by place.
\<close>

fun run_tasks ::
  "('w, 'r) client_env \<Rightarrow> 'r VSFSRpcClient \<Rightarrow> (nat \<times> IndexUpdateRequest list) list \<Rightarrow> 'w \<Rightarrow>
     ('w \<times> (nat \<times> Status) list) outcome" where
  "run_tasks E c [] w = Done (w, [])"
| "run_tasks E c ((i, task) # rest) w =
     bindo (task_run E c task w) (\<lambda>(w1, status).
     bindo (run_tasks E c rest w1) (\<lambda>(w2, results). Done (w2, (i, status) # results)))"

text \<open>The first failed result is read twice.\<close>

fun first_failure :: "('w, 'r) client_env \<Rightarrow> Status list \<Rightarrow> Status outcome" where
  "first_failure E [] = Done OK"
| "first_failure E (status # rest) = (if \<not> ok status then cl_get_again E status else first_failure E rest)"

definition cl_update ::
  "('w, 'r) client_env \<Rightarrow> ((nat \<times> IndexUpdateRequest list) list \<Rightarrow> (nat \<times> IndexUpdateRequest list) list) \<Rightarrow>
     'r VSFSRpcClient \<Rightarrow> IndexUpdateRequest list \<Rightarrow> 'w \<Rightarrow> ('w \<times> Status) outcome" where
  "cl_update E schedule c requests w =
     (let tasks = make_tasks FLAGS_vsfs_client_batch_size [] requests in
      bindo (run_tasks E c (schedule (enumerate 0 tasks)) w) (\<lambda>(w', results).
      bindo (first_failure E (map (\<lambda>i. case map_of results i of None \<Rightarrow> OK | Some s \<Rightarrow> s) [0..<length tasks]))
        (\<lambda>status. Done (w', status))))"

section \<open>Lemmas on the grouping\<close>

lemma at_key_put [simp]: "at_key (smap_put k v m) k' = (if k' = k then v else at_key m k')"
  by (simp add: at_key_def)

lemma at_key_Nil [simp]: "at_key [] k = []"
  by (simp add: at_key_def)

lemma at_key_push: "at_key (push_at k v m) k' = (if k' = k then at_key m k' @ [v] else at_key m k')"
  by (simp add: push_at_def)

lemma set_at_key_insert: "set (at_key (insert_at k v m) k') = (if k' = k then insert v (set (at_key m k')) else set (at_key m k'))"
  by (simp add: insert_at_def)

lemma at_key_member: "smap_ok m \<Longrightarrow> (k, v) \<in> set m \<Longrightarrow> at_key m k = v"
  by (simp add: at_key_def smap_ok_map_of)

lemma at_key_nonempty: "x \<in> set (at_key m k) \<Longrightarrow> (k, at_key m k) \<in> set m"
  by (auto simp: at_key_def map_of_SomeD split: option.splits)

lemma smap_ok_push: "smap_ok m \<Longrightarrow> smap_ok (push_at k v m)"
  by (simp add: push_at_def smap_ok_put)

lemma smap_ok_insert_at: "smap_ok m \<Longrightarrow> smap_ok (insert_at k v m)"
  by (simp add: insert_at_def smap_ok_put)

lemma set_smap_put: "set (smap_put k v m) \<subseteq> insert (k, v) (set m)"
  by (induction k v m rule: smap_put.induct) auto

lemma push_at_nonempty: "\<forall>x\<in>set m. snd x \<noteq> [] \<Longrightarrow> \<forall>x\<in>set (push_at k v m). snd x \<noteq> []"
  unfolding push_at_def using set_smap_put [of k "at_key m k @ [v]" m] by fastforce

lemma group_paths_spec:
  assumes "\<forall>p\<in>set paths. found_node (master_of E c p) = Done (adr p)" "smap_ok plan" "\<forall>x\<in>set plan. snd x \<noteq> []"
  shows "\<exists>plan'. group_paths E c i paths plan = Done plan' \<and> smap_ok plan' \<and> (\<forall>x\<in>set plan'. snd x \<noteq> []) \<and>
    (\<forall>k. at_key plan' k = at_key plan k @ [j \<leftarrow> [i..<i + length paths]. address_to_string (adr (paths ! (j - i))) = k])"
  using assms
proof (induction paths arbitrary: i plan)
  case (Cons p paths)
  let ?k = "address_to_string (adr p)"
  from Cons.IH [of "push_at ?k i plan" "Suc i"] Cons.prems obtain plan' where
    r: "group_paths E c (Suc i) paths (push_at ?k i plan) = Done plan'" "smap_ok plan'" "\<forall>x\<in>set plan'. snd x \<noteq> []"
      "\<And>k. at_key plan' k = at_key (push_at ?k i plan) k @
        [j \<leftarrow> [Suc i..<Suc i + length paths]. address_to_string (adr (paths ! (j - Suc i))) = k]"
    using smap_ok_push push_at_nonempty by fastforce
  have "[j \<leftarrow> [i..<i + length (p # paths)]. address_to_string (adr ((p # paths) ! (j - i))) = k] =
      (if ?k = k then [i] else []) @ [j \<leftarrow> [Suc i..<Suc i + length paths]. address_to_string (adr (paths ! (j - Suc i))) = k]" for k
  proof -
    let ?L = "[Suc i..<Suc i + length paths]"
    have u: "[i..<i + length (p # paths)] = i # ?L" by (simp add: upt_conv_Cons del: upt_Suc)
    have "filter (\<lambda>j. address_to_string (adr ((p # paths) ! (j - i))) = k) ?L =
        filter (\<lambda>j. address_to_string (adr (paths ! (j - Suc i))) = k) ?L"
      by (rule filter_cong) (auto simp: nth_Cons' simp del: upt_Suc)
    then show ?thesis unfolding u by (simp del: upt_Suc)
  qed
  with r Cons.prems show ?case by (auto simp: at_key_push)
qed auto

lemma write_objects_spec:
  "write_objects ps (map g ps) objects =
     (if \<forall>p\<in>set ps. p < length objects
      then Done (map (\<lambda>j. if j \<in> set ps then g j else objects ! j) [0..<length objects])
      else Fail Undefined)"
proof (induction ps arbitrary: objects)
  case Nil
  then show ?case by (simp add: map_nth)
next
  case (Cons p ps)
  show ?case
  proof (cases "p < length objects")
    case True
    have "(if j \<in> set ps then g j else objects[p := g p] ! j) = (if j \<in> set (p # ps) then g j else objects ! j)"
      if "j < length objects" for j using that True by (auto simp: nth_list_update)
    with True Cons.IH [of "objects[p := g p]"] show ?thesis by auto
  qed simp
qed

text \<open>A plan in which every position is listed under the master of its path.\<close>

lemma find_on_masters_spec:
  assumes "\<And>k ps j. (k, ps) \<in> set plan \<Longrightarrow> ps \<noteq> [] \<and> (j \<in> set ps \<longrightarrow> k = address_to_string (adr (paths ! j)) \<and> plain_address (adr (paths ! j)))"
    and "\<And>k ps j. (k, ps) \<in> set plan \<Longrightarrow> j \<in> set ps \<Longrightarrow>
      m_find_objects (cl_rpc E) (adr (paths ! j)) (map ((!) paths) ps) w = (w, Reply (map (obj (adr (paths ! j))) (map ((!) paths) ps)))"
  shows "find_on_masters E paths plan objects w =
    (if \<forall>(k, ps)\<in>set plan. \<forall>p\<in>set ps. p < length objects
     then Done (w, map (\<lambda>j. if \<exists>(k, ps)\<in>set plan. j \<in> set ps then obj (adr (paths ! j)) (paths ! j) else objects ! j)
       [0..<length objects], OK)
     else Fail Undefined)"
  using assms
proof (induction plan arbitrary: objects)
  case Nil
  then show ?case by (simp add: map_nth)
next
  case (Cons x plan)
  obtain k ps where x: "x = (k, ps)" by fastforce
  let ?g = "\<lambda>j. obj (adr (paths ! j)) (paths ! j)"
  have "ps \<noteq> []" using Cons.prems(1) [of k ps] x by simp
  then obtain j0 where j0: "j0 \<in> set ps" by (meson hd_in_set)
  have same: "address_to_string (adr (paths ! j)) = k" "string_to_address k = Done (adr (paths ! j))" if "j \<in> set ps" for j
    using Cons.prems(1) [of k ps j] x that string_to_plain_address by auto
  then have adr: "adr (paths ! j) = adr (paths ! j0)" if "j \<in> set ps" for j
    using that j0 by (metis outcome.inject(1))
  have "map (obj (adr (paths ! j0))) (map ((!) paths) ps) = map ?g ps" using adr by simp
  then have call: "m_find_objects (cl_rpc E) (adr (paths ! j0)) (map ((!) paths) ps) w = (w, Reply (map ?g ps))"
    using Cons.prems(2) [of k ps j0] x j0 by simp
  show ?case
  proof (cases "\<forall>p\<in>set ps. p < length objects")
    case True
    let ?objects = "map (\<lambda>j. if j \<in> set ps then ?g j else objects ! j) [0..<length objects]"
    have "find_on_masters E paths (x # plan) objects w = find_on_masters E paths plan ?objects w"
      using x same(2) [OF j0] call True write_objects_spec [of ps ?g objects] by (simp add: both_caught_def)
    also have "\<dots> = (if \<forall>(k, ps)\<in>set plan. \<forall>p\<in>set ps. p < length ?objects
       then Done (w, map (\<lambda>j. if \<exists>(k, ps)\<in>set plan. j \<in> set ps then ?g j else ?objects ! j) [0..<length ?objects], OK)
       else Fail Undefined)"
      by (rule Cons.IH; rule Cons.prems; (rule list.set_intros(2))?; assumption)
    finally show ?thesis using True x by (auto intro!: map_cong)
  next
    case False
    then have "write_objects ps (map ?g ps) objects = Fail Undefined" using write_objects_spec [of ps ?g objects] by simp
    with x same(2) [OF j0] call have "find_on_masters E paths (x # plan) objects w = Fail Undefined"
      by (simp add: both_caught_def)
    with False x show ?thesis by auto
  qed
qed

text \<open>Every path has its master, each of them with an address that survives the way through a string.\<close>

definition resolvable :: "('w, 'r) client_env \<Rightarrow> 'r VSFSRpcClient \<Rightarrow> (string \<Rightarrow> RpcNodeAddress) \<Rightarrow> string list \<Rightarrow> bool" where
  "resolvable E c adr paths \<longleftrightarrow> (\<forall>p\<in>set paths. found_node (master_of E c p) = Done (adr p) \<and> plain_address (adr p))"

lemma cl_find_objects_spec:
  assumes "resolvable E c adr paths"
    and "\<And>p ps. p \<in> set paths \<Longrightarrow> m_find_objects (cl_rpc E) (adr p) ps w = (w, Reply (map (obj (adr p)) ps))"
  shows "cl_find_objects E c paths objects w =
    (if length paths \<le> length objects
     then Done (w, map (\<lambda>p. obj (adr p) p) paths @ drop (length paths) objects, OK) else Fail Undefined)"
proof -
  let ?key = "\<lambda>j. address_to_string (adr (paths ! j))"
  from group_paths_spec [of paths E c adr "[]" 0] assms(1) obtain plan where
    g: "group_paths E c 0 paths [] = Done plan" "smap_ok plan" "\<forall>x\<in>set plan. snd x \<noteq> []"
      "\<And>k. at_key plan k = [j \<leftarrow> [0..<length paths]. ?key j = k]"
    by (auto simp: resolvable_def)
  have mem: "ps \<noteq> [] \<and> (j \<in> set ps \<longrightarrow> j < length paths \<and> k = ?key j)" if "(k, ps) \<in> set plan" for k ps j
    using g(3) that at_key_member [OF g(2) that] g(4) [of k] by auto
  have all: "(\<exists>(k, ps)\<in>set plan. j \<in> set ps) \<longleftrightarrow> j < length paths" for j
  proof
    assume "j < length paths"
    then have "j \<in> set (at_key plan (?key j))" by (simp add: g(4))
    with at_key_nonempty [OF this] show "\<exists>(k, ps)\<in>set plan. j \<in> set ps" by blast
  qed (use mem in fastforce)
  have "find_on_masters E paths plan objects w =
    (if \<forall>(k, ps)\<in>set plan. \<forall>p\<in>set ps. p < length objects
     then Done (w, map (\<lambda>j. if \<exists>(k, ps)\<in>set plan. j \<in> set ps then obj (adr (paths ! j)) (paths ! j) else objects ! j)
       [0..<length objects], OK)
     else Fail Undefined)"
  proof (rule find_on_masters_spec)
    fix k ps j assume m: "(k, ps) \<in> set plan"
    show "ps \<noteq> [] \<and> (j \<in> set ps \<longrightarrow> k = ?key j \<and> plain_address (adr (paths ! j)))"
      using mem [OF m, of j] assms(1) by (auto simp: resolvable_def)
    assume "j \<in> set ps"
    with mem [OF m, of j] show "m_find_objects (cl_rpc E) (adr (paths ! j)) (map ((!) paths) ps) w =
        (w, Reply (map (obj (adr (paths ! j))) (map ((!) paths) ps)))" by (intro assms(2)) auto
  qed
  moreover have "(\<forall>(k, ps)\<in>set plan. \<forall>p\<in>set ps. p < length objects) \<longleftrightarrow> length paths \<le> length objects" (is "?l \<longleftrightarrow> ?r")
  proof
    assume l: ?l
    have "j < length objects" if "j < length paths" for j
    proof -
      from that all [of j] obtain k ps where "(k, ps) \<in> set plan" "j \<in> set ps" by blast
      with l show ?thesis by blast
    qed
    then show ?r by (meson leI less_irrefl)
  next
    assume ?r
    with mem show ?l by (fastforce dest: less_le_trans)
  qed
  moreover have "map (\<lambda>j. if j < length paths then obj (adr (paths ! j)) (paths ! j) else objects ! j) [0..<length objects] =
      map (\<lambda>p. obj (adr p) p) paths @ drop (length paths) objects" if "length paths \<le> length objects"
    using that by (intro nth_equalityI) (auto simp: nth_append)
  ultimately show ?thesis by (simp add: cl_find_objects_def g(1) all)
qed

section \<open>The index of an update is found or reported\<close>

text \<open>The parent of an absolute path other than the root is an absolute path that is shorter.\<close>

definition climb_law :: "path_api \<Rightarrow> bool" where
  "climb_law P \<longleftrightarrow> (\<forall>p. is_absolute P p \<longrightarrow> p \<noteq> ''/'' \<longrightarrow>
     is_absolute P (parent_path P p) \<and> length (parent_path P p) < length p)"

lemma climb_returns:
  assumes "climb_law (cl_paths E)" "is_absolute (cl_paths E) dir"
  shows "\<exists>r. climb E c name dir w = Some r \<and> r \<noteq> Fail NoReturn"
  using assms(2)
proof (induction "length dir" arbitrary: dir w rule: less_induct)
  case less
  have no: "cl_getattr_stat E c p w \<noteq> Fail NoReturn" for p
    by (auto simp: cl_getattr_stat_def cl_getattr_def on_master_def found_node_def bindo_Fail_iff split: sum.splits prod.splits)
  have "\<exists>r. climb E c name (parent_path (cl_paths E) dir) w' = Some r \<and> r \<noteq> Fail NoReturn" if "dir \<noteq> ''/''" for w'
    using that assms(1) less by (simp add: climb_law_def)
  with no show ?case
    by (subst climb.simps) (auto split: outcome.splits prod.splits option.splits)
qed

lemma climb_result:
  "climb E c name dir w = Some r \<Longrightarrow> \<forall>w' path. r = Done (w', Inr path) \<longrightarrow>
     (\<exists>n. path = index_path (cl_paths E) ((parent_path (cl_paths E) ^^ n) dir) name)"
proof (rule climb.raw_induct [where P = "\<lambda>E c name dir w r. \<forall>w' path. r = Done (w', Inr path) \<longrightarrow>
    (\<exists>n. path = index_path (cl_paths E) ((parent_path (cl_paths E) ^^ n) dir) name)"], intro allI impI)
  fix loop and E :: "('a, 'b) client_env" and c name dir w r w' path
  assume IH: "\<And>E c name dir w r. loop E c name dir w = Some r \<Longrightarrow> \<forall>w' path. r = Done (w', Inr path) \<longrightarrow>
      (\<exists>n. path = index_path (cl_paths E) ((parent_path (cl_paths E) ^^ n) dir) name)"
    and step: "(case cl_getattr_stat E c (index_path (cl_paths E) dir name) w of
        Done (w', x) \<Rightarrow>
          (case index_verdict (cl_vobla E) (index_path (cl_paths E) dir name) x of
             None \<Rightarrow>
               if dir = ''/'' then Some (Done (w', Inl (Err (-1) ''Failed to find valid index.'')))
               else loop E c name (parent_path (cl_paths E) dir) w'
           | Some y \<Rightarrow> Some (Done (w', y)))
      | Fail e \<Rightarrow> Some (Fail e)) = Some r"
    and r: "r = Done (w', Inr path)"
  show "\<exists>n. path = index_path (cl_paths E) ((parent_path (cl_paths E) ^^ n) dir) name"
  proof (cases "\<exists>w1. loop E c name (parent_path (cl_paths E) dir) w1 = Some r")
    case True
    with IH r obtain n where "path = index_path (cl_paths E) ((parent_path (cl_paths E) ^^ n) (parent_path (cl_paths E) dir)) name"
      by blast
    then have "path = index_path (cl_paths E) ((parent_path (cl_paths E) ^^ Suc n) dir) name" by (simp add: funpow_swap1)
    then show ?thesis by blast
  next
    case False
    with step r have "path = index_path (cl_paths E) ((parent_path (cl_paths E) ^^ 0) dir) name"
      by (auto simp: index_verdict_def split: outcome.splits prod.splits option.splits sum.splits if_splits)
    then show ?thesis by blast
  qed
qed

definition entry_of :: "path_map \<Rightarrow> string \<Rightarrow> string \<Rightarrow> string option" where
  "entry_of m parent name = map_of (at_key m parent) name"

text \<open>An entry leads to the path of an index on the directory itself or on one above it.\<close>

definition entries_above :: "path_api \<Rightarrow> path_map \<Rightarrow> bool" where
  "entries_above P m \<longleftrightarrow> (\<forall>parent name path. entry_of m parent name = Some path \<longrightarrow>
     (\<exists>n. path = index_path P ((parent_path P ^^ n) parent) name))"

lemma find_index_path_result:
  "find_index_path E c parent name w = Done (w', Inr path) \<Longrightarrow>
     \<exists>n. path = index_path (cl_paths E) ((parent_path (cl_paths E) ^^ n) parent) name"
  using climb_result [of E c name parent w] by (auto simp: find_index_path_def returned_def split: option.splits)

lemma find_index_paths_spec:
  assumes "find_index_paths E c xs m w = Done (w', Inr m')" "entries_above (cl_paths E) m"
  shows "entries_above (cl_paths E) m' \<and> (\<forall>p n. entry_of m p n \<noteq> None \<or> (p, n) \<in> set xs \<longrightarrow> entry_of m' p n \<noteq> None)"
  using assms
proof (induction xs arbitrary: m w)
  case (Cons x xs)
  obtain p n where x: "x = (p, n)" by fastforce
  with Cons.prems(1) obtain w1 path where f: "find_index_path E c p n w = Done (w1, Inr path)"
    "find_index_paths E c xs (smap_put p (smap_put n path (at_key m p)) m) w1 = Done (w', Inr m')"
    by (auto split: sum.splits) (metis sum.exhaust)
  let ?m = "smap_put p (smap_put n path (at_key m p)) m"
  have e: "entry_of ?m q k = (if (q, k) = (p, n) then Some path else entry_of m q k)" for q k
    by (auto simp: entry_of_def)
  have "entries_above (cl_paths E) ?m"
    using Cons.prems(2) find_index_path_result [OF f(1)] by (auto simp: entries_above_def e split: if_splits)
  from Cons.IH [OF f(2) this] x show ?case by (auto simp: e)
qed simp

lemma find_index_paths_returns:
  assumes "climb_law (cl_paths E)" "\<forall>(p, n)\<in>set xs. is_absolute (cl_paths E) p"
  shows "find_index_paths E c xs m w \<noteq> Fail NoReturn"
  using assms(2)
proof (induction xs arbitrary: m w)
  case (Cons x xs)
  obtain p n where x: "x = (p, n)" by fastforce
  with climb_returns [OF assms(1), of p c n w] Cons.prems have "find_index_path E c p n w \<noteq> Fail NoReturn"
    by (auto simp: find_index_path_def returned_def bindo_Fail_iff)
  with Cons x show ?case by (auto simp: bindo_Fail_iff split: sum.splits)
qed simp

lemma parents_and_names_iff:
  "(p, n) \<in> set (parents_and_names E requests) \<longleftrightarrow>
     (\<exists>r\<in>set requests. p = parent_path (cl_paths E) (ur_file_path r) \<and> n = ur_index_name r)"
proof -
  let ?put = "\<lambda>m r. insert_at (parent_path (cl_paths E) (ur_file_path r)) (ur_index_name r) m"
  have s: "smap_ok (foldl ?put m rs) \<and> (\<forall>p n. n \<in> set (at_key (foldl ?put m rs) p) \<longleftrightarrow> n \<in> set (at_key m p) \<or>
      (\<exists>r\<in>set rs. p = parent_path (cl_paths E) (ur_file_path r) \<and> n = ur_index_name r))" if "smap_ok m" for m rs
    using that
  proof (induction rs arbitrary: m)
    case (Cons r rs)
    from Cons.IH [OF smap_ok_insert_at [OF Cons.prems]] show ?case by (auto simp: set_at_key_insert)
  qed simp
  let ?m = "foldl ?put [] requests"
  have ok: "smap_ok ?m" using s [of "[]" requests] by simp
  have "(p, n) \<in> set (parents_and_names E requests) \<longleftrightarrow> (\<exists>names. (p, names) \<in> set ?m \<and> n \<in> set names)"
    by (auto simp: parents_and_names_def)
  also have "\<dots> \<longleftrightarrow> n \<in> set (at_key ?m p)"
    using at_key_member [OF ok] at_key_nonempty [of n ?m p] by blast
  finally have "(p, n) \<in> set (parents_and_names E requests) \<longleftrightarrow> n \<in> set (at_key ?m p)" .
  with s [of "[]" requests] show ?thesis by simp
qed

lemma entry_of_Some: "entry_of m p n \<noteq> None \<Longrightarrow> \<exists>names path. map_at m p = Done names \<and> map_at names n = Done path"
  by (auto simp: entry_of_def at_key_def map_at_def split: option.splits)

lemma reorder_requests_found:
  assumes "\<forall>r\<in>set requests. entry_of m (parent_path (cl_paths E) (ur_file_path r)) (ur_index_name r) \<noteq> None"
  shows "reorder_requests E c m pos requests request_map \<noteq> Fail OutOfRange"
  using assms
proof (induction requests arbitrary: pos request_map)
  case (Cons r requests)
  from Cons.prems entry_of_Some [of m "parent_path (cl_paths E) (ur_file_path r)" "ur_index_name r"] obtain names path where
    "map_at m (parent_path (cl_paths E) (ur_file_path r)) = Done names" "map_at names (ur_index_name r) = Done path" by auto
  with Cons show ?case by (auto simp: Let_def bindo_Fail_iff found_node_def split: sum.splits)
qed simp

section \<open>The plan of a search\<close>

lemma plan_partitions_spec:
  assumes "plan_partitions E c indices plan = Done plan'" "smap_ok plan"
  shows "smap_ok plan' \<and> (\<forall>k part. part \<in> set (at_key plan' k) \<longleftrightarrow> part \<in> set (at_key plan k) \<or>
    (\<exists>i\<in>set indices. \<exists>a. part = i @ ''/0'' \<and> found_node (index_server_of E c part) = Done a \<and> k = address_to_string a))"
  using assms
proof (induction indices arbitrary: plan)
  case (Cons i indices)
  then obtain a where a: "found_node (index_server_of E c (i @ ''/0'')) = Done a"
    "plan_partitions E c indices (insert_at (address_to_string a) (i @ ''/0'') plan) = Done plan'"
    by (auto simp: Let_def)
  from Cons.IH [OF a(2) smap_ok_insert_at [OF Cons.prems(2)]] a(1) show ?case by (auto simp: set_at_key_insert)
qed simp

section \<open>The tasks of an update\<close>

lemma make_tasks_concat: "concat (make_tasks batch task requests) = task @ requests"
  by (induction batch task requests rule: make_tasks.induct) (auto simp: Let_def)

lemma make_tasks_size: "length task \<le> batch \<Longrightarrow> t \<in> set (make_tasks batch task requests) \<Longrightarrow> length t \<le> Suc batch"
  by (induction batch task requests rule: make_tasks.induct) (auto simp: Let_def split: if_splits)

end
