(* ===== verification/Cluster.thy ===== *)
theory Cluster
  imports Master_Controller Index_Manager Client_Index
begin

text \<open>
  Client and servers together: a cluster has a master controller and an index manager at the addresses where those
  servers run, and the remote calls of the client are the handlers of \<open>MasterServer\<close> and \<open>IndexServer\<close> there.
  Thrift carries a call to its handler and the result or \<open>RpcInvalidOp\<close> back; an address with no server, and a
  server that ends in the call, is a transport error.
\<close>

section \<open>The cluster\<close>

record ('s, 'q, 'r, 'f) cluster =
  masters :: "RpcNodeAddress \<Rightarrow> ('s, 'q, 'r) MasterController option"
  index_servers :: "RpcNodeAddress \<Rightarrow> 'f IndexManager option"

text \<open>
  \<open>not_open\<close> and \<open>end_of_file\<close> are the exceptions of the transport, \<open>clock\<close> the time a call sees, \<open>threads\<close> the
  order in which an index server runs the threads of an update.
\<close>

record ('s, 'q, 'r, 'f) cluster_env =
  ce_vobla :: vobla_api
  ce_master :: "('s, 'q, 'r) mc_env"
  ce_index :: "'f index_env"
  not_open :: "int \<times> string"
  end_of_file :: "int \<times> string"
  clock :: "('s, 'q, 'r, 'f) cluster \<Rightarrow> rat"
  threads :: "RpcIndexRecordUpdateList list \<Rightarrow> RpcIndexRecordUpdateList list"

definition deliver ::
  "int \<times> string \<Rightarrow> ('m option \<Rightarrow> 'w) \<Rightarrow> ('m \<times> (RpcInvalidOp + 'a)) outcome \<Rightarrow> 'w \<times> 'a rpc_result" where
  "deliver eof put r =
     (case r of
        Done (m, x) \<Rightarrow> (put (Some m), case x of Inl e \<Rightarrow> Refused e | Inr a \<Rightarrow> Reply a)
      | Fail _ \<Rightarrow> (put None, TransportError (fst eof) (snd eof)))"

definition at_master ::
  "('s, 'q, 'r, 'f) cluster_env \<Rightarrow>
     (('s, 'q, 'r) MasterController \<Rightarrow> (('s, 'q, 'r) MasterController \<times> (RpcInvalidOp + 'a)) outcome) \<Rightarrow>
     RpcNodeAddress \<Rightarrow> ('s, 'q, 'r, 'f) cluster \<Rightarrow> ('s, 'q, 'r, 'f) cluster \<times> 'a rpc_result" where
  "at_master CE f a w =
     (case masters w a of
        None \<Rightarrow> (w, TransportError (fst (not_open CE)) (snd (not_open CE)))
      | Some m \<Rightarrow> deliver (end_of_file CE) (\<lambda>m'. w\<lparr>masters := (masters w)(a := m')\<rparr>) (f m))"

definition at_index ::
  "('s, 'q, 'r, 'f) cluster_env \<Rightarrow> ('f IndexManager \<Rightarrow> ('f IndexManager \<times> (RpcInvalidOp + 'a)) outcome) \<Rightarrow>
     RpcNodeAddress \<Rightarrow> ('s, 'q, 'r, 'f) cluster \<Rightarrow> ('s, 'q, 'r, 'f) cluster \<times> 'a rpc_result" where
  "at_index CE f a w =
     (case index_servers w a of
        None \<Rightarrow> (w, TransportError (fst (not_open CE)) (snd (not_open CE)))
      | Some m \<Rightarrow> deliver (end_of_file CE) (\<lambda>m'. w\<lparr>index_servers := (index_servers w)(a := m')\<rparr>) (f m))"

text \<open>A handler that only reads.\<close>

definition read_only :: "('m \<Rightarrow> RpcInvalidOp + 'a) \<Rightarrow> 'm \<Rightarrow> ('m \<times> (RpcInvalidOp + 'a)) outcome" where
  "read_only f m = Done (m, f m)"

definition RpcIndexInfo_default :: RpcIndexInfo where
  "RpcIndexInfo_default = \<lparr>ii_path = [], ii_name = [], ii_type = 0, ii_key_type = 0, ii_num_records = 0\<rparr>"

definition cluster_rpc ::
  "('s, 'q, 'r, 'f::linorder) cluster_env \<Rightarrow> ('s, 'q, 'r, 'f) cluster rpc_api" where
  "cluster_rpc CE =
     (let V = ce_vobla CE; ME = ce_master CE; IE = ce_index CE in
      \<lparr>m_open = at_master CE (read_only (\<lambda>_. Inr ())),
       m_close = at_master CE (read_only (\<lambda>_. Inr ())),
       m_get_all_masters = at_master CE (\<lambda>m. bindo (ms_get_all_masters V ME m) (\<lambda>x. Done (m, x))),
       m_get_all_index_servers = at_master CE (\<lambda>m. bindo (ms_get_all_index_servers V ME m) (\<lambda>x. Done (m, x))),
       m_create = (\<lambda>a p md u g w. at_master CE (\<lambda>m. ms_create V ME (clock CE w) m p md u g) a w),
       m_remove = (\<lambda>a p. at_master CE (\<lambda>m. ms_remove V ME m p) a),
       m_object_id = (\<lambda>a p. at_master CE (read_only (\<lambda>m. ms_object_id V m p)) a),
       m_mkdir = (\<lambda>a p info w. at_master CE (\<lambda>m. ms_mkdir V ME (clock CE w) m p info) a w),
       m_rmdir = (\<lambda>a p. at_master CE (\<lambda>m. ms_rmdir V ME m p) a),
       m_readdir = (\<lambda>a p. at_master CE (read_only (\<lambda>m. ms_readdir V ME m p)) a),
       m_getattr = (\<lambda>a p. at_master CE (\<lambda>m. bindo (ms_getattr V m p) (\<lambda>x. Done (m, x))) a),
       m_setattr = (\<lambda>a p info. at_master CE (\<lambda>m. ms_setattr V ME m p info) a),
       m_add_subfile = (\<lambda>a d f. at_master CE (\<lambda>m. ms_add_subfile V ME m d f) a),
       m_remove_subfile = (\<lambda>a d f. at_master CE (\<lambda>m. ms_remove_subfile V ME m d f) a),
       m_find_objects = (\<lambda>a ps. at_master CE (read_only (\<lambda>m. Inr (ms_find_objects m ps))) a),
       m_find_files = (\<lambda>a is. at_master CE (read_only (\<lambda>m. Inr (ms_find_files m is))) a),
       m_create_index = (\<lambda>a req w. at_master CE (\<lambda>m. ms_create_index V ME (clock CE w) m req) a w),
       m_locate_indices_for_search = (\<lambda>a p ns. at_master CE (read_only (\<lambda>m. Inr (ms_locate_indices_for_search ME m p ns))) a),
       m_locate_indices = (\<lambda>a req. at_master CE (read_only (\<lambda>m. Inr (ms_locate_indices ME m req))) a),
       i_create_index = (\<lambda>a req. at_index CE (\<lambda>m. Done (server_create_index V IE req m)) a),
       i_remove_index = (\<lambda>a name. at_index CE (\<lambda>m. Done (server_remove_index name m)) a),
       i_search = (\<lambda>a q. at_index CE (server_search V IE q) a),
       i_update = (\<lambda>a us. at_index CE (server_update V IE (threads CE) us) a),
       i_info = (\<lambda>a req. at_index CE (server_info V IE req RpcIndexInfo_default) a)\<rparr>)"

section \<open>The files of a cluster\<close>

text \<open>A master runs at the address, its namespace is in order and its database accepts writes.\<close>

abbreviation ns_writable :: "'s ns_env \<Rightarrow> 's Namespace \<Rightarrow> bool" where
  "ns_writable E s \<equiv> accepts_writes (env_kv E) (ns_store s)"

definition node_alive :: "('s, 'q, 'r, 'f) cluster_env \<Rightarrow> ('s, 'q, 'r, 'f) cluster \<Rightarrow> RpcNodeAddress \<Rightarrow> bool" where
  "node_alive CE w a \<longleftrightarrow>
     (\<exists>m. masters w a = Some m \<and> ns_inv (mc_namespace m) \<and> ns_writable (mc_ns (ce_master CE)) (mc_namespace m))"

definition node_free :: "('s, 'q, 'r, 'f) cluster \<Rightarrow> RpcNodeAddress \<Rightarrow> string \<Rightarrow> bool" where
  "node_free w a p \<longleftrightarrow>
     (\<exists>m. masters w a = Some m \<and> metadata_map (mc_namespace m) p = None \<and> unat (next_obj_id (mc_namespace m)) < 2 ^ 48)"

definition node_file :: "('s, 'q, 'r, 'f) cluster \<Rightarrow> RpcNodeAddress \<Rightarrow> string \<Rightarrow> ObjectId option" where
  "node_file w a p =
     (case masters w a of
        None \<Rightarrow> None
      | Some m \<Rightarrow> (case metadata_map (mc_namespace m) p of
          None \<Rightarrow> None | Some meta \<Rightarrow> if S_ISDIR (mode meta) then None else Some (object_id meta)))"

definition node_dir :: "('s, 'q, 'r, 'f) cluster \<Rightarrow> RpcNodeAddress \<Rightarrow> string \<Rightarrow> string list option" where
  "node_dir w a p = (case masters w a of None \<Rightarrow> None | Some m \<Rightarrow> directories (mc_namespace m) p)"

lemma create_returns:
  assumes "ns_writable E s" "ns_inv s" "metadata_map s p = None" "unat (next_obj_id s) < 2 ^ 48"
  shows "\<exists>s' oid meta. create E now s p md u g = Done (s', Inr oid) \<and> ns_inv s' \<and> ns_writable E s' \<and> directories s' = directories s \<and>
    metadata_map s' = (metadata_map s)(p \<mapsto> meta) \<and> object_id meta = oid \<and> \<not> S_ISDIR (mode meta)"
proof -
  obtain s1 oid where o: "get_object_id (env_md5 E) s p = (s1, oid)" by fastforce
  note s1 = get_object_id_state [OF o]
  have "fresh_inv s" using assms(2) by (simp add: ns_inv_def)
  from fresh_id_unused [OF this o assms(4)] have free: "id_to_path_map s oid = None" .
  have bound: "next_obj_id s \<noteq> mask 63" using assms(4) by (auto simp: mask_eq_exp_minus_1)
  let ?meta = "\<lparr>object_id = oid, mode = md OR S_IFREG, gid = g, uid = u, fsize = 0, atime = now, ctime = now, mtime = now\<rparr>"
  obtain st where st: "kv_put (env_kv E) (ns_store s) p (serialize E ?meta) = Done (st, OK)" "accepts_writes (env_kv E) st"
    using assms(1) by (rule accepts_put)
  then obtain s' where c: "create E now s p md u g = Done (s', Inr oid)" "ns_store s' = st"
    using assms(3) o s1 free bound by (simp add: create_def Let_def store_metadata_def)
  from c(1) show ?thesis
  proof (cases rule: create_cases)
    case (2 s2 i st' meta)
    with create_inv [OF assms(2,4) c(1)] c st(2) show ?thesis
      by (intro exI [of _ s'] exI [of _ oid] exI [of _ meta]) auto
  qed (use assms(3) in auto)
qed

lemma add_subfile_returns:
  assumes "ns_writable E s" "ns_inv s" "directories s d = Some fs" "f \<notin> set fs"
  shows "\<exists>s'. add_subfile E s d f = Done (s', OK) \<and> ns_inv s' \<and> ns_writable E s' \<and> metadata_map s' = metadata_map s \<and>
    directories s' = (directories s)(d \<mapsto> sset_insert f fs)"
proof -
  obtain st where st: "kv_put (env_kv E) (ns_store s) (directory_map_key (path_join (env_paths E) d f)) [] = Done (st, OK)"
    "accepts_writes (env_kv E) st" using assms(1) by (rule accepts_put)
  then have c: "add_subfile E s d f = Done (s\<lparr>ns_store := st, directories := (directories s)(d \<mapsto> sset_insert f fs)\<rparr>, OK)"
    using assms(3,4) by (simp add: add_subfile_def Let_def)
  from add_subfile_inv [OF assms(2) c] c st(2) show ?thesis by simp
qed

lemma remove_subfile_returns:
  assumes "ns_writable E s" "ns_inv s" "directories s d = Some fs" "f \<in> set fs"
  shows "\<exists>s'. remove_subfile E s d f = Done (s', OK) \<and> ns_inv s' \<and> ns_writable E s' \<and> metadata_map s' = metadata_map s \<and>
    directories s' = (directories s)(d \<mapsto> sset_erase f fs)"
proof -
  obtain st where st: "kv_remove (env_kv E) (ns_store s) (directory_map_key (path_join (env_paths E) d f)) = Done (st, OK)"
    "accepts_writes (env_kv E) st" using assms(1) by (rule accepts_remove)
  then have c: "remove_subfile E s d f = Done (s\<lparr>ns_store := st, directories := (directories s)(d \<mapsto> sset_erase f fs)\<rparr>, OK)"
    using assms(3,4) by (simp add: remove_subfile_def Let_def)
  from remove_subfile_inv [OF assms(2) c] c st(2) show ?thesis by simp
qed

lemma ns_remove_returns:
  assumes "ns_writable E s" "ns_inv s" "metadata_map s p = Some meta" "\<not> S_ISDIR (mode meta)"
  shows "\<exists>s'. ns_remove E s p = Done (s', Inr (object_id meta)) \<and> ns_inv s' \<and> ns_writable E s' \<and> directories s' = directories s \<and>
    metadata_map s' = (metadata_map s)(p := None)"
proof -
  have i: "id_to_path_map s (object_id meta) = Some p"
    using assms(2-4) by (auto simp: ns_inv_def ids_inv_def is_file_def)
  obtain st where st: "kv_remove (env_kv E) (ns_store s) p = Done (st, OK)" "accepts_writes (env_kv E) st"
    using assms(1) by (rule accepts_remove)
  then have c: "ns_remove E s p = Done (s\<lparr>ns_store := st, metadata_map := (metadata_map s)(p := None),
      id_to_path_map := (id_to_path_map s)(object_id meta := None)\<rparr>, Inr (object_id meta))"
    using assms(3,4) i by (simp add: ns_remove_def Let_def)
  from ns_remove_inv [OF assms(2) c] c st(2) show ?thesis by simp
qed

text \<open>What a change of one master's namespace does to the files of the cluster.\<close>

lemma node_update:
  assumes "masters w a = Some m" "ns_inv (mc_namespace m) \<and> ns_writable (mc_ns (ce_master CE)) (mc_namespace m)"
    and "ns_inv s \<and> ns_writable (mc_ns (ce_master CE)) s"
  shows "node_alive CE (w\<lparr>masters := (masters w)(a \<mapsto> m\<lparr>mc_namespace := s\<rparr>)\<rparr>) = node_alive CE w"
    and "directories s = ds \<Longrightarrow> node_dir (w\<lparr>masters := (masters w)(a \<mapsto> m\<lparr>mc_namespace := s\<rparr>)\<rparr>) = (node_dir w)(a := ds)"
    and "metadata_map s = metadata_map (mc_namespace m) \<Longrightarrow>
      node_file (w\<lparr>masters := (masters w)(a \<mapsto> m\<lparr>mc_namespace := s\<rparr>)\<rparr>) = node_file w"
  using assms by (auto simp: node_alive_def node_dir_def node_file_def fun_eq_iff)

lemma node_file_put:
  assumes "masters w a = Some m" "metadata_map s = (metadata_map (mc_namespace m))(p := x)"
  shows "node_file (w\<lparr>masters := (masters w)(a \<mapsto> m\<lparr>mc_namespace := s\<rparr>)\<rparr>) =
    (node_file w)(a := (node_file w a)(p := (case x of None \<Rightarrow> None
      | Some meta \<Rightarrow> if S_ISDIR (mode meta) then None else Some (object_id meta))))"
  using assms by (auto simp: node_file_def fun_eq_iff split: option.split)

lemma node_dir_same: "masters w a = Some m \<Longrightarrow> (node_dir w)(a := directories (mc_namespace m)) = node_dir w"
  by (auto simp: node_dir_def fun_eq_iff)

lemmas handler_defs = cluster_rpc_def Let_def at_master_def deliver_def read_only_def reply_def reply_value_def
  on_namespace_def check_status_def

lemma node_aliveE:
  assumes "node_alive CE w a"
  obtains m where "masters w a = Some m" "ns_inv (mc_namespace m) \<and> ns_writable (mc_ns (ce_master CE)) (mc_namespace m)"
  using assms by (auto simp: node_alive_def)

lemma cluster_create:
  assumes "node_alive CE w a" "is_valid_path (ce_master CE) p" "node_free w a p"
  shows "\<exists>w' oid. m_create (cluster_rpc CE) a p md u g w = (w', Reply oid) \<and> node_alive CE w' = node_alive CE w \<and>
    node_dir w' = node_dir w \<and> node_file w' = (node_file w)(a := (node_file w a)(p \<mapsto> oid))"
proof -
  from assms(1) obtain m where m: "masters w a = Some m" "ns_inv (mc_namespace m) \<and> ns_writable (mc_ns (ce_master CE)) (mc_namespace m)" by (rule node_aliveE)
  with assms(3) obtain s' oid meta where
    c: "create (mc_ns (ce_master CE)) (clock CE w) (mc_namespace m) p (i64_to_i32 md) (i64_to_i32 u) (i64_to_i32 g) = Done (s', Inr oid)"
      "ns_inv s' \<and> ns_writable (mc_ns (ce_master CE)) s'" "directories s' = directories (mc_namespace m)" "metadata_map s' = (metadata_map (mc_namespace m))(p \<mapsto> meta)"
      "object_id meta = oid" "\<not> S_ISDIR (mode meta)"
    using create_returns [of "mc_ns (ce_master CE)" "mc_namespace m" p "clock CE w" "i64_to_i32 md" "i64_to_i32 u" "i64_to_i32 g"]
    by (auto simp: node_free_def)
  have "m_create (cluster_rpc CE) a p md u g w = (w\<lparr>masters := (masters w)(a \<mapsto> m\<lparr>mc_namespace := s'\<rparr>)\<rparr>, Reply oid)"
    using m c(1) assms(2) by (simp add: handler_defs ms_create_def mc_create_def)
  with node_update [OF m c(2)] node_file_put [OF m(1) c(4)] node_dir_same [OF m(1)] c(3,5,6) show ?thesis by simp
qed

lemma cluster_link:
  assumes "node_alive CE w a" "is_valid_path (ce_master CE) d"
    and "node_dir w a d = Some fs" "f \<notin> set fs"
  shows "\<exists>w'. m_add_subfile (cluster_rpc CE) a d f w = (w', Reply ()) \<and> node_alive CE w' = node_alive CE w \<and>
    node_file w' = node_file w \<and> node_dir w' = (node_dir w)(a := (node_dir w a)(d \<mapsto> sset_insert f fs))"
proof -
  from assms(1) obtain m where m: "masters w a = Some m" "ns_inv (mc_namespace m) \<and> ns_writable (mc_ns (ce_master CE)) (mc_namespace m)" by (rule node_aliveE)
  then have d: "directories (mc_namespace m) = node_dir w a" by (auto simp: node_dir_def)
  from add_subfile_returns [OF conjunct2 [OF m(2)] conjunct1 [OF m(2)]] assms(3,4) d obtain s' where
    c: "add_subfile (mc_ns (ce_master CE)) (mc_namespace m) d f = Done (s', OK)" "ns_inv s' \<and> ns_writable (mc_ns (ce_master CE)) s'"
      "metadata_map s' = metadata_map (mc_namespace m)" "directories s' = (node_dir w a)(d \<mapsto> sset_insert f fs)" by metis
  have "m_add_subfile (cluster_rpc CE) a d f w = (w\<lparr>masters := (masters w)(a \<mapsto> m\<lparr>mc_namespace := s'\<rparr>)\<rparr>, Reply ())"
    using m c(1) assms(2) by (simp add: handler_defs ms_add_subfile_def mc_add_subfile_def)
  with node_update [OF m c(2)] c(3,4) show ?thesis by simp
qed

lemma cluster_link_refused:
  assumes "node_alive CE w a" "\<forall>fs. node_dir w a d = Some fs \<longrightarrow> f \<in> set fs"
  shows "\<exists>e. m_add_subfile (cluster_rpc CE) a d f w = (w, Refused e)"
proof -
  from assms(1) obtain m where m: "masters w a = Some m" by (rule node_aliveE)
  with assms(2) have "\<exists>status. mc_add_subfile (ce_master CE) m d f = Done (m, status) \<and> \<not> ok status"
    by (auto simp: mc_add_subfile_def not_absolute_def on_namespace_def add_subfile_def node_dir_def split: option.split)
  with m show ?thesis by (auto simp: handler_defs ms_add_subfile_def map_upd_triv)
qed

lemma cluster_unlink:
  assumes "node_alive CE w a" "node_dir w a d = Some fs" "f \<in> set fs"
  shows "\<exists>w'. m_remove_subfile (cluster_rpc CE) a d f w = (w', Reply ()) \<and> node_alive CE w' = node_alive CE w \<and>
    node_file w' = node_file w \<and> node_dir w' = (node_dir w)(a := (node_dir w a)(d \<mapsto> sset_erase f fs))"
proof -
  from assms(1) obtain m where m: "masters w a = Some m" "ns_inv (mc_namespace m) \<and> ns_writable (mc_ns (ce_master CE)) (mc_namespace m)" by (rule node_aliveE)
  then have d: "directories (mc_namespace m) = node_dir w a" by (auto simp: node_dir_def)
  from remove_subfile_returns [OF conjunct2 [OF m(2)] conjunct1 [OF m(2)]] assms(2,3) d obtain s' where
    c: "remove_subfile (mc_ns (ce_master CE)) (mc_namespace m) d f = Done (s', OK)" "ns_inv s' \<and> ns_writable (mc_ns (ce_master CE)) s'"
      "metadata_map s' = metadata_map (mc_namespace m)" "directories s' = (node_dir w a)(d \<mapsto> sset_erase f fs)" by metis
  have "m_remove_subfile (cluster_rpc CE) a d f w = (w\<lparr>masters := (masters w)(a \<mapsto> m\<lparr>mc_namespace := s'\<rparr>)\<rparr>, Reply ())"
    using m c(1) by (simp add: handler_defs ms_remove_subfile_def mc_remove_subfile_def)
  with node_update [OF m c(2)] c(3,4) show ?thesis by simp
qed

lemma node_fileE:
  assumes "node_file w a p = Some oid" "masters w a = Some m"
  obtains meta where "metadata_map (mc_namespace m) p = Some meta" "\<not> S_ISDIR (mode meta)" "object_id meta = oid"
  using assms by (auto simp: node_file_def split: option.splits if_splits)

lemma cluster_remove:
  assumes "node_alive CE w a" "node_file w a p = Some oid"
  shows "\<exists>w'. m_remove (cluster_rpc CE) a p w = (w', Reply oid) \<and> node_alive CE w' = node_alive CE w \<and>
    node_dir w' = node_dir w \<and> node_file w' = (node_file w)(a := (node_file w a)(p := None))"
proof -
  from assms(1) obtain m where m: "masters w a = Some m" "ns_inv (mc_namespace m) \<and> ns_writable (mc_ns (ce_master CE)) (mc_namespace m)" by (rule node_aliveE)
  from assms(2) m(1) obtain meta where
    f: "metadata_map (mc_namespace m) p = Some meta" "\<not> S_ISDIR (mode meta)" "object_id meta = oid" by (rule node_fileE)
  from ns_remove_returns [OF conjunct2 [OF m(2)] conjunct1 [OF m(2)] f(1,2)] f(3) obtain s' where
    c: "ns_remove (mc_ns (ce_master CE)) (mc_namespace m) p = Done (s', Inr oid)" "ns_inv s' \<and> ns_writable (mc_ns (ce_master CE)) s'"
      "directories s' = directories (mc_namespace m)" "metadata_map s' = (metadata_map (mc_namespace m))(p := None)" by blast
  have "m_remove (cluster_rpc CE) a p w = (w\<lparr>masters := (masters w)(a \<mapsto> m\<lparr>mc_namespace := s'\<rparr>)\<rparr>, Reply oid)"
    using m c(1) by (simp add: handler_defs ms_remove_def mc_remove_def)
  with node_update [OF m c(2)] node_file_put [OF m(1) c(4)] node_dir_same [OF m(1)] c(3) show ?thesis by simp
qed

lemma cluster_object_id:
  assumes "node_alive CE w a" "node_file w a p = Some oid"
  shows "m_object_id (cluster_rpc CE) a p w = (w, Reply oid)"
proof -
  from assms(1) obtain m where m: "masters w a = Some m" by (rule node_aliveE)
  from assms(2) m obtain meta where "metadata_map (mc_namespace m) p = Some meta" "object_id meta = oid" by (rule node_fileE)
  with m show ?thesis by (simp add: handler_defs ms_object_id_def mc_object_id_def ns_object_id_def map_upd_triv)
qed

lemma cluster_readdir:
  assumes "node_alive CE w a" "is_valid_path (ce_master CE) d" "node_dir w a d = Some fs"
  shows "m_readdir (cluster_rpc CE) a d w = (w, Reply fs)"
proof -
  from assms(1) obtain m where m: "masters w a = Some m" by (rule node_aliveE)
  with assms(2,3) show ?thesis
    by (simp add: handler_defs ms_readdir_def mc_readdir_def readdir_def node_dir_def map_upd_triv)
qed

text \<open>The running masters of a cluster keep the contract.\<close>

locale master_cluster =
  fixes CE :: "('s, 'q, 'r, 'f::linorder) cluster_env"

sublocale master_cluster \<subseteq> files: file_service "cluster_rpc CE" "node_alive CE" "is_valid_path (ce_master CE)"
  node_free node_file node_dir
proof
  show "node_free w a p \<Longrightarrow> node_file w a p = None" for w :: "('s, 'q, 'r, 'f) cluster" and a p
    by (auto simp: node_free_def node_file_def)
  show "node_alive CE w a \<Longrightarrow> node_dir w a d = Some fs \<Longrightarrow> sset_ok fs" for w :: "('s, 'q, 'r, 'f) cluster" and a d fs
    by (auto simp: node_alive_def node_dir_def ns_inv_def dirs_inv_def)
qed (rule cluster_create cluster_link cluster_link_refused cluster_unlink
    cluster_remove cluster_object_id cluster_readdir; assumption)+

context master_cluster
begin

lemma cluster_create_seen:
  assumes "cl_rpc E = cluster_rpc CE" "is_initialized E c" "path \<noteq> ''/''"
    and "is_valid_path (ce_master CE) path" "is_valid_path (ce_master CE) (parent_path (cl_paths E) path)"
    and "master_of E c path = Inr node" "master_of E c (parent_path (cl_paths E) path) = Inr pnode"
    and "node_alive CE w (address node)" "node_alive CE w (address pnode)" "node_free w (address node) path"
  shows "node_dir w (address pnode) (parent_path (cl_paths E) path) = Some fs \<Longrightarrow> filename (cl_paths E) path \<notin> set fs \<Longrightarrow>
      \<exists>w1 oid. cl_create E c path md u g w = Done (w1, OK, Some oid) \<and>
        cl_object_id E c path w1 = Done (w1, Inr oid) \<and>
        cl_readdir E c (parent_path (cl_paths E) path) w1 = Done (w1, Inr (sset_insert (filename (cl_paths E) path) fs)) \<and>
        (\<exists>w2. cl_unlink E c path w1 = Done (w2, Inr oid) \<and> node_file w2 = node_file w \<and> node_dir w2 = node_dir w)"
    and "\<forall>fs. node_dir w (address pnode) (parent_path (cl_paths E) path) = Some fs \<longrightarrow> filename (cl_paths E) path \<in> set fs \<Longrightarrow>
      cl_create E c path md u g w = Fail NoReturn"
proof -
  have p: "files.placed E c w path (address node) (address pnode)"
    using assms by (simp add: files.placed_def files.found_node_iff)
  show "node_dir w (address pnode) (parent_path (cl_paths E) path) = Some fs \<Longrightarrow> filename (cl_paths E) path \<notin> set fs \<Longrightarrow>
      \<exists>w1 oid. cl_create E c path md u g w = Done (w1, OK, Some oid) \<and>
        cl_object_id E c path w1 = Done (w1, Inr oid) \<and>
        cl_readdir E c (parent_path (cl_paths E) path) w1 = Done (w1, Inr (sset_insert (filename (cl_paths E) path) fs)) \<and>
        (\<exists>w2. cl_unlink E c path w1 = Done (w2, Inr oid) \<and> node_file w2 = node_file w \<and> node_dir w2 = node_dir w)"
    by (rule files.create_seen [OF p assms(10)])
  show "\<forall>fs. node_dir w (address pnode) (parent_path (cl_paths E) path) = Some fs \<longrightarrow> filename (cl_paths E) path \<in> set fs \<Longrightarrow>
      cl_create E c path md u g w = Fail NoReturn"
    by (rule files.create_refused [OF p assms(10)])
qed

end

section \<open>A cluster of two masters\<close>

text \<open>One master has the root directory, the other the paths below it.\<close>

definition test_cluster_env ::
  "(TestLevelDBStore, (HashValueType \<times> string option) list, (HashValueType \<times> NodeInfo option) list, int) cluster_env" where
  "test_cluster_env =
     \<lparr>ce_vobla = \<lparr>sys_error = uminus, sys_message = strerror\<rparr>, ce_master = test_mc_env, ce_index = im_demo_env 0,
      not_open = (1, ''Not open''), end_of_file = (4, ''End of file''), clock = (\<lambda>_. 0), threads = (\<lambda>us. us)\<rparr>"

interpretation test_cluster: master_cluster test_cluster_env
  .

abbreviation node_a :: RpcNodeAddress where
  "node_a \<equiv> \<lparr>host = ''a'', port = 1\<rparr>"

abbreviation node_b :: RpcNodeAddress where
  "node_b \<equiv> \<lparr>host = ''b'', port = 2\<rparr>"

definition test_client_env ::
  "((TestLevelDBStore, (HashValueType \<times> string option) list, (HashValueType \<times> NodeInfo option) list, int) cluster,
    (HashValueType \<times> NodeInfo option) list) client_env" where
  "test_client_env =
     \<lparr>cl_rpc = cluster_rpc test_cluster_env, cl_ring = list_ring, cl_ring_new = [], cl_paths = posix_paths,
      cl_md5 = (\<lambda>p. if p = ''/'' then [0] else [1]), cl_vobla = ce_vobla test_cluster_env, cl_get_again = (\<lambda>_. Fail Undefined)\<rparr>"

definition test_client :: "(HashValueType \<times> NodeInfo option) list VSFSRpcClient" where
  "test_client =
     \<lparr>connected = True, master_map = [(1, Some (NodeInfo_default\<lparr>address := node_b\<rparr>)), (0, Some (NodeInfo_default\<lparr>address := node_a\<rparr>))],
      index_server_map = [], cl_host = ''a'', cl_port = 1\<rparr>"

definition root_namespace :: "TestLevelDBStore Namespace" where
  "root_namespace =
     (Namespace_new 0 [])\<lparr>metadata_map := [''/'' \<mapsto> new_meta 0 0 S_IFDIR 0 0], directories := [''/'' \<mapsto> []]\<rparr>"

definition test_cluster_state ::
  "(TestLevelDBStore, (HashValueType \<times> string option) list, (HashValueType \<times> NodeInfo option) list, int) cluster" where
  "test_cluster_state =
     \<lparr>masters = [node_a \<mapsto> demo_master\<lparr>mc_namespace := root_namespace\<rparr>, node_b \<mapsto> demo_master],
      index_servers = Map.empty\<rparr>"

lemma test_master_of:
  "master_of test_client_env test_client ''/'' = Inr (NodeInfo_default\<lparr>address := node_a\<rparr>)"
  "p \<noteq> ''/'' \<Longrightarrow> master_of test_client_env test_client p = Inr (NodeInfo_default\<lparr>address := node_b\<rparr>)"
  by (simp_all add: master_of_def ServerMap_get_path_def ServerMap_get_def test_client_env_def test_client_def
      list_ring_def replay_nodes_def path_to_hash_def lower_bound_def word_rcat_def)

lemma test_alive: "node_alive test_cluster_env test_cluster_state node_a" "node_alive test_cluster_env test_cluster_state node_b"
proof -
  have "S_ISDIR S_IFDIR" by (simp add: S_ISDIR_def mode_defs)
  then have "ns_inv root_namespace"
    by (auto simp: root_namespace_def Namespace_new_def ns_inv_def ids_inv_def fresh_inv_def dirs_inv_def is_file_def is_dir_def)
  then show "node_alive test_cluster_env test_cluster_state node_a" "node_alive test_cluster_env test_cluster_state node_b"
    using demo_master_ns_inv test_accepts_writes
    by (simp_all add: node_alive_def test_cluster_state_def test_cluster_env_def test_mc_env_def test_env_def)
qed

lemma test_nodes:
  "node_dir test_cluster_state node_a ''/'' = Some []"
  "node_dir test_cluster_state node_b p = None"
  "node_free test_cluster_state node_b p"
  by (simp_all add: node_dir_def node_free_def test_cluster_state_def root_namespace_def demo_master_def Namespace_new_def)

lemma test_client_simps:
  "cl_rpc test_client_env = cluster_rpc test_cluster_env" "cl_paths test_client_env = posix_paths"
  "is_initialized test_client_env test_client"
  "is_valid_path (ce_master test_cluster_env) p \<longleftrightarrow> p \<noteq> [] \<and> hd p = CHR ''/''"
  by (simp_all add: test_client_env_def test_client_def is_initialized_def ServerMap_empty_def list_ring_def replay_nodes_def
      is_valid_path_def test_cluster_env_def test_mc_env_def test_env_def posix_paths_def)

lemma test_paths:
  "parent_path posix_paths ''/f'' = ''/''" "filename posix_paths ''/f'' = ''f''"
  "parent_path posix_paths ''/d/f'' = ''/d''" "filename posix_paths ''/d/f'' = ''f''"
  by (simp_all add: posix_paths_def find_last_of_def)

section \<open>Properties of client and servers\<close>

text \<open>
  C4: The whole way of a new file through a cluster. The client sends the file to the master of its path and the
  name to the master of its directory, which may be another one. When both are up, their databases take
  writes, the path is free and the directory exists without the name, \<open>create\<close> returns and succeeds; the
  client then finds the id it was given under the path and the name in the directory; and \<open>unlink\<close> returns the same
  id and leaves every file and directory of every master as it was before.\<close>

theorem client_create_seen:
  assumes "cl_rpc E = cluster_rpc CE" "is_initialized E c" "path \<noteq> ''/''"
    and "is_valid_path (ce_master CE) path" "is_valid_path (ce_master CE) (parent_path (cl_paths E) path)"
    and "master_of E c path = Inr node" "master_of E c (parent_path (cl_paths E) path) = Inr pnode"
    and "node_alive CE w (address node)" "node_alive CE w (address pnode)" "node_free w (address node) path"
    and "node_dir w (address pnode) (parent_path (cl_paths E) path) = Some fs" "filename (cl_paths E) path \<notin> set fs"
  shows "\<exists>w1 oid. cl_create E c path md u g w = Done (w1, OK, Some oid) \<and>
    cl_object_id E c path w1 = Done (w1, Inr oid) \<and>
    cl_readdir E c (parent_path (cl_paths E) path) w1 = Done (w1, Inr (sset_insert (filename (cl_paths E) path) fs)) \<and>
    (\<exists>w2. cl_unlink E c path w1 = Done (w2, Inr oid) \<and> node_file w2 = node_file w \<and> node_dir w2 = node_dir w)"
  by (rule master_cluster.cluster_create_seen(1) [OF assms])

text \<open>The masters on LevelDB: the one at \<open>node_a\<close> has the root directory, in memory and in its database.\<close>

definition log_mc_env ::
  "((string \<times> string option) list LevelDBStore, (HashValueType \<times> string option) list, (HashValueType \<times> NodeInfo option) list) mc_env" where
  "log_mc_env =
     \<lparr>mc_ns = log_env, mc_ix = log_ix_env, mc_pm = log_pm_env, mc_ring = list_ring, mc_ring_new = [],
      mc_host_name = ''localhost'', mc_absolute = (\<lambda>p. p), mc_new_store = (\<lambda>p. LevelDBStore_new p 4)\<rparr>"

definition log_cluster_env ::
  "((string \<times> string option) list LevelDBStore, (HashValueType \<times> string option) list, (HashValueType \<times> NodeInfo option) list, int) cluster_env" where
  "log_cluster_env =
     \<lparr>ce_vobla = ce_vobla test_cluster_env, ce_master = log_mc_env, ce_index = im_demo_env 0,
      not_open = (1, ''Not open''), end_of_file = (4, ''End of file''), clock = (\<lambda>_. 0), threads = (\<lambda>us. us)\<rparr>"

interpretation log_cluster: master_cluster log_cluster_env .

definition log_client_env ::
  "(((string \<times> string option) list LevelDBStore, (HashValueType \<times> string option) list, (HashValueType \<times> NodeInfo option) list, int) cluster,
    (HashValueType \<times> NodeInfo option) list) client_env" where
  "log_client_env =
     \<lparr>cl_rpc = cluster_rpc log_cluster_env, cl_ring = list_ring, cl_ring_new = [], cl_paths = posix_paths,
      cl_md5 = cl_md5 test_client_env, cl_vobla = ce_vobla test_cluster_env, cl_get_again = (\<lambda>_. Fail Undefined)\<rparr>"

definition log_master ::
  "(string \<times> string option) list LevelDBStore Namespace \<Rightarrow>
     ((string \<times> string option) list LevelDBStore, (HashValueType \<times> string option) list, (HashValueType \<times> NodeInfo option) list) MasterController" where
  "log_master ns =
     \<lparr>mc_host = ''h'', mc_port = 1, is_primary_node = False, primary_host = ''p'', primary_port = 2,
      index_server_manager = None, master_server_manager = None, mc_namespace = ns,
      index_namespace = IndexNamespace_new log_store, index_partition_manager = PartitionManager_new log_store\<rparr>"

definition log_root_namespace :: "(string \<times> string option) list LevelDBStore Namespace" where
  "log_root_namespace =
     (Namespace_new 0 (log_store\<lparr>db_ptr := Some [(''/'', Some (ser_metadata (new_meta 0 0 S_IFDIR 0 0)))]\<rparr>))
       \<lparr>metadata_map := [''/'' \<mapsto> new_meta 0 0 S_IFDIR 0 0], directories := [''/'' \<mapsto> []]\<rparr>"

definition log_cluster_state ::
  "((string \<times> string option) list LevelDBStore, (HashValueType \<times> string option) list, (HashValueType \<times> NodeInfo option) list, int) cluster" where
  "log_cluster_state =
     \<lparr>masters = [node_a \<mapsto> log_master log_root_namespace, node_b \<mapsto> log_master (Namespace_new 0 log_store)],
      index_servers = Map.empty\<rparr>"

lemma log_alive: "node_alive log_cluster_env log_cluster_state node_a" "node_alive log_cluster_env log_cluster_state node_b"
proof -
  have "S_ISDIR S_IFDIR" by (simp add: S_ISDIR_def mode_defs)
  then have "ns_inv log_root_namespace" "ns_inv (Namespace_new 0 log_store)"
    by (auto simp: log_root_namespace_def Namespace_new_def ns_inv_split)
  moreover have "accepts_writes (leveldb_kv log_leveldb) (ns_store log_root_namespace)"
    "accepts_writes (leveldb_kv log_leveldb) (ns_store (Namespace_new 0 log_store))"
    by (rule log_accepts_writes, simp add: log_root_namespace_def Namespace_new_def log_store_def)+
  ultimately show "node_alive log_cluster_env log_cluster_state node_a" "node_alive log_cluster_env log_cluster_state node_b"
    by (simp_all add: node_alive_def log_cluster_state_def log_master_def log_cluster_env_def log_mc_env_def log_env_def)
qed

lemma log_master_of:
  "master_of log_client_env test_client ''/'' = Inr (NodeInfo_default\<lparr>address := node_a\<rparr>)"
  "p \<noteq> ''/'' \<Longrightarrow> master_of log_client_env test_client p = Inr (NodeInfo_default\<lparr>address := node_b\<rparr>)"
  by (simp_all add: master_of_def ServerMap_get_path_def ServerMap_get_def log_client_env_def test_client_env_def test_client_def
      list_ring_def replay_nodes_def path_to_hash_def lower_bound_def word_rcat_def)

theorem client_create_seen_witness:
  "\<exists>w1 oid w2. cl_create log_client_env test_client ''/f'' 0 0 0 log_cluster_state = Done (w1, OK, Some oid) \<and>
     cl_object_id log_client_env test_client ''/f'' w1 = Done (w1, Inr oid) \<and>
     cl_readdir log_client_env test_client ''/'' w1 = Done (w1, Inr [''f'']) \<and>
     cl_unlink log_client_env test_client ''/f'' w1 = Done (w2, Inr oid)"
proof -
  have c: "cl_rpc log_client_env = cluster_rpc log_cluster_env" "is_initialized log_client_env test_client"
    "cl_paths log_client_env = posix_paths" "is_valid_path (ce_master log_cluster_env) p \<longleftrightarrow> p \<noteq> [] \<and> hd p = CHR ''/''" for p
    by (simp_all add: log_client_env_def test_client_def is_initialized_def ServerMap_empty_def list_ring_def replay_nodes_def
        is_valid_path_def log_cluster_env_def log_mc_env_def log_env_def posix_paths_def)
  have n: "node_dir log_cluster_state node_a ''/'' = Some []" "node_free log_cluster_state node_b ''/f''"
    by (simp_all add: node_dir_def node_free_def log_cluster_state_def log_root_namespace_def log_master_def Namespace_new_def)
  from client_create_seen [OF c(1,2), of "''/f''" _ _ log_cluster_state "[]" 0 0 0] log_master_of log_alive n
  show ?thesis by (fastforce simp: c test_paths)
qed

text \<open>
  A client that creates a file in a directory that does not exist, or has the name already, never gets an answer: the
  master of the directory refuses the name each time, and a refusal does not use up a retry. The record of the
  file has been made by then and stays.\<close>

theorem client_create_hangs:
  assumes "cl_rpc E = cluster_rpc CE" "is_initialized E c" "path \<noteq> ''/''"
    and "is_valid_path (ce_master CE) path" "is_valid_path (ce_master CE) (parent_path (cl_paths E) path)"
    and "master_of E c path = Inr node" "master_of E c (parent_path (cl_paths E) path) = Inr pnode"
    and "node_alive CE w (address node)" "node_alive CE w (address pnode)" "node_free w (address node) path"
    and "\<forall>fs. node_dir w (address pnode) (parent_path (cl_paths E) path) = Some fs \<longrightarrow> filename (cl_paths E) path \<in> set fs"
  shows "cl_create E c path md u g w = Fail NoReturn"
  by (rule master_cluster.cluster_create_seen(2) [OF assms])

theorem client_create_hangs_witness:
  "cl_create test_client_env test_client ''/d/f'' 0 0 0 test_cluster_state = Fail NoReturn"
  by (rule client_create_hangs [OF test_client_simps(1,3), of "''/d/f''" "NodeInfo_default\<lparr>address := node_b\<rparr>"
        "NodeInfo_default\<lparr>address := node_b\<rparr>"])
     (simp_all add: test_client_simps test_paths test_master_of test_alive test_nodes)

text \<open>
  C20: Exactly when linking a name into its directory ends. The call is tried until the master answers or three
  tries have lost their connection, however many refusals there are in between; if neither happens, it never returns.
  Taking a name out of a directory ends under the same condition.\<close>

theorem link_returns_iff:
  assumes "path \<noteq> ''/''" "master_of E c (parent_path (cl_paths E) path) = Inr node"
  shows "let parent = parent_path (cl_paths E) path; name = filename (cl_paths E) path;
      link = m_add_subfile (cl_rpc E) (address node) parent name; unlink = m_remove_subfile (cl_rpc E) (address node) parent name;
      answered = (\<lambda>call. \<exists>n. snd (call (after_tries call n w)) = Reply () \<or> 3 \<le> lost_tries call n w)
    in (if answered link then \<exists>r. cl_add_subfile E c path w = Done r else cl_add_subfile E c path w = Fail NoReturn) \<and>
       (if answered unlink then \<exists>r. cl_remove_subfile E c path w = Done r else cl_remove_subfile E c path w = Fail NoReturn)"
proof -
  have r: "if ends call kNumBackOffs w then \<exists>x. returned (subfile_loop call kNumBackOffs OK w) = Done x
      else returned (subfile_loop call kNumBackOffs OK w) = Fail NoReturn" for call
    using subfile_loop_iff [of call kNumBackOffs OK w]
    by (cases "subfile_loop call kNumBackOffs OK w") (auto simp: returned_def)
  let ?link = "m_add_subfile (cl_rpc E) (address node) (parent_path (cl_paths E) path) (filename (cl_paths E) path)"
    and ?unlink = "m_remove_subfile (cl_rpc E) (address node) (parent_path (cl_paths E) path) (filename (cl_paths E) path)"
  have e: "cl_add_subfile E c path w = returned (subfile_loop ?link kNumBackOffs OK w)"
    "cl_remove_subfile E c path w = returned (subfile_loop ?unlink kNumBackOffs OK w)"
    using assms by (simp_all add: cl_add_subfile_def cl_remove_subfile_def found_node_def)
  show ?thesis
    unfolding Let_def e kNumBackOffs_def
    by (intro conjI; rule r [unfolded ends_def kNumBackOffs_def])
qed

theorem link_returns_iff_witness:
  "(\<exists>r. cl_add_subfile test_client_env test_client ''/f'' test_cluster_state = Done r) \<and>
   cl_remove_subfile test_client_env test_client ''/f'' (test_cluster_state\<lparr>masters := Map.empty\<rparr>) \<noteq> Fail NoReturn"
proof -
  let ?link = "m_add_subfile (cl_rpc test_client_env) node_a ''/'' ''f''"
    and ?down = "test_cluster_state\<lparr>masters := Map.empty\<rparr>"
    and ?unlink = "m_remove_subfile (cl_rpc test_client_env) node_a ''/'' ''f''"
  have "\<exists>w'. ?link test_cluster_state = (w', Reply ())"
    using cluster_link [OF test_alive(1) _ test_nodes(1), of "''f''"] by (auto simp: test_client_simps)
  then have 1: "snd (?link (after_tries ?link 0 test_cluster_state)) = Reply ()" by auto
  have "?unlink ?down = (?down, TransportError 1 ''Not open'')"
    by (simp add: test_client_simps handler_defs test_cluster_env_def)
  then have 2: "3 \<le> lost_tries ?unlink (Suc (Suc (Suc 0))) ?down" by (simp add: lost_def)
  have f: "''/f'' \<noteq> ''/''" by simp
  have m: "master_of test_client_env test_client (parent_path (cl_paths test_client_env) ''/f'') =
      Inr (NodeInfo_default\<lparr>address := node_a\<rparr>)"
    by (simp add: test_client_simps test_paths test_master_of)
  have p: "parent_path (cl_paths test_client_env) ''/f'' = ''/''" "filename (cl_paths test_client_env) ''/f'' = ''f''"
    "address (NodeInfo_default\<lparr>address := node_a\<rparr>) = node_a" by (simp_all add: test_client_simps test_paths)
  note t = link_returns_iff [OF f m, unfolded Let_def p]
  have "\<exists>r. cl_add_subfile test_client_env test_client ''/f'' test_cluster_state = Done r"
    using t [of test_cluster_state, THEN conjunct1] 1 by (metis (no_types, lifting))
  moreover have "\<exists>r. cl_remove_subfile test_client_env test_client ''/f'' ?down = Done r"
    using t [of ?down, THEN conjunct2] 2 by (metis (no_types, lifting))
  ultimately show ?thesis by auto
qed

lemma cluster_find_objects:
  "masters w a = Some m \<Longrightarrow>
     m_find_objects (cluster_rpc CE) a ps w = (w, Reply (map (\<lambda>p. hd (find_objects (mc_namespace m) [p])) ps))"
  by (simp add: handler_defs ms_find_objects_def mc_find_objects_def find_objects_def map_upd_triv)

text \<open>
  C18: Resolving paths to objects over a cluster. The client groups the paths by their masters, asks each master
  once and puts the answers back to the places of the paths: when the vector it is given has room, place \<open>i\<close> ends up
  with the id that the namespace of the master of path \<open>i\<close> has for that path, however the paths are
  spread over the masters. The vector is only \<open>reserve\<close>d, not resized, so with a shorter vector, such as the
  empty one \<open>IndexUpdateTask::run\<close> passes, the writes are undefined.\<close>

theorem find_objects_by_path:
  assumes "cl_rpc E = cluster_rpc CE" "resolvable E c adr paths" "\<forall>p\<in>set paths. masters w (adr p) = Some (node p)"
  shows "cl_find_objects E c paths objects w =
    (if length paths \<le> length objects
     then Done (w, map (\<lambda>p. case metadata_map (mc_namespace (node p)) p of None \<Rightarrow> 0 | Some meta \<Rightarrow> object_id meta) paths
            @ drop (length paths) objects, OK)
     else Fail Undefined)"
proof -
  let ?obj = "\<lambda>a p. hd (find_objects (mc_namespace (the (masters w a))) [p])"
  have "m_find_objects (cl_rpc E) (adr p) ps w = (w, Reply (map (?obj (adr p)) ps))" if "p \<in> set paths" for p ps
    using that assms(1,3) cluster_find_objects [of w "adr p" "node p"] by simp
  from cl_find_objects_spec [OF assms(2), of w ?obj, OF this] assms(3) show ?thesis
    by (auto simp: find_objects_def)
qed

theorem find_objects_by_path_witness:
  "cl_find_objects test_client_env test_client [''/'', ''/f''] [7, 7, 7] test_cluster_state = Done (test_cluster_state, [0, 0, 7], OK) \<and>
   cl_find_objects test_client_env test_client [''/f''] [] test_cluster_state = Fail Undefined"
proof -
  let ?adr = "\<lambda>p. if p = ''/'' then node_a else node_b"
    and ?node = "\<lambda>p. if p = ''/'' then demo_master\<lparr>mc_namespace := root_namespace\<rparr> else demo_master"
  have r: "resolvable test_client_env test_client ?adr ps" for ps
    by (auto simp: resolvable_def found_node_def test_master_of plain_address_def)
  have n: "\<forall>p\<in>set ps. masters test_cluster_state (?adr p) = Some (?node p)" for ps
    by (simp add: test_cluster_state_def)
  show ?thesis
    using find_objects_by_path [OF test_client_simps(1) r n, of "[''/'', ''/f'']" "[7, 7, 7]"]
      find_objects_by_path [OF test_client_simps(1) r n, of "[''/f'']" "[]"]
    by (simp add: root_namespace_def demo_master_def Namespace_new_def)
qed


lemma climb_law_posix: "climb_law posix_paths"
  unfolding climb_law_def
proof (intro allI impI)
  fix p assume a: "is_absolute posix_paths p" and n: "p \<noteq> ''/''"
  then obtain q where q: "p = CHR ''/'' # q" "q \<noteq> []" by (cases p) (auto simp: posix_paths_def)
  then obtain i where i: "find_last_of CHR ''/'' p = Some i"
    using find_idx_None_iff [of "\<lambda>x. x = CHR ''/''" "rev p"] by (auto simp: find_last_of_def)
  with find_last_of_SomeD [OF i] q show "is_absolute posix_paths (parent_path posix_paths p) \<and> length (parent_path posix_paths p) < length p"
    by (cases i) (auto simp: posix_paths_def)
qed

text \<open>The cluster with the directory of an index on the root.\<close>

definition indexed_state ::
  "(TestLevelDBStore, (HashValueType \<times> string option) list, (HashValueType \<times> NodeInfo option) list, int) cluster" where
  "indexed_state =
     test_cluster_state\<lparr>masters := (masters test_cluster_state)(node_b \<mapsto>
       demo_master\<lparr>mc_namespace := (Namespace_new 0 [])\<lparr>metadata_map := [''/.vsfs/x'' \<mapsto> new_meta 0 0 S_IFDIR 0 0]\<rparr>\<rparr>)\<rparr>"

lemma indexed_climb: "climb test_client_env test_client ''x'' ''/'' indexed_state = Some (Done (indexed_state, Inr ''/.vsfs/x''))"
proof -
  have i: "index_path (cl_paths test_client_env) ''/'' ''x'' = ''/.vsfs/x''"
    by (simp add: test_client_simps index_path_def posix_paths_def)
  have m: "masters indexed_state node_b = Some (demo_master\<lparr>mc_namespace :=
      (Namespace_new 0 [])\<lparr>metadata_map := [''/.vsfs/x'' \<mapsto> new_meta 0 0 S_IFDIR 0 0]\<rparr>\<rparr>)"
    by (simp add: indexed_state_def)
  obtain info where g: "getattr ((Namespace_new 0 ([] :: TestLevelDBStore))\<lparr>metadata_map := [''/.vsfs/x'' \<mapsto> new_meta 0 0 S_IFDIR 0 0]\<rparr>)
      ''/.vsfs/x'' = Done (Inr info)" "fi_mode info = Some 0x4000"
    by (simp add: getattr_def double_to_i64_def new_meta_def mode_defs in_int64_def int64_min_def int64_max_def i32_to_i64_def)
  have "m_getattr (cluster_rpc test_cluster_env) node_b ''/.vsfs/x'' indexed_state = (indexed_state, Reply info)"
    using m g(1) by (simp add: handler_defs ms_getattr_def mc_getattr_def map_upd_triv)
  then have "cl_getattr_stat test_client_env test_client ''/.vsfs/x'' indexed_state = Done (indexed_state, Inr (stat_of_info info))"
    by (simp add: cl_getattr_stat_def cl_getattr_def on_master_def found_node_def test_master_of test_client_simps both_caught_def)
  moreover have "S_ISDIR (st_mode (stat_of_info info))"
    using g(2) by (simp add: stat_of_info_def or_zero_def S_ISDIR_def mode_defs)
  ultimately show ?thesis by (subst climb.simps) (simp add: i index_verdict_def)
qed

definition test_update :: IndexUpdateRequest where
  "test_update = \<lparr>ur_op = 1, ur_file_path = ''/f'', ur_index_name = ''x'', ur_key = ''3''\<rparr>"


text \<open>
  The plan of a search sends every partition to the server that keeps it. The client asks all masters for the
  indices of the query; the plan has each server at most once, and under the address of a server exactly
  the first partitions of the located indices that the ring puts there.\<close>

theorem search_plan_exact:
  assumes "gen_search_plan E c query w = Done (w', Inr plan)"
  shows "\<exists>indices. locate_index_for_search E c query w = (w', Inr indices) \<and> distinct (map fst plan) \<and>
    (\<forall>key part. (\<exists>parts. (key, parts) \<in> set plan \<and> part \<in> set parts) \<longleftrightarrow>
      (\<exists>i\<in>set indices. \<exists>node. part = i @ ''/0'' \<and> index_server_of E c part = Inr node \<and> key = address_to_string (address node)))"
proof -
  from assms obtain indices where l: "locate_index_for_search E c query w = (w', Inr indices)"
    and p: "plan_partitions E c indices [] = Done plan"
    by (auto simp: gen_search_plan_def split: prod.splits sum.splits)
  have f: "found_node r = Done a \<longleftrightarrow> (\<exists>node. r = Inr node \<and> a = address node)" for r a
    by (cases r) (auto simp: found_node_def)
  note s = plan_partitions_spec [OF p smap_ok_Nil]
  have "(\<exists>parts. (key, parts) \<in> set plan \<and> part \<in> set parts) \<longleftrightarrow> part \<in> set (at_key plan key)" for key part
    using at_key_member [OF s [THEN conjunct1]] at_key_nonempty [of part plan key] by blast
  with s smap_ok_distinct l show ?thesis by (auto simp: f)
qed

text \<open>A cluster whose first master knows one index, and an index server for it.\<close>

definition located_env ::
  "((TestLevelDBStore, (HashValueType \<times> string option) list, (HashValueType \<times> NodeInfo option) list, int) cluster,
    (HashValueType \<times> NodeInfo option) list) client_env" where
  "located_env = test_client_env\<lparr>cl_rpc := (cluster_rpc test_cluster_env)\<lparr>m_locate_indices_for_search :=
     (\<lambda>a p ns w. (w, Reply (if a = node_a then [''/.vsfs/x''] else [])))\<rparr>\<rparr>"

theorem search_plan_exact_witness:
  "gen_search_plan located_env (test_client\<lparr>index_server_map := master_map test_client\<rparr>) ComplexQuery_new test_cluster_state =
     Done (test_cluster_state, Inr [(''b:2'', [''/.vsfs/x/0''])]) \<and>
   index_server_of located_env (test_client\<lparr>index_server_map := master_map test_client\<rparr>) ''/.vsfs/x/0'' =
     Inr (NodeInfo_default\<lparr>address := node_b\<rparr>)"
proof -
  let ?c = "test_client\<lparr>index_server_map := master_map test_client\<rparr>"
  have n: "index_server_of located_env ?c ''/.vsfs/x/0'' = Inr (NodeInfo_default\<lparr>address := node_b\<rparr>)"
    using test_master_of(2) [of "''/.vsfs/x/0''"] by (simp add: index_server_of_def master_of_def located_env_def)
  have "nat_to_string 2 = ''2''" by code_simp
  then have k: "address_to_string node_b = ''b:2''" by (simp add: address_to_string_def int_to_string_def)
  have sel: "cl_ring located_env = cl_ring test_client_env"
    "m_locate_indices_for_search (cl_rpc located_env) = (\<lambda>a p ns w. (w, Reply (if a = node_a then [''/.vsfs/x''] else [])))"
    by (simp_all add: located_env_def)
  have r: "get_ch_ring_as_map (cl_ring test_client_env) (master_map test_client) =
      [(0, NodeInfo_default\<lparr>address := node_a\<rparr>), (1, NodeInfo_default\<lparr>address := node_b\<rparr>)]"
    by (simp add: get_ch_ring_as_map_def test_client_env_def test_client_def list_ring_def replay_nodes_def)
  have g: "gen_search_plan located_env ?c ComplexQuery_new test_cluster_state =
      Done (test_cluster_state, Inr [(''b:2'', [''/.vsfs/x/0''])])"
    by (simp add: gen_search_plan_def locate_index_for_search_def sel r n k found_node_def insert_at_def both_caught_def)
  from search_plan_exact [OF g] g n show ?thesis by blast
qed

end
