(* ===== verification/Search.thy ===== *)
theory Search
  imports Cluster
begin

text \<open>
  A search from the client to the records and back: the plan that \<open>Cluster\<close> shows to be exact is sent to the index servers,
  which merge their logs and search, and the objects they answer with are turned into paths by the masters.
  Clients leave transaction ids at zero, so an index is described here by the updates it has received with that id.
\<close>

section \<open>An index that clients use\<close>

text \<open>
  \<open>served\<close> is an index that has received the updates \<open>hist\<close>, oldest first: some are merged and gone from the log, some
  are merged and still in it, some are only in the log.
\<close>

definition served ::
  "'f index_env \<Rightarrow> key_kind \<Rightarrow> RpcIndexRecordUpdateList list \<Rightarrow> 'f RangeIndexWrapper \<Rightarrow> bool" where
  "served E k hist w \<longleftrightarrow>
     w_status w = NORMAL \<and> (\<forall>us\<in>set hist. well_formed (int_traits E k) us) \<and>
     (\<exists>ix l0 l1 l2. ri_index w = IntIndex k ix \<and> index_ok ix \<and> log (log_manager w) = l1 @ l2 \<and>
        hist = l0 @ map snd (l1 @ l2) \<and> (\<forall>r\<in>set (l1 @ l2). fst r = 0) \<and>
        records ix = foldl record_spec {} (effects (int_traits E k) (l0 @ map snd l1)))"

definition content :: "'f index_env \<Rightarrow> key_kind \<Rightarrow> RpcIndexRecordUpdateList list \<Rightarrow> (int \<times> ObjectId) set" where
  "content E k hist = foldl record_spec {} (effects (int_traits E k) hist)"

lemma served_new: "k \<notin> {KString, KFloat, KDouble} \<Longrightarrow> served E k [] (RangeIndexWrapper_new E path (new_range_index k) True)"
  by (simp add: served_def RangeIndexWrapper_new_def new_range_index_def LogManager_new_def)

lemma served_update:
  assumes "served E k hist w" "\<not> update_immediately E" "well_formed (int_traits E k) us"
  shows "\<exists>w'. wrapper_update E 0 us w = Done (w', OK) \<and> served E k (hist @ [us]) w'"
proof -
  from assms(1) obtain ix l0 l1 l2 where
    i: "w_status w = NORMAL" "ri_index w = IntIndex k ix" "index_ok ix" "log (log_manager w) = l1 @ l2"
      "hist = l0 @ map snd (l1 @ l2)" "\<forall>r\<in>set (l1 @ l2). fst r = 0" "\<forall>us\<in>set hist. well_formed (int_traits E k) us"
      "records ix = foldl record_spec {} (effects (int_traits E k) (l0 @ map snd l1))"
    unfolding served_def by blast
  let ?w = "w\<lparr>log_manager := (log_manager w)\<lparr>log := log (log_manager w) @ [(0, us)]\<rparr>, dirty := True\<rparr>"
  have "served E k (hist @ [us]) ?w"
    unfolding served_def using i assms(3)
    by (intro conjI exI [of _ ix] exI [of _ l0] exI [of _ l1] exI [of _ "l2 @ [(0, us)]"]) auto
  then show ?thesis using assms(2) by (simp add: wrapper_update_def log_append_def)
qed

lemma served_search:
  assumes "served E k hist w" "zero_init (int_traits E k)"
  shows "\<exists>w' rs. wrapper_search E 0 q w [] = Done (w', rs, OK) \<and> served E k hist w' \<and>
    set rs = answer (int_traits E k) q (content E k hist)"
proof -
  let ?T = "int_traits E k"
  from assms(1) obtain ix l0 l1 l2 where
    i: "w_status w = NORMAL" "ri_index w = IntIndex k ix" "index_ok ix" "log (log_manager w) = l1 @ l2"
      "hist = l0 @ map snd (l1 @ l2)" "\<forall>r\<in>set (l1 @ l2). fst r = 0" "\<forall>us\<in>set hist. well_formed ?T us"
      "records ix = foldl record_spec {} (effects ?T (l0 @ map snd l1))"
    unfolding served_def by blast
  have "takeWhile (\<lambda>r. fst r \<le> 0) (l1 @ l2) = l1 @ l2" using i(6) by (simp add: takeWhile_eq_all_conv)
  then have scan: "log_scan 0 (log_manager w) = map snd (l1 @ l2)" by (simp only: log_scan_def i(4))
  have "\<forall>us\<in>set (map snd (l1 @ l2)). well_formed ?T us" using i(5,7) by auto
  from merge_records_int [OF assms(2) this i(3)] obtain ix1 where
    m: "merge_records E (IntIndex k ix) (map snd (l1 @ l2)) = Done (IntIndex k ix1, OK)" "index_ok ix1"
       "records ix1 = foldl record_spec (records ix) (effects ?T (map snd (l1 @ l2)))" by blast
  have R: "records ix1 = content E k hist"
    using foldl_record_spec_again [of "foldl record_spec {} (effects ?T l0)" "effects ?T (map snd l1)" "effects ?T (map snd l2)"]
    unfolding m(3) i(8) i(5) content_def by simp
  let ?w = "w\<lparr>ri_index := IntIndex k ix1, last_merged_log_id := 0, dirty := True\<rparr>"
  have "wrapper_search E 0 q w [] = Done (?w, fst (search_query ?T ix1 q []), OK)"
    using m(1) i(1) by (simp add: wrapper_search_def wrapper_merge_def scan i(2))
  moreover have "served E k hist ?w"
    unfolding served_def using i m(2) R
    by (intro conjI exI [of _ ix1] exI [of _ l0] exI [of _ "l1 @ l2"] exI [of _ "[]"]) (simp_all add: content_def)
  moreover have "set (fst (search_query ?T ix1 q [])) = answer ?T q (content E k hist)"
    unfolding search_query_answer [OF m(2)] R ..
  ultimately show ?thesis by blast
qed

section \<open>The index servers\<close>

text \<open>
  \<open>keeps\<close>: the server has the partition \<open>part\<close> as a B-tree, of the kind and with the updates that \<open>kind\<close> and \<open>hist\<close> give
  for it.
\<close>

definition keeps ::
  "'f index_env \<Rightarrow> (string \<Rightarrow> key_kind) \<Rightarrow> (string \<Rightarrow> RpcIndexRecordUpdateList list) \<Rightarrow> 'f IndexManager \<Rightarrow> string \<Rightarrow> bool" where
  "keeps E kind hist m part \<longleftrightarrow>
     (\<exists>info w. get_index_info m part = Some info \<and> info_index_type info = BTREE \<and>
        map_of (range_index_map m) part = Some w \<and> served E (kind part) (hist part) w)"

definition matching ::
  "'f index_env \<Rightarrow> (string \<Rightarrow> key_kind) \<Rightarrow> (string \<Rightarrow> RpcIndexRecordUpdateList list) \<Rightarrow> RpcRangeQuery \<Rightarrow> ObjectId set" where
  "matching E kind hist q =
     (let part = rq_index_path q in
      answer (int_traits E (kind part)) q (content E (kind part) (hist part)))"

lemma keeps_put: "served E (kind p) (hist p) w \<Longrightarrow> keeps E kind hist m q \<Longrightarrow> keeps E kind hist (put_wrapper p w m) q"
  by (auto simp: keeps_def put_wrapper_def get_index_info_def)

lemma im_search_loop_keeps:
  assumes "\<And>p. zero_init (int_traits E (kind p))" "\<forall>q\<in>set qs. keeps E kind hist m (rq_index_path q)"
  shows "\<exists>m' rs. im_search_loop E 0 qs m results = Done (m', results @ rs, OK) \<and>
    (\<forall>p. keeps E kind hist m p \<longrightarrow> keeps E kind hist m' p) \<and> set rs = (\<Union>q\<in>set qs. matching E kind hist q)"
  using assms(2)
proof (induction qs arbitrary: m results)
  case (Cons q qs)
  let ?p = "rq_index_path q"
  from Cons.prems obtain info w where
    w: "get_index_info m ?p = Some info" "info_index_type info = BTREE" "map_of (range_index_map m) ?p = Some w"
      "served E (kind ?p) (hist ?p) w" by (auto simp: keeps_def)
  from served_search [OF w(4) assms(1), of q] obtain w' rs where
    s: "wrapper_search E 0 q w [] = Done (w', rs, OK)" "served E (kind ?p) (hist ?p) w'" "set rs = matching E kind hist q"
    by (auto simp: matching_def Let_def)
  let ?m = "put_wrapper ?p w' m"
  have k: "\<forall>p. keeps E kind hist m p \<longrightarrow> keeps E kind hist ?m p"
    using keeps_put [of E kind ?p hist w' m, OF s(2)] by blast
  from Cons.IH [of ?m "results @ rs"] k Cons.prems obtain m' rs' where
    r: "im_search_loop E 0 qs ?m (results @ rs) = Done (m', (results @ rs) @ rs', OK)"
      "\<forall>p. keeps E kind hist ?m p \<longrightarrow> keeps E kind hist m' p" "set rs' = (\<Union>q\<in>set qs. matching E kind hist q)"
    by auto
  have "im_search_loop E 0 (q # qs) m results = Done (m', results @ (rs @ rs'), OK)"
    using w s(1) r(1) by (simp add: wrapper_of_def Let_def del: bindo_Done_iff)
  moreover have "set (rs @ rs') = (\<Union>q\<in>set (q # qs). matching E kind hist q)" using s(3) r(3) by simp
  ultimately show ?case using k r(2) by blast
qed auto

definition cluster_keeps ::
  "('s, 'q, 'r, 'f) cluster_env \<Rightarrow> (string \<Rightarrow> key_kind) \<Rightarrow> (string \<Rightarrow> RpcIndexRecordUpdateList list) \<Rightarrow> ('s, 'q, 'r, 'f) cluster \<Rightarrow>
     RpcNodeAddress \<Rightarrow> string \<Rightarrow> bool" where
  "cluster_keeps CE kind hist w a part \<longleftrightarrow> (\<exists>m. index_servers w a = Some m \<and> keeps (ce_index CE) kind hist m part)"

lemma cluster_i_search:
  assumes "\<And>p. zero_init (int_traits (ce_index CE) (kind p))" "index_servers w a \<noteq> None"
    and "\<forall>q\<in>set qs. cluster_keeps CE kind hist w a (rq_index_path q)"
  shows "\<exists>w' rs. i_search (cluster_rpc CE) a \<lparr>qry_txn_id = 0, qry_root = dir, range_queries = qs\<rparr> w = (w', Reply rs) \<and>
    masters w' = masters w \<and> (\<forall>b. index_servers w b \<noteq> None \<longrightarrow> index_servers w' b \<noteq> None) \<and>
    (\<forall>b p. cluster_keeps CE kind hist w b p \<longrightarrow> cluster_keeps CE kind hist w' b p) \<and>
    set rs = (\<Union>q\<in>set qs. matching (ce_index CE) kind hist q)"
proof -
  from assms(2) obtain m where m: "index_servers w a = Some m" by blast
  with assms(3) have "\<forall>q\<in>set qs. keeps (ce_index CE) kind hist m (rq_index_path q)" by (simp add: cluster_keeps_def)
  from im_search_loop_keeps [OF assms(1) this, of "[]"] obtain m' rs where
    s: "im_search_loop (ce_index CE) 0 qs m [] = Done (m', rs, OK)"
      "\<forall>p. keeps (ce_index CE) kind hist m p \<longrightarrow> keeps (ce_index CE) kind hist m' p"
      "set rs = (\<Union>q\<in>set qs. matching (ce_index CE) kind hist q)" by auto
  have "i_search (cluster_rpc CE) a \<lparr>qry_txn_id = 0, qry_root = dir, range_queries = qs\<rparr> w =
      (w\<lparr>index_servers := (index_servers w)(a \<mapsto> m')\<rparr>, Reply rs)"
    using m s(1)
    by (simp add: cluster_rpc_def Let_def at_index_def deliver_def server_search_def ic_search_def im_search_def check_status_def)
  with s(2,3) m show ?thesis by (auto simp: cluster_keeps_def)
qed

section \<open>The client\<close>

text \<open>The range a query has for the index of a partition.\<close>

definition asks :: "('w, 'r) client_env \<Rightarrow> ComplexQuery \<Rightarrow> string \<Rightarrow> bool" where
  "asks E query part \<longleftrightarrow> range_query query (filename (cl_paths E) (parent_path (cl_paths E) part)) \<noteq> None"

definition range_of :: "('w, 'r) client_env \<Rightarrow> ComplexQuery \<Rightarrow> string \<Rightarrow> RpcRangeQuery" where
  "range_of E query part =
     (let name = filename (cl_paths E) (parent_path (cl_paths E) part); rng = the (range_query query name) in
      \<lparr>rq_index_path = part, rq_name = name, rq_lower = sr_lower rng, rq_lower_open = (\<not> sr_lower_closed rng),
       rq_upper = sr_upper rng, rq_upper_open = (\<not> sr_upper_closed rng)\<rparr>)"

lemma range_of_path [simp]: "rq_index_path (range_of E query part) = part"
  by (simp add: range_of_def Let_def)

lemma sub_queries_asked: "\<forall>p\<in>set parts. asks E query p \<Longrightarrow> sub_queries E query parts = Done (map (range_of E query) parts)"
  by (induction parts) (auto simp: sub_query_def asks_def range_of_def Let_def)

lemma search_servers_keeps:
  assumes "cl_rpc E = cluster_rpc CE" "\<And>p. zero_init (int_traits (ce_index CE) (kind p))"
    and "\<forall>(key, parts)\<in>set plan. \<exists>a. string_to_address key = Done a \<and> index_servers w a \<noteq> None \<and>
      (\<forall>p\<in>set parts. cluster_keeps CE kind hist w a p \<and> asks E query p)"
  shows "\<exists>w' objs. search_servers E query plan objects w = Done (w', Inr (objects @ objs)) \<and> masters w' = masters w \<and>
    set objs = (\<Union>(key, parts)\<in>set plan. \<Union>p\<in>set parts. matching (ce_index CE) kind hist (range_of E query p))"
  using assms(3)
proof (induction plan arbitrary: w objects)
  case (Cons x plan)
  obtain key parts where x: "x = (key, parts)" by (cases x)
  from Cons.prems x obtain a where a: "string_to_address key = Done a" "index_servers w a \<noteq> None"
    "\<forall>p\<in>set parts. cluster_keeps CE kind hist w a p \<and> asks E query p" by auto
  have "\<forall>q\<in>set (map (range_of E query) parts). cluster_keeps CE kind hist w a (rq_index_path q)" using a(3) by simp
  from cluster_i_search [of CE kind, OF assms(2) a(2) this, of "cq_root query"] obtain w1 rs where
    s: "i_search (cluster_rpc CE) a \<lparr>qry_txn_id = 0, qry_root = cq_root query, range_queries = map (range_of E query) parts\<rparr> w =
        (w1, Reply rs)" "masters w1 = masters w" "\<forall>b. index_servers w b \<noteq> None \<longrightarrow> index_servers w1 b \<noteq> None"
      "\<forall>b p. cluster_keeps CE kind hist w b p \<longrightarrow> cluster_keeps CE kind hist w1 b p"
      "set rs = (\<Union>p\<in>set parts. matching (ce_index CE) kind hist (range_of E query p))" by auto
  have "\<forall>(key, parts)\<in>set plan. \<exists>a. string_to_address key = Done a \<and> index_servers w1 a \<noteq> None \<and>
      (\<forall>p\<in>set parts. cluster_keeps CE kind hist w1 a p \<and> asks E query p)"
    using Cons.prems s(3,4) by (fastforce simp: x)
  from Cons.IH [OF this, of "objects @ rs"] obtain w' objs where
    r: "search_servers E query plan (objects @ rs) w1 = Done (w', Inr ((objects @ rs) @ objs))" "masters w' = masters w1"
      "set objs = (\<Union>(key, parts)\<in>set plan. \<Union>p\<in>set parts. matching (ce_index CE) kind hist (range_of E query p))" by blast
  have "search_servers E query (x # plan) objects w = Done (w', Inr (objects @ (rs @ objs)))"
    using a s(1) r(1) sub_queries_asked [of parts E query]
    by (simp add: x assms(1) both_caught_def del: bindo_Done_iff)
  moreover have "set (rs @ objs) =
      (\<Union>(key, parts)\<in>set (x # plan). \<Union>p\<in>set parts. matching (ce_index CE) kind hist (range_of E query p))"
    using s(5) r(3) by (simp add: x)
  ultimately show ?case using s(2) r(2) by metis
qed simp

text \<open>The path a master has for an object; it answers with the empty string for an object it does not know.\<close>

definition path_at :: "('s, 'q, 'r, 'f) cluster \<Rightarrow> RpcNodeAddress \<Rightarrow> ObjectId \<Rightarrow> string" where
  "path_at w a obj =
     (case masters w a of None \<Rightarrow> [] | Some m \<Rightarrow> (case id_to_path_map (mc_namespace m) obj of None \<Rightarrow> [] | Some p \<Rightarrow> p))"

lemma group_objects_spec:
  assumes "\<forall>obj\<in>set objs. found_node (ServerMap_get (cl_ring E) (master_map c) (sint obj)) = Done (adr obj)" "smap_ok plan"
  shows "\<exists>plan'. group_objects E c objs plan = Done plan' \<and> smap_ok plan' \<and>
    (\<forall>k. at_key plan' k = at_key plan k @ filter (\<lambda>obj. address_to_string (adr obj) = k) objs) \<and>
    fst ` set plan' = fst ` set plan \<union> address_to_string ` adr ` set objs"
  using assms
proof (induction objs arbitrary: plan)
  case (Cons obj objs)
  let ?k = "address_to_string (adr obj)"
  from Cons.IH [of "push_at ?k obj plan"] Cons.prems obtain plan' where
    p: "group_objects E c objs (push_at ?k obj plan) = Done plan'" "smap_ok plan'"
      "\<forall>k. at_key plan' k = at_key (push_at ?k obj plan) k @ filter (\<lambda>obj. address_to_string (adr obj) = k) objs"
      "fst ` set plan' = fst ` set (push_at ?k obj plan) \<union> address_to_string ` adr ` set objs"
    by (auto simp: smap_ok_push)
  with Cons.prems(1) show ?case by (auto simp: at_key_push push_at_def fst_set_smap_put)
qed simp

lemma resolve_objects_spec:
  assumes "cl_rpc E = cluster_rpc CE" "\<forall>(key, objs)\<in>set plan. \<exists>a. string_to_address key = Done a \<and> masters w a \<noteq> None"
  shows "\<exists>found. resolve_objects E plan paths w = Done (w, paths @ found, OK) \<and>
    set found = (\<Union>(key, objs)\<in>set plan. {path_at w a obj | a obj. string_to_address key = Done a \<and> obj \<in> set objs})"
  using assms(2)
proof (induction plan arbitrary: paths)
  case (Cons x plan)
  obtain key objs where x: "x = (key, objs)" by (cases x)
  from Cons.prems x obtain a m where a: "string_to_address key = Done a" "masters w a = Some m" by auto
  let ?f = "map (path_at w a) objs"
  have "m_find_files (cluster_rpc CE) a objs w = (w, Reply ?f)"
    using a(2) by (simp add: handler_defs ms_find_files_def mc_find_files_def find_files_def path_at_def map_upd_triv)
  moreover from Cons.IH [of "paths @ ?f"] Cons.prems x obtain found where
    f: "resolve_objects E plan (paths @ ?f) w = Done (w, (paths @ ?f) @ found, OK)"
      "set found = (\<Union>(key, objs)\<in>set plan. {path_at w a obj | a obj. string_to_address key = Done a \<and> obj \<in> set objs})" by auto
  ultimately have "resolve_objects E (x # plan) paths w = Done (w, paths @ (?f @ found), OK)"
    using a(1) by (simp add: x assms(1) both_caught_def del: bindo_Done_iff)
  moreover have "set (?f @ found) =
      (\<Union>(key, objs)\<in>set (x # plan). {path_at w a obj | a obj. string_to_address key = Done a \<and> obj \<in> set objs})"
    using a(1) f(2) by (auto simp: x)
  ultimately show ?case by blast
qed simp

lemma plan_partitions_total:
  assumes "\<forall>i\<in>set indices. \<exists>node. index_server_of E c (i @ ''/0'') = Inr node" "\<forall>x\<in>set plan. snd x \<noteq> []"
  shows "\<exists>plan'. plan_partitions E c indices plan = Done plan' \<and> (\<forall>x\<in>set plan'. snd x \<noteq> [])"
  using assms
proof (induction indices arbitrary: plan)
  case (Cons i indices)
  from Cons.prems(1) obtain node where n: "index_server_of E c (i @ ''/0'') = Inr node" by auto
  let ?plan = "insert_at (address_to_string (address node)) (i @ ''/0'') plan"
  have "i @ ''/0'' \<in> set (at_key ?plan (address_to_string (address node)))" by (simp add: set_at_key_insert)
  then have "sset_insert (i @ ''/0'') (at_key plan (address_to_string (address node))) \<noteq> []"
    by (intro notI) (simp add: insert_at_def)
  then have "\<forall>x\<in>set ?plan. snd x \<noteq> []"
    using Cons.prems(2) by (auto simp: insert_at_def dest!: set_smap_put [THEN subsetD])
  from Cons.IH [OF _ this] Cons.prems(1) n show ?case by (auto simp: Let_def found_node_def)
qed simp

definition readable :: "RpcNodeAddress \<Rightarrow> bool" where
  "readable a \<longleftrightarrow> string_to_address (address_to_string a) = Done a"

lemma get_file_paths_found:
  assumes "cl_rpc E = cluster_rpc CE"
    and "\<And>obj. obj \<in> set objs \<Longrightarrow> found_node (ServerMap_get (cl_ring E) (master_map c) (sint obj)) = Done (adr obj)"
    and "\<And>obj. obj \<in> set objs \<Longrightarrow> masters w (adr obj) \<noteq> None \<and> readable (adr obj)"
  shows "\<exists>found. get_file_paths_from_objects E c objs paths w = Done (w, paths @ found, OK) \<and>
    set found = (\<lambda>obj. path_at w (adr obj) obj) ` set objs"
proof -
  have "\<forall>obj\<in>set objs. found_node (ServerMap_get (cl_ring E) (master_map c) (sint obj)) = Done (adr obj)" using assms(2) by blast
  from group_objects_spec [OF this smap_ok_Nil] obtain plan where
    g: "group_objects E c objs [] = Done plan" "smap_ok plan"
      "\<And>k. at_key plan k = filter (\<lambda>obj. address_to_string (adr obj) = k) objs"
      "fst ` set plan = address_to_string ` adr ` set objs" by auto
  have e: "os = filter (\<lambda>obj. address_to_string (adr obj) = key) objs" if "(key, os) \<in> set plan" for key os
    using at_key_member [OF g(2) that] g(3) by simp
  have k: "\<exists>obj\<in>set objs. key = address_to_string (adr obj)" if "(key, os) \<in> set plan" for key os
    using that g(4) by force
  have a: "string_to_address key = Done (adr obj)" if "obj \<in> set objs" "address_to_string (adr obj) = key" for key obj
    using assms(3) [OF that(1)] that(2) by (auto simp: readable_def)
  have "\<forall>(key, objs)\<in>set plan. \<exists>a. string_to_address key = Done a \<and> masters w a \<noteq> None"
    using k a assms(3) by fastforce
  from resolve_objects_spec [OF assms(1) this, of paths] obtain found where
    f: "resolve_objects E plan paths w = Done (w, paths @ found, OK)"
      "set found = (\<Union>(key, os)\<in>set plan. {path_at w a obj | a obj. string_to_address key = Done a \<and> obj \<in> set os})" by blast
  have m: "(address_to_string (adr obj), at_key plan (address_to_string (adr obj))) \<in> set plan" if "obj \<in> set objs" for obj
    using at_key_nonempty [of obj plan "address_to_string (adr obj)"] that by (simp add: g(3))
  have "set found = (\<lambda>obj. path_at w (adr obj) obj) ` set objs"
  proof (intro set_eqI iffI)
    fix p assume "p \<in> set found"
    then obtain key os a obj where o: "(key, os) \<in> set plan" "p = path_at w a obj" "string_to_address key = Done a" "obj \<in> set os"
      unfolding f(2) by blast
    with e [OF o(1)] a [of obj key] show "p \<in> (\<lambda>obj. path_at w (adr obj) obj) ` set objs" by auto
  next
    fix p assume "p \<in> (\<lambda>obj. path_at w (adr obj) obj) ` set objs"
    then obtain obj where o: "obj \<in> set objs" "p = path_at w (adr obj) obj" by blast
    with m [OF o(1)] a [OF o(1) refl] show "p \<in> set found" unfolding f(2) by (fastforce simp: g(3))
  qed
  with g(1) f(1) show ?thesis by (simp add: get_file_paths_from_objects_def del: bindo_Done_iff)
qed

text \<open>The plan for indices that are all served: it exists, its servers have what they are asked for, and no partition is left out.\<close>

lemma plan_served:
  assumes "\<And>i. i \<in> set indices \<Longrightarrow> \<exists>node. index_server_of E c (i @ ''/0'') = Inr node \<and> readable (address node) \<and>
      cluster_keeps CE kind hist w (address node) (i @ ''/0'') \<and> asks E query (i @ ''/0'')"
  shows "\<exists>plan. plan_partitions E c indices [] = Done plan \<and>
    (\<forall>(key, parts)\<in>set plan. \<exists>a. string_to_address key = Done a \<and> index_servers w a \<noteq> None \<and>
      (\<forall>p\<in>set parts. cluster_keeps CE kind hist w a p \<and> asks E query p)) \<and>
    (\<Union>(key, parts)\<in>set plan. set parts) = (\<lambda>i. i @ ''/0'') ` set indices"
proof -
  have "\<forall>i\<in>set indices. \<exists>node. index_server_of E c (i @ ''/0'') = Inr node" using assms by blast
  from plan_partitions_total [OF this, of "[]"] obtain plan where
    p: "plan_partitions E c indices [] = Done plan" "\<forall>x\<in>set plan. snd x \<noteq> []" by auto
  have s: "smap_ok plan" "part \<in> set (at_key plan key) \<longleftrightarrow> (\<exists>i\<in>set indices. \<exists>a. part = i @ ''/0'' \<and>
      found_node (index_server_of E c part) = Done a \<and> key = address_to_string a)" for key part
    using plan_partitions_spec [OF p(1) smap_ok_Nil] by auto
  have part: "\<exists>i node. i \<in> set indices \<and> part = i @ ''/0'' \<and> index_server_of E c part = Inr node \<and>
      key = address_to_string (address node)" if "(key, parts) \<in> set plan" "part \<in> set parts" for key parts part
    using s(2) [of part key] at_key_member [OF s(1) that(1)] that(2) by (auto simp: found_node_def split: sum.splits)
  have sv: "readable (address node) \<and> cluster_keeps CE kind hist w (address node) part \<and> asks E query part"
    if "i \<in> set indices" "part = i @ ''/0''" "index_server_of E c part = Inr node" for i part node
    using assms [OF that(1)] that(2,3) by auto
  have v: "\<forall>(key, parts)\<in>set plan. \<exists>a. string_to_address key = Done a \<and> index_servers w a \<noteq> None \<and>
      (\<forall>p\<in>set parts. cluster_keeps CE kind hist w a p \<and> asks E query p)"
  proof (intro ballI, clarify)
    fix key parts assume k: "(key, parts) \<in> set plan"
    with p(2) obtain q where q: "q \<in> set parts" by fastforce
    from part [OF k q] obtain i node where i: "i \<in> set indices" "q = i @ ''/0''" "index_server_of E c q = Inr node"
      "key = address_to_string (address node)" by blast
    note n = sv [OF i(1-3)]
    moreover have "cluster_keeps CE kind hist w (address node) r \<and> asks E query r" if r: "r \<in> set parts" for r
    proof -
      from part [OF k r] obtain j node' where j: "j \<in> set indices" "r = j @ ''/0''" "index_server_of E c r = Inr node'"
        "key = address_to_string (address node')" by blast
      note m = sv [OF j(1-3)]
      have "string_to_address key = Done (address node)" using n i(4) unfolding readable_def by blast
      moreover have "string_to_address key = Done (address node')" using m j(4) unfolding readable_def by blast
      ultimately have "address node' = address node" by simp
      with m show ?thesis by simp
    qed
    ultimately show "\<exists>a. string_to_address key = Done a \<and> index_servers w a \<noteq> None \<and>
      (\<forall>p\<in>set parts. cluster_keeps CE kind hist w a p \<and> asks E query p)"
      using i(4) unfolding readable_def cluster_keeps_def by (intro exI [of _ "address node"]) blast
  qed
  have q: "(\<exists>key parts. (key, parts) \<in> set plan \<and> q \<in> set parts) \<longleftrightarrow> (\<exists>i\<in>set indices. q = i @ ''/0'')" for q
  proof
    assume "\<exists>i\<in>set indices. q = i @ ''/0''"
    then obtain i node where i: "i \<in> set indices" "q = i @ ''/0''" "index_server_of E c q = Inr node" using assms by blast
    then have "q \<in> set (at_key plan (address_to_string (address node)))" by (auto simp: s(2) found_node_def)
    from at_key_nonempty [OF this] this show "\<exists>key parts. (key, parts) \<in> set plan \<and> q \<in> set parts" by blast
  qed (use part in blast)
  have "(\<Union>(key, parts)\<in>set plan. set parts) = {q. \<exists>key parts. (key, parts) \<in> set plan \<and> q \<in> set parts}" by auto
  also have "\<dots> = (\<lambda>i. i @ ''/0'') ` set indices" unfolding q by auto
  finally have "(\<Union>(key, parts)\<in>set plan. set parts) = (\<lambda>i. i @ ''/0'') ` set indices" .
  with p(1) v show ?thesis by blast
qed

lemma search_found:
  assumes "cl_rpc E = cluster_rpc CE" "\<And>p. zero_init (int_traits (ce_index CE) (kind p))"
    and "locate_index_for_search E c query w = (w1, Inr indices)"
    and "\<And>i. i \<in> set indices \<Longrightarrow> \<exists>node. index_server_of E c (i @ ''/0'') = Inr node \<and> readable (address node) \<and>
      cluster_keeps CE kind hist w1 (address node) (i @ ''/0'') \<and> asks E query (i @ ''/0'')"
    and "objects = (\<Union>i\<in>set indices. matching (ce_index CE) kind hist (range_of E query (i @ ''/0'')))"
    and "\<And>obj. obj \<in> objects \<Longrightarrow> found_node (ServerMap_get (cl_ring E) (master_map c) (sint obj)) = Done (adr obj) \<and>
      masters w1 (adr obj) \<noteq> None \<and> readable (adr obj)"
  shows "\<exists>w2 paths. cl_search E c query results w = Done (w2, results @ paths, OK) \<and> masters w2 = masters w1 \<and>
    set paths = {path_at w1 (adr obj) obj | obj. obj \<in> objects}"
proof -
  from plan_served [OF assms(4)] obtain plan where
    p: "plan_partitions E c indices [] = Done plan" "(\<Union>(key, parts)\<in>set plan. set parts) = (\<lambda>i. i @ ''/0'') ` set indices"
      "\<forall>(key, parts)\<in>set plan. \<exists>a. string_to_address key = Done a \<and> index_servers w1 a \<noteq> None \<and>
        (\<forall>p\<in>set parts. cluster_keeps CE kind hist w1 a p \<and> asks E query p)" by blast
  have g: "gen_search_plan E c query w = Done (w1, Inr plan)" using assms(3) p(1) by (simp add: gen_search_plan_def)
  from search_servers_keeps [OF assms(1,2) p(3), of "[]"] obtain w2 objs where
    r: "search_servers E query plan [] w1 = Done (w2, Inr objs)" "masters w2 = masters w1"
      "set objs = (\<Union>(key, parts)\<in>set plan. \<Union>p\<in>set parts. matching (ce_index CE) kind hist (range_of E query p))" by auto
  have "set objs = (\<Union>q\<in>(\<Union>(key, parts)\<in>set plan. set parts). matching (ce_index CE) kind hist (range_of E query q))"
    unfolding r(3) by blast
  then have o: "set objs = objects" unfolding assms(5) p(2) by simp
  have "path_at w2 = path_at w1" by (simp add: fun_eq_iff path_at_def r(2))
  moreover from get_file_paths_found [OF assms(1), of objs c adr w2 results] assms(6) r(2) obtain found where
    "get_file_paths_from_objects E c objs results w2 = Done (w2, results @ found, OK)"
    "set found = (\<lambda>obj. path_at w2 (adr obj) obj) ` set objs" unfolding o by auto
  ultimately show ?thesis using g r(1,2) o by (auto simp: cl_search_def simp del: bindo_Done_iff)
qed

text \<open>
  The results of a search that finds \<open>objects\<close>: the paths that the masters asked have for them, and the empty string when one of the
  objects is unknown to the master that is asked for it.
\<close>

definition knows :: "('s, 'q, 'r, 'f) cluster \<Rightarrow> RpcNodeAddress \<Rightarrow> ObjectId \<Rightarrow> string \<Rightarrow> bool" where
  "knows w a obj p \<longleftrightarrow> (\<exists>m. masters w a = Some m \<and> id_to_path_map (mc_namespace m) obj = Some p)"

lemma path_at_knows:
  "{path_at w (adr obj) obj | obj. obj \<in> objects} =
     {p. \<exists>obj\<in>objects. knows w (adr obj) obj p} \<union> {p. p = [] \<and> (\<exists>obj\<in>objects. \<forall>p'. \<not> knows w (adr obj) obj p')}"
proof -
  have "p = path_at w a obj \<longleftrightarrow> knows w a obj p \<or> p = [] \<and> (\<forall>p'. \<not> knows w a obj p')" for p a obj
    by (auto simp: path_at_def knows_def split: option.splits)
  then show ?thesis by blast
qed

lemma search_results:
  assumes "cl_rpc E = cluster_rpc CE" "\<And>p. zero_init (int_traits (ce_index CE) (kind p))"
    and "locate_index_for_search E c query w = (w1, Inr indices)"
    and "\<And>i. i \<in> set indices \<Longrightarrow> \<exists>node. index_server_of E c (i @ ''/0'') = Inr node \<and> readable (address node) \<and>
      cluster_keeps CE kind hist w1 (address node) (i @ ''/0'') \<and> asks E query (i @ ''/0'')"
    and "objects = (\<Union>i\<in>set indices. matching (ce_index CE) kind hist (range_of E query (i @ ''/0'')))"
    and "\<And>obj. obj \<in> objects \<Longrightarrow> found_node (ServerMap_get (cl_ring E) (master_map c) (sint obj)) = Done (adr obj) \<and>
      masters w1 (adr obj) \<noteq> None \<and> readable (adr obj)"
  shows "\<exists>w2 paths. cl_search E c query results w = Done (w2, results @ paths, OK) \<and> masters w2 = masters w1 \<and>
    set paths = {p. \<exists>obj\<in>objects. knows w1 (adr obj) obj p} \<union>
      {p. p = [] \<and> (\<exists>obj\<in>objects. \<forall>p'. \<not> knows w1 (adr obj) obj p')}"
  using search_found [OF assms, of results] unfolding path_at_knows .

section \<open>Properties\<close>


text \<open>A cluster with one index, \<open>x\<close> at the directory \<open>/a\<close>, that has received one update and merged none.\<close>

definition search_client :: "(HashValueType \<times> NodeInfo option) list VSFSRpcClient" where
  "search_client = test_client\<lparr>index_server_map := master_map test_client\<rparr>"

definition search_query_x :: ComplexQuery where
  "search_query_x = \<lparr>cq_root = ''/a'', range_query_map =
     [(''x'', \<lparr>sr_lower = ''2'', sr_lower_closed = True, sr_upper = ''9'', sr_upper_closed = False\<rparr>)]\<rparr>"

definition search_part :: "int RangeIndexWrapper" where
  "search_part =
     (RangeIndexWrapper_new (im_demo_env 0) ''/d/1'' (new_range_index KInt64) True)
       \<lparr>log_manager := LogManager_new\<lparr>log := [(0, demo_list INSERT ''3'' ''7'')]\<rparr>\<rparr>"

definition search_state ::
  "(TestLevelDBStore, (HashValueType \<times> string option) list, (HashValueType \<times> NodeInfo option) list, int) cluster" where
  "search_state =
     \<lparr>masters = [node_a \<mapsto> demo_master\<lparr>is_primary_node := True, master_server_manager := Some (master_map test_client),
         index_server_manager := Some (master_map test_client), mc_namespace := (mc_namespace demo_master)\<lparr>id_to_path_map := [7 \<mapsto> ''/a/f'']\<rparr>,
         index_namespace := (index_namespace demo_master)\<lparr>nodes := [(''/a'', \<lparr>nd_path = ''/a'', nd_names = [''x'']\<rparr>)]\<rparr>\<rparr>,
       node_b \<mapsto> demo_master],
      index_servers = [node_b \<mapsto> (IndexManager_new ''/d'' [])
        \<lparr>index_info_map := [(''/a/.vsfs/x/0'', \<lparr>info_path = ''/a/.vsfs/x/0'', info_index_name = ''x'', info_index_type = BTREE,
           info_key_type = 0\<rparr>)],
         range_index_map := [(''/a/.vsfs/x/0'', search_part)]\<rparr>]\<rparr>"

lemma search_part_served: "served (im_demo_env 0) KInt64 [demo_list INSERT ''3'' ''7''] search_part"
proof -
  let ?l = "[(0, demo_list INSERT ''3'' ''7'')]"
  have "ri_index search_part = IntIndex KInt64 [] \<and> index_ok ([] :: (int \<times> ObjectId list) list) \<and>
    log (log_manager search_part) = [] @ ?l \<and> [demo_list INSERT ''3'' ''7''] = [] @ map snd ([] @ ?l) \<and>
    (\<forall>r\<in>set ([] @ ?l). fst r = 0) \<and>
    records ([] :: (int \<times> ObjectId list) list) = foldl record_spec {} (effects (int_traits (im_demo_env 0) KInt64) ([] @ map snd []))"
    by (simp add: search_part_def RangeIndexWrapper_new_def new_range_index_def index_ok_def records_def effects_def files_of_def)
  moreover have "w_status search_part = NORMAL \<and> well_formed (int_traits (im_demo_env 0) KInt64) (demo_list INSERT ''3'' ''7'')"
    by (simp add: search_part_def RangeIndexWrapper_new_def demo_simps well_formed_def)
  ultimately show ?thesis unfolding served_def by fastforce
qed

lemma search_located:
  "locate_index_for_search test_client_env search_client search_query_x search_state = (search_state, Inr [''/a/.vsfs/x''])"
proof -
  have r: "get_ch_ring_as_map (cl_ring test_client_env) (master_map search_client) =
      [(0, NodeInfo_default\<lparr>address := node_a\<rparr>), (1, NodeInfo_default\<lparr>address := node_b\<rparr>)]"
    by (simp add: get_ch_ring_as_map_def test_client_env_def search_client_def test_client_def list_ring_def replay_nodes_def)
  have m: "m_locate_indices_for_search (cluster_rpc test_cluster_env) a ''/a'' [''x''] search_state =
      (search_state, Reply (mc_locate_indices_for test_mc_env m ''/a'' [''x'']))" if "masters search_state a = Some m" for a m
    using that by (simp add: handler_defs ms_locate_indices_for_search_def test_cluster_env_def map_upd_triv)
  obtain ma mb where s: "masters search_state node_a = Some ma" "masters search_state node_b = Some mb"
    "nodes (index_namespace ma) = [(''/a'', \<lparr>nd_path = ''/a'', nd_names = [''x'']\<rparr>)]" "nodes (index_namespace mb) = []"
    by (simp add: search_state_def demo_master_def IndexNamespace_new_def)
  have i: "mc_locate_indices_for test_mc_env ma ''/a'' [''x''] = [''/a/.vsfs/x'']" "mc_locate_indices_for test_mc_env mb ''/a'' [''x''] = []"
    by (simp_all add: mc_locate_indices_for_def collect_def lower_bound_def s(3,4) test_mc_env_def test_env_def posix_paths_def
        index_path_def starts_with_prefix)
  have q: "cq_root search_query_x = ''/a''" "get_names_of_range_queries search_query_x = [''x'']"
    by (simp_all add: search_query_x_def get_names_of_range_queries_def)
  show ?thesis
    by (simp add: locate_index_for_search_def r q test_client_simps m [OF s(1)] m [OF s(2)] i both_caught_def)
qed

abbreviation search_hist :: "string \<Rightarrow> RpcIndexRecordUpdateList list" where
  "search_hist \<equiv> \<lambda>_. [demo_list INSERT ''3'' ''7'']"

lemma search_name: "filename posix_paths (parent_path posix_paths ''/a/.vsfs/x/0'') = ''x''"
  by (simp add: posix_paths_def find_last_of_def)

lemma search_readable: "readable node_a" "readable node_b"
  by (simp_all add: readable_def string_to_plain_address plain_address_def)

lemma search_indices_ready:
  assumes "i \<in> set [''/a/.vsfs/x'']"
  shows "\<exists>node. index_server_of test_client_env search_client (i @ ''/0'') = Inr node \<and> readable (address node) \<and>
    cluster_keeps test_cluster_env (\<lambda>_. KInt64) search_hist search_state (address node) (i @ ''/0'') \<and>
    asks test_client_env search_query_x (i @ ''/0'')"
proof -
  have "index_server_of test_client_env search_client ''/a/.vsfs/x/0'' = Inr (NodeInfo_default\<lparr>address := node_b\<rparr>)"
    using test_master_of(2) [of "''/a/.vsfs/x/0''"] by (simp add: index_server_of_def master_of_def search_client_def)
  moreover have "cluster_keeps test_cluster_env (\<lambda>_. KInt64) search_hist search_state node_b ''/a/.vsfs/x/0''"
    using search_part_served
    by (simp add: cluster_keeps_def keeps_def search_state_def get_index_info_def IndexManager_new_def test_cluster_env_def)
  moreover have "asks test_client_env search_query_x ''/a/.vsfs/x/0''"
    using search_name by (simp add: asks_def test_client_simps search_query_x_def range_query_def)
  ultimately show ?thesis using assms search_readable by simp
qed

lemma search_objects:
  "{7} = (\<Union>i\<in>set [''/a/.vsfs/x'']. matching (ce_index test_cluster_env) (\<lambda>_. KInt64) search_hist
     (range_of test_client_env search_query_x (i @ ''/0'')))"
  using search_name
  by (simp add: matching_def Let_def range_of_def test_client_simps search_query_x_def range_query_def content_def demo_simps
      effects_def answer_def query_bounds_def record_spec_def in_range_def test_cluster_env_def)

lemma search_object_known:
  assumes "obj \<in> {7 :: ObjectId}"
  shows "found_node (ServerMap_get (cl_ring test_client_env) (master_map search_client) (sint obj)) = Done node_a \<and>
    masters search_state node_a \<noteq> None \<and> readable node_a"
  using assms search_readable
  by (simp add: ServerMap_get_def test_client_env_def search_client_def test_client_def list_ring_def replay_nodes_def
      lower_bound_def found_node_def search_state_def)

lemma search_zero_init: "zero_init (int_traits (ce_index test_cluster_env) KInt64)"
  by (simp add: test_cluster_env_def demo_simps)

lemma search_path: "knows search_state node_a 7 p \<longleftrightarrow> p = ''/a/f''"
  by (auto simp: search_state_def knows_def)


end
