(* ===== verification/Membership.thy ===== *)
theory Membership
  imports Cluster
begin

text \<open>
  How servers and clients come to know each other: the constructors and the background tasks of
  \<open>vsfs/indexd/index_controller.cpp\<close> and \<open>vsfs/masterd/master_controller.cpp\<close>, in which an index server and a secondary master
  join the primary master, and the maps a client caches of them when it connects. The background task runs in a thread
  of its own, so an exception that leaves it ends the process.
\<close>

section \<open>Index servers\<close>

text \<open>The flags of the process, and the controller with the address that its connection to the master has.\<close>

record index_flags =
  FLAGS_host :: string
  FLAGS_port :: int
  FLAGS_server_id :: string
  FLAGS_master_addr :: string
  FLAGS_master_port :: int
  asio_host_name :: string

record 'f IndexController =
  ictl_host :: string
  ictl_port :: int
  base_dir :: string
  manager :: "'f IndexManager"
  ictl_master :: RpcNodeAddress

definition IndexController_new :: "index_flags \<Rightarrow> string \<Rightarrow> file_map \<Rightarrow> 'f IndexController" where
  "IndexController_new F dir fs =
     \<lparr>ictl_host = FLAGS_host F, ictl_port = FLAGS_port F, base_dir = dir, manager = IndexManager_new dir fs,
      ictl_master = \<lparr>host = FLAGS_master_addr F, port = FLAGS_master_port F\<rparr>\<rparr>"

definition IndexController_new_at ::
  "index_flags \<Rightarrow> string \<Rightarrow> file_map \<Rightarrow> string \<Rightarrow> int \<Rightarrow> string \<Rightarrow> int \<Rightarrow> 'f IndexController" where
  "IndexController_new_at F dir fs h p master_host master_port =
     (let mhost = (if master_host = [] then FLAGS_master_addr F else master_host);
          mport = (if master_port = 0 then FLAGS_master_port F else master_port) in
      \<lparr>ictl_host = h, ictl_port = p, base_dir = dir, manager = IndexManager_new dir fs,
       ictl_master = \<lparr>host = mhost, port = mport\<rparr>\<rparr>)"

definition answered :: "'a rpc_result \<Rightarrow> 'a outcome" where
  "answered r = (case r of Reply a \<Rightarrow> Done a | _ \<Rightarrow> Fail UncaughtException)"

text \<open>The calls that only servers make, with the numbers \<open>rand()\<close> gives there.\<close>

definition m_join_index_server ::
  "('s, 'q, 'r, 'f) cluster_env \<Rightarrow> int \<Rightarrow> int \<Rightarrow> RpcNodeAddress \<Rightarrow> NodeInfo \<Rightarrow> ('s, 'q, 'r, 'f) cluster \<Rightarrow>
     ('s, 'q, 'r, 'f) cluster \<times> RpcNodeAddress list rpc_result" where
  "m_join_index_server CE r1 r2 a info = at_master CE (ms_join_index_server (ce_vobla CE) (ce_master CE) r1 r2 info) a"

definition m_join_master_server ::
  "('s, 'q, 'r, 'f) cluster_env \<Rightarrow> int \<Rightarrow> int \<Rightarrow> RpcNodeAddress \<Rightarrow> NodeInfo \<Rightarrow> ('s, 'q, 'r, 'f) cluster \<Rightarrow>
     ('s, 'q, 'r, 'f) cluster \<times> unit rpc_result" where
  "m_join_master_server CE r1 r2 a info = at_master CE (ms_join_master_server (ce_vobla CE) (ce_master CE) r1 r2 info) a"

text \<open>The replicas that the master answers with are only logged.\<close>

definition ictl_node :: "index_flags \<Rightarrow> 'f IndexController \<Rightarrow> NodeInfo" where
  "ictl_node F c = NodeInfo_default\<lparr>address := \<lparr>host = (if ictl_host c = [] then asio_host_name F else ictl_host c), port = ictl_port c\<rparr>,
     server_id := FLAGS_server_id F\<rparr>"

definition ictl_join ::
  "('s, 'q, 'r, 'f::linorder) cluster_env \<Rightarrow> index_flags \<Rightarrow> int \<Rightarrow> int \<Rightarrow> 'f IndexController \<Rightarrow> ('s, 'q, 'r, 'f) cluster \<Rightarrow>
     (('s, 'q, 'r, 'f) cluster \<times> Status) outcome" where
  "ictl_join CE F r1 r2 c w =
     (case m_open (cluster_rpc CE) (ictl_master c) w of (w1, r) \<Rightarrow>
        bindo (answered r) (\<lambda>_.
          case m_join_index_server CE r1 r2 (ictl_master c) (ictl_node F c) w1 of (w2, r) \<Rightarrow>
            bindo (answered r) (\<lambda>replica_addresses. Done (w2, OK))))"

definition ictl_background_task ::
  "('s, 'q, 'r, 'f::linorder) cluster_env \<Rightarrow> index_flags \<Rightarrow> int \<Rightarrow> int \<Rightarrow> 'f IndexController \<Rightarrow> ('s, 'q, 'r, 'f) cluster \<Rightarrow>
     ('s, 'q, 'r, 'f) cluster outcome" where
  "ictl_background_task CE F r1 r2 c w = bindo (ictl_join CE F r1 r2 c w) (\<lambda>(w', _). Done w')"

section \<open>Masters\<close>

text \<open>The connection to the primary is closed when the task is done with it.\<close>

definition mc_background_task ::
  "('s, 'q, 'r, 'f::linorder) cluster_env \<Rightarrow> int \<Rightarrow> int \<Rightarrow> ('s, 'q, 'r) MasterController \<Rightarrow> ('s, 'q, 'r, 'f) cluster \<Rightarrow>
     ('s, 'q, 'r, 'f) cluster outcome" where
  "mc_background_task CE r1 r2 c w =
     (if \<not> is_primary_node c then
        let primary_master = \<lparr>host = primary_host c, port = primary_port c\<rparr> in
        case m_open (cluster_rpc CE) primary_master w of (w1, r) \<Rightarrow>
          bindo (answered r) (\<lambda>_.
            case m_join_master_server CE r1 r2 primary_master
                (NodeInfo_default\<lparr>address := \<lparr>host = mc_host c, port = mc_port c\<rparr>\<rparr>) w1 of (w2, r) \<Rightarrow>
              bindo (answered r) (\<lambda>_. Done (fst (m_close (cluster_rpc CE) primary_master w2))))
      else Done w)"

section \<open>What a ring tells\<close>

lemma ring_as_map: "ring_laws R \<Longrightarrow> get_ch_ring_as_map R r = ring_items R r"
  using smap_put_all [of "[]" "ring_items R r"] by (simp add: get_ch_ring_as_map_def ring_laws_def)

lemma ring_put_all:
  assumes "smap_ok (m @ map (apsnd address) items)"
  shows "foldl (\<lambda>m p. ring_put p m) m items = m @ map (apsnd address) items"
  using assms
proof (induction items arbitrary: m)
  case (Cons x items)
  have "\<forall>q\<in>set m. fst q < fst x" using Cons.prems by (auto simp: smap_ok_def sorted_wrt_append)
  moreover from this have "map_of m (fst x) = None" by (auto simp: map_of_eq_None_iff)
  ultimately have "ring_put x m = m @ [(fst x, address (snd x))]" by (simp add: ring_put_def smap_put_last)
  with Cons.IH [of "m @ [(fst x, address (snd x))]"] Cons.prems show ?case by (cases x) simp
qed simp

lemma smap_ok_apsnd: "smap_ok (map (apsnd f) m) = smap_ok m"
  by (simp add: smap_ok_def sorted_wrt_map)

lemma ring_addresses_items: "ring_laws R \<Longrightarrow> ring_addresses R r [] = map (apsnd address) (ring_items R r)"
  using ring_put_all [of "[]" "ring_items R r"]
  by (simp add: ring_addresses_def ring_as_map smap_ok_apsnd) (simp add: ring_laws_def)

lemma cache_ring_items:
  assumes "ring_laws R" "smap_ok (ring_items R r @ map (apsnd (\<lambda>a. NodeInfo_default\<lparr>address := a\<rparr>)) ring)"
  shows "ring_items R (cache_ring R r ring) = ring_items R r @ map (apsnd (\<lambda>a. NodeInfo_default\<lparr>address := a\<rparr>)) ring"
  using assms(2)
proof (induction ring arbitrary: r)
  case (Cons x ring)
  obtain sep a where x: "x = (sep, a)" by (cases x)
  have l: "\<forall>q\<in>set (ring_items R r). fst q < sep" using Cons.prems by (auto simp: smap_ok_def sorted_wrt_append x)
  then have "map_of (ring_items R r) sep = None" by (auto simp: map_of_eq_None_iff)
  with assms(1) have k: "\<not> ring_has_key R r sep" by (simp add: ring_laws_def)
  with assms(1) obtain r' where i: "ring_insert R r sep (NodeInfo_default\<lparr>address := a\<rparr>) = (r', OK)"
    "ring_items R r' = smap_put sep (NodeInfo_default\<lparr>address := a\<rparr>) (ring_items R r)" unfolding ring_laws_def by blast
  with Cons.IH [of r'] Cons.prems k show ?case
    by (simp add: cache_ring_def x ServerMap_add_at_def smap_put_last [OF l])
qed (simp add: cache_ring_def)

section \<open>Joining\<close>

lemma add_first:
  assumes "ring_laws R" "ring_empty R r" "0 \<le> r1" "r1 \<le> RAND_MAX" "0 \<le> r2" "r2 \<le> RAND_MAX"
  shows "\<exists>r'. ServerMap_add R r1 r2 r node = Done (r', OK) \<and> ring_items R r' = [(r1 * r2, node)]"
proof -
  have "in_int64 (r1 * r2)" using rand_product [OF assms(3-6)] by (simp add: int64_defs)
  moreover have i: "ring_items R r = []" "\<not> ring_has_key R r (r1 * r2)" using assms(1,2) by (auto simp: ring_laws_def)
  moreover obtain r' where "ring_insert R r (r1 * r2) node = (r', OK)" "ring_items R r' = [(r1 * r2, node)]"
    using assms(1) i unfolding ring_laws_def by (metis smap_put.simps(1))
  ultimately show ?thesis using assms(2) by (simp add: ServerMap_add_def s64_def)
qed

lemma add_second:
  assumes "ring_laws R" "ring_items R r = [(pos, n1)]" "0 \<le> pos" "pos \<le> 2 ^ 62"
  shows "\<exists>r'. ServerMap_add R r1 r2 r node = Done (r', OK) \<and> ring_items R r' = [(pos, n1), (pos + (2 ^ 62 - 1), node)]"
proof -
  let ?q = "pos + (2 ^ 62 - 1)"
  have i: "\<not> ring_empty R r" "ring_get_max_range R r = Inr (pos, pos)" "\<not> ring_has_key R r ?q"
    using assms(1,2) by (auto simp: ring_laws_def)
  with assms(1) obtain r' where "ring_insert R r ?q node = (r', OK)" "ring_items R r' = smap_put ?q node (ring_items R r)"
    unfolding ring_laws_def by blast
  moreover have "range_median pos pos = Done ?q" using assms(3,4) by (simp add: range_median_full int64_defs)
  ultimately show ?thesis using i assms(2) by (simp add: ServerMap_add_def)
qed

lemma open_answers: "masters w a = Some m \<Longrightarrow> m_open (cluster_rpc CE) a w = (w, Reply ())"
  by (simp add: handler_defs map_upd_triv)

lemma close_answers: "masters w a = Some m \<Longrightarrow> m_close (cluster_rpc CE) a w = (w, Reply ())"
  by (simp add: handler_defs map_upd_triv)

text \<open>A secondary that joins a primary, as a step of the primary.\<close>

lemma master_joins:
  assumes "\<not> is_primary_node c" "masters w \<lparr>host = primary_host c, port = primary_port c\<rparr> = Some m"
    and "mc_join_master_server (ce_master CE) r1 r2 (NodeInfo_default\<lparr>address := \<lparr>host = mc_host c, port = mc_port c\<rparr>\<rparr>) m =
      Done (m', OK)"
  shows "mc_background_task CE r1 r2 c w =
    Done (w\<lparr>masters := (masters w)(\<lparr>host = primary_host c, port = primary_port c\<rparr> \<mapsto> m')\<rparr>)"
  using assms
  by (simp add: mc_background_task_def open_answers answered_def m_join_master_server_def at_master_def deliver_def
      ms_join_master_server_def reply_def check_status_def close_answers)

lemma index_server_joins:
  assumes "masters w (ictl_master c) = Some m"
    and "mc_join_index_server (ce_master CE) r1 r2 (ictl_node F c) m [] = Done (m', replicas, OK)"
  shows "ictl_background_task CE F r1 r2 c w = Done (w\<lparr>masters := (masters w)(ictl_master c \<mapsto> m')\<rparr>)"
  using assms
  by (simp add: ictl_background_task_def ictl_join_def open_answers answered_def m_join_index_server_def at_master_def deliver_def
      ms_join_index_server_def check_status_def)

abbreviation known :: "NodeInfo \<Rightarrow> NodeInfo" where
  "known n \<equiv> NodeInfo_default\<lparr>address := address n\<rparr>"

lemma cached_ring:
  assumes "ring_laws R" "ring_laws R'" "ring_empty R' r'"
  shows "get_ch_ring_as_map R' (cache_ring R' r' (ring_addresses R r [])) = map (apsnd known) (get_ch_ring_as_map R r)"
proof -
  have "ring_items R' r' = []" using assms(2,3) by (simp add: ring_laws_def)
  moreover have "smap_ok (ring_items R r)" using assms(1) by (simp add: ring_laws_def)
  ultimately show ?thesis
    using cache_ring_items [OF assms(2), of r' "ring_addresses R r []"]
    by (simp add: ring_as_map assms(1,2) ring_addresses_items smap_ok_apsnd apsnd_compose o_def)
qed

lemma client_init_primary:
  assumes "cl_rpc E = cluster_rpc CE" "masters w \<lparr>host = h, port = p\<rparr> = Some m" "is_primary_node m"
    and "master_server_manager m = Some ms" "index_server_manager m = Some is"
  shows "client_init E (VSFSRpcClient_new E h p) w =
    Done (w, (VSFSRpcClient_new E h p)\<lparr>connected := True,
      master_map := cache_ring (cl_ring E) (cl_ring_new E) (ring_addresses (mc_ring (ce_master CE)) ms []),
      index_server_map := cache_ring (cl_ring E) (cl_ring_new E) (ring_addresses (mc_ring (ce_master CE)) is [])\<rparr>, OK)"
proof -
  let ?R = "mc_ring (ce_master CE)" and ?new = "VSFSRpcClient_new E h p"
  let ?c1 = "?new\<lparr>connected := True, master_map := cache_ring (cl_ring E) (cl_ring_new E) (ring_addresses ?R ms [])\<rparr>"
  let ?c2 = "?c1\<lparr>index_server_map := cache_ring (cl_ring E) (cl_ring_new E) (ring_addresses ?R is [])\<rparr>"
  have "connect E ?new h p w = (w, ?new\<lparr>connected := True\<rparr>, OK)"
    using assms(1,2) by (simp add: connect_def Let_def VSFSRpcClient_new_def primary_def open_answers)
  moreover have "sync_master_server_map E (?new\<lparr>connected := True\<rparr>) w = Done (w, ?c1, OK)"
    using assms(1-4)
    by (simp add: sync_master_server_map_def VSFSRpcClient_new_def primary_def handler_defs ms_get_all_masters_def
        mc_get_all_masters_def transport_caught_def map_upd_triv)
  moreover have "sync_index_server_map E ?c1 w = Done (w, ?c2, OK)"
    using assms(1-3,5)
    by (simp add: sync_index_server_map_def VSFSRpcClient_new_def primary_def handler_defs ms_get_all_index_servers_def
        mc_get_all_index_servers_def transport_caught_def map_upd_triv)
  ultimately show ?thesis by (simp add: client_init_def VSFSRpcClient_new_def del: bindo_Done_iff)
qed

lemma client_caches:
  assumes "ring_laws (mc_ring (ce_master CE))" "ring_laws (cl_ring E)" "cl_rpc E = cluster_rpc CE"
    and "ring_empty (cl_ring E) (cl_ring_new E)" "masters w \<lparr>host = h, port = p\<rparr> = Some m" "is_primary_node m"
    and "master_server_manager m = Some ms" "index_server_manager m = Some is"
  shows "\<exists>c. client_init E (VSFSRpcClient_new E h p) w = Done (w, c, OK) \<and>
    get_ch_ring_as_map (cl_ring E) (master_map c) = map (apsnd known) (get_ch_ring_as_map (mc_ring (ce_master CE)) ms) \<and>
    get_ch_ring_as_map (cl_ring E) (index_server_map c) = map (apsnd known) (get_ch_ring_as_map (mc_ring (ce_master CE)) is)"
  using client_init_primary [OF assms(3,5-8)] cached_ring [OF assms(1,2,4)] by simp

section \<open>Properties\<close>

text \<open>
  What a client knows of the cluster when it has connected. At the primary master, \<open>init\<close> returns and succeeds, changes
  nothing in the cluster, and the client's maps have at each position of the ring the address the primary has there, of
  the masters and of the index servers, and no other position. A master that is not the primary refuses the question, and
  the refusal is an exception the client does not catch.\<close>

theorem client_connects:
  assumes "ring_laws (mc_ring (ce_master CE))" "ring_laws (cl_ring E)" "cl_rpc E = cluster_rpc CE"
    and "ring_empty (cl_ring E) (cl_ring_new E)" "masters w \<lparr>host = h, port = p\<rparr> = Some m" "mc_inv m"
  shows "if is_primary_node m then
      \<exists>c ms is. master_server_manager m = Some ms \<and> index_server_manager m = Some is \<and>
        client_init E (VSFSRpcClient_new E h p) w = Done (w, c, OK) \<and>
        get_ch_ring_as_map (cl_ring E) (master_map c) =
          map (\<lambda>(pos, n). (pos, NodeInfo_default\<lparr>address := address n\<rparr>)) (get_ch_ring_as_map (mc_ring (ce_master CE)) ms) \<and>
        get_ch_ring_as_map (cl_ring E) (index_server_map c) =
          map (\<lambda>(pos, n). (pos, NodeInfo_default\<lparr>address := address n\<rparr>)) (get_ch_ring_as_map (mc_ring (ce_master CE)) is)
    else client_init E (VSFSRpcClient_new E h p) w = Fail UncaughtException"
proof (cases "is_primary_node m")
  case True
  with assms(6) obtain ms "is" where s: "master_server_manager m = Some ms" "index_server_manager m = Some is"
    by (auto simp: mc_inv_def servers_ok_def)
  have "apsnd known = (\<lambda>(pos, n). (pos, known n))" by (simp add: fun_eq_iff)
  with client_caches [OF assms(1-5) True s] s True show ?thesis by auto
next
  case False
  let ?new = "VSFSRpcClient_new E h p"
  have "connect E ?new h p w = (w, ?new\<lparr>connected := True\<rparr>, OK)"
    using assms(3,5) by (simp add: connect_def Let_def VSFSRpcClient_new_def primary_def open_answers)
  moreover have "sync_master_server_map E (?new\<lparr>connected := True\<rparr>) w = Fail UncaughtException"
    using assms(3,5) False
    by (simp add: sync_master_server_map_def VSFSRpcClient_new_def primary_def handler_defs ms_get_all_masters_def
        mc_get_all_masters_def transport_caught_def)
  ultimately show ?thesis using False by (simp add: client_init_def VSFSRpcClient_new_def)
qed

text \<open>
  C15: A cluster forms. Next to a primary master fresh from its constructor, a secondary master and an index server
  start, in this order, and join in their background tasks. Both tasks return, whatever \<open>rand()\<close> gave; a client that connects to the
  primary then knows the two masters, at different positions, and the index server.\<close>

theorem cluster_forms:
  assumes "ring_laws (mc_ring (ce_master CE))" "ring_empty (mc_ring (ce_master CE)) (mc_ring_new (ce_master CE))"
    and "ring_laws (cl_ring E)" "ring_empty (cl_ring E) (cl_ring_new E)" "cl_rpc E = cluster_rpc CE"
    and "\<And>i. i < (4 :: nat) \<Longrightarrow> 0 \<le> r i \<and> r i \<le> RAND_MAX"
    and "MasterController_new (ce_master CE) (r 0) (r 1) junk dir h p True ph pp = Done m" "h \<noteq> []"
    and "masters w \<lparr>host = h, port = p\<rparr> = Some m"
    and "MasterController_new (ce_master CE) r4 r5 junk' dir' h' p' False h p = Done c" "h' \<noteq> []"
    and "ictl_master ic = \<lparr>host = h, port = p\<rparr>"
  shows "\<exists>w1 w2 client pos1 pos2 pos3. mc_background_task CE r6 r7 c w = Done w1 \<and>
    ictl_background_task CE F (r 2) (r 3) ic w1 = Done w2 \<and>
    client_init E (VSFSRpcClient_new E h p) w2 = Done (w2, client, OK) \<and> pos1 < pos2 \<and>
    get_ch_ring_as_map (cl_ring E) (master_map client) =
      [(pos1, NodeInfo_default\<lparr>address := \<lparr>host = h, port = p\<rparr>\<rparr>), (pos2, NodeInfo_default\<lparr>address := \<lparr>host = h', port = p'\<rparr>\<rparr>)] \<and>
    get_ch_ring_as_map (cl_ring E) (index_server_map client) = [(pos3, NodeInfo_default\<lparr>address := address (ictl_node F ic)\<rparr>)]"
proof -
  let ?ME = "ce_master CE" and ?a = "\<lparr>host = h, port = p\<rparr>"
  let ?R = "mc_ring ?ME"
  have rnd: "0 \<le> r 0" "r 0 \<le> RAND_MAX" "0 \<le> r 1" "r 1 \<le> RAND_MAX" "0 \<le> r 2" "r 2 \<le> RAND_MAX" "0 \<le> r 3" "r 3 \<le> RAND_MAX"
    using assms(6) [of 0] assms(6) [of 1] assms(6) [of 2] assms(6) [of 3] by auto
  from add_first [OF assms(1,2) rnd(1-4)] obtain r0 where
    a0: "ServerMap_add ?R (r 0) (r 1) (mc_ring_new ?ME) (NodeInfo_default\<lparr>address := ?a\<rparr>) = Done (r0, OK)"
      "ring_items ?R r0 = [(r 0 * r 1, NodeInfo_default\<lparr>address := ?a\<rparr>)]" by blast
  have m: "is_primary_node m" "master_server_manager m = Some r0" "index_server_manager m = Some (mc_ring_new ?ME)"
    using assms(7,8) a0(1) by (auto simp: MasterController_new_def Let_def)
  have c: "\<not> is_primary_node c" "primary_host c = h" "primary_port c = p" "mc_host c = h'" "mc_port c = p'"
    using assms(8,10,11) by (auto simp: MasterController_new_def Let_def)
  from add_second [OF assms(1) a0(2), of r6 r7] rand_product [OF rnd(1-4)] obtain r1 where
    a1: "ServerMap_add ?R r6 r7 r0 (NodeInfo_default\<lparr>address := \<lparr>host = h', port = p'\<rparr>\<rparr>) = Done (r1, OK)"
      "ring_items ?R r1 = [(r 0 * r 1, NodeInfo_default\<lparr>address := ?a\<rparr>),
        (r 0 * r 1 + (2 ^ 62 - 1), NodeInfo_default\<lparr>address := \<lparr>host = h', port = p'\<rparr>\<rparr>)]" by blast
  let ?m1 = "m\<lparr>master_server_manager := Some r1\<rparr>" and ?w1 = "w\<lparr>masters := (masters w)(?a \<mapsto> m\<lparr>master_server_manager := Some r1\<rparr>)\<rparr>"
  have b1: "mc_background_task CE r6 r7 c w = Done ?w1"
    using master_joins [OF c(1), of w m CE r6 r7 ?m1] assms(9) a1(1) m(1,2) by (simp add: c(2-5) mc_join_master_server_def)
  from add_first [OF assms(1,2) rnd(5-8)] obtain r2 where
    a2: "ServerMap_add ?R (r 2) (r 3) (mc_ring_new ?ME) (ictl_node F ic) = Done (r2, OK)"
      "ring_items ?R r2 = [(r 2 * r 3, ictl_node F ic)]" by blast
  let ?m2 = "?m1\<lparr>index_server_manager := Some r2\<rparr>" and ?w2 = "?w1\<lparr>masters := (masters ?w1)(?a \<mapsto> ?m1\<lparr>index_server_manager := Some r2\<rparr>)\<rparr>"
  have b2: "ictl_background_task CE F (r 2) (r 3) ic ?w1 = Done ?w2"
    using index_server_joins [of ?w1 ic ?m1 CE "r 2" "r 3" F ?m2] a2(1) m(3) assms(12) by (simp add: mc_join_index_server_def Let_def)
  have "\<exists>client. client_init E (VSFSRpcClient_new E h p) ?w2 = Done (?w2, client, OK) \<and>
      get_ch_ring_as_map (cl_ring E) (master_map client) = map (apsnd known) (get_ch_ring_as_map ?R r1) \<and>
      get_ch_ring_as_map (cl_ring E) (index_server_map client) = map (apsnd known) (get_ch_ring_as_map ?R r2)"
    using m(1) by (intro client_caches [OF assms(1,3,5,4), of _ _ _ ?m2]) simp_all
  with b1 b2 a1(2) a2(2) show ?thesis
    unfolding ring_as_map [OF assms(1)]
    by (intro exI [of _ ?w1] exI [of _ ?w2]) force
qed

text \<open>A primary master at \<open>node_a\<close>, and a secondary and an index server that name it as theirs.\<close>

definition primary_master where
  "primary_master = demo_master\<lparr>mc_host := ''a'', is_primary_node := True, primary_host := [], primary_port := 0,
     index_server_manager := Some [], master_server_manager := Some [(12, Some (NodeInfo_default\<lparr>address := node_a\<rparr>))]\<rparr>"

definition second_master where
  "second_master = demo_master\<lparr>mc_host := ''b'', mc_port := 2, primary_host := ''a'', primary_port := 1\<rparr>"

definition one_master_state :: "(TestLevelDBStore, (HashValueType \<times> string option) list, (HashValueType \<times> NodeInfo option) list, int) cluster" where
  "one_master_state = \<lparr>masters = [node_a \<mapsto> primary_master], index_servers = Map.empty\<rparr>"

definition test_flags :: index_flags where
  "test_flags = \<lparr>FLAGS_host = ''c'', FLAGS_port = 5, FLAGS_server_id = [], FLAGS_master_addr = ''a'', FLAGS_master_port = 1,
     asio_host_name = ''h''\<rparr>"

lemma test_masters_new:
  "MasterController_new test_mc_env 3 4 0 ''/d'' ''a'' 1 True [] 0 = Done primary_master"
  "MasterController_new test_mc_env 0 0 0 ''/d'' ''b'' 2 False ''a'' 1 = Done second_master"
  by (simp_all add: MasterController_new_def primary_master_def second_master_def demo_master_def test_mc_env_def ServerMap_add_def
      list_ring_def replay_nodes_def s64_def int64_defs Let_def)

lemma test_membership:
  "ring_laws (mc_ring (ce_master test_cluster_env))" "ring_empty (mc_ring (ce_master test_cluster_env)) (mc_ring_new (ce_master test_cluster_env))"
  "ring_laws (cl_ring test_client_env)" "ring_empty (cl_ring test_client_env) (cl_ring_new test_client_env)"
  by (simp_all add: test_cluster_env_def test_mc_env_def test_client_env_def ring_laws_list)
    (simp_all add: list_ring_def replay_nodes_def)

theorem client_connects_witness:
  "(\<exists>c. client_init test_client_env (VSFSRpcClient_new test_client_env ''a'' 1) one_master_state = Done (one_master_state, c, OK) \<and>
     get_ch_ring_as_map (cl_ring test_client_env) (master_map c) = [(12, NodeInfo_default\<lparr>address := node_a\<rparr>)]) \<and>
   client_init test_client_env (VSFSRpcClient_new test_client_env ''b'' 2) test_cluster_state = Fail UncaughtException"
proof -
  have "mc_inv primary_master"
    using demo_master_inv by (simp add: mc_inv_def primary_master_def servers_ok_def)
  moreover have "masters one_master_state node_a = Some primary_master" "is_primary_node primary_master"
    "master_server_manager primary_master = Some [(12, Some (NodeInfo_default\<lparr>address := node_a\<rparr>))]"
    by (simp_all add: one_master_state_def primary_master_def)
  moreover have "get_ch_ring_as_map (mc_ring (ce_master test_cluster_env)) [(12, Some (NodeInfo_default\<lparr>address := node_a\<rparr>))] =
      [(12, NodeInfo_default\<lparr>address := node_a\<rparr>)]"
    by (simp add: get_ch_ring_as_map_def test_cluster_env_def test_mc_env_def list_ring_def replay_nodes_def)
  moreover have "masters test_cluster_state node_b = Some demo_master" "\<not> is_primary_node demo_master"
    by (simp_all add: test_cluster_state_def demo_master_def)
  ultimately show ?thesis
    using client_connects [OF test_membership(1,3) test_client_simps(1) test_membership(4), of one_master_state "''a''" 1 primary_master]
      client_connects [OF test_membership(1,3) test_client_simps(1) test_membership(4), of test_cluster_state "''b''" 2 demo_master]
      demo_master_inv by auto
qed

theorem cluster_forms_witness:
  "\<exists>w1 w2 client pos1 pos2 pos3. mc_background_task test_cluster_env 0 0 second_master one_master_state = Done w1 \<and>
    ictl_background_task test_cluster_env test_flags 5 6 (IndexController_new test_flags ''/i'' []) w1 = Done w2 \<and>
    client_init test_client_env (VSFSRpcClient_new test_client_env ''a'' 1) w2 = Done (w2, client, OK) \<and> pos1 < pos2 \<and>
    get_ch_ring_as_map (cl_ring test_client_env) (master_map client) =
      [(pos1, NodeInfo_default\<lparr>address := node_a\<rparr>), (pos2, NodeInfo_default\<lparr>address := node_b\<rparr>)] \<and>
    get_ch_ring_as_map (cl_ring test_client_env) (index_server_map client) =
      [(pos3, NodeInfo_default\<lparr>address := \<lparr>host = ''c'', port = 5\<rparr>\<rparr>)]"
proof -
  have "ce_master test_cluster_env = test_mc_env" by (simp add: test_cluster_env_def)
  note n = test_masters_new [folded this]
  have ic: "ictl_master (IndexController_new test_flags ''/i'' [] :: int IndexController) = node_a"
    "address (ictl_node test_flags (IndexController_new test_flags ''/i'' [] :: int IndexController)) = \<lparr>host = ''c'', port = 5\<rparr>"
    by (simp_all add: IndexController_new_def test_flags_def ictl_node_def)
  have m: "masters one_master_state node_a = Some primary_master" by (simp add: one_master_state_def)
  let ?r = "(\<lambda>i. [3, 4, 5, 6] ! i) :: nat \<Rightarrow> int"
  have r: "0 \<le> ?r i \<and> ?r i \<le> RAND_MAX" if "i < 4" for i
    using that by (auto simp: RAND_MAX_def less_Suc_eq numeral_eq_Suc)
  from cluster_forms [OF test_membership test_client_simps(1), of ?r, OF r, of 0 "''/d''" "''a''" 1 "[]" 0 primary_master one_master_state
      0 0 0 "''/d''" "''b''" 2 second_master "IndexController_new test_flags ''/i'' []" 0 0 test_flags] n m
  show ?thesis by (simp add: ic)
qed

end
