(* ===== verification/Fuse.thy ===== *)
theory Fuse
  imports Client_Index Storage
begin

text \<open>
  The FUSE front end (\<open>vsfs/fuse/vsfs_ops.cpp\<close>): every operation of the mounted file system goes to the client for
  the namespace and to a storage manager for the contents. A handler works on the state of the cluster, the
  state of the operating system and the table of open files, and returns zero, a count, or a negative error.
\<close>

section \<open>State\<close>

datatype storage_manager = PosixManager string | ObjectManager ObjectStorageManager

record VsfsFuse =
  fuse_basedir :: string
  mount_point :: string
  fuse_storage :: storage_manager
  fh_to_obj_map :: "(int \<times> File) list"

record ('w, 'o, 'r) fuse_state =
  fs_cluster :: 'w
  fs_os :: 'o
  fs_client :: "'r VSFSRpcClient"
  fs_fuse :: VsfsFuse

text \<open>What \<open>stat\<close> fills in besides the fields the client sets.\<close>

record os_stat =
  os_size :: int
  os_ino :: int
  os_dev :: int
  os_nlink :: int
  os_rdev :: int
  os_blksize :: int
  os_blocks :: int

record fuse_stat =
  fst_stat :: stat
  fst_os :: os_stat

text \<open>
  The parameters: the client's, the query parser's and the storage's, the system calls on descriptors, \<open>fs::absolute\<close>,
  the ids of the process and of the caller.
\<close>

record ('w, 'r, 'o, 'sv) fuse_env =
  fe_client :: "('w, 'r) client_env"
  fe_query :: cq_env
  fe_os :: "('o, os_stat, 'sv) os_api"
  fe_absolute :: "string \<Rightarrow> string"
  sys_fstat :: "int \<Rightarrow> 'o \<Rightarrow> int \<times> fuse_stat \<times> int"
  sys_ioctl :: "int \<Rightarrow> int \<Rightarrow> 'o \<Rightarrow> 'o \<times> int \<times> int"
  sys_dup :: "int \<Rightarrow> 'o \<Rightarrow> 'o \<times> int"
  sys_flock :: "int \<Rightarrow> int \<Rightarrow> 'o \<Rightarrow> 'o \<times> int \<times> int"
  sys_fcntl :: "int \<Rightarrow> int \<Rightarrow> 'o \<Rightarrow> 'o \<times> int \<times> int"
  sys_fsync :: "int \<Rightarrow> 'o \<Rightarrow> 'o \<times> int \<times> int"
  sys_errno :: "'o \<Rightarrow> int"
  getuid :: int
  getgid :: int
  ctx_uid :: int
  ctx_gid :: int
  ctx_umask :: "32 word"

definition error_code :: "('w, 'r, 'o, 'sv) fuse_env \<Rightarrow> Status \<Rightarrow> int" where
  "error_code E status = status_error (cl_vobla (fe_client E)) status"

section \<open>The storage manager\<close>

fun sm_init :: "('w, 'r, 'o, 'sv) fuse_env \<Rightarrow> storage_manager \<Rightarrow> 'o \<Rightarrow> 'o \<times> Status" where
  "sm_init E (PosixManager base) os = (os, OK)"
| "sm_init E (ObjectManager m) os = object_init (fe_os E) (cl_paths (fe_client E)) m os"

fun sm_open ::
  "('w, 'r, 'o, 'sv) fuse_env \<Rightarrow> storage_manager \<Rightarrow> string \<Rightarrow> ObjectId \<Rightarrow> int \<Rightarrow> 32 word option \<Rightarrow> 'o \<Rightarrow>
     ('o \<times> (Status + File)) outcome" where
  "sm_open E (PosixManager base) path oid flags md os = Done (posix_open (fe_os E) base path oid flags md os)"
| "sm_open E (ObjectManager m) path oid flags md os = object_open (fe_os E) (cl_paths (fe_client E)) m path oid flags md os"

fun sm_unlink ::
  "('w, 'r, 'o, 'sv) fuse_env \<Rightarrow> storage_manager \<Rightarrow> string \<Rightarrow> ObjectId \<Rightarrow> 'o \<Rightarrow> ('o \<times> Status) outcome" where
  "sm_unlink E (PosixManager base) path oid os = Done (posix_unlink (fe_os E) base path oid os)"
| "sm_unlink E (ObjectManager m) path oid os = object_unlink (fe_os E) (cl_paths (fe_client E)) m path oid os"

fun sm_mkdir :: "('w, 'r, 'o, 'sv) fuse_env \<Rightarrow> storage_manager \<Rightarrow> string \<Rightarrow> 32 word \<Rightarrow> 'o \<Rightarrow> 'o \<times> Status" where
  "sm_mkdir E (PosixManager base) path md os = posix_mkdir (fe_os E) base path md os"
| "sm_mkdir E (ObjectManager m) path md os = (os, object_mkdir path md)"

fun sm_rmdir :: "('w, 'r, 'o, 'sv) fuse_env \<Rightarrow> storage_manager \<Rightarrow> string \<Rightarrow> 'o \<Rightarrow> 'o \<times> Status" where
  "sm_rmdir E (PosixManager base) path os = posix_rmdir (fe_os E) base path os"
| "sm_rmdir E (ObjectManager m) path os = (os, object_rmdir path)"

fun sm_readlink ::
  "('w, 'r, 'o, 'sv) fuse_env \<Rightarrow> storage_manager \<Rightarrow> string \<Rightarrow> ObjectId \<Rightarrow> nat \<Rightarrow> 'o \<Rightarrow> (int \<times> string \<times> Status) outcome" where
  "sm_readlink E (PosixManager base) path oid sz os = Done (posix_readlink (fe_os E) base path oid sz os)"
| "sm_readlink E (ObjectManager m) path oid sz os = object_readlink (fe_os E) (cl_paths (fe_client E)) m path oid sz os"

fun sm_getattr ::
  "('w, 'r, 'o, 'sv) fuse_env \<Rightarrow> storage_manager \<Rightarrow> string \<Rightarrow> ObjectId \<Rightarrow> 'o \<Rightarrow> (os_stat \<times> Status) outcome" where
  "sm_getattr E (PosixManager base) path oid os = Done (posix_getattr (fe_os E) base path oid os)"
| "sm_getattr E (ObjectManager m) path oid os = object_getattr (fe_os E) (cl_paths (fe_client E)) m path oid os"

fun sm_statfs :: "('w, 'r, 'o, 'sv) fuse_env \<Rightarrow> storage_manager \<Rightarrow> 'o \<Rightarrow> 'sv \<times> Status" where
  "sm_statfs E (PosixManager base) os = posix_statfs (fe_os E) base os"
| "sm_statfs E (ObjectManager m) os = object_statfs (fe_os E) m os"

fun sm_symlink ::
  "('w, 'r, 'o, 'sv) fuse_env \<Rightarrow> storage_manager \<Rightarrow> string \<Rightarrow> string \<Rightarrow> ObjectId \<Rightarrow> 'o \<Rightarrow> ('o \<times> Status) outcome" where
  "sm_symlink E (PosixManager base) fpath link_path oid os = Done (posix_symlink (fe_os E) base fpath link_path oid os)"
| "sm_symlink E (ObjectManager m) fpath link_path oid os =
     object_symlink (fe_os E) (cl_paths (fe_client E)) m fpath link_path oid os"

section \<open>VsfsFuse\<close>

definition VsfsFuse_new :: "32 word \<Rightarrow> string \<Rightarrow> string \<Rightarrow> string \<Rightarrow> VsfsFuse outcome" where
  "VsfsFuse_new dirwidth basedir mnt sm =
     (if sm = ''posix'' then
        Done \<lparr>fuse_basedir = basedir, mount_point = mnt, fuse_storage = PosixManager basedir, fh_to_obj_map = []\<rparr>
      else if sm = ''object'' then
        Done \<lparr>fuse_basedir = basedir, mount_point = mnt,
              fuse_storage = ObjectManager \<lparr>osm_base = basedir, num_subdirs = dirwidth\<rparr>, fh_to_obj_map = []\<rparr>
      else Fail CheckFailed)"

text \<open>The instance there is, if any, comes in as the first argument. The result of the last \<open>mkdir\<close> is dropped.\<close>

definition fuse_init ::
  "('w, 'r, 'o, 'sv) fuse_env \<Rightarrow> 32 word \<Rightarrow> VsfsFuse option \<Rightarrow> string \<Rightarrow> string \<Rightarrow> string \<Rightarrow> int \<Rightarrow> string \<Rightarrow> 'w \<Rightarrow> 'o \<Rightarrow>
     (('w, 'o, 'r) fuse_state \<times> Status) outcome" where
  "fuse_init E dirwidth inst basedir mnt h p sm w os =
     (if inst \<noteq> None then Fail CheckFailed
      else bindo (VsfsFuse_new dirwidth (fe_absolute E basedir) (fe_absolute E mnt) sm) (\<lambda>f.
        let c = VSFSRpcClient_new (fe_client E) h p in
        case sm_init E (fuse_storage f) os of (os', status) \<Rightarrow>
          if \<not> ok status then Done (\<lparr>fs_cluster = w, fs_os = os', fs_client = c, fs_fuse = f\<rparr>, status)
          else bindo (client_init (fe_client E) c w) (\<lambda>(w1, c1, status).
            if \<not> ok status then Done (\<lparr>fs_cluster = w1, fs_os = os', fs_client = c1, fs_fuse = f\<rparr>, status)
            else bindo (cl_mkdir (fe_client E) c1 ''/'' 0x1FF (ctx_uid E) (ctx_gid E) w1) (\<lambda>(w2, _).
              Done (\<lparr>fs_cluster = w2, fs_os = os', fs_client = c1, fs_fuse = f\<rparr>, OK)))))"

definition mnt_path :: "('w, 'r, 'o, 'sv) fuse_env \<Rightarrow> VsfsFuse \<Rightarrow> string \<Rightarrow> string" where
  "mnt_path E f vsfs_path = path_join (cl_paths (fe_client E)) (mount_point f) vsfs_path"

text \<open>\<open>map[fd].reset(file)\<close> destroys the file that was there.\<close>

definition add_file ::
  "('w, 'r, 'o, 'sv) fuse_env \<Rightarrow> int \<Rightarrow> File \<Rightarrow> ('w, 'o, 'r) fuse_state \<Rightarrow> ('w, 'o, 'r) fuse_state" where
  "add_file E fd file s =
     (let f = fs_fuse s;
          os' = (case map_of (fh_to_obj_map f) fd of None \<Rightarrow> fs_os s | Some old \<Rightarrow> File_destroy (fe_os E) old (fs_os s))
      in s\<lparr>fs_os := os', fs_fuse := f\<lparr>fh_to_obj_map := smap_put fd file (fh_to_obj_map f)\<rparr>\<rparr>)"

definition close_file ::
  "('w, 'r, 'o, 'sv) fuse_env \<Rightarrow> int \<Rightarrow> ('w, 'o, 'r) fuse_state \<Rightarrow> (('w, 'o, 'r) fuse_state \<times> Status) outcome" where
  "close_file E fd s =
     (let f = fs_fuse s in
      case map_of (fh_to_obj_map f) fd of
        None \<Rightarrow> Fail CheckFailed
      | Some file \<Rightarrow>
          (case File_close (fe_os E) file (fs_os s) of (os1, file', status) \<Rightarrow>
             Done (s\<lparr>fs_os := File_destroy (fe_os E) file' os1,
                     fs_fuse := f\<lparr>fh_to_obj_map := smap_erase fd (fh_to_obj_map f)\<rparr>\<rparr>, status)))"

definition get_file :: "VsfsFuse \<Rightarrow> int \<Rightarrow> File option" where
  "get_file f fd = map_of (fh_to_obj_map f) fd"

section \<open>Operations on names\<close>

definition EBADF :: int where "EBADF = 9"
definition O_CREAT :: int where "O_CREAT = 0x40"

definition vsfs_statfs :: "('w, 'r, 'o, 'sv) fuse_env \<Rightarrow> ('w, 'o, 'r) fuse_state \<Rightarrow> 'sv \<times> int" where
  "vsfs_statfs E s =
     (case sm_statfs E (fuse_storage (fs_fuse s)) (fs_os s) of (stbuf, status) \<Rightarrow>
        (stbuf, if \<not> ok status then error_code E status else 0))"

definition vsfs_access :: "string \<Rightarrow> int \<Rightarrow> int outcome" where
  "vsfs_access path flag = bindo (PosixPath_new path) (\<lambda>vsp. Done (if \<not> is_validate vsp then - EINVAL else 0))"

text \<open>A regular file takes its size and the fields below it from the storage; the rest is the client's.\<close>

definition vsfs_getattr ::
  "('w, 'r, 'o, 'sv) fuse_env \<Rightarrow> string \<Rightarrow> fuse_stat \<Rightarrow> ('w, 'o, 'r) fuse_state \<Rightarrow>
     (('w, 'o, 'r) fuse_state \<times> fuse_stat \<times> int) outcome" where
  "vsfs_getattr E path stbuf s =
     bindo (PosixPath_new path) (\<lambda>vsp.
       if \<not> is_validate vsp then Done (s, stbuf, - EINVAL)
       else if is_query vsp then
         Done (s, stbuf\<lparr>fst_stat := (fst_stat stbuf)\<lparr>st_mode := st_mode (fst_stat stbuf) OR S_IFDIR\<rparr>\<rparr>, 0)
       else if is_result vsp then
         Done (s, stbuf\<lparr>fst_stat := (fst_stat stbuf)\<lparr>st_mode := st_mode (fst_stat stbuf) OR S_IFLNK,
                                                   st_size := int (length (pp_result vsp))\<rparr>\<rparr>, 0)
       else
         bindo (cl_getattr (fe_client E) (fs_client s) path (fs_cluster s)) (\<lambda>(w, x).
           let s1 = s\<lparr>fs_cluster := w\<rparr> in
           case x of
             Inl status \<Rightarrow> Done (s1, stbuf, error_code E status)
           | Inr info \<Rightarrow>
               let st = (stat_of_info info)\<lparr>st_size := st_size (fst_stat stbuf)\<rparr> in
               if S_ISDIR (st_mode st) \<or> S_ISLNK (st_mode st) then
                 Done (s1, stbuf\<lparr>fst_stat := stat_of_info info\<rparr>, 0)
               else
                 bindo (sm_getattr E (fuse_storage (fs_fuse s1)) path (word_of_int (or_zero (fi_object_id info))) (fs_os s1))
                   (\<lambda>(buf, status).
                     if \<not> ok status then Done (s1, stbuf\<lparr>fst_stat := st\<rparr>, error_code E status)
                     else Done (s1, \<lparr>fst_stat = st\<lparr>st_size := os_size buf\<rparr>, fst_os = buf\<rparr>, 0))))"

text \<open>A call of the client whose status is the result.\<close>

definition client_status ::
  "('w, 'r, 'o, 'sv) fuse_env \<Rightarrow> (('w \<times> Status) outcome) \<Rightarrow> ('w, 'o, 'r) fuse_state \<Rightarrow> (('w, 'o, 'r) fuse_state \<times> int) outcome" where
  "client_status E r s = bindo r (\<lambda>(w, status). Done (s\<lparr>fs_cluster := w\<rparr>, error_code E status))"

definition vsfs_utimens ::
  "('w, 'r, 'o, 'sv) fuse_env \<Rightarrow> string \<Rightarrow> int \<Rightarrow> int \<Rightarrow> ('w, 'o, 'r) fuse_state \<Rightarrow> (('w, 'o, 'r) fuse_state \<times> int) outcome" where
  "vsfs_utimens E path at mt s = client_status E (cl_utimens (fe_client E) (fs_client s) path at mt (fs_cluster s)) s"

definition vsfs_chmod ::
  "('w, 'r, 'o, 'sv) fuse_env \<Rightarrow> string \<Rightarrow> 32 word \<Rightarrow> ('w, 'o, 'r) fuse_state \<Rightarrow> (('w, 'o, 'r) fuse_state \<times> int) outcome" where
  "vsfs_chmod E path md s = client_status E (cl_chmod (fe_client E) (fs_client s) path md (fs_cluster s)) s"

definition vsfs_chown ::
  "('w, 'r, 'o, 'sv) fuse_env \<Rightarrow> string \<Rightarrow> 32 word \<Rightarrow> 32 word \<Rightarrow> ('w, 'o, 'r) fuse_state \<Rightarrow> (('w, 'o, 'r) fuse_state \<times> int) outcome" where
  "vsfs_chown E path u g s =
     client_status E (cl_chown (fe_client E) (fs_client s) path (uint u) (uint g) (fs_cluster s)) s"

definition vsfs_truncate :: "string \<Rightarrow> int \<Rightarrow> int" where
  "vsfs_truncate path len = 0"

definition vsfs_opendir :: "string \<Rightarrow> int" where
  "vsfs_opendir path = 0"

definition vsfs_releasedir :: "string \<Rightarrow> int" where
  "vsfs_releasedir path = 0"

definition vsfs_getxattr :: "string \<Rightarrow> string \<Rightarrow> string \<Rightarrow> nat \<Rightarrow> int" where
  "vsfs_getxattr path name value vlen = 0"

text \<open>The name of a result in the directory of its query, and the file such a name stands for.\<close>

definition result_name :: "string \<Rightarrow> string" where
  "result_name file = map (\<lambda>ch. if ch = CHR ''/'' then CHR ''#'' else ch) file"

definition linked_file :: "string \<Rightarrow> string" where
  "linked_file result_file = map (\<lambda>ch. if ch = CHR ''#'' then CHR ''/'' else ch) result_file"

text \<open>The entries the filler is called with; the first failure ends the loop.\<close>

fun fill_results ::
  "('w, 'r, 'o, 'sv) fuse_env \<Rightarrow> string list \<Rightarrow> (string \<times> stat option) list \<Rightarrow> ('w, 'o, 'r) fuse_state \<Rightarrow>
     (('w, 'o, 'r) fuse_state \<times> (string \<times> stat option) list \<times> int) outcome" where
  "fill_results E [] buf s = Done (s, buf, 0)"
| "fill_results E (file # files) buf s =
     bindo (cl_getattr_stat (fe_client E) (fs_client s) file (fs_cluster s)) (\<lambda>(w, x).
       let s1 = s\<lparr>fs_cluster := w\<rparr> in
       case x of
         Inl status \<Rightarrow> Done (s1, buf, error_code E status)
       | Inr stbuf \<Rightarrow>
           fill_results E files (buf @ [(result_name file, Some (stbuf\<lparr>st_mode := st_mode stbuf OR S_IFLNK\<rparr>))]) s1)"

text \<open>The status of the parser is shadowed by that of the search and never looked at.\<close>

definition vsfs_readdir ::
  "('w, 'r, 'o, 'sv) fuse_env \<Rightarrow> string \<Rightarrow> (string \<times> stat option) list \<Rightarrow> ('w, 'o, 'r) fuse_state \<Rightarrow>
     (('w, 'o, 'r) fuse_state \<times> (string \<times> stat option) list \<times> int) outcome" where
  "vsfs_readdir E path buf s =
     bindo (PosixPath_new path) (\<lambda>vsp.
       let buf1 = buf @ [(''.'', None), (''..'', None)] in
       if is_query vsp then
         bindo (parse (fe_query E) ComplexQuery_new path) (\<lambda>(complex_query, _).
         bindo (cl_search (fe_client E) (fs_client s) complex_query [] (fs_cluster s)) (\<lambda>(w, result_files, status).
           let s1 = s\<lparr>fs_cluster := w\<rparr> in
           if \<not> ok status then Done (s1, buf1, error_code E status)
           else fill_results E result_files buf1 s1))
       else
         bindo (cl_readdir (fe_client E) (fs_client s) path (fs_cluster s)) (\<lambda>(w, x).
           let s1 = s\<lparr>fs_cluster := w\<rparr> in
           case x of
             Inl status \<Rightarrow> Done (s1, buf1, error_code E status)
           | Inr subfiles \<Rightarrow> Done (s1, buf1 @ map (\<lambda>f. (f, None)) subfiles, 0)))"

text \<open>
  A result is read into a buffer of \<open>sz\<close> bytes: \<open>strncpy\<close> fills it, then a zero is written behind the path, which is
  past the buffer when the path is not shorter than it.
\<close>

definition vsfs_readlink ::
  "('w, 'r, 'o, 'sv) fuse_env \<Rightarrow> string \<Rightarrow> nat \<Rightarrow> ('w, 'o, 'r) fuse_state \<Rightarrow>
     (('w, 'o, 'r) fuse_state \<times> string option \<times> int) outcome" where
  "vsfs_readlink E path sz s =
     bindo (PosixPath_new path) (\<lambda>vsp.
       if is_query vsp then Done (s, None, 0)
       else if is_result vsp then
         (let target = mnt_path E (fs_fuse s) (linked_file (pp_result vsp)) in
          if length target < sz then Done (s, Some target, 0) else Fail Undefined)
       else
         bindo (cl_object_id (fe_client E) (fs_client s) path (fs_cluster s)) (\<lambda>(w, x).
           let s1 = s\<lparr>fs_cluster := w\<rparr> in
           case x of
             Inl status \<Rightarrow> Done (s1, None, error_code E status)
           | Inr oid \<Rightarrow>
               bindo (sm_readlink E (fuse_storage (fs_fuse s1)) path oid sz (fs_os s1)) (\<lambda>(retlen, text, status).
                 if \<not> ok status then Done (s1, None, error_code E status) else Done (s1, Some text, 0))))"

definition vsfs_mkdir ::
  "('w, 'r, 'o, 'sv) fuse_env \<Rightarrow> string \<Rightarrow> 32 word \<Rightarrow> ('w, 'o, 'r) fuse_state \<Rightarrow> (('w, 'o, 'r) fuse_state \<times> int) outcome" where
  "vsfs_mkdir E path md s =
     bindo (cl_mkdir (fe_client E) (fs_client s) path (uint md) (ctx_uid E) (ctx_gid E) (fs_cluster s)) (\<lambda>(w, status).
       let s1 = s\<lparr>fs_cluster := w\<rparr> in
       if \<not> ok status then Done (s1, error_code E status)
       else case sm_mkdir E (fuse_storage (fs_fuse s1)) path md (fs_os s1) of (os, status) \<Rightarrow>
         Done (s1\<lparr>fs_os := os\<rparr>, error_code E status))"

definition vsfs_rmdir ::
  "('w, 'r, 'o, 'sv) fuse_env \<Rightarrow> string \<Rightarrow> ('w, 'o, 'r) fuse_state \<Rightarrow> (('w, 'o, 'r) fuse_state \<times> int) outcome" where
  "vsfs_rmdir E path s =
     bindo (cl_rmdir (fe_client E) (fs_client s) path (fs_cluster s)) (\<lambda>(w, status).
       let s1 = s\<lparr>fs_cluster := w\<rparr> in
       if \<not> ok status then Done (s1, error_code E status)
       else case sm_rmdir E (fuse_storage (fs_fuse s1)) path (fs_os s1) of (os, status) \<Rightarrow>
         Done (s1\<lparr>fs_os := os\<rparr>, error_code E status))"

text \<open>An object id that \<open>create\<close> did not write is read uninitialised.\<close>

definition created :: "ObjectId option \<Rightarrow> ObjectId outcome" where
  "created oid = (case oid of None \<Rightarrow> Fail Undefined | Some i \<Rightarrow> Done i)"

definition vsfs_mknod ::
  "('w, 'r, 'o, 'sv) fuse_env \<Rightarrow> string \<Rightarrow> 32 word \<Rightarrow> ('w, 'o, 'r) fuse_state \<Rightarrow> (('w, 'o, 'r) fuse_state \<times> int) outcome" where
  "vsfs_mknod E path md s =
     bindo (cl_create (fe_client E) (fs_client s) path (uint md) (getuid E) (getgid E) (fs_cluster s)) (\<lambda>(w, status, oid).
       Done (s\<lparr>fs_cluster := w\<rparr>, if \<not> ok status then error_code E status else 0))"

definition vsfs_unlink ::
  "('w, 'r, 'o, 'sv) fuse_env \<Rightarrow> string \<Rightarrow> ('w, 'o, 'r) fuse_state \<Rightarrow> (('w, 'o, 'r) fuse_state \<times> int) outcome" where
  "vsfs_unlink E path s =
     bindo (cl_unlink (fe_client E) (fs_client s) path (fs_cluster s)) (\<lambda>(w, x).
       let s1 = s\<lparr>fs_cluster := w\<rparr> in
       case x of
         Inl status \<Rightarrow> Done (s1, error_code E status)
       | Inr oid \<Rightarrow>
           bindo (sm_unlink E (fuse_storage (fs_fuse s1)) path oid (fs_os s1)) (\<lambda>(os, status).
             Done (s1\<lparr>fs_os := os\<rparr>, error_code E status)))"

text \<open>\<open>0666 && umask\<close> is a truth value.\<close>

definition vsfs_symlink ::
  "('w, 'r, 'o, 'sv) fuse_env \<Rightarrow> string \<Rightarrow> string \<Rightarrow> ('w, 'o, 'r) fuse_state \<Rightarrow> (('w, 'o, 'r) fuse_state \<times> int) outcome" where
  "vsfs_symlink E fpath link_path s =
     bindo (cl_create (fe_client E) (fs_client s) link_path (uint ((if ctx_umask E \<noteq> 0 then 1 else 0) OR S_IFLNK))
              (ctx_uid E) (ctx_gid E) (fs_cluster s)) (\<lambda>(w, status, oid).
       let s1 = s\<lparr>fs_cluster := w\<rparr> in
       if \<not> ok status then Done (s1, error_code E status)
       else bindo (created oid) (\<lambda>i.
         bindo (sm_symlink E (fuse_storage (fs_fuse s1)) fpath link_path i (fs_os s1)) (\<lambda>(os, status).
           Done (s1\<lparr>fs_os := os\<rparr>, if \<not> ok status then error_code E status else 0))))"

section \<open>Operations on open files\<close>

text \<open>The handle of a new file is its descriptor.\<close>

definition keep_open ::
  "('w, 'r, 'o, 'sv) fuse_env \<Rightarrow> ('w, 'o, 'r) fuse_state \<Rightarrow> ('o \<times> (Status + File)) outcome \<Rightarrow>
     (('w, 'o, 'r) fuse_state \<times> int option \<times> int) outcome" where
  "keep_open E s r =
     bindo r (\<lambda>(os, x).
       let s1 = s\<lparr>fs_os := os\<rparr> in
       case x of
         Inl status \<Rightarrow> Done (s1, None, error_code E status)
       | Inr file \<Rightarrow> Done (add_file E (File_fd file) file s1, Some (File_fd file), 0))"

definition vsfs_create ::
  "('w, 'r, 'o, 'sv) fuse_env \<Rightarrow> string \<Rightarrow> 32 word \<Rightarrow> int \<Rightarrow> ('w, 'o, 'r) fuse_state \<Rightarrow>
     (('w, 'o, 'r) fuse_state \<times> int option \<times> int) outcome" where
  "vsfs_create E path md flags s =
     bindo (cl_create (fe_client E) (fs_client s) path (uint md) (getuid E) (getgid E) (fs_cluster s)) (\<lambda>(w, status, oid).
       let s1 = s\<lparr>fs_cluster := w\<rparr> in
       if \<not> ok status then Done (s1, None, error_code E status)
       else bindo (created oid) (\<lambda>i.
         keep_open E s1 (sm_open E (fuse_storage (fs_fuse s1)) path i (flags OR O_CREAT) (Some md) (fs_os s1))))"

definition vsfs_open ::
  "('w, 'r, 'o, 'sv) fuse_env \<Rightarrow> string \<Rightarrow> int \<Rightarrow> ('w, 'o, 'r) fuse_state \<Rightarrow>
     (('w, 'o, 'r) fuse_state \<times> int option \<times> int) outcome" where
  "vsfs_open E path flags s =
     bindo (cl_open (fe_client E) (fs_client s) path (fs_cluster s)) (\<lambda>(w, x).
       let s1 = s\<lparr>fs_cluster := w\<rparr> in
       case x of
         Inl status \<Rightarrow> Done (s1, None, error_code E status)
       | Inr oid \<Rightarrow> keep_open E s1 (sm_open E (fuse_storage (fs_fuse s1)) path oid flags None (fs_os s1)))"

definition vsfs_release ::
  "('w, 'r, 'o, 'sv) fuse_env \<Rightarrow> int \<Rightarrow> ('w, 'o, 'r) fuse_state \<Rightarrow> (('w, 'o, 'r) fuse_state \<times> int) outcome" where
  "vsfs_release E fh s = bindo (close_file E fh s) (\<lambda>(s', status). Done (s', error_code E status))"

definition vsfs_read ::
  "('w, 'r, 'o, 'sv) fuse_env \<Rightarrow> int \<Rightarrow> nat \<Rightarrow> int \<Rightarrow> ('w, 'o, 'r) fuse_state \<Rightarrow> ('w, 'o, 'r) fuse_state \<times> string \<times> int" where
  "vsfs_read E fh len offset s =
     (case get_file (fs_fuse s) fh of
        None \<Rightarrow> (s, [], - EBADF)
      | Some _ \<Rightarrow>
          (case sys_pread (fe_os E) fh len offset (fs_os s) of (os, nread, buf) \<Rightarrow>
             (s\<lparr>fs_os := os\<rparr>, buf, if nread = -1 then - sys_errno E os else nread)))"

definition vsfs_write ::
  "('w, 'r, 'o, 'sv) fuse_env \<Rightarrow> int \<Rightarrow> string \<Rightarrow> int \<Rightarrow> ('w, 'o, 'r) fuse_state \<Rightarrow> ('w, 'o, 'r) fuse_state \<times> int" where
  "vsfs_write E fh buf offset s =
     (case get_file (fs_fuse s) fh of
        None \<Rightarrow> (s, - EBADF)
      | Some file \<Rightarrow>
          (case File_write (fe_os E) file buf offset (fs_os s) of (os, nwrite) \<Rightarrow>
             (s\<lparr>fs_os := os\<rparr>, if nwrite = -1 then - sys_errno E os else nwrite)))"

text \<open>Every buffer is written at the same offset.\<close>

fun write_bufs ::
  "('w, 'r, 'o, 'sv) fuse_env \<Rightarrow> File \<Rightarrow> string list \<Rightarrow> int \<Rightarrow> int \<Rightarrow> ('w, 'o, 'r) fuse_state \<Rightarrow>
     ('w, 'o, 'r) fuse_state \<times> int" where
  "write_bufs E file [] off total_write s = (s, total_write)"
| "write_bufs E file (buf # bufs) off total_write s =
     (case File_write (fe_os E) file buf off (fs_os s) of (os, nwrite) \<Rightarrow>
        let s1 = s\<lparr>fs_os := os\<rparr> in
        if nwrite = -1 then (s1, - sys_errno E os) else write_bufs E file bufs off (total_write + nwrite) s1)"

definition vsfs_write_buf ::
  "('w, 'r, 'o, 'sv) fuse_env \<Rightarrow> string list \<Rightarrow> int \<Rightarrow> int \<Rightarrow> ('w, 'o, 'r) fuse_state \<Rightarrow> ('w, 'o, 'r) fuse_state \<times> int" where
  "vsfs_write_buf E bufs off fh s =
     (case get_file (fs_fuse s) fh of
        None \<Rightarrow> (s, - EINVAL)
      | Some file \<Rightarrow> write_bufs E file bufs off 0 s)"

definition vsfs_fgetattr ::
  "('w, 'r, 'o, 'sv) fuse_env \<Rightarrow> int \<Rightarrow> ('w, 'o, 'r) fuse_state \<Rightarrow> fuse_stat \<times> int" where
  "vsfs_fgetattr E fh s =
     (case sys_fstat E fh (fs_os s) of (ret, stbuf, err) \<Rightarrow> (stbuf, if ret = -1 then - err else 0))"

text \<open>A call on a descriptor that returns \<open>-1\<close> for an error.\<close>

definition on_descriptor :: "('w, 'o, 'r) fuse_state \<Rightarrow> ('o \<Rightarrow> 'o \<times> int \<times> int) \<Rightarrow> ('w, 'o, 'r) fuse_state \<times> int" where
  "on_descriptor s call =
     (case call (fs_os s) of (os, ret, err) \<Rightarrow> (s\<lparr>fs_os := os\<rparr>, if ret = -1 then - err else 0))"

definition vsfs_ioctl ::
  "('w, 'r, 'o, 'sv) fuse_env \<Rightarrow> int \<Rightarrow> int \<Rightarrow> ('w, 'o, 'r) fuse_state \<Rightarrow> ('w, 'o, 'r) fuse_state \<times> int" where
  "vsfs_ioctl E cmd fh s = on_descriptor s (sys_ioctl E fh cmd)"

definition vsfs_flush ::
  "('w, 'r, 'o, 'sv) fuse_env \<Rightarrow> int \<Rightarrow> ('w, 'o, 'r) fuse_state \<Rightarrow> ('w, 'o, 'r) fuse_state \<times> int" where
  "vsfs_flush E fh s =
     on_descriptor s (\<lambda>os. case sys_dup E fh os of (os', fd) \<Rightarrow> sys_close (fe_os E) fd os')"

definition vsfs_flock ::
  "('w, 'r, 'o, 'sv) fuse_env \<Rightarrow> int \<Rightarrow> int \<Rightarrow> ('w, 'o, 'r) fuse_state \<Rightarrow> ('w, 'o, 'r) fuse_state \<times> int" where
  "vsfs_flock E fh opcode s = on_descriptor s (sys_flock E fh opcode)"

definition vsfs_lock ::
  "('w, 'r, 'o, 'sv) fuse_env \<Rightarrow> int \<Rightarrow> int \<Rightarrow> ('w, 'o, 'r) fuse_state \<Rightarrow> ('w, 'o, 'r) fuse_state \<times> int" where
  "vsfs_lock E fh cmd s = on_descriptor s (sys_fcntl E fh cmd)"

definition vsfs_fsync ::
  "('w, 'r, 'o, 'sv) fuse_env \<Rightarrow> int \<Rightarrow> ('w, 'o, 'r) fuse_state \<Rightarrow> ('w, 'o, 'r) fuse_state \<times> int" where
  "vsfs_fsync E fh s =
     (case sys_fsync E fh (fs_os s) of (os, ret, err) \<Rightarrow> (s\<lparr>fs_os := os\<rparr>, if ret = 0 then 0 else - err))"

section \<open>Lemmas\<close>

lemma error_code_OK [simp]: "error_code E OK = 0"
  by (simp add: error_code_def status_error_def status_to_rpc_invalid_op_def)

lemma linked_result: "linked_file (result_name file) = linked_file file"
  by (simp add: linked_file_def result_name_def)

lemma linked_file_same: "linked_file file = file \<longleftrightarrow> CHR ''#'' \<notin> set file"
proof -
  have "linked_file file = map (\<lambda>ch. ch) file \<longleftrightarrow> (\<forall>ch\<in>set file. (if ch = CHR ''#'' then CHR ''/'' else ch) = ch)"
    unfolding linked_file_def by (rule map_eq_conv)
  moreover have "(if ch = CHR ''#'' then CHR ''/'' else ch) = ch \<longleftrightarrow> ch \<noteq> CHR ''#''" for ch :: char by simp
  ultimately show ?thesis by simp blast
qed

lemma result_name_plain: "CHR ''/'' \<notin> set (result_name file)"
  by (auto simp: result_name_def)

lemma File_fd_new [simp]: "File_fd (File_new fd) = fd"
  by (simp add: File_fd_def File_new_def)

text \<open>Opening leaves a file with the descriptor of its handle in the table.\<close>

lemma keep_open_cases:
  assumes "keep_open E s (Done (os, x)) = Done (s', Some fh, r)"
  obtains f where "x = Inr f" "fh = File_fd f" "r = 0" "s' = add_file E fh f (s\<lparr>fs_os := os\<rparr>)"
  using assms by (auto simp: keep_open_def Let_def split: sum.splits)

lemma get_file_add: "get_file (fs_fuse (add_file E fd file s)) h = (if h = fd then Some file else get_file (fs_fuse s) h)"
  by (simp add: get_file_def add_file_def Let_def)

lemma close_file_new:
  assumes "get_file (fs_fuse s) fh = Some (File_new fh)" "sys_close (fe_os E) fh (fs_os s) = (os', 0, err)"
  shows "\<exists>s'. close_file E fh s = Done (s', OK) \<and> fs_os s' = os' \<and> fs_cluster s' = fs_cluster s \<and>
    (\<forall>h. get_file (fs_fuse s') h = (if h = fh then None else get_file (fs_fuse s) h))"
  using assms
  by (simp add: close_file_def get_file_def Let_def File_close_def File_new_def handler_close_def handler_destroy_def File_destroy_def)

lemma open_at_new: "open_at A p flags md os = (os', Inr f) \<Longrightarrow> f = File_new (File_fd f) \<and> 0 \<le> File_fd f"
  by (auto simp: open_at_def split: prod.splits if_splits)

lemma sm_open_new: "sm_open E sm path oid flags md os = Done (os', Inr f) \<Longrightarrow> f = File_new (File_fd f) \<and> 0 \<le> File_fd f"
  by (cases sm) (auto simp: posix_open_def object_open_def dest: open_at_new)

end
