(* ===== verification/Mount.thy ===== *)
theory Mount
  imports Fuse Cluster
begin

text \<open>
  The mounted file system on a cluster: the handlers of \<open>Fuse\<close> with the client of \<open>Client\<close> over the servers of
  \<open>Cluster\<close>.
\<close>

section \<open>An example\<close>

text \<open>A file system that is the map of its files; opening with \<open>O_CREAT\<close> makes an empty file.\<close>

definition disk_os :: "(string \<Rightarrow> string option, os_stat, unit) os_api" where
  "disk_os =
     \<lparr>sys_open = (\<lambda>p flags md os. if os p = None then (os(p \<mapsto> []), 3, 0) else (os, 3, 0)), sys_close = (\<lambda>fd os. (os, 0, 0)),
      sys_pread = (\<lambda>fd n off os. (os, 0, [])), sys_pwrite = (\<lambda>fd s off os. (os, int (length s))),
      sys_unlink = (\<lambda>p os. if os p = None then (os, -1, ENOENT) else (os(p := None), 0, 0)),
      sys_mkdir = (\<lambda>p md os. (os, 0, 0)), sys_rmdir = (\<lambda>p os. (os, 0, 0)),
      sys_readlink = (\<lambda>p n os. (-1, [], EINVAL)),
      sys_stat = (\<lambda>p os. (-1, \<lparr>os_size = 0, os_ino = 0, os_dev = 0, os_nlink = 0, os_rdev = 0, os_blksize = 0, os_blocks = 0\<rparr>, ENOENT)),
      sys_statvfs = (\<lambda>p os. (0, (), 0)), sys_symlink = (\<lambda>p q os. (os, 0, 0)),
      create_directories = (\<lambda>p os. (os, 0, []))\<rparr>"

definition test_fuse_env where
  "test_fuse_env =
     \<lparr>fe_client = test_client_env, fe_query = demo_env, fe_os = disk_os, fe_absolute = (\<lambda>p. p),
      sys_fstat = (\<lambda>fd os. (-1, \<lparr>fst_stat = \<lparr>st_mode = 0, st_size = 0, st_uid = 0, st_gid = 0, st_atime = 0, st_ctime = 0, st_mtime = 0\<rparr>,
        fst_os = \<lparr>os_size = 0, os_ino = 0, os_dev = 0, os_nlink = 0, os_rdev = 0, os_blksize = 0, os_blocks = 0\<rparr>\<rparr>, EBADF)),
      sys_ioctl = (\<lambda>fd cmd os. (os, 0, 0)), sys_dup = (\<lambda>fd os. (os, fd)), sys_flock = (\<lambda>fd code os. (os, 0, 0)),
      sys_fcntl = (\<lambda>fd code os. (os, 0, 0)), sys_fsync = (\<lambda>fd os. (os, 0, 0)), sys_errno = (\<lambda>os. 0),
      getuid = 0, getgid = 0, ctx_uid = 0, ctx_gid = 0, ctx_umask = 0\<rparr>"

definition test_mount where
  "test_mount =
     \<lparr>fs_cluster = test_cluster_state, fs_os = (Map.empty :: string \<Rightarrow> string option), fs_client = test_client,
      fs_fuse = \<lparr>fuse_basedir = ''/d'', mount_point = ''/mnt'', fuse_storage = ObjectManager \<lparr>osm_base = ''/d'', num_subdirs = 8192\<rparr>,
                 fh_to_obj_map = []\<rparr>\<rparr>"

lemma os_laws_disk: "os_laws disk_os (\<lambda>os. os)"
  by (simp add: os_laws_def disk_os_def)

section \<open>Properties\<close>

text \<open>
  C25: The links in the directory of a query lead to the files that were found. A found file is listed under a name
  without slashes, and reading that name as a link inside the directory of the query gives the mount point and the
  path of the file, provided the path has no \<open>#\<close>, which the names use for the slash, and the path fits into the caller's
  buffer; a path that does not fit is written past its end.\<close>

theorem query_result_resolves:
  assumes "CHR ''?'' \<notin> set dir" "CHR ''/'' \<notin> set query" "query \<noteq> []" "found \<noteq> []"
  shows "CHR ''/'' \<notin> set (result_name found) \<and>
    vsfs_readlink E (dir @ ''/?'' @ query @ ''/'' @ result_name found) sz s =
      (let target = mnt_path E (fs_fuse s) (linked_file found) in
       if length target < sz then Done (s, Some target, 0) else Fail Undefined) \<and>
    (linked_file found = found \<longleftrightarrow> CHR ''#'' \<notin> set found)"
proof -
  have "result_name found \<noteq> []" using assms(4) by (simp add: result_name_def)
  then show ?thesis
    using PosixPath_with_result [OF assms(1,2), of "result_name found"] assms(3)
    by (simp add: vsfs_readlink_def is_query_def is_result_def linked_result linked_file_same result_name_plain Let_def)
qed

theorem query_result_resolves_witness:
  "vsfs_readlink test_fuse_env ''/a/?x>5/#b#f'' 64 test_mount = Done (test_mount, Some ''/mnt/b/f'', 0)"
proof -
  have "result_name ''/b/f'' = ''#b#f''" "linked_file ''/b/f'' = ''/b/f''"
    "mnt_path test_fuse_env (fs_fuse test_mount) ''/b/f'' = ''/mnt/b/f''"
    by (simp_all add: result_name_def linked_file_def mnt_path_def test_fuse_env_def test_client_env_def test_mount_def posix_paths_def)
  with query_result_resolves [of "''/a''" "''x>5''" "''/b/f''" test_fuse_env 64 test_mount] show ?thesis
    by (simp add: Let_def)
qed

text \<open>
  C35: A file that was opened through the mount point is in the table of open files under its descriptor, and every other
  handle is as before. Releasing it closes the descriptor exactly once and takes it out of the table; from then on
  reads and writes with the handle answer \<open>EBADF\<close>, and a second release aborts.\<close>

theorem open_release_once:
  assumes "vsfs_open E path flags s = Done (s1, Some fh, r)" "sys_close (fe_os E) fh (fs_os s1) = (os2, 0, err)"
  shows "r = 0 \<and> get_file (fs_fuse s1) fh = Some (File_new fh) \<and> 0 \<le> fh \<and>
    (\<exists>s2. vsfs_release E fh s1 = Done (s2, 0) \<and> fs_os s2 = os2 \<and> fs_cluster s2 = fs_cluster s1 \<and>
      (\<forall>h. get_file (fs_fuse s2) h = (if h = fh then None else get_file (fs_fuse s) h)) \<and>
      vsfs_read E fh n off s2 = (s2, [], - EBADF) \<and> vsfs_write E fh buf off s2 = (s2, - EBADF) \<and>
      vsfs_release E fh s2 = Fail CheckFailed)"
proof -
  from assms(1) obtain w x where o: "cl_open (fe_client E) (fs_client s) path (fs_cluster s) = Done (w, x)"
    by (auto simp: vsfs_open_def)
  from assms(1) o obtain oid where x: "x = Inr oid" by (cases x) (auto simp: vsfs_open_def)
  let ?s = "s\<lparr>fs_cluster := w\<rparr>"
  from assms(1) o x have k: "keep_open E ?s (sm_open E (fuse_storage (fs_fuse s)) path oid flags None (fs_os s)) = Done (s1, Some fh, r)"
    by (simp add: vsfs_open_def)
  then obtain os y where p: "sm_open E (fuse_storage (fs_fuse s)) path oid flags None (fs_os s) = Done (os, y)"
    by (auto simp: keep_open_def)
  from k p obtain f where f: "y = Inr f" "fh = File_fd f" "r = 0" "s1 = add_file E fh f (?s\<lparr>fs_os := os\<rparr>)"
    by (metis keep_open_cases)
  have n: "f = File_new (File_fd f) \<and> 0 \<le> File_fd f" using sm_open_new [OF p [unfolded f(1)]] .
  have g: "get_file (fs_fuse s1) h = (if h = fh then Some (File_new fh) else get_file (fs_fuse s) h)" for h
    using n f(2,4) by (simp add: get_file_add)
  from close_file_new [of s1 fh E os2 err] assms(2) g obtain s2 where
    c: "close_file E fh s1 = Done (s2, OK)" "fs_os s2 = os2" "fs_cluster s2 = fs_cluster s1"
      "\<forall>h. get_file (fs_fuse s2) h = (if h = fh then None else get_file (fs_fuse s1) h)" by auto
  have "vsfs_release E fh s2 = Fail CheckFailed"
    using c(4) [rule_format, of fh] by (simp add: vsfs_release_def close_file_def get_file_def)
  with c n f(2,3) g show ?thesis
    by (auto simp: vsfs_release_def vsfs_read_def vsfs_write_def)
qed

lemma test_mount_simps:
  "fe_client test_fuse_env = test_client_env" "fe_os test_fuse_env = disk_os" "fs_client test_mount = test_client"
  "fs_cluster test_mount = test_cluster_state" "fs_os test_mount = Map.empty"
  "fuse_storage (fs_fuse test_mount) = ObjectManager \<lparr>osm_base = ''/d'', num_subdirs = 8192\<rparr>"
  "get_file (fs_fuse test_mount) h = None"
  by (simp_all add: test_fuse_env_def test_mount_def get_file_def)

text \<open>The example with the file \<open>/f\<close> in place.\<close>

definition file_state where
  "file_state = test_cluster_state\<lparr>masters := (masters test_cluster_state)(node_b \<mapsto>
     demo_master\<lparr>mc_namespace := (Namespace_new 0 [])\<lparr>metadata_map := [''/f'' \<mapsto> new_meta 0 7 S_IFREG 0 0]\<rparr>\<rparr>)\<rparr>"

theorem open_release_once_witness:
  "\<exists>s1 s2 fh. vsfs_open test_fuse_env ''/f'' 0 (test_mount\<lparr>fs_cluster := file_state\<rparr>) = Done (s1, Some fh, 0) \<and>
     vsfs_release test_fuse_env fh s1 = Done (s2, 0) \<and> vsfs_release test_fuse_env fh s2 = Fail CheckFailed"
proof -
  let ?s = "test_mount\<lparr>fs_cluster := file_state\<rparr>"
  have "m_object_id (cluster_rpc test_cluster_env) node_b ''/f'' file_state = (file_state, Reply 7)"
    by (simp add: handler_defs ms_object_id_def mc_object_id_def ns_object_id_def file_state_def new_meta_def map_upd_triv)
  then have c: "cl_open test_client_env test_client ''/f'' file_state = Done (file_state, Inr 7)"
    by (simp add: cl_open_def test_master_of test_client_simps transport_caught_def)
  obtain place where p: "object_translate_path (cl_paths test_client_env) \<lparr>osm_base = ''/d'', num_subdirs = 8192\<rparr> 7 = Done place"
    using object_translate_place [of "\<lparr>osm_base = ''/d'', num_subdirs = 8192\<rparr>"] by fastforce
  obtain s1 where o: "vsfs_open test_fuse_env ''/f'' 0 ?s = Done (s1, Some 3, 0)"
    by (simp add: vsfs_open_def test_mount_simps c object_open_def p open_at_def disk_os_def keep_open_def)
  have "sys_close (fe_os test_fuse_env) 3 (fs_os s1) = (fs_os s1, 0, 0)" by (simp add: test_mount_simps disk_os_def)
  from open_release_once [OF o this] o show ?thesis by blast
qed

text \<open>An \<open>open\<close> with \<open>O_CREAT\<close> that succeeds leaves a file at its path.\<close>

definition creat_law :: "('o, 'st, 'sv) os_api \<Rightarrow> ('o \<Rightarrow> string \<Rightarrow> 'c option) \<Rightarrow> bool" where
  "creat_law A files \<longleftrightarrow>
     (\<forall>p flags md os os' fd err. sys_open A p (flags OR O_CREAT) md os = (os', fd, err) \<and> 0 \<le> fd \<longrightarrow> files os' p \<noteq> None)"

lemma creat_law_disk: "creat_law disk_os (\<lambda>os. os)"
  by (auto simp: creat_law_def disk_os_def split: if_splits)



end
