(* ===== verification/Commands.thy ===== *)
theory Commands
  imports Cluster "HOL-Library.Multiset"
begin

text \<open>
  The command line tool (\<open>vsfs/ui/cli/commands.cpp\<close>, \<open>commands.h\<close>, \<open>vsfs.cpp\<close>): the commands \<open>help\<close>, \<open>search\<close> and \<open>index\<close> with
  the sub-commands \<open>create\<close>, \<open>destroy\<close>, \<open>insert\<close>, \<open>remove\<close> and \<open>list\<close>, each with its options and the calls of the client it
  makes. What a command prints to the standard output is a list of lines; help and error messages, which go to the
  standard error, are not kept.
\<close>

section \<open>Commands\<close>

text \<open>
  The parameters: the client's and the query parser's, \<open>getopt_long\<close>, which turns the arguments from a position on into
  a list of options and the arguments that are left, the environment, \<open>lexical_cast<int>\<close>, vobla's tokens and names of
  types, \<open>fs::absolute\<close>, the ids of the process, the order of the unordered map of records and the order of the
  client's tasks.
\<close>

type_synonym longopt = "string \<times> nat \<times> int"

record ('w, 'r) cli_env =
  ui_client :: "('w, 'r) client_env"
  ui_query :: cq_env
  ui_tasks :: "(nat \<times> IndexUpdateRequest list) list \<Rightarrow> (nat \<times> IndexUpdateRequest list) list"
  getopt_long :: "nat \<Rightarrow> string \<Rightarrow> longopt list \<Rightarrow> string list \<Rightarrow> (int \<times> string option) list \<times> string list"
  getenv :: "string \<Rightarrow> string option"
  lexical_cast_int :: "string \<Rightarrow> int option"
  tokenize :: "string \<Rightarrow> string list"
  ui_absolute :: "string \<Rightarrow> string"
  parse_type_string_to_int :: "string \<Rightarrow> int"
  type_int_to_string :: "int \<Rightarrow> string"
  ui_uid :: int
  ui_gid :: int
  map_order :: "(string \<times> string list) list \<Rightarrow> (string \<times> string list) list"

record Command =
  cmd_host :: string
  cmd_port :: int
  cmd_debug :: bool

record HelpCommand = Command +
  help_sub_command :: string

record SearchCommand = Command +
  search_text :: string

record IndexCreateCommand = Command +
  icc_root :: string
  icc_name :: string
  icc_index_type :: int
  icc_key_type :: int

record IndexDestroyCommand = Command +
  idc_root :: string
  idc_name :: string

datatype IndexOp = OpUpdate | OpRemove

record IndexUpdateCommand = Command +
  iuc_op :: IndexOp
  iuc_name :: string
  use_stdin :: bool
  batch_size :: "64 word"
  index_data :: "(string \<times> string list) list"

record IndexListCommand = Command +
  ilc_path :: string
  ilc_recursive :: bool

datatype index_sub_command =
    SubCreate IndexCreateCommand
  | SubDestroy IndexDestroyCommand
  | SubUpdate IndexUpdateCommand
  | SubList IndexListCommand

record IndexCommand = Command +
  ic_sub_command :: "index_sub_command option"

datatype command = Help HelpCommand | Search SearchCommand | Index IndexCommand

definition kDefaultMasterHost :: string where "kDefaultMasterHost = ''localhost''"
definition kDefaultMasterPort :: int where "kDefaultMasterPort = 9876"
definition kDefaultBatchSize :: "64 word" where "kDefaultBatchSize = 10000"

definition Command_new :: "('w, 'r) cli_env \<Rightarrow> Command" where
  "Command_new E =
     \<lparr>cmd_host = (case getenv E ''VSFS_HOST'' of None \<Rightarrow> kDefaultMasterHost | Some env \<Rightarrow> env),
      cmd_port = (case getenv E ''VSFS_PORT'' of
                    None \<Rightarrow> kDefaultMasterPort
                  | Some env \<Rightarrow> (case lexical_cast_int E env of None \<Rightarrow> kDefaultMasterPort | Some p \<Rightarrow> p)),
      cmd_debug = False\<rparr>"

definition IndexCreateCommand_new :: "('w, 'r) cli_env \<Rightarrow> IndexCreateCommand" where
  "IndexCreateCommand_new E = Command.extend (Command_new E)
     \<lparr>icc_root = [], icc_name = [], icc_index_type = 0, icc_key_type = 0\<rparr>"

definition IndexUpdateCommand_new :: "('w, 'r) cli_env \<Rightarrow> IndexOp \<Rightarrow> IndexUpdateCommand" where
  "IndexUpdateCommand_new E op = Command.extend (Command_new E)
     \<lparr>iuc_op = op, iuc_name = [], use_stdin = False, batch_size = kDefaultBatchSize, index_data = []\<rparr>"

definition create_command :: "('w, 'r) cli_env \<Rightarrow> string \<Rightarrow> command option" where
  "create_command E subcmd =
     (if subcmd = ''help'' \<or> subcmd = ''-h'' \<or> subcmd = ''--help'' then
        Some (Help (Command.extend (Command_new E) \<lparr>help_sub_command = []\<rparr>))
      else if subcmd = ''search'' then Some (Search (Command.extend (Command_new E) \<lparr>search_text = []\<rparr>))
      else if subcmd = ''index'' then Some (Index (Command.extend (Command_new E) \<lparr>ic_sub_command = None\<rparr>))
      else None)"

section \<open>Options\<close>

text \<open>
  An option is the value \<open>getopt_long\<close> returns for it, a character for most, with its argument. A step of a command's
  loop takes one; \<open>None\<close> is the early return of \<open>-1\<close>. An argument that is not there is a null pointer, a cast that fails
  an exception.
\<close>

definition code :: "char \<Rightarrow> int" where
  "code c = of_char c"

definition the_arg :: "string option \<Rightarrow> string outcome" where
  "the_arg optarg = (case optarg of None \<Rightarrow> Fail Undefined | Some s \<Rightarrow> Done s)"

definition cast_or_throw :: "'a option \<Rightarrow> 'a outcome" where
  "cast_or_throw r = (case r of None \<Rightarrow> Fail UncaughtException | Some a \<Rightarrow> Done a)"

definition set_verbose_level :: "('w, 'r) cli_env \<Rightarrow> string option \<Rightarrow> int outcome" where
  "set_verbose_level E level =
     (case level of None \<Rightarrow> Done 0 | Some level_str \<Rightarrow> cast_or_throw (lexical_cast_int E level_str))"

fun options_loop :: "('c \<Rightarrow> int \<Rightarrow> string option \<Rightarrow> 'c option outcome) \<Rightarrow> (int \<times> string option) list \<Rightarrow> 'c \<Rightarrow> ('c \<times> bool) outcome" where
  "options_loop step [] c = Done (c, True)"
| "options_loop step ((ch, optarg) # rest) c =
     bindo (step c ch optarg) (\<lambda>r. case r of None \<Rightarrow> Done (c, False) | Some c' \<Rightarrow> options_loop step rest c')"

text \<open>The cases all commands but \<open>list\<close> share, which end in \<open>-1\<close> for help and everything unknown.\<close>

definition host_or_port :: "('w, 'r) cli_env \<Rightarrow> 'a Command_scheme \<Rightarrow> int \<Rightarrow> string option \<Rightarrow> 'a Command_scheme option outcome" where
  "host_or_port E c ch optarg =
     (if ch = code CHR ''H'' then bindo (the_arg optarg) (\<lambda>s. Done (Some (c\<lparr>cmd_host := s\<rparr>)))
      else if ch = code CHR ''p'' then
        bindo (the_arg optarg) (\<lambda>s. bindo (cast_or_throw (lexical_cast_int E s)) (\<lambda>p. Done (Some (c\<lparr>cmd_port := p\<rparr>))))
      else Done None)"

definition common_option :: "('w, 'r) cli_env \<Rightarrow> 'a Command_scheme \<Rightarrow> int \<Rightarrow> string option \<Rightarrow> 'a Command_scheme option outcome" where
  "common_option E c ch optarg =
     (if ch = code CHR ''v'' then bindo (set_verbose_level E optarg) (\<lambda>_. Done (Some c))
      else host_or_port E c ch optarg)"

definition debug_option ::
  "('w, 'r) cli_env \<Rightarrow> int \<Rightarrow> 'a Command_scheme \<Rightarrow> int \<Rightarrow> string option \<Rightarrow> 'a Command_scheme option outcome" where
  "debug_option E d c ch optarg =
     (if ch = d then Done (Some (c\<lparr>cmd_debug := True\<rparr>)) else common_option E c ch optarg)"

text \<open>The loop and what it leaves: the command, and the arguments unless it returned early.\<close>

definition options ::
  "('w, 'r) cli_env \<Rightarrow> nat \<Rightarrow> string \<Rightarrow> longopt list \<Rightarrow> ('c \<Rightarrow> int \<Rightarrow> string option \<Rightarrow> 'c option outcome) \<Rightarrow> string list \<Rightarrow>
     'c \<Rightarrow> ('c \<times> string list option) outcome" where
  "options E optind shortopts longopts step argv c =
     (case getopt_long E optind shortopts longopts argv of (opts, args) \<Rightarrow>
        bindo (options_loop step opts c) (\<lambda>(c', go). Done (c', if go then Some args else None)))"

section \<open>Arguments\<close>

text \<open>
  \<open>parse_args\<close> returns zero or \<open>-1\<close> and the command. \<open>search\<close> and \<open>list\<close> leave \<open>optind\<close> as they find it, the others set it to one.
\<close>

definition help_parse_args :: "string list \<Rightarrow> HelpCommand \<Rightarrow> HelpCommand \<times> int" where
  "help_parse_args argv c =
     (if 1 < length argv then (c\<lparr>help_sub_command := argv ! 1\<rparr>, 0) else (c, -1))"

definition search_longopts :: "longopt list" where
  "search_longopts =
     [(''help'', 0, code CHR ''h''), (''debug'', 0, 1), (''port'', 1, code CHR ''p''), (''host'', 1, code CHR ''H''),
      (''verbose'', 2, code CHR ''v'')]"

definition search_parse_args ::
  "('w, 'r) cli_env \<Rightarrow> nat \<Rightarrow> string list \<Rightarrow> SearchCommand \<Rightarrow> (SearchCommand \<times> int) outcome" where
  "search_parse_args E optind argv c =
     bindo (options E optind ''hp:H:v:'' search_longopts (debug_option E 1) argv c) (\<lambda>r.
       case r of
         (c', Some (arg # _)) \<Rightarrow> Done (c'\<lparr>search_text := arg\<rparr>, 0)
       | (c', _) \<Rightarrow> Done (c', -1))"

definition create_longopts :: "longopt list" where
  "create_longopts =
     [(''help'', 0, code CHR ''h''), (''type'', 1, code CHR ''t''), (''key'', 1, code CHR ''k''), (''debug'', 0, code CHR ''d''),
      (''verbose'', 2, code CHR ''v''), (''host'', 1, code CHR ''H''), (''port'', 1, code CHR ''p'')]"

definition create_option ::
  "('w, 'r) cli_env \<Rightarrow> IndexCreateCommand \<Rightarrow> int \<Rightarrow> string option \<Rightarrow> IndexCreateCommand option outcome" where
  "create_option E c ch optarg =
     (if ch = code CHR ''t'' then
        bindo (the_arg optarg) (\<lambda>s. Done (Some (c\<lparr>icc_index_type := string_to_index_type s\<rparr>)))
      else if ch = code CHR ''k'' then
        bindo (the_arg optarg) (\<lambda>s. Done (Some (c\<lparr>icc_key_type := parse_type_string_to_int E s\<rparr>)))
      else debug_option E (code CHR ''d'') c ch optarg)"

definition create_parse_args ::
  "('w, 'r) cli_env \<Rightarrow> string list \<Rightarrow> IndexCreateCommand \<Rightarrow> (IndexCreateCommand \<times> int) outcome" where
  "create_parse_args E argv c =
     bindo (options E 1 ''ht:k:dv:H:p:'' create_longopts (create_option E) argv c) (\<lambda>r.
       case r of
         (c', Some (dir # name # _)) \<Rightarrow>
           if icc_index_type c' = -1 \<or> icc_key_type c' = -1 then Done (c', -1)
           else Done (c'\<lparr>icc_root := dir, icc_name := name\<rparr>, 0)
       | (c', _) \<Rightarrow> Done (c', -1))"

definition destroy_longopts :: "longopt list" where
  "destroy_longopts =
     [(''help'', 0, code CHR ''h''), (''debug'', 0, code CHR ''d''), (''verbose'', 2, code CHR ''v''),
      (''host'', 1, code CHR ''H''), (''port'', 1, code CHR ''p'')]"

definition destroy_parse_args ::
  "('w, 'r) cli_env \<Rightarrow> string list \<Rightarrow> IndexDestroyCommand \<Rightarrow> (IndexDestroyCommand \<times> int) outcome" where
  "destroy_parse_args E argv c =
     bindo (options E 1 ''ht:k:dv:H:p:'' destroy_longopts (debug_option E (code CHR ''d'')) argv c) (\<lambda>r.
       case r of
         (c', Some (dir # name # _)) \<Rightarrow> Done (c'\<lparr>idc_root := dir, idc_name := name\<rparr>, 0)
       | (c', _) \<Rightarrow> Done (c', -1))"

definition update_longopts :: "longopt list" where
  "update_longopts =
     [(''help'', 0, code CHR ''h''), (''stdin'', 0, code CHR ''s''), (''debug'', 0, code CHR ''d''),
      (''verbose'', 2, code CHR ''v''), (''host'', 1, code CHR ''H''), (''port'', 1, code CHR ''p''),
      (''batch'', 1, code CHR ''b'')]"

definition update_option ::
  "('w, 'r) cli_env \<Rightarrow> IndexUpdateCommand \<Rightarrow> int \<Rightarrow> string option \<Rightarrow> IndexUpdateCommand option outcome" where
  "update_option E c ch optarg =
     (if ch = code CHR ''s'' then Done (Some (c\<lparr>use_stdin := True\<rparr>))
      else if ch = code CHR ''b'' then
        bindo (the_arg optarg) (\<lambda>s. bindo (cast_or_throw (lexical_cast_u64 (ui_query E) s)) (\<lambda>n.
          Done (Some (c\<lparr>batch_size := n\<rparr>))))
      else debug_option E (code CHR ''d'') c ch optarg)"

text \<open>The arguments after the name, two at a time; a file without a key reads the null pointer behind them.\<close>

fun record_pairs :: "string list \<Rightarrow> (string \<times> string list) list \<Rightarrow> (string \<times> string list) list outcome" where
  "record_pairs (f # k # args) m = record_pairs args (push_at f k m)"
| "record_pairs [f] m = Fail Undefined"
| "record_pairs [] m = Done m"

definition update_parse_args ::
  "('w, 'r) cli_env \<Rightarrow> string list \<Rightarrow> IndexUpdateCommand \<Rightarrow> (IndexUpdateCommand \<times> int) outcome" where
  "update_parse_args E argv c =
     bindo (options E 1 ''hsdv:H:p:b:'' update_longopts (update_option E) argv c) (\<lambda>r.
       case r of
         (c', Some (name # args)) \<Rightarrow>
           let c1 = c'\<lparr>iuc_name := name\<rparr>; argc = length (name # args) in
           if 1 < argc \<and> argc mod 2 = 0 then Done (c1, -1)
           else bindo (record_pairs args (index_data c1)) (\<lambda>m. Done (c1\<lparr>index_data := m\<rparr>, 0))
       | (c', _) \<Rightarrow> Done (c', -1))"

definition list_longopts :: "longopt list" where
  "list_longopts =
     [(''help'', 0, code CHR ''h''), (''port'', 1, code CHR ''p''), (''host'', 1, code CHR ''H''),
      (''recursive'', 0, code CHR ''r'')]"

definition list_option ::
  "('w, 'r) cli_env \<Rightarrow> IndexListCommand \<Rightarrow> int \<Rightarrow> string option \<Rightarrow> IndexListCommand option outcome" where
  "list_option E c ch optarg =
     (if ch = code CHR ''r'' then Done (Some (c\<lparr>ilc_recursive := True\<rparr>)) else host_or_port E c ch optarg)"

definition list_parse_args ::
  "('w, 'r) cli_env \<Rightarrow> nat \<Rightarrow> string list \<Rightarrow> IndexListCommand \<Rightarrow> (IndexListCommand \<times> int) outcome" where
  "list_parse_args E optind argv c =
     bindo (options E optind ''hp:H:v:r'' list_longopts (list_option E) argv c) (\<lambda>r.
       case r of
         (c', Some (path # _)) \<Rightarrow> Done (c'\<lparr>ilc_path := path\<rparr>, 0)
       | (c', _) \<Rightarrow> Done (c', -1))"

text \<open>The sub-command is kept whether its own arguments are right or not.\<close>

definition sub_parse_args ::
  "('w, 'r) cli_env \<Rightarrow> nat \<Rightarrow> string list \<Rightarrow> index_sub_command \<Rightarrow> (index_sub_command \<times> int) outcome" where
  "sub_parse_args E optind argv sub =
     (case sub of
        SubCreate c \<Rightarrow> bindo (create_parse_args E argv c) (\<lambda>(c', r). Done (SubCreate c', r))
      | SubDestroy c \<Rightarrow> bindo (destroy_parse_args E argv c) (\<lambda>(c', r). Done (SubDestroy c', r))
      | SubUpdate c \<Rightarrow> bindo (update_parse_args E argv c) (\<lambda>(c', r). Done (SubUpdate c', r))
      | SubList c \<Rightarrow> bindo (list_parse_args E optind argv c) (\<lambda>(c', r). Done (SubList c', r)))"

definition create_sub_command :: "('w, 'r) cli_env \<Rightarrow> string \<Rightarrow> index_sub_command option" where
  "create_sub_command E subcmd =
     (if subcmd = ''create'' then Some (SubCreate (IndexCreateCommand_new E))
      else if subcmd = ''destroy'' then
        Some (SubDestroy (Command.extend (Command_new E) \<lparr>idc_root = [], idc_name = []\<rparr>))
      else if subcmd = ''insert'' then Some (SubUpdate (IndexUpdateCommand_new E OpUpdate))
      else if subcmd = ''remove'' then Some (SubUpdate (IndexUpdateCommand_new E OpRemove))
      else if subcmd = ''list'' then
        Some (SubList (Command.extend (Command_new E) \<lparr>ilc_path = [], ilc_recursive = False\<rparr>))
      else None)"

definition index_parse_args ::
  "('w, 'r) cli_env \<Rightarrow> nat \<Rightarrow> string list \<Rightarrow> IndexCommand \<Rightarrow> (IndexCommand \<times> int) outcome" where
  "index_parse_args E optind argv c =
     (let c1 = c\<lparr>ic_sub_command := None\<rparr>; subcmd = (if 1 < length argv then argv ! 1 else []) in
      if length argv = 1 \<or> subcmd = ''-h'' \<or> subcmd = ''--help'' then Done (c1, -1)
      else case create_sub_command E subcmd of
        None \<Rightarrow> Done (c1, -1)
      | Some sub \<Rightarrow>
          bindo (sub_parse_args E optind (tl argv) sub) (\<lambda>(sub', r). Done (c1\<lparr>ic_sub_command := Some sub'\<rparr>, r)))"

section \<open>Running\<close>

text \<open>A run returns the state of the cluster, the lines it printed and the status.\<close>

definition help_run :: "HelpCommand \<Rightarrow> Status" where
  "help_run c =
     (if help_sub_command c = [] \<or> help_sub_command c = ''search'' \<or> help_sub_command c = ''index'' then OK
      else Err (-1) ''Unknown command'')"

text \<open>A client of the master the command names, after \<open>init\<close>; the run ends when that fails.\<close>

definition with_client ::
  "('w, 'r) cli_env \<Rightarrow> 'a Command_scheme \<Rightarrow> ('r VSFSRpcClient \<Rightarrow> 'w \<Rightarrow> ('w \<times> string list \<times> Status) outcome) \<Rightarrow> 'w \<Rightarrow>
     ('w \<times> string list \<times> Status) outcome" where
  "with_client E c act w =
     bindo (client_init (ui_client E) (VSFSRpcClient_new (ui_client E) (cmd_host c) (cmd_port c)) w) (\<lambda>(w1, client, status).
       if \<not> ok status then Done (w1, [], status) else act client w1)"

definition quiet :: "('w \<times> Status) outcome \<Rightarrow> ('w \<times> string list \<times> Status) outcome" where
  "quiet r = bindo r (\<lambda>(w, status). Done (w, [], status))"

text \<open>The status of the search is not returned.\<close>

definition search_run ::
  "('w, 'r) cli_env \<Rightarrow> SearchCommand \<Rightarrow> 'w \<Rightarrow> ('w \<times> string list \<times> Status) outcome" where
  "search_run E c w =
     bindo (parse (ui_query E) ComplexQuery_new (search_text c)) (\<lambda>(query, status).
       if \<not> ok status then Done (w, [], status)
       else with_client E c (\<lambda>client w1.
         bindo (cl_search (ui_client E) client query [] w1) (\<lambda>(w2, files, _). Done (w2, files, OK))) w)"

definition create_run ::
  "('w, 'r) cli_env \<Rightarrow> IndexCreateCommand \<Rightarrow> 'w \<Rightarrow> ('w \<times> string list \<times> Status) outcome" where
  "create_run E c =
     with_client E c (\<lambda>client w.
       quiet (cl_create_index (ui_client E) client (icc_root c) (icc_name c) (icc_index_type c) (icc_key_type c)
         0x1ED (ui_uid E) (ui_gid E) w))"

definition destroy_run ::
  "('w, 'r) cli_env \<Rightarrow> IndexDestroyCommand \<Rightarrow> 'w \<Rightarrow> ('w \<times> string list \<times> Status) outcome" where
  "destroy_run E c =
     with_client E c (\<lambda>client w. quiet (cl_remove_index (ui_client E) client (idc_root c) (idc_name c) w))"

definition parse_record_line :: "('w, 'r) cli_env \<Rightarrow> string \<Rightarrow> (string \<times> string) option" where
  "parse_record_line E buf =
     (if buf = [] then None else case tokenize E buf of [path, key] \<Rightarrow> Some (path, key) | _ \<Rightarrow> None)"

definition update_request :: "('w, 'r) cli_env \<Rightarrow> IndexUpdateCommand \<Rightarrow> string \<times> string \<Rightarrow> IndexUpdateRequest" where
  "update_request E c record =
     \<lparr>ur_op = (case iuc_op c of OpUpdate \<Rightarrow> 1 | OpRemove \<Rightarrow> 3), ur_file_path = ui_absolute E (fst record),
      ur_index_name = iuc_name c, ur_key = snd record\<rparr>"

text \<open>
  The loop over the standard input, which is the lines \<open>getline\<close> gives until the end of the file: what is behind the
  last line feed is a line too. \<open>update\<close> is the client's; a failed batch and a line that is no record end the run.
\<close>

definition wrong_record :: Status where
  "wrong_record = Err (- EINVAL) ''Wrong index record format.''"

fun stdin_loop ::
  "('w, 'r) cli_env \<Rightarrow> IndexUpdateCommand \<Rightarrow> (IndexUpdateRequest list \<Rightarrow> 'w \<Rightarrow> ('w \<times> Status) outcome) \<Rightarrow> string list \<Rightarrow>
     IndexUpdateRequest list \<Rightarrow> Status \<Rightarrow> 'w \<Rightarrow> ('w \<times> (Status + Status \<times> IndexUpdateRequest list)) outcome" where
  "stdin_loop E c update [] batch status w = Done (w, Inr (status, batch))"
| "stdin_loop E c update (buf # bufs) batch status w =
     (if buf = [] then stdin_loop E c update bufs batch status w
      else case parse_record_line E buf of
        None \<Rightarrow> Done (w, Inl wrong_record)
      | Some record \<Rightarrow>
          let batch' = batch @ [update_request E c record] in
          if unat (batch_size c) \<le> length batch' then
            bindo (update batch' w) (\<lambda>(w1, status1).
              if \<not> ok status1 then Done (w1, Inl status1) else stdin_loop E c update bufs [] status1 w1)
          else stdin_loop E c update bufs batch' status w)"

text \<open>The records of the command line, file by file.\<close>

definition args_requests :: "('w, 'r) cli_env \<Rightarrow> IndexUpdateCommand \<Rightarrow> IndexUpdateRequest list" where
  "args_requests E c =
     concat (map (\<lambda>(f, keys). map (\<lambda>key. update_request E c (f, key)) keys) (map_order E (index_data c)))"

definition update_with ::
  "('w, 'r) cli_env \<Rightarrow> IndexUpdateCommand \<Rightarrow> string \<Rightarrow> (IndexUpdateRequest list \<Rightarrow> 'w \<Rightarrow> ('w \<times> Status) outcome) \<Rightarrow> 'w \<Rightarrow>
     ('w \<times> Status) outcome" where
  "update_with E c cin update w =
     (if use_stdin c then
        bindo (stdin_loop E c update (split_at (CHR 0x0A) cin) [] OK w) (\<lambda>(w1, x).
          case x of
            Inl status \<Rightarrow> Done (w1, status)
          | Inr (status, batch) \<Rightarrow> if batch = [] then Done (w1, status) else update batch w1)
      else update (args_requests E c) w)"

definition update_run ::
  "('w, 'r) cli_env \<Rightarrow> IndexUpdateCommand \<Rightarrow> string \<Rightarrow> 'w \<Rightarrow> ('w \<times> string list \<times> Status) outcome" where
  "update_run E c cin =
     with_client E c (\<lambda>client w. quiet (update_with E c cin (cl_update (ui_client E) (ui_tasks E) client) w))"

section \<open>Listing indices\<close>

definition info_line :: "('w, 'r) cli_env \<Rightarrow> IndexInfo \<Rightarrow> string" where
  "info_line E info =
     ''  - '' @ info_index_name info @ '' ('' @ index_type_to_string (info_index_type info) @ '', '' @
     type_int_to_string E (info_key_type info) @ '')''"

definition print_infos ::
  "('w, 'r) cli_env \<Rightarrow> 'r VSFSRpcClient \<Rightarrow> string \<Rightarrow> string list \<Rightarrow> 'w \<Rightarrow> ('w \<times> string list \<times> Status) outcome" where
  "print_infos E client path out w =
     bindo (get_index_infos (ui_client E) client path [] False w) (\<lambda>(w1, index_infos, status).
       if \<not> ok status then Done (w1, out, status)
       else Done (w1, out @ (if index_infos = [] then [] else (''Indices on: '' @ path) # map (info_line E) index_infos), OK))"

text \<open>
  The recursion of \<open>print_index_info\<close> as the rest of its loop: \<open>print_subfiles\<close> is at a directory with some of its entries
  still to go. Entering a sub-directory is the recursive call. \<open>None\<close> is a listing that does not end.
\<close>

partial_function (option) print_subfiles ::
  "('w, 'r) cli_env \<Rightarrow> 'r VSFSRpcClient \<Rightarrow> string \<Rightarrow> string list \<Rightarrow> string list \<Rightarrow> 'w \<Rightarrow>
     ('w \<times> string list \<times> Status) outcome option" where
  "print_subfiles E client path subfiles out w =
     (case subfiles of
        [] \<Rightarrow> Some (print_infos E client path out w)
      | subfile # rest \<Rightarrow>
          if subfile = ''.vsfs'' then print_subfiles E client path rest out w
          else
            let subfile_path = path @ ''/'' @ subfile in
            case cl_getattr_stat (ui_client E) client subfile_path w of
              Fail e \<Rightarrow> Some (Fail e)
            | Done (w1, Inl status) \<Rightarrow> Some (Done (w1, out, status))
            | Done (w1, Inr stbuf) \<Rightarrow>
                if S_ISDIR (st_mode stbuf) \<and> \<not> S_ISLNK (st_mode stbuf) then
                  (case cl_readdir (ui_client E) client subfile_path w1 of
                     Fail e \<Rightarrow> Some (Fail e)
                   | Done (w2, Inl status) \<Rightarrow> Some (Done (w2, out, status))
                   | Done (w2, Inr subs) \<Rightarrow>
                       Option.bind (print_subfiles E client subfile_path subs out w2) (\<lambda>x.
                         case x of
                           Fail e \<Rightarrow> Some (Fail e)
                         | Done (w3, out3, status) \<Rightarrow>
                             if \<not> ok status then Some (Done (w3, out3, status))
                             else print_subfiles E client path rest out3 w3))
                else print_subfiles E client path rest out w1)"

definition print_index_info ::
  "('w, 'r) cli_env \<Rightarrow> 'r VSFSRpcClient \<Rightarrow> string \<Rightarrow> bool \<Rightarrow> string list \<Rightarrow> 'w \<Rightarrow>
     ('w \<times> string list \<times> Status) outcome option" where
  "print_index_info E client path recursive out w =
     (if recursive then
        case cl_readdir (ui_client E) client path w of
          Fail e \<Rightarrow> Some (Fail e)
        | Done (w1, Inl status) \<Rightarrow> Some (Done (w1, out, status))
        | Done (w1, Inr subfiles) \<Rightarrow> print_subfiles E client path subfiles out w1
      else Some (print_infos E client path out w))"

definition list_run ::
  "('w, 'r) cli_env \<Rightarrow> IndexListCommand \<Rightarrow> 'w \<Rightarrow> ('w \<times> string list \<times> Status) outcome" where
  "list_run E c =
     with_client E c (\<lambda>client w. case print_index_info E client (ilc_path c) (ilc_recursive c) [] w of
       None \<Rightarrow> Fail NoReturn | Some r \<Rightarrow> r)"

section \<open>The program\<close>

definition index_run ::
  "('w, 'r) cli_env \<Rightarrow> IndexCommand \<Rightarrow> string \<Rightarrow> 'w \<Rightarrow> ('w \<times> string list \<times> Status) outcome" where
  "index_run E c cin w =
     (case ic_sub_command c of
        None \<Rightarrow> Done (w, [], Err (- EINVAL) ''Invalid command'')
      | Some (SubCreate s) \<Rightarrow> create_run E s w
      | Some (SubDestroy s) \<Rightarrow> destroy_run E s w
      | Some (SubUpdate s) \<Rightarrow> update_run E s cin w
      | Some (SubList s) \<Rightarrow> list_run E s w)"

definition command_parse_args :: "('w, 'r) cli_env \<Rightarrow> string list \<Rightarrow> command \<Rightarrow> (command \<times> int) outcome" where
  "command_parse_args E argv cmd =
     (case cmd of
        Help c \<Rightarrow> Done (apfst Help (help_parse_args argv c))
      | Search c \<Rightarrow> bindo (search_parse_args E 1 argv c) (\<lambda>(c', r). Done (Search c', r))
      | Index c \<Rightarrow> bindo (index_parse_args E 1 argv c) (\<lambda>(c', r). Done (Index c', r)))"

definition command_run ::
  "('w, 'r) cli_env \<Rightarrow> command \<Rightarrow> string \<Rightarrow> 'w \<Rightarrow> ('w \<times> string list \<times> Status) outcome" where
  "command_run E cmd cin w =
     (case cmd of
        Help c \<Rightarrow> Done (w, [], help_run c)
      | Search c \<Rightarrow> search_run E c w
      | Index c \<Rightarrow> index_run E c cin w)"

definition vsfs_main ::
  "('w, 'r) cli_env \<Rightarrow> string list \<Rightarrow> string \<Rightarrow> 'w \<Rightarrow> ('w \<times> string list \<times> int) outcome" where
  "vsfs_main E argv cin w =
     (case argv of
        _ # subcmd # rest \<Rightarrow>
          (case create_command E subcmd of
             None \<Rightarrow> Done (w, [], 1)
           | Some cmd \<Rightarrow>
               bindo (command_parse_args E (subcmd # rest) cmd) (\<lambda>(cmd', ret).
                 if ret \<noteq> 0 then Done (w, [], ret)
                 else bindo (command_run E cmd' cin w) (\<lambda>(w', out, status).
                   Done (w', out, status_error (cl_vobla (ui_client E)) status))))
      | _ \<Rightarrow> Done (w, [], 1))"

section \<open>Batches\<close>

text \<open>
  What the loop over the standard input is compared with: the requests cut into groups of \<open>n\<close>, the rest, and the
  groups sent in order until one fails.
\<close>

definition full_batches :: "nat \<Rightarrow> 'a list \<Rightarrow> 'a list list" where
  "full_batches n rs = map (\<lambda>i. take n (drop (i * n) rs)) [0..<length rs div n]"

definition last_batch :: "nat \<Rightarrow> 'a list \<Rightarrow> 'a list" where
  "last_batch n rs = drop (length rs div n * n) rs"

fun send_batches :: "('a list \<Rightarrow> 'w \<Rightarrow> ('w \<times> Status) outcome) \<Rightarrow> 'a list list \<Rightarrow> Status \<Rightarrow> 'w \<Rightarrow> ('w \<times> Status) outcome" where
  "send_batches update [] status w = Done (w, status)"
| "send_batches update (b # bs) status w =
     bindo (update b w) (\<lambda>(w1, status1). if \<not> ok status1 then Done (w1, status1) else send_batches update bs status1 w1)"

lemma batches_short: "length rs < n \<Longrightarrow> full_batches n rs = []" "length rs < n \<Longrightarrow> last_batch n rs = rs"
  by (simp_all add: full_batches_def last_batch_def)

lemma batches_more:
  assumes "length b = n" "0 < n"
  shows "full_batches n (b @ rs) = b # full_batches n rs" "last_batch n (b @ rs) = last_batch n rs"
proof -
  have d: "(length rs + n) div n = Suc (length rs div n)" using assms(2) by simp
  have "[0..<Suc k] = 0 # map Suc [0..<k]" for k by (simp add: map_Suc_upt upt_conv_Cons del: upt_Suc)
  then show "full_batches n (b @ rs) = b # full_batches n rs"
    using assms by (simp add: full_batches_def d add.commute [of n] del: upt_Suc)
  show "last_batch n (b @ rs) = last_batch n rs"
    using assms by (simp add: last_batch_def d add.commute [of n])
qed

lemma batches_concat: "0 < n \<Longrightarrow> concat (full_batches n rs) @ last_batch n rs = rs \<and>
  (\<forall>b\<in>set (full_batches n rs). length b = n) \<and> length (last_batch n rs) < n"
proof (induction "length rs" arbitrary: rs rule: less_induct)
  case less
  show ?case
  proof (cases "length rs < n")
    case True
    then show ?thesis by (simp add: batches_short)
  next
    case False
    then have *: "length (take n rs) = n" "length (drop n rs) < length rs" using less.prems by simp_all
    show ?thesis using batches_more [OF *(1) less.prems, of "drop n rs"] less.hyps [OF *(2) less.prems] *(1) by simp
  qed
qed

text \<open>The records a list of lines has before the first line that is none.\<close>

definition good_records :: "('w, 'r) cli_env \<Rightarrow> string list \<Rightarrow> (string \<times> string) list" where
  "good_records E lines = map (the \<circ> parse_record_line E) (takeWhile (\<lambda>l. parse_record_line E l \<noteq> None) lines)"

lemma good_records_simps [simp]:
  "good_records E [] = []"
  "good_records E (l # lines) = (case parse_record_line E l of None \<Rightarrow> [] | Some r \<Rightarrow> r # good_records E lines)"
  by (auto simp: good_records_def split: option.splits)

lemma stdin_loop_batches:
  assumes "length batch < max 1 (unat (batch_size c))" "ok status"
  shows "stdin_loop E c update lines batch status w =
    (let n = max 1 (unat (batch_size c)); lns = filter (\<lambda>l. l \<noteq> []) lines;
         rs = batch @ map (update_request E c) (good_records E lns) in
     bindo (send_batches update (full_batches n rs) status w) (\<lambda>(w1, status1).
       if \<not> ok status1 then Done (w1, Inl status1)
       else if length (good_records E lns) < length lns then Done (w1, Inl wrong_record)
       else Done (w1, Inr (status1, last_batch n rs))))"
  using assms
proof (induction lines arbitrary: batch status w)
  case Nil
  then show ?case by (simp add: batches_short)
next
  case (Cons l lines)
  let ?n = "max 1 (unat (batch_size c))"
  show ?case
  proof (cases "l = [] \<or> parse_record_line E l = None")
    case True
    then show ?thesis
      using Cons by (cases "l = []") (simp_all add: batches_short Let_def)
  next
    case False
    then obtain r where r: "l \<noteq> []" "parse_record_line E l = Some r" by auto
    let ?b = "batch @ [update_request E c r]"
    show ?thesis
    proof (cases "unat (batch_size c) \<le> length ?b")
      case True
      then have n: "length ?b = ?n" using Cons.prems(1) by auto
      note m = batches_more [OF n, simplified]
      show ?thesis
      proof (cases "update ?b w")
        case (Done x)
        then obtain w1 status1 where u: "update ?b w = Done (w1, status1)" by (cases x) simp
        show ?thesis using True r m u Cons.IH [of "[]" status1 w1] by (simp add: Let_def cong: if_cong prod.case_cong)
      qed (use True r m in \<open>simp add: Let_def\<close>)
    next
      case False
      then show ?thesis using r Cons.IH [of ?b status w] Cons.prems(2) by (simp add: Let_def cong: if_cong prod.case_cong)
    qed
  qed
qed

section \<open>Records of the command line\<close>

fun pairs_of :: "string list \<Rightarrow> (string \<times> string) list" where
  "pairs_of (f # k # args) = (f, k) # pairs_of args"
| "pairs_of _ = []"

definition data_records :: "(string \<times> string list) list \<Rightarrow> (string \<times> string) list" where
  "data_records m = concat (map (\<lambda>(f, keys). map (Pair f) keys) m)"

lemma data_records_simps [simp]: "data_records [] = []" "data_records ((f, keys) # m) = map (Pair f) keys @ data_records m"
  by (simp_all add: data_records_def)

lemma data_records_push: "smap_ok m \<Longrightarrow> mset (data_records (push_at f k m)) = add_mset (f, k) (mset (data_records m))"
proof (induction m)
  case (Cons p m)
  obtain g keys where p: "p = (g, keys)" by (cases p)
  consider "g < f" | "g = f" | "f < g" by fastforce
  then show ?case
  proof cases
    case 3
    with Cons.prems have "map_of m f = None" by (fastforce simp: smap_ok_Cons p map_of_eq_None_iff)
    with 3 p show ?thesis by (simp add: push_at_def at_key_def less_not_sym)
  qed (use Cons p in \<open>auto simp: push_at_def at_key_def smap_ok_Cons\<close>)
qed (simp add: push_at_def at_key_def)

lemma record_pairs_done:
  "even (length args) \<Longrightarrow> smap_ok m \<Longrightarrow>
    \<exists>m'. record_pairs args m = Done m' \<and> mset (data_records m') = mset (data_records m) + mset (pairs_of args)"
  by (induction args m rule: record_pairs.induct) (fastforce simp: smap_ok_push data_records_push)+

lemma args_requests_data: "args_requests E c = map (update_request E c) (data_records (map_order E (index_data c)))"
  by (simp add: args_requests_def data_records_def map_concat comp_def case_prod_beta')

lemma mset_data_records: "mset m = mset m' \<Longrightarrow> mset (data_records m) = mset (data_records m')"
  by (simp add: data_records_def mset_concat flip: sum_mset_sum_list)

lemma update_with_batches:
  assumes "use_stdin c" "n = max 1 (unat (batch_size c))" "lns = filter (\<lambda>l. l \<noteq> []) (split_at (CHR 0x0A) cin)"
    "rs = map (update_request E c) (good_records E lns)"
  shows "update_with E c cin u w = bindo (send_batches u (full_batches n rs) OK w) (\<lambda>(w1, status).
         if \<not> ok status then Done (w1, status)
         else if length (good_records E lns) < length lns then Done (w1, wrong_record)
         else if last_batch n rs = [] then Done (w1, status)
         else u (last_batch n rs) w1)"
proof -
  have "stdin_loop E c u (split_at (CHR 0x0A) cin) [] OK w =
    bindo (send_batches u (full_batches n rs) OK w) (\<lambda>(w1, status1).
       if \<not> ok status1 then Done (w1, Inl status1)
       else if length (good_records E lns) < length lns then Done (w1, Inl wrong_record)
       else Done (w1, Inr (status1, last_batch n rs)))"
    using stdin_loop_batches [of "[]" c OK E u "split_at (CHR 0x0A) cin" w]
    unfolding assms(2-4) Let_def append_Nil by simp
  with assms(1) show ?thesis
    by (cases "send_batches u (full_batches n rs) OK w") (auto simp: update_with_def simp del: bindo_Done_iff)
qed

section \<open>Listing ends\<close>

text \<open>
  What the recursive listing relies on: reading keeps an invariant of the cluster, and only paths of a bounded length
  have attributes. Every level of the recursion makes the path longer.
\<close>

locale bounded_listing =
  fixes E :: "('w, 'r) cli_env" and inv :: "'w \<Rightarrow> bool" and bound :: nat
  assumes getattr_bound: "inv w \<Longrightarrow> cl_getattr_stat (ui_client E) client p w = Done (w', Inr st) \<Longrightarrow> length p \<le> bound"
    and getattr_inv: "inv w \<Longrightarrow> cl_getattr_stat (ui_client E) client p w = Done (w', x) \<Longrightarrow> inv w'"
    and readdir_inv: "inv w \<Longrightarrow> cl_readdir (ui_client E) client p w = Done (w', y) \<Longrightarrow> inv w'"
    and infos_inv: "inv w \<Longrightarrow> get_index_infos (ui_client E) client p [] False w = Done (w', infos, status) \<Longrightarrow> inv w'"
begin

definition returns :: "('w \<times> string list \<times> Status) outcome option \<Rightarrow> bool" where
  "returns x \<longleftrightarrow> (\<exists>r. x = Some r \<and> (\<forall>w' out' status. r = Done (w', out', status) \<longrightarrow> inv w'))"

lemma returns_simps [simp]: "returns (Some (Fail e))" "returns (Some (Done (w, out, status))) \<longleftrightarrow> inv w"
  by (auto simp: returns_def)

lemma print_infos_returns: "inv w \<Longrightarrow> returns (Some (print_infos E client path out w))"
  by (auto simp: returns_def print_infos_def dest: infos_inv split: if_splits prod.splits)

lemma returns_bind:
  assumes "returns x" "\<And>w' out' status. inv w' \<Longrightarrow> returns (f (Done (w', out', status)))" "\<And>e. returns (f (Fail e))"
  shows "returns (Option.bind x f)"
proof -
  from assms(1) obtain r where "x = Some r" "\<forall>w' out' status. r = Done (w', out', status) \<longrightarrow> inv w'" by (auto simp: returns_def)
  with assms(2,3) show ?thesis by (cases r) auto
qed

lemma print_subfiles_returns: "inv w \<Longrightarrow> returns (print_subfiles E client path subfiles out w)"
proof (induction "bound - length path" arbitrary: path subfiles out w rule: less_induct)
  case less
  show ?case using less.prems
  proof (induction subfiles arbitrary: out w)
    case Nil
    then show ?case by (subst print_subfiles.simps) (simp add: print_infos_returns)
  next
    case (Cons f fs)
    let ?p = "path @ ''/'' @ f"
    have deeper: "returns (print_subfiles E client ?p subs out' w')" if "length ?p \<le> bound" "inv w'" for subs out' w'
      using less.hyps [of ?p w' subs out'] that by simp
    show ?case
    proof (cases "f = ''.vsfs''")
      case True
      with Cons show ?thesis by (subst print_subfiles.simps) simp
    next
      case False
      show ?thesis
      proof (cases "cl_getattr_stat (ui_client E) client ?p w")
        case (Done y)
        then obtain w1 x where g: "cl_getattr_stat (ui_client E) client ?p w = Done (w1, x)" by (cases y) simp
        note i = getattr_inv [OF Cons.prems g]
        show ?thesis
        proof (cases "cl_readdir (ui_client E) client ?p w1")
          case (Done z)
          then obtain w2 d where r: "cl_readdir (ui_client E) client ?p w1 = Done (w2, d)" by (cases z) simp
          note j = readdir_inv [OF i r]
          show ?thesis
            using False g r i j Cons.IH getattr_bound [OF Cons.prems, of client ?p w1]
            by (subst print_subfiles.simps) (auto simp: Let_def intro!: returns_bind deeper [simplified] split: sum.split)
        qed (use False g i Cons.IH in \<open>subst print_subfiles.simps; simp add: Let_def split: sum.split\<close>)
      qed (use False in \<open>subst print_subfiles.simps; simp add: Let_def\<close>)
    qed
  qed
qed

lemma print_index_info_returns: "inv w \<Longrightarrow> returns (print_index_info E client path recursive out w)"
  by (cases "cl_readdir (ui_client E) client path w")
    (auto simp: print_index_info_def print_infos_returns print_subfiles_returns dest: readdir_inv split: sum.split prod.split)

end

text \<open>A call that only reads leaves every master as it was, or ends it.\<close>

lemma at_master_read:
  assumes "at_master CE f a w = (w', r)" "\<And>m m' x. f m = Done (m', x) \<Longrightarrow> m' = m"
  shows "masters w' \<subseteq>\<^sub>m masters w"
  using assms
  by (auto simp: at_master_def deliver_def map_le_def split: option.splits outcome.splits prod.splits if_splits)

lemma at_index_masters: "at_index CE f a w = (w', r) \<Longrightarrow> masters w' = masters w"
  by (auto simp: at_index_def deliver_def split: option.splits outcome.splits prod.splits)

lemma cluster_getattr_read:
  assumes "m_getattr (cluster_rpc CE) a p w = (w', r)"
  shows "masters w' \<subseteq>\<^sub>m masters w" "r = Reply info \<Longrightarrow> \<exists>m. masters w a = Some m \<and> metadata_map (mc_namespace m) p \<noteq> None"
proof -
  have g: "at_master CE (\<lambda>m. bindo (ms_getattr (ce_vobla CE) m p) (\<lambda>x. Done (m, x))) a w = (w', r)"
    using assms by (simp add: cluster_rpc_def Let_def)
  show "masters w' \<subseteq>\<^sub>m masters w" by (rule at_master_read [OF g]) auto
  show "\<exists>m. masters w a = Some m \<and> metadata_map (mc_namespace m) p \<noteq> None" if "r = Reply info"
    using g that
    by (auto simp: at_master_def deliver_def ms_getattr_def mc_getattr_def getattr_def
        split: option.splits outcome.splits prod.splits sum.splits)
qed

lemma cluster_readdir_read: "m_readdir (cluster_rpc CE) a p w = (w', r) \<Longrightarrow> masters w' \<subseteq>\<^sub>m masters w"
  by (rule at_master_read [where CE = CE and f = "read_only (\<lambda>m. ms_readdir (ce_vobla CE) (ce_master CE) m p)" and a = a])
    (auto simp: cluster_rpc_def Let_def read_only_def)

lemma cluster_locate_read: "m_locate_indices (cluster_rpc CE) a req w = (w', r) \<Longrightarrow> masters w' \<subseteq>\<^sub>m masters w"
  by (rule at_master_read [where CE = CE and f = "read_only (\<lambda>m. Inr (ms_locate_indices (ce_master CE) m req))" and a = a])
    (auto simp: cluster_rpc_def Let_def read_only_def)

lemma cluster_info_read: "i_info (cluster_rpc CE) a req w = (w', r) \<Longrightarrow> masters w' = masters w"
  by (rule at_index_masters) (auto simp: cluster_rpc_def Let_def)

lemma ask_masters_read:
  assumes "\<And>a w w' r. call a w = (w', r) \<Longrightarrow> masters w' \<subseteq>\<^sub>m masters w"
  shows "ask_masters call ring acc w = (w', x) \<Longrightarrow> masters w' \<subseteq>\<^sub>m masters w"
proof (induction ring arbitrary: acc w)
  case (Cons p ring)
  obtain sep node w1 r where p: "p = (sep, node)" "call (address node) w = (w1, r)" by (metis surj_pair)
  with Cons assms [OF p(2)] show ?case by (auto split: sum.splits intro: map_le_trans)
qed simp

lemma fetch_infos_read:
  assumes "cl_rpc E = cluster_rpc CE"
  shows "fetch_infos E c paths infos w = Done (w', infos', status) \<Longrightarrow> masters w' = masters w"
proof (induction paths arbitrary: infos w)
  case (Cons path paths)
  from Cons.prems show ?case
  proof (cases "split_index_path path")
    case (Some rn)
    obtain root name where rn: "rn = (root, name)" by (cases rn)
    from Cons.prems Some rn obtain addr where a: "found_node (index_server_of E c (path @ ''/0'')) = Done addr"
      by (auto simp: Let_def)
    obtain w1 r where r: "i_info (cluster_rpc CE) addr \<lparr>ir_txn_id = 0, ir_path = path @ ''/0'', ir_recursive = None\<rparr> w = (w1, r)"
      by (metis surj_pair)
    from Cons Some rn a r assms cluster_info_read [OF r] show ?thesis by (auto simp: Let_def split: sum.splits)
  qed simp
qed simp

lemma getattr_stat_read:
  assumes "cl_rpc E = cluster_rpc CE" "cl_getattr_stat E c p w = Done (w', x)"
  shows "masters w' \<subseteq>\<^sub>m masters w" "x = Inr st \<Longrightarrow> \<exists>a m. masters w a = Some m \<and> metadata_map (mc_namespace m) p \<noteq> None"
proof -
  from assms obtain a r where a: "m_getattr (cluster_rpc CE) a p w = (w', r)" "x = map_sum id stat_of_info (both_caught r)"
    by (auto simp: cl_getattr_stat_def cl_getattr_def on_master_def found_node_def split: sum.splits prod.splits)
  show "masters w' \<subseteq>\<^sub>m masters w" by (rule cluster_getattr_read(1) [OF a(1)])
  show "\<exists>a m. masters w a = Some m \<and> metadata_map (mc_namespace m) p \<noteq> None" if "x = Inr st"
    using that a cluster_getattr_read(2) [OF a(1)] by (auto simp: both_caught_def split: rpc_result.splits)
qed

lemma readdir_read:
  assumes "cl_rpc E = cluster_rpc CE" "cl_readdir E c p w = Done (w', x)"
  shows "masters w' \<subseteq>\<^sub>m masters w"
proof -
  from assms obtain a r where "m_readdir (cluster_rpc CE) a p w = (w', r)"
    by (auto simp: cl_readdir_def on_master_def found_node_def split: sum.splits prod.splits)
  then show ?thesis by (rule cluster_readdir_read)
qed

lemma get_index_infos_read:
  assumes "cl_rpc E = cluster_rpc CE" "get_index_infos E c p infos rec w = Done (w', infos', status)"
  shows "masters w' \<subseteq>\<^sub>m masters w"
proof -
  let ?call = "\<lambda>addr. m_locate_indices (cluster_rpc CE) addr \<lparr>ir_txn_id = 0, ir_path = p, ir_recursive = Some rec\<rparr>"
  let ?ring = "get_ch_ring_as_map (cl_ring E) (master_map c)"
  obtain w1 x where a: "ask_masters ?call ?ring [] w = (w1, x)" by (cases "ask_masters ?call ?ring [] w")
  have "masters w1 \<subseteq>\<^sub>m masters w" using ask_masters_read [OF cluster_locate_read a] .
  moreover have "masters w' = masters w1"
    using assms a by (cases x) (auto simp: get_index_infos_def dest: fetch_infos_read [OF assms(1)])
  ultimately show ?thesis by simp
qed

text \<open>The listing over a cluster, whose masters know no path longer than the bound.\<close>

locale listed_cluster =
  fixes CE :: "('s, 'q, 'ring, 'f::linorder) cluster_env" and E :: "(('s, 'q, 'ring, 'f) cluster, 'r) cli_env"
    and M :: "RpcNodeAddress \<Rightarrow> ('s, 'q, 'ring) MasterController option" and bound :: nat
  assumes rpc: "cl_rpc (ui_client E) = cluster_rpc CE"
    and known: "M a = Some m \<Longrightarrow> metadata_map (mc_namespace m) p \<noteq> None \<Longrightarrow> length p \<le> bound"

sublocale listed_cluster \<subseteq> bounded_listing E "\<lambda>w. masters w \<subseteq>\<^sub>m M" bound
proof
  fix client p w w' st assume "masters w \<subseteq>\<^sub>m M" "cl_getattr_stat (ui_client E) client p w = Done (w', Inr st)"
  with getattr_stat_read(2) [OF rpc] obtain a m where "masters w a = Some m" "metadata_map (mc_namespace m) p \<noteq> None" by blast
  with \<open>masters w \<subseteq>\<^sub>m M\<close> show "length p \<le> bound" using known [of a m p] by (force simp: map_le_def dom_def)
qed (rule map_le_trans, erule getattr_stat_read [OF rpc] readdir_read [OF rpc] get_index_infos_read [OF rpc], assumption)+

context listed_cluster
begin

lemma listing_ends:
  "masters w \<subseteq>\<^sub>m M \<Longrightarrow> \<exists>r. print_index_info E client path recursive out w = Some r \<and>
    (\<forall>w' out' status. r = Done (w', out', status) \<longrightarrow> masters w' \<subseteq>\<^sub>m M)"
  using print_index_info_returns by (simp add: returns_def)

end

section \<open>An example\<close>

definition test_cli_env where
  "test_cli_env =
     \<lparr>ui_client = test_client_env, ui_query = demo_env, ui_tasks = (\<lambda>ts. ts), getopt_long = (\<lambda>i short long argv. ([], drop i argv)),
      getenv = (\<lambda>_. None), lexical_cast_int = (\<lambda>_. None), tokenize = split_at CHR '' '', ui_absolute = (\<lambda>p. p),
      parse_type_string_to_int = (\<lambda>_. -1), type_int_to_string = (\<lambda>_. []), ui_uid = 0, ui_gid = 0, map_order = (\<lambda>m. m)\<rparr>"

interpretation test_listing: listed_cluster test_cluster_env test_cli_env "masters test_cluster_state" 1
  by unfold_locales
    (auto simp: test_cli_env_def test_client_env_def test_cluster_state_def root_namespace_def demo_master_def Namespace_new_def
      split: if_splits)

section \<open>Properties\<close>

text \<open>
  C21: Records from the standard input reach the index in batches. After the client has been set up, what
  \<open>vsfs index insert --stdin\<close> does is to cut the requests of the input's records, in order, into groups of the batch size
  and to send one after the other until one fails; then the rest is sent. A line that is no record ends the run with an error
  after the full groups before it, and the rest before it is not sent. Nothing is lost or sent twice: the groups and the
  rest make up the requests.\<close>

theorem stdin_batches:
  fixes E :: "('w, 'r) cli_env" and c cin
  defines "n \<equiv> max 1 (unat (batch_size c))" and "lns \<equiv> filter (\<lambda>l. l \<noteq> []) (split_at (CHR 0x0A) cin)"
  defines "rs \<equiv> map (update_request E c) (good_records E lns)"
  assumes "use_stdin c"
  shows "concat (full_batches n rs) @ last_batch n rs = rs \<and> (\<forall>b\<in>set (full_batches n rs). length b = n) \<and>
    length (last_batch n rs) < n \<and>
    update_run E c cin = with_client E c (\<lambda>client w.
       let update = cl_update (ui_client E) (ui_tasks E) client in
       quiet (bindo (send_batches update (full_batches n rs) OK w) (\<lambda>(w1, status).
         if \<not> ok status then Done (w1, status)
         else if length (good_records E lns) < length lns then Done (w1, wrong_record)
         else if last_batch n rs = [] then Done (w1, status)
         else update (last_batch n rs) w1)))"
proof -
  note u = update_with_batches [OF assms(4), of n lns cin rs E, OF n_def [THEN meta_eq_to_obj_eq]
      lns_def [THEN meta_eq_to_obj_eq] rs_def [THEN meta_eq_to_obj_eq]]
  have "0 < n" by (simp add: n_def)
  from batches_concat [OF this, of rs] show ?thesis unfolding update_run_def u Let_def by blast
qed

theorem stdin_batches_witness:
  "\<exists>c rs. use_stdin c \<and> length rs = 3 \<and> concat (full_batches 2 rs) @ last_batch 2 rs = rs \<and> length (last_batch 2 rs) < 2 \<and>
     update_run test_cli_env c ''/a 1\<newline>/b 2\<newline>/c 3'' = with_client test_cli_env c (\<lambda>client w.
       let update = cl_update (ui_client test_cli_env) (ui_tasks test_cli_env) client in
       quiet (bindo (send_batches update (full_batches 2 rs) OK w) (\<lambda>(w1, status).
         if \<not> ok status then Done (w1, status)
         else if last_batch 2 rs = [] then Done (w1, status)
         else update (last_batch 2 rs) w1)))"
proof -
  let ?c = "(IndexUpdateCommand_new test_cli_env OpUpdate)\<lparr>use_stdin := True, batch_size := 2\<rparr>"
  let ?rs = "map (update_request test_cli_env ?c) [(''/a'', ''1''), (''/b'', ''2''), (''/c'', ''3'')]"
  have l: "filter (\<lambda>l. l \<noteq> []) (split_at (CHR 0x0A) ''/a 1\<newline>/b 2\<newline>/c 3'') = [''/a 1'', ''/b 2'', ''/c 3'']" by simp
  have g: "good_records test_cli_env [''/a 1'', ''/b 2'', ''/c 3''] = [(''/a'', ''1''), (''/b'', ''2''), (''/c'', ''3'')]"
    by (simp add: parse_record_line_def test_cli_env_def)
  have n: "use_stdin ?c" "max 1 (unat (batch_size ?c)) = 2" by simp_all
  have "\<not> length [(''/a'', ''1''), (''/b'', ''2''), (''/c'', ''3'')] < length [''/a 1'', ''/b 2'', ''/c 3'']" by simp
  note t = stdin_batches [OF n(1), of test_cli_env "''/a 1\<newline>/b 2\<newline>/c 3''", unfolded l g n(2) if_not_P [OF this]]
  have "length ?rs = 3" by simp
  with t n(1) show ?thesis by blast
qed

text \<open>
  Records from the command line: \<open>vsfs index insert NAME FILE KEY ...\<close> sends one update that has a request for every
  pair of file and key that was given, with its repetitions, and no other; an odd number of arguments after the name
  is refused before anything is sent.\<close>

theorem args_sent:
  assumes "getopt_long E 1 ''hsdv:H:p:b:'' update_longopts argv = ([], name # args)" "\<And>m. mset (map_order E m) = mset m"
  shows "if odd (length args) then \<exists>c. update_parse_args E argv (IndexUpdateCommand_new E op) = Done (c, -1)
    else \<exists>c. update_parse_args E argv (IndexUpdateCommand_new E op) = Done (c, 0) \<and>
      mset (args_requests E c) =
        mset (map (\<lambda>(f, k). \<lparr>ur_op = (case op of OpUpdate \<Rightarrow> 1 | OpRemove \<Rightarrow> 3), ur_file_path = ui_absolute E f,
                             ur_index_name = name, ur_key = k\<rparr>) (pairs_of args)) \<and>
      update_run E c cin = with_client E c (\<lambda>client w. quiet (cl_update (ui_client E) (ui_tasks E) client (args_requests E c) w))"
proof (cases "odd (length args)")
  case True
  then show ?thesis using assms(1) by (auto simp: update_parse_args_def options_def Let_def odd_pos elim: oddE)
next
  case False
  let ?c = "(IndexUpdateCommand_new E op)\<lparr>iuc_name := name\<rparr>"
  have c: "index_data ?c = []" "\<not> use_stdin ?c" by (simp_all add: IndexUpdateCommand_new_def Command.defs)
  from record_pairs_done [of args "[]"] False obtain m where
    m: "record_pairs args [] = Done m" "mset (data_records m) = mset (pairs_of args)" by auto
  let ?d = "?c\<lparr>index_data := m\<rparr>"
  have p: "update_parse_args E argv (IndexUpdateCommand_new E op) = Done (?d, 0)"
    using assms(1) False m(1) c(1) by (auto simp: update_parse_args_def options_def Let_def)
  have "mset (args_requests E ?d) = image_mset (update_request E ?d) (mset (data_records (map_order E m)))"
    by (simp add: args_requests_data)
  also have "mset (data_records (map_order E m)) = mset (pairs_of args)"
    using mset_data_records [OF assms(2)] m(2) by simp
  also have "update_request E ?d = (\<lambda>(f, k). \<lparr>ur_op = (case op of OpUpdate \<Rightarrow> 1 | OpRemove \<Rightarrow> 3), ur_file_path = ui_absolute E f,
                             ur_index_name = name, ur_key = k\<rparr>)"
    by (auto simp: update_request_def IndexUpdateCommand_new_def Command.defs)
  finally show ?thesis
    using p c(2) False by (auto simp: update_run_def update_with_def)
qed

theorem args_sent_witness:
  "\<exists>c. update_parse_args test_cli_env [''insert'', ''x'', ''/b'', ''1'', ''/a'', ''2'', ''/b'', ''3''] (IndexUpdateCommand_new test_cli_env OpUpdate)
       = Done (c, 0) \<and> length (args_requests test_cli_env c) = 3"
proof -
  let ?args = "[''/b'', ''1'', ''/a'', ''2'', ''/b'', ''3'']"
  have o: "getopt_long test_cli_env 1 ''hsdv:H:p:b:'' update_longopts (''insert'' # ''x'' # ?args) = ([], ''x'' # ?args)"
    by (simp add: test_cli_env_def)
  have p: "mset (map_order test_cli_env m) = mset m" for m by (simp add: test_cli_env_def)
  have "\<not> odd (length ?args)" "length (pairs_of ?args) = 3" by simp_all
  with args_sent [OF o p, of OpUpdate "[]", unfolded if_not_P [OF this(1)]] show ?thesis
    by (metis (no_types, lifting) length_map size_mset)
qed

text \<open>
  C22: \<open>vsfs index list\<close> returns, recursively or not, whatever the directories of the cluster contain, links back to
  parents and entries without a file included: every level of the recursion goes to a longer path that some master
  knows. It leaves every master that goes on as it was.\<close>

theorem list_returns:
  assumes "cl_rpc (ui_client E) = cluster_rpc CE" "finite (dom (masters w))"
    and "\<And>a m. masters w a = Some m \<Longrightarrow> finite (dom (metadata_map (mc_namespace m)))"
  shows "\<exists>r. print_index_info E client path recursive out w = Some r \<and>
    (\<forall>w' out' status. r = Done (w', out', status) \<longrightarrow> masters w' \<subseteq>\<^sub>m masters w)"
proof -
  let ?P = "\<Union>m\<in>ran (masters w). dom (metadata_map (mc_namespace m))"
  have "finite (ran (masters w))" using assms(2) by (rule finite_ran)
  then have f: "finite (length ` ?P)" using assms(3) by (auto simp: ran_def)
  have "length p \<le> Max (length ` ?P)" if "masters w a = Some m" "metadata_map (mc_namespace m) p \<noteq> None" for a m p
    using that f by (intro Max_ge) (auto simp: ran_def)
  with assms(1) have "listed_cluster CE E (masters w) (Max (length ` ?P))" by (rule listed_cluster.intro)
  from listed_cluster.listing_ends [OF this map_le_refl] show ?thesis .
qed

theorem list_returns_witness:
  "\<exists>r. print_index_info test_cli_env test_client ''/'' True [] test_cluster_state = Some r"
proof -
  have "cl_rpc (ui_client test_cli_env) = cluster_rpc test_cluster_env" by (simp add: test_cli_env_def test_client_env_def)
  moreover have "finite (dom (masters test_cluster_state))" by (simp add: test_cluster_state_def)
  moreover have "finite (dom (metadata_map (mc_namespace m)))" if "masters test_cluster_state a = Some m" for a m
    using that by (auto simp: test_cluster_state_def root_namespace_def demo_master_def Namespace_new_def split: if_splits)
  ultimately show ?thesis
    using list_returns [of test_cli_env test_cluster_env test_cluster_state test_client "''/''" True "[]"] by blast
qed


end
