(* ===== verification/Api.thy ===== *)
theory Api
  imports Mount Commands Search Membership
begin

text \<open>
  The C++ interface (\<open>vsfs/api/cpp/vsfs.cpp\<close>, \<open>vsfs.h\<close>): an instance has a client and a storage manager, both as in the FUSE
  front end, and works on the state of the cluster and of the operating system. The command line and the interface share
  the way from the text of a query to the files.
\<close>

section \<open>Operations\<close>

record 'r Vsfs =
  api_client :: "'r VSFSRpcClient"
  api_storage :: storage_manager

text \<open>The storage manager is a pointer that may be null.\<close>

definition Vsfs_new :: "('w, 'r, 'o, 'sv) fuse_env \<Rightarrow> string \<Rightarrow> int \<Rightarrow> storage_manager option \<Rightarrow> 'r Vsfs outcome" where
  "Vsfs_new E h p sm =
     (case sm of
        None \<Rightarrow> Fail CheckFailed
      | Some m \<Rightarrow> Done \<lparr>api_client = VSFSRpcClient_new (fe_client E) h p, api_storage = m\<rparr>)"

definition Vsfs_connect :: "('w, 'r, 'o, 'sv) fuse_env \<Rightarrow> 'r Vsfs \<Rightarrow> 'w \<Rightarrow> ('w \<times> 'r Vsfs \<times> Status) outcome" where
  "Vsfs_connect E v w =
     bindo (client_init (fe_client E) (api_client v) w) (\<lambda>(w', c, status). Done (w', v\<lparr>api_client := c\<rparr>, status))"

text \<open>The new file is opened with \<open>O_CREAT\<close> alone, that is for reading.\<close>

definition Vsfs_create ::
  "('w, 'r, 'o, 'sv) fuse_env \<Rightarrow> 'r Vsfs \<Rightarrow> string \<Rightarrow> int \<Rightarrow> int \<Rightarrow> int \<Rightarrow> 'w \<Rightarrow> 'o \<Rightarrow> ('w \<times> 'o \<times> (Status + File)) outcome" where
  "Vsfs_create E v path md u g w os =
     bindo (cl_create (fe_client E) (api_client v) path md u g w) (\<lambda>(w1, status, oid).
       if \<not> ok status then Done (w1, os, Inl status)
       else bindo (created oid) (\<lambda>i.
         bindo (sm_open E (api_storage v) path i O_CREAT (Some (word_of_int md)) os) (\<lambda>(os1, x). Done (w1, os1, x))))"

definition Vsfs_unlink ::
  "('w, 'r, 'o, 'sv) fuse_env \<Rightarrow> 'r Vsfs \<Rightarrow> string \<Rightarrow> 'w \<Rightarrow> 'o \<Rightarrow> ('w \<times> 'o \<times> Status) outcome" where
  "Vsfs_unlink E v path w os =
     bindo (cl_unlink (fe_client E) (api_client v) path w) (\<lambda>(w1, x). case x of
       Inl status \<Rightarrow> Done (w1, os, status)
     | Inr oid \<Rightarrow> bindo (sm_unlink E (api_storage v) path oid os) (\<lambda>(os1, status). Done (w1, os1, status)))"

text \<open>The call to the client is commented out; the buffer of the caller stays as it is.\<close>

definition Vsfs_getattr :: "string \<Rightarrow> stat \<Rightarrow> stat \<times> Status" where
  "Vsfs_getattr path stbuf = (stbuf, OK)"

definition Vsfs_mkdir ::
  "('w, 'r, 'o, 'sv) fuse_env \<Rightarrow> 'r Vsfs \<Rightarrow> string \<Rightarrow> int \<Rightarrow> int \<Rightarrow> int \<Rightarrow> 'w \<Rightarrow> ('w \<times> Status) outcome" where
  "Vsfs_mkdir E v path md u g w = cl_mkdir (fe_client E) (api_client v) path md u g w"

definition Vsfs_rmdir :: "('w, 'r, 'o, 'sv) fuse_env \<Rightarrow> 'r Vsfs \<Rightarrow> string \<Rightarrow> 'w \<Rightarrow> ('w \<times> Status) outcome" where
  "Vsfs_rmdir E v path w = cl_rmdir (fe_client E) (api_client v) path w"

definition Vsfs_create_index ::
  "('w, 'r, 'o, 'sv) fuse_env \<Rightarrow> 'r Vsfs \<Rightarrow> string \<Rightarrow> string \<Rightarrow> int \<Rightarrow> int \<Rightarrow> 'w \<Rightarrow> ('w \<times> Status) outcome" where
  "Vsfs_create_index E v path name itype ktype w =
     cl_create_index (fe_client E) (api_client v) path name itype ktype 0x1FF (getuid E) (getgid E) w"

definition Vsfs_destroy_index :: "('w, 'r, 'o, 'sv) fuse_env \<Rightarrow> 'r Vsfs \<Rightarrow> string \<Rightarrow> string \<Rightarrow> 'w \<Rightarrow> ('w \<times> Status) outcome" where
  "Vsfs_destroy_index E v path name w = cl_remove_index (fe_client E) (api_client v) path name w"

text \<open>\<open>tasks\<close> is the order in which the client runs the tasks of an update.\<close>

definition api_update_records ::
  "('w, 'r, 'o, 'sv) fuse_env \<Rightarrow> ((nat \<times> IndexUpdateRequest list) list \<Rightarrow> (nat \<times> IndexUpdateRequest list) list) \<Rightarrow> 'r Vsfs \<Rightarrow>
     int \<Rightarrow> string \<Rightarrow> (string \<times> string) list \<Rightarrow> 'w \<Rightarrow> ('w \<times> Status) outcome" where
  "api_update_records E tasks v op name pairs w =
     cl_update (fe_client E) tasks (api_client v)
       (map (\<lambda>(f, key). \<lparr>ur_op = op, ur_file_path = f, ur_index_name = name, ur_key = key\<rparr>) pairs) w"

definition Vsfs_update_index where
  "Vsfs_update_index E tasks v name pairs w = api_update_records E tasks v 2 name pairs w"

definition Vsfs_remove_index where
  "Vsfs_remove_index E tasks v name pairs w = api_update_records E tasks v 3 name pairs w"

text \<open>The template for keys that are numbers, at the integers: \<open>std::to_string\<close> writes a key in decimal.\<close>

definition Vsfs_update_index_num where
  "Vsfs_update_index_num E tasks v name pairs w =
     Vsfs_update_index E tasks v name (map (\<lambda>(f, key :: int). (f, int_to_string key)) pairs) w"

definition Vsfs_search ::
  "('w, 'r, 'o, 'sv) fuse_env \<Rightarrow> 'r Vsfs \<Rightarrow> string \<Rightarrow> string list \<Rightarrow> 'w \<Rightarrow> ('w \<times> string list \<times> Status) outcome" where
  "Vsfs_search E v query results w =
     bindo (parse (fe_query E) ComplexQuery_new query) (\<lambda>(cq, status).
       if \<not> ok status then Done (w, results, status)
       else cl_search (fe_client E) (api_client v) cq results w)"

section \<open>Properties\<close>

text \<open>
  The objects a query for the interval of two comparisons finds, said of the comparisons: the key of the object satisfies both, with
  the values read as the numbers \<open>n\<close> and \<open>m\<close>.
\<close>

lemma interval_matching:
  assumes "cm_op lo \<in> {GT, GE}" "cm_op hi \<in> {LT, LE}" "cm_value lo \<noteq> []" "cm_value hi \<noteq> []"
    and "cast_key (int_traits IE (kind part)) (cm_value lo) = Some n" "cast_key (int_traits IE (kind part)) (cm_value hi) = Some m"
    and "asks C (interval_query dir lo hi) part"
  shows "matching IE kind hist (range_of C (interval_query dir lo hi) part) =
    {obj. \<exists>key. (key, obj) \<in> content IE (kind part) (hist part) \<and> holds (cm_op lo) key n \<and> holds (cm_op hi) key m}"
proof -
  let ?q = "range_of C (interval_query dir lo hi) part"
  have "range_query (interval_query dir lo hi) (filename (cl_paths C) (parent_path (cl_paths C) part)) =
      Some \<lparr>sr_lower = cm_value lo, sr_lower_closed = (cm_op lo = GE), sr_upper = cm_value hi, sr_upper_closed = (cm_op hi = LE)\<rparr>"
    using assms(7) by (auto simp: asks_def interval_query_def range_query_def split: if_splits)
  then have q: "rq_lower ?q = cm_value lo" "rq_upper ?q = cm_value hi" "rq_lower_open ?q = (cm_op lo \<noteq> GE)"
    "rq_upper_open ?q = (cm_op hi \<noteq> LE)" by (simp_all add: range_of_def Let_def)
  have "query_bounds (int_traits IE (kind part)) ?q = Some (n, m)"
    using assms(3-6) by (simp add: query_bounds_def q)
  moreover have "in_range n (cm_op lo \<noteq> GE) m (cm_op hi \<noteq> LE) key \<longleftrightarrow> holds (cm_op lo) key n \<and> holds (cm_op hi) key m" for key
    using assms(1,2) by (auto simp: in_range_def)
  ultimately show ?thesis by (simp add: matching_def Let_def answer_def q)
qed


lemma search_client_init:
  "client_init test_client_env (VSFSRpcClient_new test_client_env ''a'' 1) search_state = Done (search_state, search_client, OK)"
proof -
  obtain m where m: "masters search_state node_a = Some m" "is_primary_node m" "master_server_manager m = Some (master_map test_client)"
    "index_server_manager m = Some (master_map test_client)" by (simp add: search_state_def)
  have a: "ring_addresses list_ring (master_map test_client) [] = [(0, node_a), (1, node_b)]"
    by (simp add: ring_addresses_items ring_laws_list) (simp add: list_ring_def replay_nodes_def test_client_def)
  have "cache_ring list_ring [] [(0, node_a), (1, node_b)] = master_map test_client"
    by (simp add: cache_ring_def ServerMap_add_at_def test_client_def) (simp add: list_ring_def replay_nodes_def)
  with client_init_primary [OF test_client_simps(1) m] a show ?thesis
    by (simp add: VSFSRpcClient_new_def test_client_env_def test_cluster_env_def test_mc_env_def search_client_def test_client_def)
qed

abbreviation search_lo :: comparison where
  "search_lo \<equiv> \<lparr>cm_field = ''x'', cm_opstr = ''>='', cm_op = GE, cm_text = ''2'', cm_value = ''2''\<rparr>"

abbreviation search_hi :: comparison where
  "search_hi \<equiv> \<lparr>cm_field = ''x'', cm_opstr = ''<'', cm_op = LT, cm_text = ''9'', cm_value = ''9''\<rparr>"

lemma search_comparisons: "comparison_ok demo_env search_lo" "comparison_ok demo_env search_hi"
proof -
  have "trim_copy demo_env t = t" for t by (simp add: demo_env_def)
  then show "comparison_ok demo_env search_lo" "comparison_ok demo_env search_hi"
    by (simp_all add: comparison_ok_def parse_value_plain plain_value_def parse_cond_op_def)
qed

lemma search_casts:
  "cast_key (int_traits (ce_index test_cluster_env) KInt64) ''2'' = Some 2"
  "cast_key (int_traits (ce_index test_cluster_env) KInt64) ''9'' = Some 9"
  by (simp_all add: test_cluster_env_def demo_simps)

lemma search_objects_compared:
  "{7} = {obj. \<exists>i\<in>set [''/a/.vsfs/x'']. \<exists>key. (key, obj) \<in> content (ce_index test_cluster_env) KInt64 (search_hist (i @ ''/0'')) \<and>
     holds GE key 2 \<and> holds LT key 9}"
  by (simp add: content_def demo_simps effects_def record_spec_def test_cluster_env_def)


text \<open>
  A file made through the interface and unlinked again: in the setting of a free path in an existing directory, with object
  storage, \<open>create\<close> either returns the open file or the error of the system, and in both cases the file is in the namespace;
  \<open>unlink\<close> restores every file and directory of every master, and no file of the disk but the place of the object
  has been touched.\<close>

theorem api_create_unlink:
  assumes "cl_rpc (fe_client E) = cluster_rpc CE"
    and "is_initialized (fe_client E) (api_client v)" "path \<noteq> ''/''" "is_valid_path (ce_master CE) path"
    and "is_valid_path (ce_master CE) (parent_path (cl_paths (fe_client E)) path)"
    and "master_of (fe_client E) (api_client v) path = Inr node"
    and "master_of (fe_client E) (api_client v) (parent_path (cl_paths (fe_client E)) path) = Inr pnode"
    and "node_alive CE w (address node)" "node_alive CE w (address pnode)" "node_free w (address node) path"
    and "node_dir w (address pnode) (parent_path (cl_paths (fe_client E)) path) = Some fs"
    and "filename (cl_paths (fe_client E)) path \<notin> set fs"
    and "api_storage v = ObjectManager m" "0 < sint (num_subdirs m)" "os_laws (fe_os E) files"
  shows "\<exists>w1 os1 x w2 os2 status place. Vsfs_create E v path md u g w os = Done (w1, os1, x) \<and>
    Vsfs_unlink E v path w1 os1 = Done (w2, os2, status) \<and>
    node_file w2 = node_file w \<and> node_dir w2 = node_dir w \<and> (\<forall>q. q \<noteq> place \<longrightarrow> files os2 q = files os q)"
proof -
  let ?P = "cl_paths (fe_client E)"
  from master_cluster.cluster_create_seen(1) [OF assms(1-12), of md u g]
  obtain w1 oid w2 where
    1: "cl_create (fe_client E) (api_client v) path md u g w = Done (w1, OK, Some oid)"
      "cl_unlink (fe_client E) (api_client v) path w1 = Done (w2, Inr oid)" "node_file w2 = node_file w" "node_dir w2 = node_dir w" by blast
  obtain place where p: "object_translate_path ?P m oid = Done place" using object_translate_place [OF assms(14)] by blast
  obtain os1 x where o: "open_at (fe_os E) place O_CREAT (Some (word_of_int md)) os = (os1, x)" by fastforce
  then obtain fd err where so: "sys_open (fe_os E) place O_CREAT (Some (word_of_int md)) os = (os1, fd, err)"
    by (auto simp: open_at_def split: prod.splits if_splits)
  obtain os2 ret err2 where u: "sys_unlink (fe_os E) place os1 = (os2, ret, err2)" by (cases "sys_unlink (fe_os E) place os1")
  have c: "Vsfs_create E v path md u g w os = Done (w1, os1, x)"
    using 1(1) p o assms(13) by (simp add: Vsfs_create_def created_def object_open_def del: bindo_Done_iff)
  have d: "Vsfs_unlink E v path w1 os1 = Done (w2, os2, if ret = -1 then SysErr err2 else OK)"
    using 1(2) p u assms(13) by (simp add: Vsfs_unlink_def object_unlink_def checked_def del: bindo_Done_iff)
  have l: "files os2 = (files os1)(place := None) \<or> files os2 = files os1"
    using assms(15) [unfolded os_laws_def, THEN conjunct1, rule_format, where p = place and os = os1] by (auto simp: u)
  have "\<forall>q. q \<noteq> place \<longrightarrow> files os1 q = files os q"
    using assms(15) [unfolded os_laws_def, THEN conjunct2, rule_format, where p = place and os = os] so by (metis fst_conv)
  with l have "\<forall>q. q \<noteq> place \<longrightarrow> files os2 q = files os q" by auto
  with c d 1(3,4) show ?thesis by blast
qed

end
