(* ===== verification/Typed_Index.thy ===== *)
theory Typed_Index
  imports Index
begin

text \<open>
  The typed interface of range indices (\<open>RangeIndexInterface\<close> and \<open>RangeIndex\<close> in \<open>vsfs/index/range_index.h\<close>) for integer keys. The
  templates pass a key of the caller's type as a pointer and a size; the index checks the size and reads the bytes as a
  value of its own key type. A caller's key is an integer with the
  same bytes, which are its residue modulo two to the number of bits: for a key of an integer type, the key itself.
\<close>

section \<open>Integer types\<close>

text \<open>Whether \<open>char\<close> is signed and the size of a \<open>std::string\<close> are up to the implementation.\<close>

record abi =
  char_signed :: bool
  sizeof_string :: nat

definition integer_kinds :: "key_kind list" where
  "integer_kinds = [KUint64, KInt64, KInt32, KUint32, KInt16, KUint16, KChar, KInt8, KUint8]"

fun sizeof_kind :: "abi \<Rightarrow> key_kind \<Rightarrow> nat" where
  "sizeof_kind A KUint64 = 8"
| "sizeof_kind A KInt64 = 8"
| "sizeof_kind A KDouble = 8"
| "sizeof_kind A KInt32 = 4"
| "sizeof_kind A KUint32 = 4"
| "sizeof_kind A KFloat = 4"
| "sizeof_kind A KInt16 = 2"
| "sizeof_kind A KUint16 = 2"
| "sizeof_kind A KChar = 1"
| "sizeof_kind A KInt8 = 1"
| "sizeof_kind A KUint8 = 1"
| "sizeof_kind A KString = sizeof_string A"

definition signed_kind :: "abi \<Rightarrow> key_kind \<Rightarrow> bool" where
  "signed_kind A k \<longleftrightarrow> k \<in> {KInt64, KInt32, KInt16, KInt8} \<or> k = KChar \<and> char_signed A"

definition read_as :: "abi \<Rightarrow> key_kind \<Rightarrow> int \<Rightarrow> int" where
  "read_as A k key =
     (let m = 2 ^ (8 * sizeof_kind A k); v = key mod m in if signed_kind A k \<and> m div 2 \<le> v then v - m else v)"

definition value_of_kind :: "abi \<Rightarrow> key_kind \<Rightarrow> int \<Rightarrow> bool" where
  "value_of_kind A k key \<longleftrightarrow>
     (let m = 2 ^ (8 * sizeof_kind A k) in
      if signed_kind A k then - (m div 2) \<le> key \<and> key < m div 2 else 0 \<le> key \<and> key < m)"

section \<open>Operations\<close>

record RangeIndex =
  rx_key_type :: key_kind
  rx_impl :: "int index_map"

definition RangeIndex_new :: "key_kind \<Rightarrow> RangeIndex" where
  "RangeIndex_new k = \<lparr>rx_key_type = k, rx_impl = []\<rparr>"

text \<open>The members for keys of the index's own type.\<close>

definition RangeIndex_insert :: "int \<Rightarrow> ObjectId \<Rightarrow> RangeIndex \<Rightarrow> RangeIndex" where
  "RangeIndex_insert key file_id r = r\<lparr>rx_impl := impl_insert key file_id (rx_impl r)\<rparr>"

definition RangeIndex_erase :: "int \<Rightarrow> ObjectId \<Rightarrow> RangeIndex \<Rightarrow> RangeIndex" where
  "RangeIndex_erase key obj_id r = r\<lparr>rx_impl := impl_erase key obj_id (rx_impl r)\<rparr>"

definition RangeIndex_erase_key :: "int \<Rightarrow> RangeIndex \<Rightarrow> RangeIndex" where
  "RangeIndex_erase_key key r = r\<lparr>rx_impl := impl_erase_key key (rx_impl r)\<rparr>"

definition RangeIndex_search :: "int \<Rightarrow> RangeIndex \<Rightarrow> ObjectId list \<Rightarrow> ObjectId list" where
  "RangeIndex_search key r results = impl_search (rx_impl r) key results"

definition RangeIndex_size :: "RangeIndex \<Rightarrow> nat" where
  "RangeIndex_size r = impl_size (rx_impl r)"

definition RangeIndex_num_keys :: "RangeIndex \<Rightarrow> nat" where
  "RangeIndex_num_keys r = num_keys (rx_impl r)"

definition RangeIndex_empty :: "RangeIndex \<Rightarrow> bool" where
  "RangeIndex_empty r = impl_empty (rx_impl r)"

text \<open>The members behind the interface, with \<open>CHECK_EQ(sizeof(Key), key_size)\<close>.\<close>

definition checked_key :: "abi \<Rightarrow> RangeIndex \<Rightarrow> int \<Rightarrow> nat \<Rightarrow> int outcome" where
  "checked_key A r key key_size =
     (if sizeof_kind A (rx_key_type r) \<noteq> key_size then Fail CheckFailed else Done (read_as A (rx_key_type r) key))"

definition rx_insert :: "abi \<Rightarrow> int \<Rightarrow> nat \<Rightarrow> ObjectId \<Rightarrow> RangeIndex \<Rightarrow> RangeIndex outcome" where
  "rx_insert A key key_size file_id r =
     bindo (checked_key A r key key_size) (\<lambda>k. Done (RangeIndex_insert k file_id r))"

definition rx_erase_key :: "abi \<Rightarrow> int \<Rightarrow> nat \<Rightarrow> RangeIndex \<Rightarrow> RangeIndex outcome" where
  "rx_erase_key A key key_size r =
     bindo (checked_key A r key key_size) (\<lambda>k. Done (RangeIndex_erase_key k r))"

definition rx_erase :: "abi \<Rightarrow> int \<Rightarrow> nat \<Rightarrow> ObjectId \<Rightarrow> RangeIndex \<Rightarrow> RangeIndex outcome" where
  "rx_erase A key key_size file_id r =
     bindo (checked_key A r key key_size) (\<lambda>k. Done (RangeIndex_erase k file_id r))"

definition rx_search_range :: "abi \<Rightarrow> int \<Rightarrow> int \<Rightarrow> nat \<Rightarrow> RangeIndex \<Rightarrow> ObjectId list \<Rightarrow> ObjectId list outcome" where
  "rx_search_range A lower upper key_size r results =
     bindo (checked_key A r lower key_size) (\<lambda>lower_key.
       Done (range_search (rx_impl r) lower_key False (read_as A (rx_key_type r) upper) False results))"

definition rx_search :: "abi \<Rightarrow> int \<Rightarrow> nat \<Rightarrow> RangeIndex \<Rightarrow> ObjectId list \<Rightarrow> ObjectId list outcome" where
  "rx_search A key key_size r results =
     bindo (checked_key A r key key_size) (\<lambda>k. Done (RangeIndex_search k r results))"

text \<open>The templates of the interface, called with keys of the type \<open>K\<close>.\<close>

definition insert_as :: "abi \<Rightarrow> key_kind \<Rightarrow> int \<Rightarrow> ObjectId \<Rightarrow> RangeIndex \<Rightarrow> RangeIndex outcome" where
  "insert_as A K key file_id r = rx_insert A key (sizeof_kind A K) file_id r"

definition erase_as :: "abi \<Rightarrow> key_kind \<Rightarrow> int \<Rightarrow> ObjectId \<Rightarrow> RangeIndex \<Rightarrow> RangeIndex outcome" where
  "erase_as A K key file_id r = rx_erase A key (sizeof_kind A K) file_id r"

definition erase_key_as :: "abi \<Rightarrow> key_kind \<Rightarrow> int \<Rightarrow> RangeIndex \<Rightarrow> RangeIndex outcome" where
  "erase_key_as A K key r = rx_erase_key A key (sizeof_kind A K) r"

definition search_as :: "abi \<Rightarrow> key_kind \<Rightarrow> int \<Rightarrow> RangeIndex \<Rightarrow> ObjectId list \<Rightarrow> ObjectId list outcome" where
  "search_as A K key r results = rx_search A key (sizeof_kind A K) r results"

definition search_range_as :: "abi \<Rightarrow> key_kind \<Rightarrow> int \<Rightarrow> int \<Rightarrow> RangeIndex \<Rightarrow> ObjectId list \<Rightarrow> ObjectId list outcome" where
  "search_range_as A K lower upper r results = rx_search_range A lower upper (sizeof_kind A K) r results"

definition rx_clear :: "RangeIndex \<Rightarrow> RangeIndex" where
  "rx_clear r = r\<lparr>rx_impl := impl_clear (rx_impl r)\<rparr>"

section \<open>Lemmas\<close>

lemma kind_bits: "k \<in> set integer_kinds \<Longrightarrow> \<exists>n. 8 * sizeof_kind A k = Suc n"
  by (auto simp: integer_kinds_def)

lemma read_as_value:
  assumes "k \<in> set integer_kinds"
  shows "value_of_kind A k (read_as A k key)"
proof -
  obtain n where n: "8 * sizeof_kind A k = Suc n" using kind_bits [OF assms] by blast
  define v where "v = key mod 2 ^ Suc n"
  have "0 \<le> v" "v < 2 * 2 ^ n" by (simp_all add: v_def)
  then show ?thesis unfolding value_of_kind_def read_as_def n Let_def v_def [symmetric] by auto
qed

lemma read_as_same:
  assumes "k \<in> set integer_kinds"
  shows "read_as A k key = key \<longleftrightarrow> value_of_kind A k key"
proof
  assume v: "value_of_kind A k key"
  obtain n where n: "8 * sizeof_kind A k = Suc n" using kind_bits [OF assms] by blast
  show "read_as A k key = key"
  proof (cases "0 \<le> key")
    case True
    with v show ?thesis by (auto simp: value_of_kind_def read_as_def n Let_def split: if_splits)
  next
    case False
    with v have s: "signed_kind A k" "- (2 ^ n) \<le> key" by (auto simp: value_of_kind_def n Let_def split: if_splits)
    have "key mod (2 ^ Suc n) = (key + 2 ^ Suc n) mod (2 ^ Suc n)" by simp
    also have "\<dots> = key + 2 ^ Suc n" using False s(2) by (intro mod_pos_pos_trivial) auto
    finally show ?thesis using s False by (auto simp: read_as_def n Let_def)
  qed
qed (metis read_as_value [OF assms])

lemma read_as_bytes: "read_as A k key mod 2 ^ (8 * sizeof_kind A k) = key mod 2 ^ (8 * sizeof_kind A k)"
  by (auto simp: read_as_def Let_def mod_diff_left_eq)

lemmas member_defs = RangeIndex_insert_def RangeIndex_erase_def RangeIndex_erase_key_def RangeIndex_search_def

lemma records_erase_key: "records (impl_erase_key key index) = {p \<in> records index. fst p \<noteq> key}"
  by (auto simp: records_iff impl_erase_key_def split: if_splits)

lemma impl_erase_key_ok: "index_ok index \<Longrightarrow> index_ok (impl_erase_key key index)"
  by (simp add: impl_erase_key_def index_ok_erase)

lemma checked_key_iff:
  "checked_key A r key n = (if n = sizeof_kind A (rx_key_type r) then Done (read_as A (rx_key_type r) key) else Fail CheckFailed)"
  by (auto simp: checked_key_def)

section \<open>Sequences of typed calls\<close>

datatype typed_op = TInsert key_kind int ObjectId | TErase key_kind int ObjectId | TEraseKey key_kind int | TClear

fun typed_step :: "abi \<Rightarrow> RangeIndex \<Rightarrow> typed_op \<Rightarrow> RangeIndex outcome" where
  "typed_step A r (TInsert K key obj) = insert_as A K key obj r"
| "typed_step A r (TErase K key obj) = erase_as A K key obj r"
| "typed_step A r (TEraseKey K key) = erase_key_as A K key r"
| "typed_step A r TClear = Done (rx_clear r)"

fun run_typed :: "abi \<Rightarrow> typed_op list \<Rightarrow> RangeIndex \<Rightarrow> RangeIndex outcome" where
  "run_typed A [] r = Done r"
| "run_typed A (p # ps) r = bindo (typed_step A r p) (run_typed A ps)"

text \<open>A call whose key has the size of the index's keys, and what it does to the set of records.\<close>

fun right_size :: "abi \<Rightarrow> key_kind \<Rightarrow> typed_op \<Rightarrow> bool" where
  "right_size A k (TInsert K key obj) \<longleftrightarrow> sizeof_kind A K = sizeof_kind A k"
| "right_size A k (TErase K key obj) \<longleftrightarrow> sizeof_kind A K = sizeof_kind A k"
| "right_size A k (TEraseKey K key) \<longleftrightarrow> sizeof_kind A K = sizeof_kind A k"
| "right_size A k TClear \<longleftrightarrow> True"

fun typed_spec :: "abi \<Rightarrow> key_kind \<Rightarrow> (int \<times> ObjectId) set \<Rightarrow> typed_op \<Rightarrow> (int \<times> ObjectId) set" where
  "typed_spec A k R (TInsert K key obj) = insert (read_as A k key, obj) R"
| "typed_spec A k R (TErase K key obj) = R - {(read_as A k key, obj)}"
| "typed_spec A k R (TEraseKey K key) = {p \<in> R. fst p \<noteq> read_as A k key}"
| "typed_spec A k R TClear = {}"

definition well_typed :: "abi \<Rightarrow> RangeIndex \<Rightarrow> bool" where
  "well_typed A r \<longleftrightarrow> index_ok (rx_impl r) \<and> (\<forall>(key, obj)\<in>records (rx_impl r). value_of_kind A (rx_key_type r) key)"

lemma well_typed_new: "well_typed A (RangeIndex_new k)"
  by (simp add: well_typed_def RangeIndex_new_def)

lemma typed_step_done:
  assumes "well_typed A r" "rx_key_type r \<in> set integer_kinds" "right_size A (rx_key_type r) p"
  shows "\<exists>r'. typed_step A r p = Done r' \<and> rx_key_type r' = rx_key_type r \<and> well_typed A r' \<and>
    records (rx_impl r') = typed_spec A (rx_key_type r) (records (rx_impl r)) p"
  using assms
  by (cases p)
    (auto simp: insert_as_def erase_as_def erase_key_as_def rx_insert_def rx_erase_def rx_erase_key_def rx_clear_def impl_clear_def
      member_defs checked_key_iff well_typed_def records_insert records_impl_erase records_erase_key read_as_value impl_insert_ok impl_erase_ok
      impl_erase_key_ok)

lemma typed_step_fail: "\<not> right_size A (rx_key_type r) p \<Longrightarrow> typed_step A r p = Fail CheckFailed"
  by (cases p)
    (auto simp: insert_as_def erase_as_def erase_key_as_def rx_insert_def rx_erase_def rx_erase_key_def checked_key_iff)

lemma run_typed_sound:
  assumes "well_typed A r" "rx_key_type r \<in> set integer_kinds"
  shows "case run_typed A ps r of
      Done r' \<Rightarrow> (\<forall>p\<in>set ps. right_size A (rx_key_type r) p) \<and> rx_key_type r' = rx_key_type r \<and> well_typed A r' \<and>
        records (rx_impl r') = foldl (typed_spec A (rx_key_type r)) (records (rx_impl r)) ps
    | Fail e \<Rightarrow> e = CheckFailed \<and> (\<exists>p\<in>set ps. \<not> right_size A (rx_key_type r) p)"
  using assms
proof (induction ps arbitrary: r)
  case (Cons p ps)
  show ?case
  proof (cases "right_size A (rx_key_type r) p")
    case True
    from typed_step_done [OF Cons.prems this] obtain r1 where
      1: "typed_step A r p = Done r1" "rx_key_type r1 = rx_key_type r" "well_typed A r1"
        "records (rx_impl r1) = typed_spec A (rx_key_type r) (records (rx_impl r)) p" by blast
    from Cons.IH [of r1] 1 Cons.prems(2) True show ?thesis by (auto split: outcome.splits)
  qed (auto simp: typed_step_fail)
qed simp

lemma search_as_found:
  assumes "sizeof_kind A K = sizeof_kind A (rx_key_type r)"
  shows "\<exists>found. search_as A K key r results = Done (results @ found) \<and>
    set found = {obj. (read_as A (rx_key_type r) key, obj) \<in> records (rx_impl r)}"
  using assms
  by (auto simp: search_as_def rx_search_def member_defs checked_key_iff impl_search_def records_iff split: option.split)

text \<open>
  A query without a lower end starts at \<open>numeric_limits::min()\<close>, which for \<open>float\<close> and \<open>double\<close> is the smallest positive
  number: keys below it, the negative ones and zero there, are not found.\<close>

theorem unbounded_query_misses:
  assumes "index_ok index" "rq_lower query = []" "\<And>key. (key, obj) \<in> records index \<Longrightarrow> key < limit_min T"
  shows "obj \<notin> set (fst (search_query T index query []))"
proof
  assume "obj \<in> set (fst (search_query T index query []))"
  then obtain upper where
    "obj \<in> set (range_search index (limit_min T) (rq_lower_open query) upper (rq_upper_open query) [])"
    using assms(2) by (auto simp: search_query_def split: option.splits if_splits)
  moreover have "smap_ok index" using assms(1) by (simp add: index_ok_def)
  ultimately obtain key files where
    f: "(key, files) \<in> set index" "obj \<in> set files" "in_range (limit_min T) (rq_lower_open query) upper (rq_upper_open query) key"
    by (auto simp: range_search_filter)
  have "map_of index key = Some files" using f(1) smap_ok_distinct [OF \<open>smap_ok index\<close>] by simp
  with f(2) have "(key, obj) \<in> records index" by (auto simp: records_iff)
  with assms(3) f(3) show False by (auto simp: in_range_def split: if_splits dest: leD less_asym)
qed

section \<open>Properties\<close>

text \<open>
  C28: Integer indices stay well typed, whatever types their callers use. Starting from a new index of an integer key type, a
  sequence of typed insertions and erasures ends in a failed check exactly when some key has another size than the
  index's keys; otherwise every key in the index is a value of its type, the records are those the calls describe with each
  key read as a value of that type, the sizes count them, and a typed search finds exactly the objects of its key so read. A key is read as itself exactly
  when it is a value of the index's type, so a caller of the same size and other signedness can store a different one.\<close>

theorem typed_index_sound:
  assumes "k \<in> set integer_kinds"
  shows "(case run_typed A ps (RangeIndex_new k) of
      Fail e \<Rightarrow> e = CheckFailed \<and> (\<exists>p\<in>set ps. \<not> right_size A k p)
    | Done r \<Rightarrow> (\<forall>p\<in>set ps. right_size A k p) \<and> rx_key_type r = k \<and> index_ok (rx_impl r) \<and>
        (\<forall>(key, obj)\<in>records (rx_impl r). value_of_kind A k key) \<and> records (rx_impl r) = foldl (typed_spec A k) {} ps \<and>
        RangeIndex_size r = card (records (rx_impl r)) \<and> RangeIndex_num_keys r = card (fst ` records (rx_impl r)) \<and>
        (RangeIndex_empty r \<longleftrightarrow> records (rx_impl r) = {}) \<and>
        (\<forall>K key. sizeof_kind A K = sizeof_kind A k \<longrightarrow>
          (\<exists>found. search_as A K key r [] = Done found \<and> set found = {obj. (read_as A k key, obj) \<in> records (rx_impl r)}))) \<and>
    (\<forall>key. read_as A k key = key \<longleftrightarrow> value_of_kind A k key)"
proof -
  have n: "rx_key_type (RangeIndex_new k) = k" "rx_impl (RangeIndex_new k) = []" by (simp_all add: RangeIndex_new_def)
  note s = run_typed_sound [OF well_typed_new, where k1 = k and A = A and ps = ps, unfolded n, OF assms]
  show ?thesis
  proof (cases "run_typed A ps (RangeIndex_new k)")
    case (Done r)
    with s have d: "rx_key_type r = k" "well_typed A r" "\<forall>p\<in>set ps. right_size A k p"
      "records (rx_impl r) = foldl (typed_spec A k) {} ps" by auto
    then have i: "index_ok (rx_impl r)" by (simp add: well_typed_def)
    from d Done search_as_found [of A _ r _ "[]"] read_as_same [OF assms, of A] impl_size_records [OF i] num_keys_records [OF i] show ?thesis
      unfolding well_typed_def by (simp add: d(1) RangeIndex_size_def RangeIndex_num_keys_def RangeIndex_empty_def)
  qed (use s read_as_same [OF assms, of A] in auto)
qed

theorem typed_index_sound_witness:
  "\<exists>r. run_typed \<lparr>char_signed = True, sizeof_string = 32\<rparr> [TInsert KUint32 4294967295 7] (RangeIndex_new KInt32) = Done r \<and>
     records (rx_impl r) = {(-1, 7)} \<and>
   run_typed \<lparr>char_signed = True, sizeof_string = 32\<rparr> [TInsert KInt64 5 7] (RangeIndex_new KInt32) = Fail CheckFailed"
proof -
  let ?A = "\<lparr>char_signed = True, sizeof_string = 32\<rparr>"
  have k: "KInt32 \<in> set integer_kinds" by (simp add: integer_kinds_def)
  have "read_as ?A KInt32 4294967295 = -1" by (simp add: read_as_def signed_kind_def)
  then show ?thesis
    using typed_index_sound [OF k, of "[TInsert KUint32 4294967295 7]" ?A] typed_index_sound [OF k, of "[TInsert KInt64 5 7]" ?A]
    by (auto split: outcome.splits)
qed

end
