(* ===== verification/Hash_Index.thy ===== *)
theory Hash_Index
  imports Typed_Index
begin

text \<open>
  Hash indices (\<open>HashIndexInterface\<close> and \<open>HashIndex\<close> in \<open>vsfs/index/hash_index.h\<close>). The templates of the interface check that the caller's
  key type is the one the index was made for and pass the key on as a pointer; the type ids are those of \<open>vobla::TypeToInt\<close>. An unordered
  map is kept in the order of its keys, which no operation shows.
\<close>

section \<open>Operations\<close>

record 'k HashIndex =
  hi_impl :: "'k index_map"
  hi_key_type :: int

definition HashIndex_new :: "int \<Rightarrow> 'k HashIndex" where
  "HashIndex_new type_of_key = \<lparr>hi_impl = [], hi_key_type = type_of_key\<rparr>"

definition HashIndex_empty :: "'k HashIndex \<Rightarrow> bool" where
  "HashIndex_empty hi = impl_empty (hi_impl hi)"

definition hash_insert_internal :: "'k::linorder \<Rightarrow> ObjectId \<Rightarrow> 'k HashIndex \<Rightarrow> 'k HashIndex" where
  "hash_insert_internal key obj_id hi = hi\<lparr>hi_impl := impl_insert key obj_id (hi_impl hi)\<rparr>"

definition hash_erase_key_internal :: "'k \<Rightarrow> 'k HashIndex \<Rightarrow> 'k HashIndex" where
  "hash_erase_key_internal key hi = hi\<lparr>hi_impl := impl_erase_key key (hi_impl hi)\<rparr>"

definition hash_erase_internal :: "'k::linorder \<Rightarrow> ObjectId \<Rightarrow> 'k HashIndex \<Rightarrow> 'k HashIndex" where
  "hash_erase_internal key obj_id hi = hi\<lparr>hi_impl := impl_erase key obj_id (hi_impl hi)\<rparr>"

definition hash_search_internal :: "'k \<Rightarrow> 'k HashIndex \<Rightarrow> ObjectId list \<Rightarrow> ObjectId list" where
  "hash_search_internal key hi results = impl_search (hi_impl hi) key results"

definition HashIndex_insert :: "int \<Rightarrow> 'k::linorder HashIndex \<Rightarrow> 'k \<Rightarrow> ObjectId \<Rightarrow> 'k HashIndex outcome" where
  "HashIndex_insert type_of_k hi key obj_id =
     (if type_of_k \<noteq> hi_key_type hi then Fail CheckFailed else Done (hash_insert_internal key obj_id hi))"

definition HashIndex_erase_key :: "int \<Rightarrow> 'k HashIndex \<Rightarrow> 'k \<Rightarrow> 'k HashIndex outcome" where
  "HashIndex_erase_key type_of_k hi key =
     (if type_of_k \<noteq> hi_key_type hi then Fail CheckFailed else Done (hash_erase_key_internal key hi))"

definition HashIndex_erase :: "int \<Rightarrow> 'k::linorder HashIndex \<Rightarrow> 'k \<Rightarrow> ObjectId \<Rightarrow> 'k HashIndex outcome" where
  "HashIndex_erase type_of_k hi key obj_id =
     (if type_of_k \<noteq> hi_key_type hi then Fail CheckFailed else Done (hash_erase_internal key obj_id hi))"

definition HashIndex_search :: "int \<Rightarrow> 'k HashIndex \<Rightarrow> 'k \<Rightarrow> ObjectId list \<Rightarrow> ObjectId list outcome" where
  "HashIndex_search type_of_k hi key results =
     (if type_of_k \<noteq> hi_key_type hi then Fail CheckFailed else Done (hash_search_internal key hi results))"

definition HashIndex_apply ::
  "'k::linorder key_traits \<Rightarrow> 'k HashIndex \<Rightarrow> RpcIndexRecordUpdateOp list \<Rightarrow> ('k HashIndex \<times> Status) outcome" where
  "HashIndex_apply T hi us =
     bindo (apply_updates T (hi_impl hi) us) (\<lambda>(ix, status). Done (hi\<lparr>hi_impl := ix\<rparr>, status))"

section \<open>Sequences of calls\<close>

datatype 'k hash_op = HInsert int 'k ObjectId | HErase int 'k ObjectId | HEraseKey int 'k

fun hash_step :: "'k::linorder HashIndex \<Rightarrow> 'k hash_op \<Rightarrow> 'k HashIndex outcome" where
  "hash_step hi (HInsert t key obj) = HashIndex_insert t hi key obj"
| "hash_step hi (HErase t key obj) = HashIndex_erase t hi key obj"
| "hash_step hi (HEraseKey t key) = HashIndex_erase_key t hi key"

fun run_hash :: "'k::linorder hash_op list \<Rightarrow> 'k HashIndex \<Rightarrow> 'k HashIndex outcome" where
  "run_hash [] hi = Done hi"
| "run_hash (p # ps) hi = bindo (hash_step hi p) (run_hash ps)"

fun hash_type :: "'k hash_op \<Rightarrow> int" where
  "hash_type (HInsert t key obj) = t"
| "hash_type (HErase t key obj) = t"
| "hash_type (HEraseKey t key) = t"

fun hash_spec :: "('k \<times> ObjectId) set \<Rightarrow> 'k hash_op \<Rightarrow> ('k \<times> ObjectId) set" where
  "hash_spec R (HInsert t key obj) = insert (key, obj) R"
| "hash_spec R (HErase t key obj) = R - {(key, obj)}"
| "hash_spec R (HEraseKey t key) = {p \<in> R. fst p \<noteq> key}"

lemmas hash_defs = HashIndex_insert_def HashIndex_erase_def HashIndex_erase_key_def hash_insert_internal_def hash_erase_internal_def
  hash_erase_key_internal_def

lemma hash_step_fail: "hash_type p \<noteq> hi_key_type hi \<Longrightarrow> hash_step hi p = Fail CheckFailed"
  by (cases p) (simp_all add: hash_defs)

lemma hash_step_done:
  assumes "hash_type p = hi_key_type hi" "index_ok (hi_impl hi)"
  shows "\<exists>hi'. hash_step hi p = Done hi' \<and> hi_key_type hi' = hi_key_type hi \<and> index_ok (hi_impl hi') \<and>
    records (hi_impl hi') = hash_spec (records (hi_impl hi)) p"
  using assms
  by (cases p) (simp_all add: hash_defs impl_insert_ok impl_erase_ok impl_erase_key_ok records_insert records_impl_erase records_erase_key)

lemma run_hash_sound:
  assumes "index_ok (hi_impl hi)"
  shows "case run_hash ps hi of
      Done hi' \<Rightarrow> (\<forall>p\<in>set ps. hash_type p = hi_key_type hi) \<and> hi_key_type hi' = hi_key_type hi \<and> index_ok (hi_impl hi') \<and>
        records (hi_impl hi') = foldl hash_spec (records (hi_impl hi)) ps
    | Fail e \<Rightarrow> e = CheckFailed \<and> (\<exists>p\<in>set ps. hash_type p \<noteq> hi_key_type hi)"
  using assms
proof (induction ps arbitrary: hi)
  case (Cons p ps)
  show ?case
  proof (cases "hash_type p = hi_key_type hi")
    case True
    from hash_step_done [OF True Cons.prems] obtain h1 where
      1: "hash_step hi p = Done h1" "hi_key_type h1 = hi_key_type hi" "index_ok (hi_impl h1)"
        "records (hi_impl h1) = hash_spec (records (hi_impl hi)) p" by blast
    from Cons.IH [OF 1(3)] 1 True show ?thesis by (auto split: outcome.splits)
  qed (auto simp: hash_step_fail)
qed simp

text \<open>
  A sequence of calls on a new hash index fails a check exactly when some caller's key type is not the index's; otherwise the records
  are those the calls describe, the index is empty exactly when there are none, and a search of a key finds exactly its objects.\<close>

theorem hash_index_sound:
  "case run_hash ps (HashIndex_new t) of
     Fail e \<Rightarrow> e = CheckFailed \<and> (\<exists>p\<in>set ps. hash_type p \<noteq> t)
   | Done hi \<Rightarrow> (\<forall>p\<in>set ps. hash_type p = t) \<and> records (hi_impl hi) = foldl hash_spec {} ps \<and>
       (HashIndex_empty hi \<longleftrightarrow> foldl hash_spec {} ps = {}) \<and>
       (\<forall>key. \<exists>found. HashIndex_search t hi key [] = Done found \<and> set found = {obj. (key, obj) \<in> foldl hash_spec {} ps})"
proof -
  have n: "hi_impl (HashIndex_new t) = []" "hi_key_type (HashIndex_new t) = t" by (simp_all add: HashIndex_new_def)
  from run_hash_sound [of "HashIndex_new t" ps] show ?thesis
    by (auto simp: n HashIndex_empty_def num_keys_records HashIndex_search_def hash_search_internal_def impl_search_records split: outcome.splits)
qed

end
