(* ===== verification/Directories.thy ===== *)
theory Directories
  imports Mount Membership
begin

text \<open>
  Directories through the client, as files in \<open>Client\<close> and \<open>Cluster\<close>: the contract \<open>directory_service\<close> extends that of files by
  \<open>mkdir\<close> and \<open>rmdir\<close> of the masters, the client's lemmas are proved in it, and the masters of a cluster are shown to
  keep it. The start of the FUSE front end, which makes the root directory, rests on them.
\<close>

section \<open>The contract\<close>

text \<open>A mode that \<open>mkdir\<close> is sent with no other file type than that of a directory.\<close>

definition dir_mode :: "int \<Rightarrow> bool" where
  "dir_mode md \<longleftrightarrow> (let v = i64_to_i32 (md OR 0x4000) in v AND S_IFMT = 0 \<or> v AND S_IFMT = S_IFDIR)"

abbreviation dir_info :: "int \<Rightarrow> int \<Rightarrow> int \<Rightarrow> RpcFileInfo" where
  "dir_info md u g \<equiv> RpcFileInfo_default\<lparr>fi_uid := Some u, fi_gid := Some g, fi_mode := Some (md OR 0x4000)\<rparr>"

locale directory_service = file_service rpc alive valid_path free file_at dir_at
  for rpc :: "'w rpc_api" and alive valid_path free file_at dir_at +
  fixes vacant :: "'w \<Rightarrow> RpcNodeAddress \<Rightarrow> string \<Rightarrow> bool"
  assumes mkdir_replies: "alive w a \<Longrightarrow> valid_path p \<Longrightarrow> vacant w a p \<Longrightarrow> dir_mode md \<Longrightarrow>
      \<exists>w'. m_mkdir rpc a p (dir_info md u g) w = (w', Reply ()) \<and> alive w' = alive w \<and> file_at w' = file_at w \<and>
        dir_at w' = (dir_at w)(a := (dir_at w a)(p \<mapsto> []))"
    and mkdir_refused: "alive w a \<Longrightarrow> valid_path p \<Longrightarrow> dir_at w a p \<noteq> None \<Longrightarrow> \<exists>e. m_mkdir rpc a p info w = (w, Refused e)"
    and rmdir_replies: "alive w a \<Longrightarrow> dir_at w a p = Some [] \<Longrightarrow>
      \<exists>w'. m_rmdir rpc a p w = (w', Reply ()) \<and> alive w' = alive w \<and> file_at w' = file_at w \<and>
        dir_at w' = (dir_at w)(a := (dir_at w a)(p := None))"
    and vacant_no_dir: "alive w a \<Longrightarrow> vacant w a p \<Longrightarrow> dir_at w a p = None"
begin

lemma mkdir_linked:
  assumes "placed E c w path a d" "vacant w a path" "dir_mode md"
    and "dir_at w d (parent_path (cl_paths E) path) = Some fs" "filename (cl_paths E) path \<notin> set fs"
  shows "\<exists>w'. cl_mkdir E c path md u g w = Done (w', OK) \<and> alive w' = alive w \<and> file_at w' = file_at w \<and>
    dir_at w' = (let m = (dir_at w)(a := (dir_at w a)(path \<mapsto> [])) in
      m(d := (m d)(parent_path (cl_paths E) path \<mapsto> sset_insert (filename (cl_paths E) path) fs))) \<and>
    (\<exists>v. m_mkdir rpc a path (dir_info md u g) w = (v, Reply ()) \<and>
      m_add_subfile rpc d (parent_path (cl_paths E) path) (filename (cl_paths E) path) v = (w', Reply ()))"
proof -
  let ?d = "parent_path (cl_paths E) path" and ?f = "filename (cl_paths E) path"
  note p = assms(1) [unfolded placed_def found_node_iff]
  have up: "alive w a" "valid_path path" using p by simp_all
  from mkdir_replies [OF up assms(2,3), where u = u and g = g] obtain w1 where
    1: "m_mkdir rpc a path (dir_info md u g) w = (w1, Reply ())" "alive w1 = alive w" "file_at w1 = file_at w"
      "dir_at w1 = (dir_at w)(a := (dir_at w a)(path \<mapsto> []))" by blast
  have "\<not> (d = a \<and> ?d = path)" using vacant_no_dir [OF up(1) assms(2)] assms(4) by auto
  then have "alive w1 d" "dir_at w1 d ?d = Some fs" using p 1 assms(4) by auto
  from link_replies [OF this(1) _ this(2) assms(5)] p obtain w2 where
    2: "m_add_subfile rpc d ?d ?f w1 = (w2, Reply ())" "alive w2 = alive w1" "file_at w2 = file_at w1"
      "dir_at w2 = (dir_at w1)(d := (dir_at w1 d)(?d \<mapsto> sset_insert ?f fs))" by blast
  have "cl_mkdir E c path md u g w = Done (w2, OK)"
    using p 1(1) subfile_loop_first [of "m_add_subfile rpc d ?d ?f" w1, OF 2(1)]
    by (auto simp: cl_mkdir_def cl_add_subfile_def found_node_def returned_def both_caught_def Let_def)
  with 1 2 show ?thesis by (auto simp: Let_def)
qed

lemma rmdir_linked:
  assumes "placed E c w path a d" "dir_at w a path = Some []"
    and "dir_at w d (parent_path (cl_paths E) path) = Some fs" "filename (cl_paths E) path \<in> set fs"
  shows "\<exists>w'. cl_rmdir E c path w = Done (w', OK) \<and> alive w' = alive w \<and> file_at w' = file_at w \<and>
    dir_at w' = (let m = (dir_at w)(a := (dir_at w a)(path := None)) in
      m(d := (m d)(parent_path (cl_paths E) path \<mapsto> sset_erase (filename (cl_paths E) path) fs)))"
proof -
  let ?d = "parent_path (cl_paths E) path" and ?f = "filename (cl_paths E) path"
  note p = assms(1) [unfolded placed_def found_node_iff]
  from rmdir_replies [OF _ assms(2)] p obtain w1 where
    1: "m_rmdir rpc a path w = (w1, Reply ())" "alive w1 = alive w" "file_at w1 = file_at w"
      "dir_at w1 = (dir_at w)(a := (dir_at w a)(path := None))" by auto
  have "\<not> (d = a \<and> ?d = path)" using assms(2-4) by auto
  then have "alive w1 d" "dir_at w1 d ?d = Some fs" using p 1 assms(3) by auto
  from unlink_replies [OF this assms(4)] obtain w2 where
    2: "m_remove_subfile rpc d ?d ?f w1 = (w2, Reply ())" "alive w2 = alive w1" "file_at w2 = file_at w1"
      "dir_at w2 = (dir_at w1)(d := (dir_at w1 d)(?d \<mapsto> sset_erase ?f fs))" by blast
  have "cl_rmdir E c path w = Done (w2, OK)"
    using p 1(1) subfile_loop_first [of "m_remove_subfile rpc d ?d ?f" w1, OF 2(1)]
    by (auto simp: cl_rmdir_def cl_remove_subfile_def found_node_def returned_def both_caught_def Let_def)
  with 1 2 show ?thesis by (auto simp: Let_def)
qed

lemma mkdir_seen:
  assumes "placed E c w path a d" "vacant w a path" "dir_mode md"
    and "dir_at w d (parent_path (cl_paths E) path) = Some fs" "filename (cl_paths E) path \<notin> set fs"
  shows "\<exists>w1. cl_mkdir E c path md u g w = Done (w1, OK) \<and> cl_readdir E c path w1 = Done (w1, Inr []) \<and>
    cl_readdir E c (parent_path (cl_paths E) path) w1 = Done (w1, Inr (sset_insert (filename (cl_paths E) path) fs)) \<and>
    (\<exists>w2. cl_rmdir E c path w1 = Done (w2, OK) \<and> file_at w2 = file_at w \<and> dir_at w2 = dir_at w)"
proof -
  let ?d = "parent_path (cl_paths E) path" and ?f = "filename (cl_paths E) path"
  note p = assms(1) [unfolded placed_def]
  have n: "dir_at w a path = None" "\<not> (d = a \<and> ?d = path)" using vacant_no_dir [of w a path] p assms(2,4) by auto
  from mkdir_linked [OF assms, of u g] obtain w1 where
    1: "cl_mkdir E c path md u g w = Done (w1, OK)" "alive w1 = alive w" "file_at w1 = file_at w"
      "dir_at w1 = (let m = (dir_at w)(a := (dir_at w a)(path \<mapsto> [])) in m(d := (m d)(?d \<mapsto> sset_insert ?f fs)))" by blast
  have p1: "placed E c w1 path a d" using assms(1) 1(2) by (simp add: placed_def)
  have d1: "dir_at w1 a path = Some []" "dir_at w1 d ?d = Some (sset_insert ?f fs)" using 1(4) n(2) by (auto simp: Let_def)
  from rmdir_linked [OF p1 d1] obtain w2 where
    2: "cl_rmdir E c path w1 = Done (w2, OK)" "file_at w2 = file_at w1"
      "dir_at w2 = (let m = (dir_at w1)(a := (dir_at w1 a)(path := None)) in m(d := (m d)(?d \<mapsto> sset_erase ?f (sset_insert ?f fs))))"
    by auto
  have "sset_erase ?f (sset_insert ?f fs) = fs"
    using dirs_sorted [of w d ?d fs] p assms(4,5) by (intro sset_eqI sset_ok_erase sset_ok_insert) auto
  then have "dir_at w2 = dir_at w" using 2(3) 1(4) n assms(4) by (auto simp: Let_def fun_eq_iff)
  moreover have "cl_readdir E c path w1 = Done (w1, Inr [])"
    "cl_readdir E c ?d w1 = Done (w1, Inr (sset_insert ?f fs))"
    using p 1(2) readdir_replies [of w1 a path "[]"] readdir_replies [of w1 d ?d "sset_insert ?f fs"] d1
    by (simp_all add: cl_readdir_def on_master_def both_caught_def)
  ultimately show ?thesis using 1(1,3) 2(1,2) by auto
qed

text \<open>The root directory has no parent to be linked in.\<close>

lemma mkdir_root:
  assumes "cl_rpc E = rpc" "is_initialized E c" "master_of E c ''/'' = Inr node" "alive w (address node)" "valid_path ''/''"
    and "vacant w (address node) ''/'' \<or> dir_at w (address node) ''/'' \<noteq> None" "dir_mode md"
  shows "\<exists>w' status fs. cl_mkdir E c ''/'' md u g w = Done (w', status) \<and> alive w' = alive w \<and> file_at w' = file_at w \<and>
    dir_at w' (address node) ''/'' = Some fs"
proof (cases "dir_at w (address node) ''/'' = None")
  case True
  with mkdir_replies [OF assms(4,5) _ assms(7), where u = u and g = g] assms(6) obtain w1 where
    "m_mkdir rpc (address node) ''/'' (dir_info md u g) w = (w1, Reply ())" "alive w1 = alive w" "file_at w1 = file_at w"
    "dir_at w1 = (dir_at w)(address node := (dir_at w (address node))(''/'' \<mapsto> []))" by blast
  with assms(1-3) show ?thesis by (simp add: cl_mkdir_def cl_add_subfile_def both_caught_def Let_def)
next
  case False
  from mkdir_refused [OF assms(4,5) this, of "dir_info md u g"] obtain e where
    "m_mkdir rpc (address node) ''/'' (dir_info md u g) w = (w, Refused e)" by blast
  with assms(1-3) False show ?thesis by (auto simp: cl_mkdir_def both_caught_def Let_def)
qed

end

section \<open>The masters of a cluster\<close>

definition node_vacant :: "('s, 'q, 'r, 'f) cluster \<Rightarrow> RpcNodeAddress \<Rightarrow> string \<Rightarrow> bool" where
  "node_vacant w a p \<longleftrightarrow> (\<exists>m. masters w a = Some m \<and> metadata_map (mc_namespace m) p = None)"

lemma mkdir_returns:
  assumes "ns_writable E s" "ns_inv s" "metadata_map s p = None" "md AND S_IFMT = 0 \<or> md AND S_IFMT = S_IFDIR"
  shows "\<exists>s' meta. mkdir E now s p md u g = Done (s', OK) \<and> ns_inv s' \<and> ns_writable E s' \<and>
    directories s' = (directories s)(p \<mapsto> []) \<and> metadata_map s' = (metadata_map s)(p \<mapsto> meta) \<and> S_ISDIR (mode meta)"
proof -
  have d: "dirs_inv s" using assms(2) by (simp add: ns_inv_def)
  let ?meta = "\<lparr>object_id = 0, mode = md OR S_IFDIR, gid = g, uid = u, fsize = 0, atime = now, ctime = now, mtime = now\<rparr>"
  obtain st where st: "kv_put (env_kv E) (ns_store s) p (serialize E ?meta) = Done (st, OK)" "accepts_writes (env_kv E) st"
    using assms(1) by (rule accepts_put)
  then obtain s' where c: "mkdir E now s p md u g = Done (s', OK)" "ns_store s' = st"
    using assms(3) by (simp add: mkdir_def store_metadata_def Let_def)
  from c(1) d show ?thesis
  proof (cases rule: mkdir_cases)
    case (3 st meta)
    moreover have "S_ISDIR (mode meta)" using assms(4) 3(3) by (simp add: S_ISDIR_mkdir)
    ultimately show ?thesis using c st(2) mkdir_inv [OF assms(2,4) c(1)] by auto
  qed auto
qed

lemma rmdir_returns:
  assumes "ns_writable E s" "ns_inv s" "directories s p = Some []"
  shows "\<exists>s'. rmdir E s p = Done (s', OK) \<and> ns_inv s' \<and> ns_writable E s' \<and> directories s' = (directories s)(p := None) \<and>
    metadata_map s' = (metadata_map s)(p := None)"
proof -
  obtain st where st: "kv_remove (env_kv E) (ns_store s) p = Done (st, OK)" "accepts_writes (env_kv E) st"
    using assms(1) by (rule accepts_remove)
  then have c: "rmdir E s p = Done (s\<lparr>ns_store := st, metadata_map := (metadata_map s)(p := None),
      directories := (directories s)(p := None)\<rparr>, OK)"
    using assms(3) by (simp add: rmdir_def Let_def)
  from rmdir_inv [OF assms(2) c] c st(2) show ?thesis by simp
qed

lemma node_dir_is_dir:
  assumes "node_alive CE w a" "node_dir w a p \<noteq> None" "masters w a = Some m"
  shows "\<exists>meta. metadata_map (mc_namespace m) p = Some meta \<and> S_ISDIR (mode meta)"
  using assms by (auto simp: node_alive_def node_dir_def ns_inv_def dirs_inv_def is_dir_def split: option.splits)

lemma node_file_none:
  assumes "masters w a = Some m" "node_file w a p = None"
  shows "(node_file w)(a := (node_file w a)(p := None)) = node_file w"
  using assms by (auto simp: fun_eq_iff)

lemma cluster_mkdir:
  assumes "node_alive CE w a" "is_valid_path (ce_master CE) p" "node_vacant w a p" "dir_mode md"
  shows "\<exists>w'. m_mkdir (cluster_rpc CE) a p (dir_info md u g) w = (w', Reply ()) \<and> node_alive CE w' = node_alive CE w \<and>
    node_file w' = node_file w \<and> node_dir w' = (node_dir w)(a := (node_dir w a)(p \<mapsto> []))"
proof -
  from assms(1) obtain m where m: "masters w a = Some m" "ns_inv (mc_namespace m) \<and> ns_writable (mc_ns (ce_master CE)) (mc_namespace m)" by (rule node_aliveE)
  then have d: "directories (mc_namespace m) = node_dir w a" by (auto simp: node_dir_def)
  have v: "metadata_map (mc_namespace m) p = None" using assms(3) m(1) by (auto simp: node_vacant_def)
  from mkdir_returns [OF conjunct2 [OF m(2)] conjunct1 [OF m(2)] v, of "i64_to_i32 (md OR 0x4000)" "clock CE w" "i64_to_i32 u" "i64_to_i32 g"] assms(4) obtain s' meta where
    c: "mkdir (mc_ns (ce_master CE)) (clock CE w) (mc_namespace m) p (i64_to_i32 (md OR 0x4000)) (i64_to_i32 u) (i64_to_i32 g) = Done (s', OK)"
      "ns_inv s' \<and> ns_writable (mc_ns (ce_master CE)) s'" "directories s' = (node_dir w a)(p \<mapsto> [])" "metadata_map s' = (metadata_map (mc_namespace m))(p \<mapsto> meta)"
      "S_ISDIR (mode meta)" unfolding d by (auto simp: dir_mode_def Let_def)
  have "m_mkdir (cluster_rpc CE) a p (dir_info md u g) w = (w\<lparr>masters := (masters w)(a \<mapsto> m\<lparr>mc_namespace := s'\<rparr>)\<rparr>, Reply ())"
    using m c(1) assms(2) by (simp add: handler_defs ms_mkdir_def mc_mkdir_def field_def)
  moreover have "node_file w a p = None" using m(1) v by (simp add: node_file_def)
  ultimately show ?thesis
    using node_update [OF m c(2)] node_file_put [OF m(1) c(4)] node_file_none [OF m(1)] c(3,5) by simp
qed

lemma cluster_mkdir_refused:
  assumes "node_alive CE w a" "is_valid_path (ce_master CE) p" "node_dir w a p \<noteq> None"
  shows "\<exists>e. m_mkdir (cluster_rpc CE) a p info w = (w, Refused e)"
proof -
  from assms(1) obtain m where m: "masters w a = Some m" by (rule node_aliveE)
  from node_dir_is_dir [OF assms(1,3) m] have "metadata_map (mc_namespace m) p \<noteq> None" by auto
  with m assms(2) show ?thesis by (simp add: handler_defs ms_mkdir_def mc_mkdir_def mkdir_def map_upd_triv)
qed

lemma cluster_rmdir:
  assumes "node_alive CE w a" "node_dir w a p = Some []"
  shows "\<exists>w'. m_rmdir (cluster_rpc CE) a p w = (w', Reply ()) \<and> node_alive CE w' = node_alive CE w \<and>
    node_file w' = node_file w \<and> node_dir w' = (node_dir w)(a := (node_dir w a)(p := None))"
proof -
  from assms(1) obtain m where m: "masters w a = Some m" "ns_inv (mc_namespace m) \<and> ns_writable (mc_ns (ce_master CE)) (mc_namespace m)" by (rule node_aliveE)
  then have d: "directories (mc_namespace m) = node_dir w a" by (auto simp: node_dir_def)
  from rmdir_returns [OF conjunct2 [OF m(2)] conjunct1 [OF m(2)]] assms(2) d obtain s' where
    c: "rmdir (mc_ns (ce_master CE)) (mc_namespace m) p = Done (s', OK)" "ns_inv s' \<and> ns_writable (mc_ns (ce_master CE)) s'"
      "directories s' = (node_dir w a)(p := None)" "metadata_map s' = (metadata_map (mc_namespace m))(p := None)" by metis
  have "m_rmdir (cluster_rpc CE) a p w = (w\<lparr>masters := (masters w)(a \<mapsto> m\<lparr>mc_namespace := s'\<rparr>)\<rparr>, Reply ())"
    using m c(1) by (simp add: handler_defs ms_rmdir_def mc_rmdir_def)
  moreover have "node_file w a p = None"
    using node_dir_is_dir [OF assms(1) _ m(1), of p] assms(2) m(1) by (auto simp: node_file_def)
  ultimately show ?thesis
    using node_update [OF m c(2)] node_file_put [OF m(1) c(4)] node_file_none [OF m(1)] c(3) by simp
qed

sublocale master_cluster \<subseteq> dirs: directory_service "cluster_rpc CE" "node_alive CE" "is_valid_path (ce_master CE)"
  node_free node_file node_dir node_vacant
proof
  show "node_dir w a p = None" if "node_alive CE w a" "node_vacant w a p" for w :: "('s, 'q, 'r, 'f) cluster" and a p
    using that node_dir_is_dir [OF that(1)] unfolding node_vacant_def by fastforce
qed (rule cluster_mkdir cluster_mkdir_refused cluster_rmdir; assumption)+

context master_cluster
begin

lemma cluster_mkdir_seen:
  assumes "cl_rpc E = cluster_rpc CE" "is_initialized E c" "path \<noteq> ''/''"
    and "is_valid_path (ce_master CE) path" "is_valid_path (ce_master CE) (parent_path (cl_paths E) path)"
    and "master_of E c path = Inr node" "master_of E c (parent_path (cl_paths E) path) = Inr pnode"
    and "node_alive CE w (address node)" "node_alive CE w (address pnode)" "node_vacant w (address node) path" "dir_mode md"
    and "node_dir w (address pnode) (parent_path (cl_paths E) path) = Some fs" "filename (cl_paths E) path \<notin> set fs"
  shows "\<exists>w1. cl_mkdir E c path md u g w = Done (w1, OK) \<and> cl_readdir E c path w1 = Done (w1, Inr []) \<and>
    cl_readdir E c (parent_path (cl_paths E) path) w1 = Done (w1, Inr (sset_insert (filename (cl_paths E) path) fs)) \<and>
    (\<exists>w2. cl_rmdir E c path w1 = Done (w2, OK) \<and> node_file w2 = node_file w \<and> node_dir w2 = node_dir w)"
proof -
  have "files.placed E c w path (address node) (address pnode)"
    using assms(1-9) by (simp add: files.placed_def files.found_node_iff)
  from dirs.mkdir_seen [OF this assms(10-13)] show ?thesis .
qed

lemma cluster_mkdir_root:
  assumes "cl_rpc E = cluster_rpc CE" "is_initialized E c" "master_of E c ''/'' = Inr node" "node_alive CE w (address node)"
    and "is_valid_path (ce_master CE) ''/''" "node_vacant w (address node) ''/'' \<or> node_dir w (address node) ''/'' \<noteq> None" "dir_mode md"
  shows "\<exists>w' status fs. cl_mkdir E c ''/'' md u g w = Done (w', status) \<and> node_alive CE w' = node_alive CE w \<and>
    node_file w' = node_file w \<and> node_dir w' (address node) ''/'' = Some fs"
  by (rule dirs.mkdir_root [OF assms])

end

section \<open>Properties\<close>

text \<open>
  C5: The whole way of a new directory through a cluster. In the setting of a path that no record of its master has, in an existing
  directory without the name, \<open>mkdir\<close> returns and succeeds; the client then reads the new directory as empty and finds the name in
  the parent; and \<open>rmdir\<close> returns, succeeds and leaves every file and directory of every master as it was before.\<close>

theorem client_mkdir_seen:
  assumes "cl_rpc E = cluster_rpc CE" "is_initialized E c" "path \<noteq> ''/''"
    and "is_valid_path (ce_master CE) path" "is_valid_path (ce_master CE) (parent_path (cl_paths E) path)"
    and "master_of E c path = Inr node" "master_of E c (parent_path (cl_paths E) path) = Inr pnode"
    and "node_alive CE w (address node)" "node_alive CE w (address pnode)" "node_vacant w (address node) path" "dir_mode md"
    and "node_dir w (address pnode) (parent_path (cl_paths E) path) = Some fs" "filename (cl_paths E) path \<notin> set fs"
  shows "\<exists>w1. cl_mkdir E c path md u g w = Done (w1, OK) \<and> cl_readdir E c path w1 = Done (w1, Inr []) \<and>
    cl_readdir E c (parent_path (cl_paths E) path) w1 = Done (w1, Inr (sset_insert (filename (cl_paths E) path) fs)) \<and>
    (\<exists>w2. cl_rmdir E c path w1 = Done (w2, OK) \<and> node_file w2 = node_file w \<and> node_dir w2 = node_dir w)"
  by (rule master_cluster.cluster_mkdir_seen [OF assms(1-13)])

lemma test_vacant: "node_vacant test_cluster_state node_b p"
  by (simp add: node_vacant_def test_cluster_state_def demo_master_def Namespace_new_def)

lemma dir_mode_777: "dir_mode 0x1FF"
  by (simp add: dir_mode_def i64_to_i32_def mode_defs)

theorem client_mkdir_seen_witness:
  "\<exists>w1 w2. cl_mkdir test_client_env test_client ''/f'' 0x1FF 0 0 test_cluster_state = Done (w1, OK) \<and>
     cl_readdir test_client_env test_client ''/f'' w1 = Done (w1, Inr []) \<and>
     cl_readdir test_client_env test_client ''/'' w1 = Done (w1, Inr [''f'']) \<and>
     cl_rmdir test_client_env test_client ''/f'' w1 = Done (w2, OK)"
  using client_mkdir_seen [OF test_client_simps(1,3), of "''/f''" _ _ test_cluster_state "0x1FF" "[]" 0 0]
    test_master_of test_alive test_nodes test_vacant dir_mode_777
  by (fastforce simp: test_client_simps test_paths)

end
