(* ===== verification/Index_Creation.thy ===== *)
theory Index_Creation
  imports Directories Search
begin

text \<open>
  Creating an index from the client: \<open>create_index\<close> of \<open>vsfs/client/vsfs_rpc_client.cpp\<close> on a cluster. It takes an index server, the
  directory \<open>.vsfs\<close>, the index namespace and namespace of a master, and the file of the first partition; the relation \<open>keeps_indices\<close>
  says what the steps on files leave alone.
\<close>

section \<open>What calls on files leave alone\<close>

definition keeps_indices :: "('s, 'q, 'r, 'f) cluster \<Rightarrow> ('s, 'q, 'r, 'f) cluster \<Rightarrow> bool" where
  "keeps_indices w w' \<longleftrightarrow> index_servers w' = index_servers w \<and>
     (\<forall>a m'. masters w' a = Some m' \<longrightarrow> (\<exists>m. masters w a = Some m \<and> index_namespace m' = index_namespace m))"

text \<open>The counter of object ids, which only the creation of files moves.\<close>

definition keeps_counters :: "('s, 'q, 'r, 'f) cluster \<Rightarrow> ('s, 'q, 'r, 'f) cluster \<Rightarrow> bool" where
  "keeps_counters w w' \<longleftrightarrow>
     (\<forall>a m'. masters w' a = Some m' \<longrightarrow> (\<exists>m. masters w a = Some m \<and> next_obj_id (mc_namespace m') = next_obj_id (mc_namespace m)))"

lemma keeps_indices_refl [simp]: "keeps_indices w w"
  by (simp add: keeps_indices_def)

lemma keeps_indices_trans [trans]: "keeps_indices u v \<Longrightarrow> keeps_indices v w \<Longrightarrow> keeps_indices u w"
  unfolding keeps_indices_def by metis

lemma keeps_counters_refl [simp]: "keeps_counters w w"
  by (simp add: keeps_counters_def)

lemma keeps_counters_trans [trans]: "keeps_counters u v \<Longrightarrow> keeps_counters v w \<Longrightarrow> keeps_counters u w"
  unfolding keeps_counters_def by metis

text \<open>A call that only works on the namespace of one master.\<close>

lemma at_master_cases:
  assumes "at_master CE f a w = (w', r)"
  obtains (down) "w' = w" | (ends) "w' = w\<lparr>masters := (masters w)(a := None)\<rparr>"
  | (goes_on) m m' y where "masters w a = Some m" "f m = Done (m', y)" "w' = w\<lparr>masters := (masters w)(a \<mapsto> m')\<rparr>"
proof (cases "masters w a")
  case (Some m)
  show thesis
  proof (cases "f m")
    case (Done x)
    with Some assms show thesis by (cases x) (auto simp: at_master_def deliver_def intro: goes_on)
  next
    case (Fail e)
    with Some assms show thesis by (intro ends) (simp add: at_master_def deliver_def)
  qed
qed (use assms down in \<open>simp add: at_master_def\<close>)

lemma at_master_keeps:
  assumes "at_master CE f a w = (w', r)" "\<And>m m' y. f m = Done (m', y) \<Longrightarrow> index_namespace m' = index_namespace m"
  shows "keeps_indices w w'"
  using assms(1) by (cases rule: at_master_cases) (auto simp: keeps_indices_def dest: assms(2))

lemma at_master_counters:
  assumes "at_master CE f a w = (w', r)"
    and "\<And>m m' y. f m = Done (m', y) \<Longrightarrow> next_obj_id (mc_namespace m') = next_obj_id (mc_namespace m)"
  shows "keeps_counters w w'"
  using assms(1) by (cases rule: at_master_cases) (auto simp: keeps_counters_def dest: assms(2))

lemma on_namespace_indices: "on_namespace c r = Done (c', x) \<Longrightarrow> index_namespace c' = index_namespace c"
  by (auto simp: on_namespace_def split: outcome.splits)

lemma mkdir_counter: "mkdir E now s p md u g = Done (s', r) \<Longrightarrow> next_obj_id s' = next_obj_id s"
  by (auto simp: mkdir_def store_metadata_def Let_def split: if_splits)

lemma add_subfile_counter: "add_subfile E s d f = Done (s', r) \<Longrightarrow> next_obj_id s' = next_obj_id s"
  by (auto simp: add_subfile_def Let_def split: if_splits option.splits)

lemma call_keeps:
  "m_mkdir (cluster_rpc CE) a p info w = (w', r) \<Longrightarrow> keeps_indices w w' \<and> keeps_counters w w'"
  "m_add_subfile (cluster_rpc CE) a p f w = (w', r) \<Longrightarrow> keeps_indices w w' \<and> keeps_counters w w'"
  by (auto simp: cluster_rpc_def Let_def ms_mkdir_def ms_add_subfile_def mc_mkdir_def mc_add_subfile_def reply_def on_namespace_def
      split: if_splits elim!: at_master_keeps at_master_counters)
    (rule mkdir_counter add_subfile_counter, assumption)+

lemma call_keeps_create: "m_create (cluster_rpc CE) a p md u g w = (w', x) \<Longrightarrow> keeps_indices w w'"
  by (auto simp: cluster_rpc_def Let_def ms_create_def mc_create_def reply_value_def on_namespace_def
      split: if_splits elim!: at_master_keeps)

section \<open>The steps\<close>

text \<open>Nothing at a path is no file and no directory there.\<close>

lemma vacant_iff:
  assumes "node_alive CE w a"
  shows "node_vacant w a p \<longleftrightarrow> node_file w a p = None \<and> node_dir w a p = None"
proof -
  from assms obtain m where m: "masters w a = Some m" "ns_inv (mc_namespace m)" by (auto elim: node_aliveE)
  then have "directories (mc_namespace m) p = None \<longleftrightarrow> \<not> is_dir (mc_namespace m) p" unfolding ns_inv_def dirs_inv_def by blast
  with m(1) show ?thesis
    by (auto simp: node_vacant_def node_file_def node_dir_def is_dir_def split: option.splits)
qed

lemma free_iff:
  assumes "node_alive CE w a"
  shows "node_free w a p \<longleftrightarrow> node_vacant w a p \<and> (\<exists>m. masters w a = Some m \<and> unat (next_obj_id (mc_namespace m)) < 2 ^ 48)"
  by (auto simp: node_free_def node_vacant_def)

text \<open>The index server.\<close>

lemma cluster_create_range:
  assumes "index_servers w a = Some im" "map_of (index_info_map im) (cr_root req) = None" "cr_root req \<noteq> []" "cr_name req \<noteq> []"
    and "cr_index_type req = BTREE" "create_range_index (type_ids (ce_index CE)) (cr_key_type req) = Some k" "k \<notin> {KString, KFloat, KDouble}"
  shows "\<exists>im'. i_create_index (cluster_rpc CE) a req w = (w\<lparr>index_servers := (index_servers w)(a \<mapsto> im')\<rparr>, Reply ()) \<and>
    keeps (ce_index CE) (\<lambda>_. k) (\<lambda>_. []) im' (cr_root req)"
proof -
  let ?p = "cr_root req"
  let ?im = "im\<lparr>index_info_map := smap_put ?p
        \<lparr>info_path = ?p, info_index_name = cr_name req, info_index_type = BTREE, info_key_type = cr_key_type req\<rparr> (index_info_map im),
      range_index_map := smap_put ?p
        (RangeIndexWrapper_new (ce_index CE) (get_index_file_base_path (ce_index CE) im ?p) (new_range_index k) True) (range_index_map im)\<rparr>"
  have "im_create (ce_index CE) 0 ?p (cr_name req) BTREE (cr_key_type req) im = (?im, OK)"
    using assms by (simp add: im_create_def)
  then have "i_create_index (cluster_rpc CE) a req w = (w\<lparr>index_servers := (index_servers w)(a \<mapsto> ?im)\<rparr>, Reply ())"
    using assms(1,5) by (simp add: cluster_rpc_def Let_def at_index_def deliver_def server_create_index_def ic_create_index_def check_status_def)
  moreover have "keeps (ce_index CE) (\<lambda>_. k) (\<lambda>_. []) ?im ?p"
    using served_new [OF assms(7)] by (simp add: keeps_def get_index_info_def)
  ultimately show ?thesis by blast
qed

text \<open>The master of the index.\<close>

lemma cluster_create_index:
  assumes "ix_writable (ce_master CE) (index_namespace m)" "node_alive CE w a" "masters w a = Some m"
    and "nodes_inv (index_namespace m)" "cleanup_path (cr_root req) = Done key" "(key, cr_name req) \<notin> ix_abs (index_namespace m)"
    and "ip = index_path (env_paths (mc_ns (ce_master CE))) (cr_root req) (cr_name req)" "node_vacant w a ip"
    and "i64_to_i32 (cr_mode req) AND S_IFMT = 0 \<or> i64_to_i32 (cr_mode req) AND S_IFMT = S_IFDIR"
  shows "\<exists>w' m'. m_create_index (cluster_rpc CE) a req w = (w', Reply ()) \<and> w' = w\<lparr>masters := (masters w)(a \<mapsto> m')\<rparr> \<and>
    nodes_inv (index_namespace m') \<and> (key, cr_name req) \<in> ix_abs (index_namespace m') \<and> keeps_counters w w' \<and>
    node_alive CE w' = node_alive CE w \<and> node_file w' = node_file w \<and> node_dir w' = (node_dir w)(a := (node_dir w a)(ip \<mapsto> []))"
proof -
  let ?E = "ce_master CE"
  from assms(2,3) have inv: "ns_inv (mc_namespace m)" "ns_writable (mc_ns ?E) (mc_namespace m)" by (auto simp: node_alive_def)
  then have d: "directories (mc_namespace m) = node_dir w a" using assms(3) by (simp add: node_dir_def fun_eq_iff)
  from ix_insert_writes [OF assms(1,4,5), of "cr_name req"] assms(6) obtain x where
    x: "ix_step (mc_ix ?E) (index_namespace m) (Ix_Insert (cr_root req) (cr_name req)) = Done (x, OK)" by auto
  have nx: "nodes_inv x" using ix_step_refines [OF assms(4) x] by simp
  have "(key, cr_name req) \<in> ix_abs x" using ix_insert_abs [OF assms(4) x] assms(5) by auto
  moreover have "metadata_map (mc_namespace m) ip = None" using assms(3,8) by (auto simp: node_vacant_def)
  from mkdir_returns [OF inv(2,1) this assms(9)] obtain s' meta where
    s: "mkdir (mc_ns ?E) (clock CE w) (mc_namespace m) ip (i64_to_i32 (cr_mode req)) (i64_to_i32 (cr_uid req)) (i64_to_i32 (cr_gid req)) =
        Done (s', OK)" "ns_inv s' \<and> ns_writable (mc_ns ?E) s'" "directories s' = (directories (mc_namespace m))(ip \<mapsto> [])"
      "metadata_map s' = (metadata_map (mc_namespace m))(ip \<mapsto> meta)" "S_ISDIR (mode meta)" by blast
  let ?m = "m\<lparr>index_namespace := x, mc_namespace := s'\<rparr>" and ?w = "w\<lparr>masters := (masters w)(a \<mapsto> m\<lparr>index_namespace := x, mc_namespace := s'\<rparr>)\<rparr>"
  have "mc_create_index ?E (clock CE w) m req = Done (?m, OK)"
    using x s(1) by (simp add: mc_create_index_def assms(7) Let_def on_namespace_def)
  then have "m_create_index (cluster_rpc CE) a req w = (?w, Reply ())"
    using assms(3) by (simp add: handler_defs ms_create_index_def)
  moreover have "node_alive CE ?w = node_alive CE w" "node_dir ?w = (node_dir w)(a := (node_dir w a)(ip \<mapsto> []))"
    using assms(3) inv s(2,3) d by (auto simp: node_alive_def node_dir_def fun_eq_iff)
  moreover have "node_file ?w = node_file w"
    using assms(3) s(4,5) \<open>metadata_map (mc_namespace m) ip = None\<close> by (auto simp: node_file_def fun_eq_iff)
  moreover have "keeps_counters w ?w" using mkdir_counter [OF s(1)] assms(3) by (auto simp: keeps_counters_def)
  ultimately show ?thesis using nx by (intro exI [of _ ?w] exI [of _ ?m]) simp
qed

text \<open>The directory \<open>.vsfs\<close>, which may be there already.\<close>

lemma cluster_mkdir_exists:
  assumes "node_alive CE w a" "is_valid_path (ce_master CE) p" "node_dir w a p \<noteq> None"
  shows "\<exists>e. m_mkdir (cluster_rpc CE) a p info w = (w, Refused e) \<and> what e = - EEXIST"
proof -
  from assms(1) obtain m where m: "masters w a = Some m" by (rule node_aliveE)
  from node_dir_is_dir [OF assms(1,3) m] have "metadata_map (mc_namespace m) p \<noteq> None" by auto
  with m assms(2) show ?thesis
    by (simp add: handler_defs ms_mkdir_def mc_mkdir_def mkdir_def map_upd_triv status_to_rpc_invalid_op_def)
qed

lemma node_of_masters:
  assumes "masters w' = masters w"
  shows "node_alive CE w' = node_alive CE w" "node_file w' = node_file w" "node_dir w' = node_dir w" "node_vacant w' = node_vacant w"
    "keeps_counters w w'"
  using assms by (auto simp: node_alive_def node_file_def node_dir_def node_vacant_def keeps_counters_def fun_eq_iff)

lemma and_power_two: "(y :: 'a::len word) AND 2 ^ k = (if bit y k then 2 ^ k else 0)"
  by (rule bit_word_eqI) (auto simp: bit_and_iff bit_exp_iff)

lemma plain_dir_mode:
  assumes "dir_mode md"
  shows "i64_to_i32 md AND S_IFMT = 0 \<or> i64_to_i32 md AND S_IFMT = S_IFDIR"
proof -
  let ?x = "i64_to_i32 md" and ?y = "i64_to_i32 md AND S_IFMT"
  have d: "S_IFDIR = 2 ^ 14" by (simp add: mode_defs)
  have "word_of_int (md OR 16384) = (word_of_int md OR word_of_int 16384 :: 32 word)" by (rule of_int_or_eq)
  then have "i64_to_i32 (md OR 0x4000) = ?x OR S_IFDIR" by (simp add: i64_to_i32_def mode_defs)
  then have "(?x OR S_IFDIR) AND S_IFMT = 0 \<or> (?x OR S_IFDIR) AND S_IFMT = S_IFDIR" using assms by (simp add: dir_mode_def Let_def)
  moreover have "(?x OR S_IFDIR) AND S_IFMT = ?y OR S_IFDIR" by (simp add: bit.conj_disj_distrib2 mode_defs)
  ultimately have o: "?y OR 2 ^ 14 = 2 ^ 14" by (auto simp: mode_defs or_eq_0_iff)
  have y: "?y = ?y AND 2 ^ 14"
  proof (rule bit_eqI)
    fix n
    have "bit (?y OR 2 ^ 14) n = bit (2 ^ 14 :: 32 word) n" by (simp only: o)
    then show "bit ?y n = bit (?y AND 2 ^ 14) n" by (auto simp only: bit_or_iff bit_and_iff)
  qed
  have "?y AND 2 ^ 14 = (if bit ?y 14 then 2 ^ 14 else 0)" by (rule and_power_two)
  with y show ?thesis unfolding d by (metis (full_types))
qed

lemma new_index_matches_nothing: "matching IE (\<lambda>_. k) (\<lambda>_. []) q = {}"
  by (simp add: matching_def content_def effects_def answer_def Let_def split: option.split)

lemma cluster_locates:
  assumes "masters w a = Some m" "nodes_inv (index_namespace m)" "(key, name) \<in> ix_abs (index_namespace m)" "starts_with key upper_dir"
  shows "\<exists>l. m_locate_indices_for_search (cluster_rpc CE) a upper_dir [name] w = (w, Reply l) \<and>
    index_path (env_paths (mc_ns (ce_master CE))) key name \<in> set l"
  using assms(1) collect_member [OF assms(2-4)]
  by (simp add: handler_defs ms_locate_indices_for_search_def mc_locate_indices_for_def map_upd_triv)

text \<open>
  The setting of a new index: a directory and a name whose paths are as the client composes them, the directory itself, an index
  server that does not have the partition, and running masters whose databases accept writes and that have neither the paths of
  the index nor its record.
\<close>

definition index_paths :: "('s, 'q, 'r, 'f) cluster_env \<Rightarrow> ('w, 'c) client_env \<Rightarrow> string \<Rightarrow> string \<Rightarrow> bool" where
  "index_paths CE E dir name \<longleftrightarrow>
     (let P = cl_paths E; vdir = dir @ ''/.vsfs''; ip = index_path P dir name; pp = partition_path P dir name 0 in
      env_paths (mc_ns (ce_master CE)) = P \<and> name \<noteq> [] \<and> cleanup_path dir = Done dir \<and>
      is_valid_path (ce_master CE) vdir \<and> is_valid_path (ce_master CE) (parent_path P vdir) \<and>
      is_valid_path (ce_master CE) ip \<and> is_valid_path (ce_master CE) pp \<and>
      parent_path P pp = ip \<and> filename P pp = ''0'' \<and> pp \<noteq> [] \<and> distinct [''/'', vdir, ip, pp])"

definition client_sees_dir :: "('w, 'c) client_env \<Rightarrow> 'c VSFSRpcClient \<Rightarrow> 'w \<Rightarrow> string \<Rightarrow> bool" where
  "client_sees_dir E c w dir \<longleftrightarrow> (\<exists>st. cl_getattr_stat E c dir w = Done (w, Inr st) \<and> S_ISDIR (st_mode st))"

definition index_host ::
  "('w, 'c) client_env \<Rightarrow> 'c VSFSRpcClient \<Rightarrow> ('s, 'q, 'r, 'f) cluster \<Rightarrow> string \<Rightarrow> string \<Rightarrow> bool" where
  "index_host E c w dir name \<longleftrightarrow>
     (\<exists>server im. index_server_of E c (partition_path (cl_paths E) dir name 0) = Inr server \<and>
        index_servers w (address server) = Some im \<and> map_of (index_info_map im) (partition_path (cl_paths E) dir name 0) = None)"

definition index_masters ::
  "('s, 'q, 'r, 'f) cluster_env \<Rightarrow> ('w, 'c) client_env \<Rightarrow> 'c VSFSRpcClient \<Rightarrow> ('s, 'q, 'r, 'f) cluster \<Rightarrow> string \<Rightarrow> string \<Rightarrow> bool" where
  "index_masters CE E c w dir name \<longleftrightarrow>
     (let P = cl_paths E; vdir = dir @ ''/.vsfs''; ip = index_path P dir name; pp = partition_path P dir name 0 in
      \<exists>vnode dnode inode pnode m. master_of E c vdir = Inr vnode \<and> master_of E c (parent_path P vdir) = Inr dnode \<and>
        master_of E c ip = Inr inode \<and> master_of E c pp = Inr pnode \<and>
        node_alive CE w (address vnode) \<and> node_alive CE w (address dnode) \<and> node_alive CE w (address inode) \<and> node_alive CE w (address pnode) \<and>
        (node_vacant w (address vnode) vdir \<and> (\<exists>fs. node_dir w (address dnode) (parent_path P vdir) = Some fs \<and> filename P vdir \<notin> set fs) \<or>
         node_dir w (address vnode) vdir \<noteq> None) \<and>
        node_vacant w (address inode) ip \<and> node_free w (address pnode) pp \<and> masters w (address inode) = Some m \<and>
        nodes_inv (index_namespace m) \<and> (dir, name) \<notin> ix_abs (index_namespace m) \<and> ix_writable (ce_master CE) (index_namespace m))"

context master_cluster
begin

lemma vsfs_dir_made:
  assumes "files.placed E c w v a d" "dir_mode md"
    and "node_vacant w a v \<and> (\<exists>fs. node_dir w d (parent_path (cl_paths E) v) = Some fs \<and> filename (cl_paths E) v \<notin> set fs) \<or>
      node_dir w a v \<noteq> None"
  shows "\<exists>w' status. cl_mkdir E c v md u g w = Done (w', status) \<and> (ok status \<or> status_error (cl_vobla E) status = - EEXIST) \<and>
    keeps_indices w w' \<and> keeps_counters w w' \<and> node_alive CE w' = node_alive CE w \<and> node_file w' = node_file w \<and>
    (\<forall>b p. p \<noteq> v \<longrightarrow> node_dir w b p = None \<longrightarrow> node_dir w' b p = None)"
proof (cases "node_dir w a v = None")
  case True
  with assms(3) obtain fs where
    f: "node_vacant w a v" "node_dir w d (parent_path (cl_paths E) v) = Some fs" "filename (cl_paths E) v \<notin> set fs" by auto
  from dirs.mkdir_linked [OF assms(1) f(1) assms(2) f(2,3), of u g] obtain w' x where
    1: "cl_mkdir E c v md u g w = Done (w', OK)" "node_alive CE w' = node_alive CE w" "node_file w' = node_file w"
      "node_dir w' = (let m = (node_dir w)(a := (node_dir w a)(v \<mapsto> [])) in
        m(d := (m d)(parent_path (cl_paths E) v \<mapsto> sset_insert (filename (cl_paths E) v) fs)))"
      "m_mkdir (cluster_rpc CE) a v (dir_info md u g) w = (x, Reply ())"
      "m_add_subfile (cluster_rpc CE) d (parent_path (cl_paths E) v) (filename (cl_paths E) v) x = (w', Reply ())" by blast
  from call_keeps(1) [OF 1(5)] call_keeps(2) [OF 1(6)] have "keeps_indices w w' \<and> keeps_counters w w'"
    using keeps_indices_trans keeps_counters_trans by blast
  moreover have "\<forall>b p. p \<noteq> v \<longrightarrow> node_dir w b p = None \<longrightarrow> node_dir w' b p = None"
    using 1(4) f(2) by (auto simp: Let_def)
  ultimately show ?thesis using 1(1-3) by auto
next
  case False
  note p = assms(1) [unfolded files.placed_def files.found_node_iff]
  from cluster_mkdir_exists [of CE w a v "dir_info md u g", OF _ _ False] p obtain e where
    e: "m_mkdir (cluster_rpc CE) a v (dir_info md u g) w = (w, Refused e)" "what e = - EEXIST" by blast
  then have "cl_mkdir E c v md u g w = Done (w, Err (what e) (why e))"
    using p by (auto simp: cl_mkdir_def both_caught_def Let_def)
  with e(2) show ?thesis by (auto simp: status_error_def status_to_rpc_invalid_op_def)
qed

lemma index_made:
  assumes "ix_writable (ce_master CE) (index_namespace m)" "env_paths (mc_ns (ce_master CE)) = cl_paths E"
    and "ip = index_path (cl_paths E) dir name" "pp = partition_path (cl_paths E) dir name 0"
    and "cl_getattr_stat E c dir w = Done (w, Inr st)" "S_ISDIR (st_mode st)"
    and "index_server_of E c pp = Inr inode" "index_servers w (address inode) = Some im" "map_of (index_info_map im) pp = None"
    and "create_range_index (type_ids (ce_index CE)) ktype = Some k" "k \<notin> {KString, KFloat, KDouble}" "name \<noteq> []" "pp \<noteq> []"
    and "files.placed E c w (dir @ ''/.vsfs'') a d" "dir_mode md"
    and "node_vacant w a (dir @ ''/.vsfs'') \<and> (\<exists>fs. node_dir w d (parent_path (cl_paths E) (dir @ ''/.vsfs'')) = Some fs \<and>
        filename (cl_paths E) (dir @ ''/.vsfs'') \<notin> set fs) \<or> node_dir w a (dir @ ''/.vsfs'') \<noteq> None"
    and "files.placed E c w pp pa b" "parent_path (cl_paths E) pp = ip" "filename (cl_paths E) pp = ''0''"
    and "distinct [dir @ ''/.vsfs'', ip, pp]" "node_vacant w b ip" "node_free w pa pp"
    and "masters w b = Some m" "nodes_inv (index_namespace m)" "cleanup_path dir = Done key" "(key, name) \<notin> ix_abs (index_namespace m)"
  shows "\<exists>w' oid m'. cl_create_index E c dir name BTREE ktype md u g w = Done (w', OK) \<and> node_alive CE w' = node_alive CE w \<and>
    node_dir w' b ip = Some [''0''] \<and> node_file w' pa pp = Some oid \<and>
    cluster_keeps CE (\<lambda>_. k) (\<lambda>_. []) w' (address inode) pp \<and>
    masters w' b = Some m' \<and> nodes_inv (index_namespace m') \<and> (key, name) \<in> ix_abs (index_namespace m')"
proof -
  let ?v = "dir @ ''/.vsfs''"
  let ?req = "\<lparr>cr_root = pp, cr_name = name, cr_index_type = BTREE, cr_key_type = ktype, cr_mode = md, cr_uid = u, cr_gid = g\<rparr>"
  note pl = files.placed_def files.found_node_iff
  from cluster_create_range [of w "address inode" im ?req CE k] assms(8-13) obtain im' where
    1: "i_create_index (cluster_rpc CE) (address inode) ?req w = (w\<lparr>index_servers := (index_servers w)(address inode \<mapsto> im')\<rparr>, Reply ())"
      "keeps (ce_index CE) (\<lambda>_. k) (\<lambda>_. []) im' pp" by auto
  let ?w1 = "w\<lparr>index_servers := (index_servers w)(address inode \<mapsto> im')\<rparr>"
  note n1 = node_of_masters [of ?w1 w, simplified]
  have "files.placed E c ?w1 ?v a d" using assms(14) n1(1) by (simp add: files.placed_def)
  from vsfs_dir_made [OF this assms(15), of u g] assms(16) n1 obtain w2 status where
    2: "cl_mkdir E c ?v md u g ?w1 = Done (w2, status)" "ok status \<or> status_error (cl_vobla E) status = - EEXIST"
      "keeps_indices ?w1 w2" "keeps_counters ?w1 w2" "node_alive CE w2 = node_alive CE w" "node_file w2 = node_file w"
      "\<forall>b p. p \<noteq> ?v \<longrightarrow> node_dir w b p = None \<longrightarrow> node_dir w2 b p = None" by auto
  have al: "node_alive CE w b" "node_alive CE w pa" using assms(17) by (simp_all add: files.placed_def)
  then have al2: "node_alive CE w2 b" "node_alive CE w2 pa" using 2(5) by simp_all
  have v2: "node_vacant w2 b ip" using assms(20,21) 2(6,7) unfolding vacant_iff [OF al(1)] vacant_iff [OF al2(1)] by auto
  from al2(1) obtain m2 where m2: "masters w2 b = Some m2" by (rule node_aliveE)
  with 2(3) assms(23) have ix2: "index_namespace m2 = index_namespace m" by (fastforce simp: keeps_indices_def)
  let ?req3 = "?req\<lparr>cr_root := dir\<rparr>"
  from cluster_create_index [of CE m2 w2 b ?req3 key ip] assms(1-3,24-26) al2(1) m2 ix2 v2 plain_dir_mode [OF assms(15)] obtain w3 m3 where
    3: "m_create_index (cluster_rpc CE) b ?req3 w2 = (w3, Reply ())" "w3 = w2\<lparr>masters := (masters w2)(b \<mapsto> m3)\<rparr>"
      "nodes_inv (index_namespace m3)" "(key, name) \<in> ix_abs (index_namespace m3)" "keeps_counters w2 w3"
      "node_alive CE w3 = node_alive CE w2" "node_file w3 = node_file w2" "node_dir w3 = (node_dir w2)(b := (node_dir w2 b)(ip \<mapsto> []))" by auto
  have al3: "node_alive CE w3 b" "node_alive CE w3 pa" using al2 3(6) by simp_all
  have p3: "files.placed E c w3 pp pa b" using assms(17) 2(5) 3(6) by (simp add: files.placed_def)
  have k: "keeps_counters w w3" using n1(5) 2(4) 3(5) keeps_counters_trans by blast
  have "node_vacant w pa pp" using assms(22) free_iff [OF al(2)] by blast
  then have "node_vacant w3 pa pp"
    using assms(20) 2(6,7) 3(7,8) unfolding vacant_iff [OF al(2)] vacant_iff [OF al3(2)] by auto
  moreover from al3(2) obtain m4 where "masters w3 pa = Some m4" by (rule node_aliveE)
  moreover from this k assms(22) have "unat (next_obj_id (mc_namespace m4)) < 2 ^ 48"
    by (fastforce simp: node_free_def keeps_counters_def)
  ultimately have "node_free w3 pa pp" unfolding free_iff [OF al3(2)] by blast
  moreover have "node_dir w3 b (parent_path (cl_paths E) pp) = Some []" by (simp add: 3(8) assms(18))
  ultimately obtain w5 oid x where
    5: "cl_create E c pp 0x1ED u g w3 = Done (w5, OK, Some oid)" "node_alive CE w5 = node_alive CE w3"
      "node_file w5 = (node_file w3)(pa := (node_file w3 pa)(pp \<mapsto> oid))"
      "node_dir w5 = (node_dir w3)(b := (node_dir w3 b)(ip \<mapsto> sset_insert ''0'' []))"
      "m_create (cluster_rpc CE) pa pp (0x1ED OR 0x8000) u g w3 = (x, Reply oid)" "m_add_subfile (cluster_rpc CE) b ip ''0'' x = (w5, Reply ())"
    using files.create_linked [OF p3, of "[]" "0x1ED" u g] assms(18,19) by auto
  have k5: "keeps_indices w3 w5" using call_keeps_create [OF 5(5)] call_keeps(2) [OF 5(6)] keeps_indices_trans by blast
  have c: "cl_rpc E = cluster_rpc CE" "found_node (master_of E c ip) = Done b" "found_node (index_server_of E c pp) = Done (address inode)"
    using assms(7,17,18) by (simp_all add: files.placed_def found_node_def)
  have "finish_index E c dir name u g w3 = Done (w5, OK)"
    using 5(1) by (simp add: finish_index_def assms(4) del: bindo_Done_iff)
  then have "cl_create_index E c dir name BTREE ktype md u g w = Done (w5, OK)"
    using 1(1) 2(1,2) 3(1) c assms(6)
    by (auto simp: cl_create_index_def assms(5) both_caught_def Let_def simp flip: assms(3,4) simp del: bindo_Done_iff)
  moreover have "index_servers w5 (address inode) = Some im'" using k5 2(3) 3(2) by (simp add: keeps_indices_def)
  then have "cluster_keeps CE (\<lambda>_. k) (\<lambda>_. []) w5 (address inode) pp" using 1(2) by (simp add: cluster_keeps_def)
  moreover have "node_alive CE w5 b" using al3(1) 5(2) by simp
  then obtain m5 where m5: "masters w5 b = Some m5" by (rule node_aliveE)
  moreover have "index_namespace m5 = index_namespace m3" using m5 k5 3(2) by (fastforce simp: keeps_indices_def)
  ultimately show ?thesis using 3(3,4) 5(2-4) 2(5) 3(6)
    by (intro exI [of _ w5] exI [of _ oid] exI [of _ m5]) auto
qed

lemma index_seen:
  assumes "cl_rpc E = cluster_rpc CE" "is_initialized E c" "index_paths CE E dir name" "client_sees_dir E c w dir"
    and "index_server_of E c pp = Inr server" "index_servers w (address server) = Some im" "map_of (index_info_map im) pp = None"
    and "index_masters CE E c w dir name" "dir_mode md"
    and "create_range_index (type_ids (ce_index CE)) ktype = Some k" "k \<notin> {KString, KFloat, KDouble}"
    and "ip = index_path (cl_paths E) dir name" "pp = partition_path (cl_paths E) dir name 0"
  shows "\<exists>w1 oid inode. cl_create_index E c dir name BTREE ktype md u g w = Done (w1, OK) \<and>
    cl_readdir E c ip w1 = Done (w1, Inr [''0'']) \<and> cl_object_id E c pp w1 = Done (w1, Inr oid) \<and>
    master_of E c ip = Inr inode \<and> (\<forall>upper_dir. starts_with dir upper_dir \<longrightarrow>
      (\<exists>l. m_locate_indices_for_search (cluster_rpc CE) (address inode) upper_dir [name] w1 = (w1, Reply l) \<and> ip \<in> set l)) \<and>
    cluster_keeps CE (\<lambda>_. k) (\<lambda>_. []) w1 (address server) pp"
proof -
  let ?P = "cl_paths E" and ?v = "dir @ ''/.vsfs''"
  note pa = assms(3) [unfolded index_paths_def Let_def, folded assms(12,13)]
  from assms(4) obtain st where st: "cl_getattr_stat E c dir w = Done (w, Inr st)" "S_ISDIR (st_mode st)"
    by (auto simp: client_sees_dir_def)
  from assms(8) [unfolded index_masters_def Let_def, folded assms(12,13)] obtain vnode dnode inode pnode m where
    m: "master_of E c ?v = Inr vnode" "master_of E c (parent_path ?P ?v) = Inr dnode" "master_of E c ip = Inr inode"
      "master_of E c pp = Inr pnode" "node_alive CE w (address vnode)" "node_alive CE w (address dnode)"
      "node_alive CE w (address inode)" "node_alive CE w (address pnode)"
      "node_vacant w (address vnode) ?v \<and> (\<exists>fs. node_dir w (address dnode) (parent_path ?P ?v) = Some fs \<and> filename ?P ?v \<notin> set fs) \<or>
        node_dir w (address vnode) ?v \<noteq> None"
      "node_vacant w (address inode) ip" "node_free w (address pnode) pp" "masters w (address inode) = Some m"
      "nodes_inv (index_namespace m)" "(dir, name) \<notin> ix_abs (index_namespace m)" "ix_writable (ce_master CE) (index_namespace m)"
    by blast
  have v: "files.placed E c w ?v (address vnode) (address dnode)" and p: "files.placed E c w pp (address pnode) (address inode)"
    using assms(1,2) pa m by (auto simp: files.placed_def files.found_node_iff)
  have h: "env_paths (mc_ns (ce_master CE)) = ?P" "name \<noteq> []" "pp \<noteq> []" "parent_path ?P pp = ip" "filename ?P pp = ''0''"
    "distinct [?v, ip, pp]" "cleanup_path dir = Done dir" "is_valid_path (ce_master CE) ip" using pa by simp_all
  from index_made [OF m(15) h(1) assms(12,13) st assms(5-7,10,11) h(2,3) v assms(9) m(9) p h(4-6) m(10-13) h(7) m(14), of u g]
  obtain w1 oid m' where
    1: "cl_create_index E c dir name BTREE ktype md u g w = Done (w1, OK)" "node_alive CE w1 = node_alive CE w"
      "node_dir w1 (address inode) ip = Some [''0'']" "node_file w1 (address pnode) pp = Some oid"
      "cluster_keeps CE (\<lambda>_. k) (\<lambda>_. []) w1 (address server) pp"
      "masters w1 (address inode) = Some m'" "nodes_inv (index_namespace m')" "(dir, name) \<in> ix_abs (index_namespace m')" by blast
  have up: "node_alive CE w1 (address inode)" "node_alive CE w1 (address pnode)" using m(7,8) 1(2) by simp_all
  have "cl_readdir E c ip w1 = Done (w1, Inr [''0''])"
    using files.readdir_replies [OF up(1) h(8) 1(3)] assms(1) m(3) by (simp add: cl_readdir_def on_master_def found_node_def both_caught_def)
  moreover have "cl_object_id E c pp w1 = Done (w1, Inr oid)"
    using files.id_replies [OF up(2) 1(4)] assms(1) m(4) by (simp add: cl_object_id_def on_master_def found_node_def both_caught_def)
  ultimately show ?thesis using 1(1,5) m(3) cluster_locates [OF 1(6-8), of _ CE] h(1) assms(12) by auto
qed

end

section \<open>Properties\<close>


text \<open>The example has the directory \<open>/a\<close> on the second master, which is an index server too.\<close>

definition creation_namespace :: "TestLevelDBStore Namespace" where
  "creation_namespace =
     (Namespace_new 0 [])\<lparr>metadata_map := [''/a'' \<mapsto> new_meta 0 0 S_IFDIR 0 0], directories := [''/a'' \<mapsto> []]\<rparr>"

definition creation_state ::
  "(TestLevelDBStore, (HashValueType \<times> string option) list, (HashValueType \<times> NodeInfo option) list, int) cluster" where
  "creation_state =
     \<lparr>masters = [node_b \<mapsto> demo_master\<lparr>mc_namespace := creation_namespace\<rparr>], index_servers = [node_b \<mapsto> IndexManager_new ''/d'' []]\<rparr>"

lemma creation_alive: "node_alive test_cluster_env creation_state node_b"
proof -
  have "S_ISDIR S_IFDIR" by (simp add: S_ISDIR_def mode_defs)
  then have "ns_inv creation_namespace"
    by (auto simp: creation_namespace_def Namespace_new_def ns_inv_def ids_inv_def fresh_inv_def dirs_inv_def is_file_def is_dir_def)
  then show ?thesis using test_accepts_writes
    by (simp add: node_alive_def creation_state_def test_cluster_env_def test_mc_env_def test_env_def)
qed

lemma creation_nodes:
  "node_dir creation_state node_b ''/a'' = Some []" "p \<noteq> ''/a'' \<Longrightarrow> node_vacant creation_state node_b p"
  "p \<noteq> ''/a'' \<Longrightarrow> node_free creation_state node_b p"
  by (simp_all add: node_dir_def node_vacant_def node_free_def creation_state_def creation_namespace_def Namespace_new_def)

lemma creation_master_of: "p \<noteq> ''/'' \<Longrightarrow> master_of test_client_env search_client p = Inr (NodeInfo_default\<lparr>address := node_b\<rparr>)"
  using test_master_of(2) [of p] by (simp add: master_of_def search_client_def)

lemma creation_getattr:
  "\<exists>st. cl_getattr_stat test_client_env search_client ''/a'' creation_state = Done (creation_state, Inr st) \<and> S_ISDIR (st_mode st)"
proof -
  obtain info where g: "getattr creation_namespace ''/a'' = Done (Inr info)" "S_ISDIR (st_mode (stat_of_info info))"
    by (simp add: creation_namespace_def getattr_def double_to_i64_def new_meta_def mode_defs in_int64_def int64_min_def int64_max_def i32_to_i64_def
        stat_of_info_def or_zero_def S_ISDIR_def)
  have "m_getattr (cluster_rpc test_cluster_env) node_b ''/a'' creation_state = (creation_state, Reply info)"
    using g(1) by (simp add: handler_defs ms_getattr_def mc_getattr_def map_upd_triv creation_state_def)
  with g(2) show ?thesis
    by (simp add: cl_getattr_stat_def cl_getattr_def on_master_def found_node_def creation_master_of test_client_simps both_caught_def)
qed

lemma nat_to_string_zero: "nat_to_string 0 = ''0''"
  by code_simp

lemma creation_paths:
  "index_path posix_paths ''/a'' ''x'' = ''/a/.vsfs/x''" "partition_path posix_paths ''/a'' ''x'' 0 = ''/a/.vsfs/x/0''"
  "parent_path posix_paths ''/a/.vsfs'' = ''/a''" "filename posix_paths ''/a/.vsfs'' = ''.vsfs''"
  "parent_path posix_paths ''/a/.vsfs/x/0'' = ''/a/.vsfs/x''" "filename posix_paths ''/a/.vsfs/x/0'' = ''0''"
  by (simp_all add: index_path_def partition_path_def posix_paths_def find_last_of_def int_to_string_def nat_to_string_zero)


end
