(* ===== verification/Flusher.thy ===== *)
theory Flusher
  imports Index_Manager
begin

text \<open>
  The life of an \<open>IndexManager\<close> with its background thread (\<open>vsfs/indexd/index_manager.cpp\<close>): the constructor starts
  \<open>background_flush_thread\<close>, calls use the manager, and the destructor flushes, clears \<open>running_\<close>, notifies the thread and joins it. The
  statements of the two threads interleave. A call and a round of the flusher each are one step.
\<close>

section \<open>Threads\<close>

text \<open>
  The flusher tests \<open>running_\<close>, waits for a notification for at most thirty seconds, and scans the indices.
\<close>

datatype flusher_pc = FlushTest | FlushWait | FlushScan | FlushEnded

datatype owner_pc = InUse | DtorFlush | DtorStop | DtorNotify | DtorJoin | Destroyed

record 'f flusher =
  fl_manager :: "'f IndexManager"
  fl_running :: bool
  fl_thread :: flusher_pc
  fl_woken :: bool
  fl_owner :: owner_pc

definition flusher_new :: "string \<Rightarrow> file_map \<Rightarrow> 'f flusher" where
  "flusher_new dir fs =
     \<lparr>fl_manager = IndexManager_new dir fs, fl_running = True, fl_thread = FlushTest, fl_woken = False, fl_owner = InUse\<rparr>"

text \<open>The owner of the manager: the destructor begins at any time, and \<open>notify_all\<close> reaches a thread that waits.\<close>

definition owner_step :: "'f flusher \<Rightarrow> 'f flusher option" where
  "owner_step s =
     (case fl_owner s of
        InUse \<Rightarrow> Some (s\<lparr>fl_owner := DtorFlush\<rparr>)
      | DtorFlush \<Rightarrow> Some (s\<lparr>fl_manager := fst (im_flush (fl_manager s)), fl_owner := DtorStop\<rparr>)
      | DtorStop \<Rightarrow> Some (s\<lparr>fl_running := False, fl_owner := DtorNotify\<rparr>)
      | DtorNotify \<Rightarrow> Some (s\<lparr>fl_woken := (fl_thread s = FlushWait), fl_owner := DtorJoin\<rparr>)
      | DtorJoin \<Rightarrow> if fl_thread s = FlushEnded then Some (s\<lparr>fl_owner := Destroyed\<rparr>) else None
      | Destroyed \<Rightarrow> None)"

text \<open>
  A wait ends by a notification or spuriously, or, when no notification has come, by the timeout. The caller of the manager calls it until
  it destroys it.
\<close>

datatype flusher_event = Call im_op | Owner | Test | Wake | Timeout | Scan

inductive flusher_step ::
  "'f::linorder index_env \<Rightarrow> (RpcIndexRecordUpdateList list \<Rightarrow> RpcIndexRecordUpdateList list) \<Rightarrow> flusher_event \<Rightarrow> 'f flusher \<Rightarrow> 'f flusher \<Rightarrow> bool"
  for E sched where
  call: "fl_owner s = InUse \<Longrightarrow> p \<noteq> IMBackground \<Longrightarrow> im_step E sched p (fl_manager s) = Done m \<Longrightarrow>
    flusher_step E sched (Call p) s (s\<lparr>fl_manager := m\<rparr>)"
| owner: "owner_step s = Some t \<Longrightarrow> flusher_step E sched Owner s t"
| test: "fl_thread s = FlushTest \<Longrightarrow>
    flusher_step E sched Test s (s\<lparr>fl_thread := if fl_running s then FlushWait else FlushEnded\<rparr>)"
| wake: "fl_thread s = FlushWait \<Longrightarrow> flusher_step E sched Wake s (s\<lparr>fl_thread := FlushScan, fl_woken := False\<rparr>)"
| timeout: "fl_thread s = FlushWait \<Longrightarrow> \<not> fl_woken s \<Longrightarrow> flusher_step E sched Timeout s (s\<lparr>fl_thread := FlushScan\<rparr>)"
| scan: "fl_thread s = FlushScan \<Longrightarrow> background_flush E (fl_manager s) = Done m \<Longrightarrow>
    flusher_step E sched Scan s (s\<lparr>fl_manager := m, fl_thread := FlushTest\<rparr>)"

inductive_simps flusher_step_iff: "flusher_step E sched e s t"

inductive flusher_run ::
  "'f::linorder index_env \<Rightarrow> (RpcIndexRecordUpdateList list \<Rightarrow> RpcIndexRecordUpdateList list) \<Rightarrow> flusher_event list \<Rightarrow> 'f flusher \<Rightarrow> 'f flusher \<Rightarrow> bool"
  for E sched where
  run_nil: "flusher_run E sched [] s s"
| run_cons: "flusher_step E sched e s t \<Longrightarrow> flusher_run E sched es t u \<Longrightarrow> flusher_run E sched (e # es) s u"

section \<open>The invariant\<close>

definition flusher_inv :: "'f flusher \<Rightarrow> bool" where
  "flusher_inv s \<longleftrightarrow>
     im_ok (fl_manager s) \<and> (fl_running s \<longleftrightarrow> fl_owner s \<in> {InUse, DtorFlush, DtorStop}) \<and>
     (fl_thread s = FlushEnded \<longrightarrow> \<not> fl_running s) \<and> (fl_woken s \<longrightarrow> fl_thread s = FlushWait \<and> \<not> fl_running s) \<and>
     (fl_owner s = Destroyed \<longrightarrow> fl_thread s = FlushEnded)"

lemma flusher_inv_new: "flusher_inv (flusher_new dir fs)"
  by (simp add: flusher_inv_def flusher_new_def im_ok_def IndexManager_new_def)

lemma im_step_ok: "im_ok m \<Longrightarrow> im_step E sched p m = Done m' \<Longrightarrow> im_ok m'"
  using im_step_safe [of m E sched p] by simp

lemma owner_step_inv:
  fixes s :: "'f::linorder flusher"
  shows "owner_step s = Some t \<Longrightarrow> flusher_inv s \<Longrightarrow> flusher_inv t"
  using im_step_ok [of "fl_manager s" undefined undefined IMFlush]
  by (auto simp: owner_step_def flusher_inv_def split: owner_pc.splits if_splits)

lemma flusher_step_inv:
  assumes "flusher_step E sched e s t" "flusher_inv s"
  shows "flusher_inv t"
  using assms im_step_ok [of "fl_manager s" E sched]
proof cases
  case (scan m)
  with im_step_ok [of "fl_manager s" E sched IMBackground m] assms(2) show ?thesis by (simp add: flusher_inv_def)
qed (auto simp: flusher_inv_def dest: owner_step_inv split: if_splits)

lemma flusher_run_inv: "flusher_run E sched es s t \<Longrightarrow> flusher_inv s \<Longrightarrow> flusher_inv t"
  by (induction rule: flusher_run.induct) (auto dest: flusher_step_inv)

section \<open>The end of the threads\<close>

fun owner_work :: "owner_pc \<Rightarrow> nat" where
  "owner_work DtorNotify = 2"
| "owner_work DtorJoin = 1"
| "owner_work _ = 0"

fun thread_work :: "flusher_pc \<Rightarrow> nat" where
  "thread_work FlushWait = 3"
| "thread_work FlushScan = 2"
| "thread_work FlushTest = 1"
| "thread_work FlushEnded = 0"

definition work_left :: "'f flusher \<Rightarrow> nat" where
  "work_left s = owner_work (fl_owner s) + thread_work (fl_thread s)"

definition timeouts_left :: "'f flusher \<Rightarrow> nat" where
  "timeouts_left s = (if fl_thread s = FlushWait \<and> \<not> fl_woken s then 1 else 0)"

lemma stopping_step:
  assumes "flusher_step E sched e s t" "flusher_inv s" "\<not> fl_running s"
  shows "\<not> fl_running t \<and> work_left t < work_left s \<and> (if e = Timeout then 1 else 0) + timeouts_left t \<le> timeouts_left s"
  using assms
proof cases
  case owner
  with assms(2,3) show ?thesis
    by (auto simp: owner_step_def flusher_inv_def work_left_def timeouts_left_def split: owner_pc.splits if_splits)
qed (auto simp: flusher_inv_def work_left_def timeouts_left_def)

lemma stopping_run:
  assumes "flusher_run E sched es s t" "flusher_inv s" "\<not> fl_running s"
  shows "\<not> fl_running t \<and> length es + work_left t \<le> work_left s \<and> count_list es Timeout + timeouts_left t \<le> timeouts_left s"
  using assms
proof (induction rule: flusher_run.induct)
  case (run_cons e s t es u)
  from stopping_step [OF run_cons.hyps(1) run_cons.prems] run_cons.IH flusher_step_inv [OF run_cons.hyps(1) run_cons.prems(1)]
  show ?case by (auto split: if_splits)
qed simp

lemma flush_log_returns: "0 < flush_log_size E \<Longrightarrow> \<exists>r. flush_log E False w fs = Done r"
  using log_flush_plain [of "flush_log_size E" "log_codec E" "log_manager w" "file_content fs (base_path w @ ''.log'')"]
  by (auto simp: flush_log_def Let_def simp del: bindo_Done_iff)

lemma background_round_returns: "0 < flush_log_size E \<Longrightarrow> \<exists>r. background_round E ws fs = Done r"
proof (induction ws arbitrary: fs)
  case (Cons p ws)
  obtain k w where p: "p = (k, w)" by (cases p)
  obtain w' fs' st where f: "flush_log E False w fs = Done (w', fs', st)" using flush_log_returns [OF Cons.prems, of w fs] by auto
  obtain r r' where r: "background_round E ws fs = Done r" "background_round E ws fs' = Done r'" using Cons by blast
  then show ?case by (cases r; cases r') (simp add: p f del: bindo_Done_iff)
qed simp

lemma background_flush_returns: "0 < flush_log_size E \<Longrightarrow> \<exists>m'. background_flush E m = Done m'"
  using background_round_returns [of E "range_index_map m" "im_files m"] by (auto simp: background_flush_def)

lemma stuck_destroyed:
  assumes "flusher_inv s" "0 < flush_log_size E" "\<nexists>e t. flusher_step E sched e s t"
  shows "fl_owner s = Destroyed \<and> fl_thread s = FlushEnded"
proof -
  have "fl_thread s = FlushEnded"
    using assms(3) background_flush_returns [OF assms(2), of "fl_manager s"] flusher_step.test flusher_step.wake flusher_step.scan
    by (metis flusher_pc.exhaust)
  moreover have "owner_step s = None" using assms(3) flusher_step.owner by (metis not_None_eq)
  ultimately show ?thesis by (auto simp: owner_step_def split: owner_pc.splits)
qed

section \<open>What the last round writes\<close>

text \<open>The bytes a round has in the buffer of a log when it decides whether to write.\<close>

definition round_bytes :: "'f index_env \<Rightarrow> 'f RangeIndexWrapper \<Rightarrow> nat" where
  "round_bytes E w =
     (let lm = log_manager w;
          unflushed = (if last_flushed_txn_id lm \<noteq> 0 then dropWhile (\<lambda>r. fst r \<le> last_flushed_txn_id lm) (log lm) else log lm)
      in snd (fill_buffer (log_codec E) (flush_log_size E) unflushed (log_buffer lm) (get_log_buffer_size lm)))"

definition below_limit :: "'f index_env \<Rightarrow> (string \<times> 'f RangeIndexWrapper) list \<Rightarrow> bool" where
  "below_limit E ws \<longleftrightarrow> list_all (\<lambda>(_, w). dirty w \<longrightarrow> round_bytes E w < flush_log_size E) ws"

lemma flush_log_below:
  assumes "flush_log E False w fs = Done (w', fs', st)" "round_bytes E w < flush_log_size E"
  shows "file_content fs' = file_content fs"
proof (cases "can_open E (base_path w @ ''.log'')")
  case True
  from assms(2) have "\<exists>lm. log_flush (log_codec E) (flush_log_size E) False (log_manager w) os = Done (lm, os, OK)" for os
    by (simp add: log_flush_def round_bytes_def Let_def case_prod_unfold)
  then obtain lm where "log_flush (log_codec E) (flush_log_size E) False (log_manager w) (file_content fs (base_path w @ ''.log'')) =
      Done (lm, file_content fs (base_path w @ ''.log''), OK)" by blast
  with True assms(1) have "fs' = smap_put (base_path w @ ''.log'') (file_content fs (base_path w @ ''.log'')) fs"
    by (auto simp: flush_log_def Let_def)
  then show ?thesis by (auto simp: file_content_def)
qed (use assms(1) in \<open>simp add: flush_log_def\<close>)

lemma background_round_below:
  "background_round E ws fs = Done (ws', fs') \<Longrightarrow> below_limit E ws \<Longrightarrow> file_content fs' = file_content fs"
proof (induction ws arbitrary: fs ws' fs')
  case (Cons p ws)
  obtain k w where p: "p = (k, w)" by (cases p)
  with Cons show ?case by (cases "dirty w") (auto simp: below_limit_def dest!: flush_log_below)
qed simp

lemma background_flush_below:
  "background_flush E m = Done m' \<Longrightarrow> below_limit E (range_index_map m) \<Longrightarrow> file_content (im_files m') = file_content (im_files m)"
  by (auto simp: background_flush_def dest: background_round_below)

lemma last_round_below:
  assumes "flusher_run E sched es s t" "flusher_inv s" "\<not> fl_running s"
    and "fl_thread s \<in> {FlushWait, FlushScan} \<Longrightarrow> below_limit E (range_index_map (fl_manager s))"
  shows "file_content (im_files (fl_manager t)) = file_content (im_files (fl_manager s))"
  using assms
proof (induction rule: flusher_run.induct)
  case (run_cons e s t es u)
  have m: "file_content (im_files (fl_manager t)) = file_content (im_files (fl_manager s))"
    "fl_thread t \<in> {FlushWait, FlushScan} \<Longrightarrow> fl_thread s \<in> {FlushWait, FlushScan} \<and> fl_manager t = fl_manager s"
    using run_cons.hyps(1) run_cons.prems
    by (auto simp: flusher_step_iff owner_step_def flusher_inv_def background_flush_below split: owner_pc.splits if_splits)
  from run_cons.IH [OF flusher_step_inv [OF run_cons.hyps(1) run_cons.prems(1)]] stopping_step [OF run_cons.hyps(1) run_cons.prems(1,2)]
    run_cons.prems(3) m show ?case by auto
qed simp

section \<open>Properties\<close>

text \<open>
  C17: An index manager can always be destroyed. In every state that calls, the flusher and the destructor reach from a new manager, the
  maps of the manager agree, and the destructor waits for nothing before the join. Once it has cleared \<open>running_\<close>, every interleaving ends
  after at most five steps, among them at most one wait of thirty seconds and none when the
  notification found the thread waiting, and it ends with the thread joined and the manager destroyed.\<close>

theorem destructor_ends:
  assumes "flusher_run E sched es (flusher_new dir fs) s" "0 < flush_log_size E"
  shows "im_ok (fl_manager s) \<and>
    (fl_owner s \<in> {InUse, DtorFlush, DtorStop, DtorNotify} \<longrightarrow> (\<exists>t. flusher_step E sched Owner s t \<and> fl_owner t \<noteq> fl_owner s)) \<and>
    (\<forall>ds t. fl_owner s \<in> {DtorNotify, DtorJoin} \<and> flusher_run E sched ds s t \<longrightarrow>
      length ds \<le> 5 \<and> count_list ds Timeout \<le> (if fl_woken s then 0 else 1) \<and>
      ((\<nexists>e u. flusher_step E sched e t u) \<longrightarrow> fl_owner t = Destroyed \<and> fl_thread t = FlushEnded))"
proof -
  have inv: "flusher_inv s" by (rule flusher_run_inv [OF assms(1) flusher_inv_new])
  have "\<exists>t. flusher_step E sched Owner s t \<and> fl_owner t \<noteq> fl_owner s" if "fl_owner s \<in> {InUse, DtorFlush, DtorStop, DtorNotify}"
  proof -
    have "\<exists>t. owner_step s = Some t \<and> fl_owner t \<noteq> fl_owner s" using that by (auto simp: owner_step_def)
    then show ?thesis using flusher_step.owner by blast
  qed
  moreover have "length ds \<le> 5 \<and> count_list ds Timeout \<le> (if fl_woken s then 0 else 1) \<and>
      ((\<nexists>e u. flusher_step E sched e t u) \<longrightarrow> fl_owner t = Destroyed \<and> fl_thread t = FlushEnded)"
    if r: "fl_owner s \<in> {DtorNotify, DtorJoin}" "flusher_run E sched ds s t" for ds t
  proof (intro conjI impI)
    have "\<not> fl_running s" using inv r(1) by (auto simp: flusher_inv_def)
    note w = stopping_run [OF r(2) inv this]
    have "work_left s \<le> 5" using r(1) by (cases "fl_thread s") (auto simp: work_left_def)
    with w show "length ds \<le> 5" by linarith
    show "count_list ds Timeout \<le> (if fl_woken s then 0 else 1)" using w by (simp add: timeouts_left_def split: if_splits)
    assume "\<nexists>e u. flusher_step E sched e t u"
    from stuck_destroyed [OF flusher_run_inv [OF r(2) inv] assms(2) this]
    show "fl_owner t = Destroyed" "fl_thread t = FlushEnded" by simp_all
  qed
  moreover have "im_ok (fl_manager s)" using inv by (simp add: flusher_inv_def)
  ultimately show ?thesis by blast
qed

definition stopped_demo :: "int flusher" where
  "stopped_demo = (flusher_new ''/d'' [])\<lparr>fl_running := False, fl_thread := FlushWait, fl_owner := DtorNotify\<rparr>"

lemma demo_stops: "flusher_run (im_demo_env 0) (\<lambda>us. us) [Test, Owner, Owner, Owner] (flusher_new ''/d'' []) stopped_demo"
  by (auto simp: flusher_new_def stopped_demo_def flusher_step_iff owner_step_def im_flush_def IndexManager_new_def
      intro!: flusher_run.intros exI)

theorem destructor_ends_witness:
  "\<exists>t. flusher_run (im_demo_env 0) (\<lambda>us. us) [Owner, Wake, Scan, Test, Owner] stopped_demo t \<and>
     count_list [Owner, Wake, Scan, Test, Owner] Timeout = 0 \<and> fl_owner t = Destroyed \<and> fl_thread t = FlushEnded"
proof -
  let ?t = "stopped_demo\<lparr>fl_thread := FlushEnded, fl_owner := Destroyed\<rparr>"
  have r: "flusher_run (im_demo_env 0) (\<lambda>us. us) [Owner, Wake, Scan, Test, Owner] stopped_demo ?t"
    by (auto simp: stopped_demo_def flusher_new_def flusher_step_iff owner_step_def background_flush_def IndexManager_new_def
        intro!: flusher_run.intros exI)
  have "\<nexists>e u. flusher_step (im_demo_env 0) (\<lambda>us. us) e ?t u" by (auto simp: flusher_step_iff owner_step_def)
  with destructor_ends [OF demo_stops] r show ?thesis
    by (auto simp: im_demo_env_def stopped_demo_def flusher_new_def)
qed

text \<open>
  What is in the log in memory when a manager is destroyed is lost: \<open>flush\<close> in the destructor calls \<open>flush_index\<close>, which does nothing,
  and the last round of the flusher writes only logs that reach the limit.\<close>

theorem shutdown_writes_nothing:
  assumes "flusher_run E sched es (flusher_new dir fs) s" "fl_owner s = DtorNotify"
    and "below_limit E (range_index_map (fl_manager s))" "flusher_run E sched ds s t"
  shows "file_content (im_files (fl_manager t)) path = file_content (im_files (fl_manager s)) path"
proof -
  have inv: "flusher_inv s" by (rule flusher_run_inv [OF assms(1) flusher_inv_new])
  moreover have "\<not> fl_running s" using inv assms(2) by (simp add: flusher_inv_def)
  ultimately show ?thesis using last_round_below [OF assms(4)] assms(3) by simp
qed

end
