(* ===== verification/Programs.thy ===== *)
theory Programs
  imports Directories
begin

text \<open>
  The programs: the mount command (\<open>vsfs/fuse/vsfs.cpp\<close>), the master daemon (\<open>masterd/masterd.cpp\<close>) and the index daemon
  (\<open>indexd/indexd.cpp\<close>), from their options to the state they serve from. FUSE's option parser and main loop are parameters. Signals,
  pid files and going to the background are left out.
\<close>

section \<open>The mount command\<close>

text \<open>Options that are not given are null or zero.\<close>

record mount_options =
  opt_basedir :: "string option"
  opt_master_host :: "string option"
  opt_storage :: "string option"
  opt_dirwidth :: int
  opt_master_port :: int

datatype fuse_key = KEY_DEBUG | KEY_HELP | KEY_TRACK_ACCESS | KEY_VERSION | KEY_OTHER int

datatype opt_target = OptBasedir | OptHost | OptPort | OptStorage | OptWidth | OptKey fuse_key

definition vsfs_opts :: "(string \<times> opt_target) list" where
  "vsfs_opts =
     [(''--basedir %s'', OptBasedir), (''-b %s'', OptBasedir), (''--host %s'', OptHost), (''-H %s'', OptHost),
      (''--port %d'', OptPort), (''-p %d'', OptPort), (''--storage %s'', OptStorage), (''-s %s'', OptStorage),
      (''-w %d'', OptWidth), (''--dirwidth %d'', OptWidth), (''--version'', OptKey KEY_VERSION), (''-h'', OptKey KEY_HELP),
      (''--help'', OptKey KEY_HELP), (''--debug'', OptKey KEY_DEBUG)]"

text \<open>The callback of the parser: zero to drop an argument, one to keep it; \<open>None\<close> is \<open>exit(1)\<close>.\<close>

definition vsfs_opt_proc :: "fuse_key \<Rightarrow> string list \<Rightarrow> (int \<times> string list) option" where
  "vsfs_opt_proc key outargs =
     (case key of
        KEY_HELP \<Rightarrow> None
      | KEY_VERSION \<Rightarrow> None
      | KEY_DEBUG \<Rightarrow> Some (0, outargs @ [''-d''])
      | _ \<Rightarrow> Some (1, outargs))"

datatype parsed = ParseExit | ParseError | Parsed mount_options "string list"

record ('w, 'o, 'r) mount_env =
  fuse_opt_parse :: "(string \<times> opt_target) list \<Rightarrow> (fuse_key \<Rightarrow> string list \<Rightarrow> (int \<times> string list) option) \<Rightarrow> string list \<Rightarrow> parsed"
  fuse_main :: "string list \<Rightarrow> ('w, 'o, 'r) fuse_state \<Rightarrow> ('w, 'o, 'r) fuse_state"

definition given :: "string option \<Rightarrow> string \<Rightarrow> string" where
  "given opt dflt = (case opt of None \<Rightarrow> dflt | Some s \<Rightarrow> if s = [] then dflt else s)"

text \<open>
  The line that logs the address streams the option and not the host that was chosen, and a null pointer has no defined
  output. \<open>width\<close> is the flag \<open>object_storage_dirwidth\<close>.
\<close>

definition mount_main ::
  "('w, 'r, 'o, 'sv) fuse_env \<Rightarrow> ('w, 'o, 'r) mount_env \<Rightarrow> 32 word \<Rightarrow> string list \<Rightarrow> 'w \<Rightarrow> 'o \<Rightarrow>
     (('w, 'o, 'r) fuse_state option \<times> int) outcome" where
  "mount_main E P width argv w os =
     (case fuse_opt_parse P vsfs_opts vsfs_opt_proc argv of
        ParseExit \<Rightarrow> Done (None, 1)
      | ParseError \<Rightarrow> Done (None, error_code E (Err (-1) ''Can not parse command line parameters''))
      | Parsed opts args \<Rightarrow>
          let h = given (opt_master_host opts) ''localhost'';
              storage = given (opt_storage opts) ''posix'';
              p = (if opt_master_port opts = 0 then 9876 else opt_master_port opts);
              width' = (if 0 < opt_dirwidth opts then word_of_int (opt_dirwidth opts) else width)
          in
          if given (opt_basedir opts) [] = [] then Done (None, error_code E (Err (-1) ''Missing base dir''))
          else if storage \<noteq> ''posix'' \<and> storage \<noteq> ''object'' then Done (None, error_code E (Err (-1) ''Wrong storage type.''))
          else if opt_master_host opts = None then Fail Undefined
          else
            bindo (fuse_init E width' None (given (opt_basedir opts) []) (last args) h p storage w os) (\<lambda>(s, status).
              if \<not> ok status then Done (Some s, error_code E status)
              else Done (Some (fuse_main P args s), error_code E status)))"

section \<open>The daemons\<close>

record masterd_flags =
  masterd_primary :: bool
  masterd_dir :: string
  masterd_port :: int
  masterd_primary_host :: string
  masterd_primary_port :: int

datatype 'c daemon = Exited int | Serving 'c

definition masterd_main ::
  "vobla_api \<Rightarrow> ('s, 'q, 'r) mc_env \<Rightarrow> int \<Rightarrow> int \<Rightarrow> ObjectId \<Rightarrow> masterd_flags \<Rightarrow> ('s, 'q, 'r) MasterController daemon outcome" where
  "masterd_main V E r1 r2 junk F =
     bindo (MasterController_new E r1 r2 junk (masterd_dir F) [] (masterd_port F) (masterd_primary F)
         (masterd_primary_host F) (masterd_primary_port F)) (\<lambda>c.
       bindo (mc_init E c) (\<lambda>(c', status).
         Done (if \<not> ok status then Exited (status_error V status) else Serving c')))"

definition indexd_main :: "index_flags \<Rightarrow> string \<Rightarrow> file_map \<Rightarrow> 'f IndexController daemon" where
  "indexd_main F datadir fs = Serving (IndexController_new F datadir fs)"

section \<open>Properties\<close>

text \<open>A ring with nodes gives one of them for every position.\<close>

definition ring_get_law :: "('r, NodeInfo) ring_api \<Rightarrow> bool" where
  "ring_get_law R \<longleftrightarrow> (\<forall>r h. ring_items R r \<noteq> [] \<longrightarrow> (\<exists>n. ring_get R r h = Inr n \<and> n \<in> snd ` set (ring_items R r)))"

lemma ring_get_law_list: "ring_get_law list_ring"
proof -
  have "\<exists>n. (case lower_bound h (replay_nodes r) @ replay_nodes r of [] \<Rightarrow> Inl (Err (-1) ''Empty ring'') | p # _ \<Rightarrow> Inr (snd p)) = Inr n \<and>
      n \<in> snd ` set (replay_nodes r)" if "replay_nodes r \<noteq> []" for r :: "(HashValueType \<times> NodeInfo option) list" and h
  proof -
    have "set (lower_bound h (replay_nodes r)) \<subseteq> set (replay_nodes r)" by (auto simp: lower_bound_def dest: set_dropWhileD)
    moreover have "lower_bound h (replay_nodes r) @ replay_nodes r \<noteq> []" using that by simp
    ultimately show ?thesis by (cases "lower_bound h (replay_nodes r)"; cases "replay_nodes r") (auto simp: image_iff)
  qed
  then show ?thesis by (simp add: ring_get_law_def list_ring_def)
qed

text \<open>The client that the mount command makes knows a master of every path.\<close>

lemma mounted_client:
  assumes "ring_laws (mc_ring (ce_master CE))" "ring_laws (cl_ring E)" "ring_get_law (cl_ring E)" "cl_rpc E = cluster_rpc CE"
    and "ring_empty (cl_ring E) (cl_ring_new E)" "masters w \<lparr>host = h, port = p\<rparr> = Some m" "is_primary_node m"
    and "master_server_manager m = Some ms" "index_server_manager m = Some is" "ring_items (mc_ring (ce_master CE)) ms \<noteq> []"
  shows "\<exists>c. client_init E (VSFSRpcClient_new E h p) w = Done (w, c, OK) \<and> is_initialized E c \<and>
    (\<forall>path. \<exists>node. master_of E c path = Inr node \<and> address node \<in> (\<lambda>(pos, n). address n) ` set (ring_items (mc_ring (ce_master CE)) ms))"
proof -
  from client_caches [OF assms(1,2,4-9)] obtain c where
    c: "client_init E (VSFSRpcClient_new E h p) w = Done (w, c, OK)"
      "ring_items (cl_ring E) (master_map c) = map (apsnd known) (ring_items (mc_ring (ce_master CE)) ms)"
    unfolding ring_as_map [OF assms(1)] ring_as_map [OF assms(2)] by blast
  have ne: "ring_items (cl_ring E) (master_map c) \<noteq> []" using c(2) assms(10) by simp
  have "\<exists>node. master_of E c path = Inr node \<and> address node \<in> (\<lambda>(pos, n). address n) ` set (ring_items (mc_ring (ce_master CE)) ms)" for path
  proof -
    from assms(3) ne obtain n where
      n: "ring_get (cl_ring E) (master_map c) (path_to_hash (cl_md5 E) path) = Inr n"
        "n \<in> snd ` set (ring_items (cl_ring E) (master_map c))" unfolding ring_get_law_def by blast
    have "address n \<in> (\<lambda>(pos, n). address n) ` set (ring_items (mc_ring (ce_master CE)) ms)"
      using n(2) unfolding c(2) by (force simp: image_iff)
    moreover have "master_of E c path = Inr n" using n(1) by (simp add: master_of_def ServerMap_get_path_def ServerMap_get_def)
    ultimately show ?thesis by blast
  qed
  moreover have "is_initialized E c" using assms(2) ne by (simp add: is_initialized_def ServerMap_empty_def ring_laws_def)
  ultimately show ?thesis using c(1) by blast
qed

text \<open>The front end that the mount command starts.\<close>

lemma front_end_starts:
  assumes "ring_laws (mc_ring (ce_master CE))" "ring_laws (cl_ring (fe_client E))"
    and "ring_get_law (cl_ring (fe_client E))" "cl_rpc (fe_client E) = cluster_rpc CE"
    and "ring_empty (cl_ring (fe_client E)) (cl_ring_new (fe_client E))" "is_valid_path (ce_master CE) ''/''"
    and "storage = ''posix'' \<or> storage = ''object''"
    and "\<And>f. VsfsFuse_new width (fe_absolute E base) (fe_absolute E mnt) storage = Done f \<Longrightarrow> \<exists>os1. sm_init E (fuse_storage f) os = (os1, OK)"
    and "masters w \<lparr>host = h, port = p\<rparr> = Some m" "is_primary_node m" "master_server_manager m = Some ms" "index_server_manager m = Some is"
    and "ring_items (mc_ring (ce_master CE)) ms \<noteq> []"
    and "\<And>pos n. (pos, n) \<in> set (ring_items (mc_ring (ce_master CE)) ms) \<Longrightarrow>
      node_alive CE w (address n) \<and> (node_vacant w (address n) ''/'' \<or> node_dir w (address n) ''/'' \<noteq> None)"
  shows "\<exists>s node fs. fuse_init E width None base mnt h p storage w os = Done (s, OK) \<and>
    is_initialized (fe_client E) (fs_client s) \<and> master_of (fe_client E) (fs_client s) ''/'' = Inr node \<and>
    node_alive CE (fs_cluster s) (address node) \<and> node_dir (fs_cluster s) (address node) ''/'' = Some fs \<and>
    node_file (fs_cluster s) = node_file w \<and> node_alive CE (fs_cluster s) = node_alive CE w \<and>
    (\<forall>path. \<exists>node. master_of (fe_client E) (fs_client s) path = Inr node \<and>
      address node \<in> (\<lambda>(pos, n). address n) ` set (ring_items (mc_ring (ce_master CE)) ms))"
proof -
  let ?C = "fe_client E"
  obtain f where f: "VsfsFuse_new width (fe_absolute E base) (fe_absolute E mnt) storage = Done f"
    using assms(7) by (auto simp: VsfsFuse_new_def)
  from assms(8) [OF this] obtain os1 where os1: "sm_init E (fuse_storage f) os = (os1, OK)" by blast
  from mounted_client [OF assms(1-5,9-13)] obtain c where
    c: "client_init ?C (VSFSRpcClient_new ?C h p) w = Done (w, c, OK)" "is_initialized ?C c"
      "\<forall>path. \<exists>node. master_of ?C c path = Inr node \<and> address node \<in> (\<lambda>(pos, n). address n) ` set (ring_items (mc_ring (ce_master CE)) ms)"
    by blast
  from c(3) obtain node where r: "master_of ?C c ''/'' = Inr node"
    "address node \<in> (\<lambda>(pos, n). address n) ` set (ring_items (mc_ring (ce_master CE)) ms)" by blast
  from r(2) assms(14) have n: "node_alive CE w (address node)" "node_vacant w (address node) ''/'' \<or> node_dir w (address node) ''/'' \<noteq> None"
    by fastforce+
  from master_cluster.cluster_mkdir_root [OF assms(4) c(2) r(1) n(1) assms(6) n(2) dir_mode_777,
      of "ctx_uid E" "ctx_gid E"] obtain w' status fs where
    k: "cl_mkdir ?C c ''/'' 0x1FF (ctx_uid E) (ctx_gid E) w = Done (w', status)" "node_alive CE w' = node_alive CE w"
      "node_file w' = node_file w" "node_dir w' (address node) ''/'' = Some fs" by blast
  let ?s = "\<lparr>fs_cluster = w', fs_os = os1, fs_client = c, fs_fuse = f\<rparr>"
  have "fuse_init E width None base mnt h p storage w os = Done (?s, OK)"
    using f os1 c(1) k(1) by (simp add: fuse_init_def Let_def del: bindo_Done_iff)
  with c(2,3) r(1) k n(1) show ?thesis by (intro exI [of _ ?s]) auto
qed

text \<open>
  C9: The way from the command line to a file system. With a base directory and a host given and a storage that starts, the mount
  command, next to a running primary master whose known masters are alive and have a directory or nothing at the root, returns with
  success from the FUSE loop; the loop starts with a client that knows a master of the root, and there the root is a directory,
  and no file of the cluster has changed.\<close>

theorem mount_has_root:
  assumes "ring_laws (mc_ring (ce_master CE))" "ring_laws (cl_ring (fe_client E))"
    and "ring_get_law (cl_ring (fe_client E))" "cl_rpc (fe_client E) = cluster_rpc CE"
    and "ring_empty (cl_ring (fe_client E)) (cl_ring_new (fe_client E))" "is_valid_path (ce_master CE) ''/''"
    and "fuse_opt_parse P vsfs_opts vsfs_opt_proc argv = Parsed opts args" "opt_basedir opts = Some base" "base \<noteq> []"
    and "opt_master_host opts = Some h" "h \<noteq> []" "p = (if opt_master_port opts = 0 then 9876 else opt_master_port opts)"
    and "storage = given (opt_storage opts) ''posix''" "storage = ''posix'' \<or> storage = ''object''"
    and "\<And>width f. VsfsFuse_new width (fe_absolute E base) (fe_absolute E (last args)) storage = Done f \<Longrightarrow>
      \<exists>os1. sm_init E (fuse_storage f) os = (os1, OK)"
    and "masters w \<lparr>host = h, port = p\<rparr> = Some m" "is_primary_node m" "master_server_manager m = Some ms" "index_server_manager m = Some is"
    and "ring_items (mc_ring (ce_master CE)) ms \<noteq> []"
    and "\<And>pos n. (pos, n) \<in> set (ring_items (mc_ring (ce_master CE)) ms) \<Longrightarrow>
      node_alive CE w (address n) \<and> (node_vacant w (address n) ''/'' \<or> node_dir w (address n) ''/'' \<noteq> None)"
  shows "\<exists>s node fs. mount_main E P width argv w os = Done (Some (fuse_main P args s), 0) \<and>
    is_initialized (fe_client E) (fs_client s) \<and> master_of (fe_client E) (fs_client s) ''/'' = Inr node \<and>
    node_alive CE (fs_cluster s) (address node) \<and> node_dir (fs_cluster s) (address node) ''/'' = Some fs \<and>
    node_file (fs_cluster s) = node_file w"
proof -
  let ?width = "if 0 < opt_dirwidth opts then word_of_int (opt_dirwidth opts) else width"
  have "\<exists>s node fs. fuse_init E ?width None base (last args) h p storage w os = Done (s, OK) \<and>
      is_initialized (fe_client E) (fs_client s) \<and> master_of (fe_client E) (fs_client s) ''/'' = Inr node \<and>
      node_alive CE (fs_cluster s) (address node) \<and> node_dir (fs_cluster s) (address node) ''/'' = Some fs \<and>
      node_file (fs_cluster s) = node_file w \<and> node_alive CE (fs_cluster s) = node_alive CE w \<and>
      (\<forall>path. \<exists>node. master_of (fe_client E) (fs_client s) path = Inr node \<and>
        address node \<in> (\<lambda>(pos, n). address n) ` set (ring_items (mc_ring (ce_master CE)) ms))"
    by (rule front_end_starts [OF assms(1-6,14) _ assms(16-20)]) (fact assms(15), fact assms(21))
  then obtain s node fs where
    s: "fuse_init E ?width None base (last args) h p storage w os = Done (s, OK)" "is_initialized (fe_client E) (fs_client s)"
      "master_of (fe_client E) (fs_client s) ''/'' = Inr node" "node_alive CE (fs_cluster s) (address node)"
      "node_dir (fs_cluster s) (address node) ''/'' = Some fs" "node_file (fs_cluster s) = node_file w" by blast
  have g: "given (opt_basedir opts) [] = base" "given (opt_master_host opts) ''localhost'' = h"
    using assms(8-11) by (simp_all add: given_def)
  have "mount_main E P width argv w os = Done (Some (fuse_main P args s), 0)"
    unfolding mount_main_def assms(7) parsed.case Let_def g assms(12,13) [symmetric] s(1)
    using assms(9,10,14) by auto
  with s(2-6) show ?thesis by blast
qed

lemma primary_alive: "masters w a = Some primary_master \<Longrightarrow> node_alive test_cluster_env w a"
  using demo_master_ns_inv test_accepts_writes
  by (simp add: node_alive_def primary_master_def test_cluster_env_def test_mc_env_def test_env_def)

text \<open>A parser for the command lines \<open>vsfs -b BASE -H HOST -p 1 MOUNTPOINT\<close> and a loop that ends at once.\<close>

definition test_mount_env :: "('w, 'o, 'r) mount_env" where
  "test_mount_env =
     \<lparr>fuse_opt_parse = (\<lambda>opts proc argv.
        if length argv = 8 \<and> argv ! 1 = ''-b'' \<and> argv ! 3 = ''-H'' \<and> argv ! 5 = ''-p'' \<and> argv ! 6 = ''1'' then
          Parsed \<lparr>opt_basedir = Some (argv ! 2), opt_master_host = Some (argv ! 4), opt_storage = None, opt_dirwidth = 0, opt_master_port = 1\<rparr>
            [argv ! 0, argv ! 7]
        else ParseError),
      fuse_main = (\<lambda>args s. s)\<rparr>"

lemma test_fuse_main: "fuse_main test_mount_env args s = s"
  by (simp add: test_mount_env_def)

theorem mount_has_root_witness:
  "\<exists>s node fs. mount_main test_fuse_env test_mount_env 8192 [''vsfs'', ''-b'', ''/d'', ''-H'', ''a'', ''-p'', ''1'', ''/mnt'']
      one_master_state Map.empty = Done (Some s, 0) \<and>
    master_of test_client_env (fs_client s) ''/'' = Inr node \<and> node_dir (fs_cluster s) (address node) ''/'' = Some fs"
proof -
  let ?opts = "\<lparr>opt_basedir = Some ''/d'', opt_master_host = Some ''a'', opt_storage = None, opt_dirwidth = 0, opt_master_port = 1\<rparr>"
    and ?ms = "[(12 :: int, Some (NodeInfo_default\<lparr>address := node_a\<rparr>))]"
  have e: "fe_client test_fuse_env = test_client_env" by (simp add: test_fuse_env_def)
  have r: "mc_ring (ce_master test_cluster_env) = list_ring" by (simp add: test_cluster_env_def test_mc_env_def)
  have p: "fuse_opt_parse test_mount_env vsfs_opts vsfs_opt_proc [''vsfs'', ''-b'', ''/d'', ''-H'', ''a'', ''-p'', ''1'', ''/mnt''] =
      Parsed ?opts [''vsfs'', ''/mnt'']" by (simp add: test_mount_env_def)
  have m: "masters one_master_state node_a = Some primary_master" "is_primary_node primary_master"
    "master_server_manager primary_master = Some ?ms" "index_server_manager primary_master = Some []"
    by (simp_all add: one_master_state_def primary_master_def)
  have i: "ring_items list_ring ?ms = [(12, NodeInfo_default\<lparr>address := node_a\<rparr>)]" by (simp add: list_ring_def replay_nodes_def)
  have a: "node_alive test_cluster_env one_master_state node_a" using m(1) by (rule primary_alive)
  have v: "node_vacant one_master_state node_a ''/''"
    by (simp add: node_vacant_def one_master_state_def primary_master_def demo_master_def Namespace_new_def)
  have g: "ring_get_law (cl_ring test_client_env)" by (simp add: test_client_env_def ring_get_law_list)
  have "\<exists>s node fs. mount_main test_fuse_env test_mount_env 8192 [''vsfs'', ''-b'', ''/d'', ''-H'', ''a'', ''-p'', ''1'', ''/mnt'']
        one_master_state Map.empty = Done (Some (fuse_main test_mount_env [''vsfs'', ''/mnt''] s), 0) \<and>
      is_initialized test_client_env (fs_client s) \<and> master_of test_client_env (fs_client s) ''/'' = Inr node \<and>
      node_alive test_cluster_env (fs_cluster s) (address node) \<and> node_dir (fs_cluster s) (address node) ''/'' = Some fs \<and>
      node_file (fs_cluster s) = node_file one_master_state"
    by (rule mount_has_root [where CE = test_cluster_env and E = test_fuse_env and opts = ?opts and m = primary_master and ms = ?ms,
          unfolded e r i, OF test_membership(1) [unfolded r] test_membership(3) g test_client_simps(1) test_membership(4) _ p])
      (use m a v in \<open>auto simp: test_client_simps given_def VsfsFuse_new_def\<close>)
  then show ?thesis by (auto simp: test_fuse_main)
qed

end
