(* ===== verification/Unmount.thy ===== *)
theory Unmount
  imports Programs
begin

text \<open>
  The end of the mounted file system: \<open>vsfs_destroy\<close> and \<open>VsfsFuse::destory\<close> of \<open>fuse/vsfs_ops.cpp\<close>, the destructor of the client, and the
  descriptors that the front end holds from \<open>VsfsFuse::init\<close> to there, over every sequence of handlers.
\<close>

section \<open>Destroying the front end\<close>

text \<open>Every update waits for its tasks, so the thread pool that is closed and joined first is idle.\<close>

definition client_destroy :: "('w, 'r) client_env \<Rightarrow> 'r VSFSRpcClient \<Rightarrow> 'w \<Rightarrow> 'w outcome" where
  "client_destroy E c w = (if Client.connected c then bindo (disconnect E c w) (\<lambda>(w', _). Done w') else Done w)"

text \<open>
  The members are destroyed in the reverse order of their declaration: the table with its files, the client, the storage manager. The
  first component of the result is the instance there is afterwards.
\<close>

definition fuse_destory ::
  "('w, 'r, 'o, 'sv) fuse_env \<Rightarrow> ('w, 'o, 'r) fuse_state \<Rightarrow> (VsfsFuse option \<times> 'w \<times> 'o) outcome" where
  "fuse_destory E s =
     (let os' = foldl (\<lambda>os (fd, file). File_destroy (fe_os E) file os) (fs_os s) (fh_to_obj_map (fs_fuse s))
      in bindo (client_destroy (fe_client E) (fs_client s) (fs_cluster s)) (\<lambda>w'. Done (None, w', os')))"

definition vsfs_destroy ::
  "('w, 'r, 'o, 'sv) fuse_env \<Rightarrow> ('w, 'o, 'r) fuse_state \<Rightarrow> (VsfsFuse option \<times> 'w \<times> 'o) outcome" where
  "vsfs_destroy E s = fuse_destory E s"

section \<open>Sequences of handlers\<close>

inductive fuse_step :: "('w, 'r, 'o, 'sv) fuse_env \<Rightarrow> ('w, 'o, 'r) fuse_state \<Rightarrow> ('w, 'o, 'r) fuse_state \<Rightarrow> bool" for E where
  getattr_step: "vsfs_getattr E path stbuf s = Done (t, r) \<Longrightarrow> fuse_step E s t"
| utimens_step: "vsfs_utimens E path acc modif s = Done (t, r) \<Longrightarrow> fuse_step E s t"
| chmod_step: "vsfs_chmod E path md s = Done (t, r) \<Longrightarrow> fuse_step E s t"
| chown_step: "vsfs_chown E path u g s = Done (t, r) \<Longrightarrow> fuse_step E s t"
| readdir_step: "vsfs_readdir E path entries s = Done (t, r) \<Longrightarrow> fuse_step E s t"
| readlink_step: "vsfs_readlink E path n s = Done (t, r) \<Longrightarrow> fuse_step E s t"
| mkdir_step: "vsfs_mkdir E path md s = Done (t, r) \<Longrightarrow> fuse_step E s t"
| rmdir_step: "vsfs_rmdir E path s = Done (t, r) \<Longrightarrow> fuse_step E s t"
| mknod_step: "vsfs_mknod E path md s = Done (t, r) \<Longrightarrow> fuse_step E s t"
| unlink_step: "vsfs_unlink E path s = Done (t, r) \<Longrightarrow> fuse_step E s t"
| symlink_step: "vsfs_symlink E path link s = Done (t, r) \<Longrightarrow> fuse_step E s t"
| create_step: "vsfs_create E path md flags s = Done (t, r) \<Longrightarrow> fuse_step E s t"
| open_step: "vsfs_open E path flags s = Done (t, r) \<Longrightarrow> fuse_step E s t"
| release_step: "vsfs_release E fh s = Done (t, r) \<Longrightarrow> fuse_step E s t"
| read_step: "vsfs_read E fh n off s = (t, r) \<Longrightarrow> fuse_step E s t"
| write_step: "vsfs_write E fh buf off s = (t, r) \<Longrightarrow> fuse_step E s t"
| write_buf_step: "vsfs_write_buf E bufs off fh s = (t, r) \<Longrightarrow> fuse_step E s t"
| ioctl_step: "vsfs_ioctl E cmd fh s = (t, r) \<Longrightarrow> fuse_step E s t"
| flush_step: "vsfs_flush E fh s = (t, r) \<Longrightarrow> fuse_step E s t"
| flock_step: "vsfs_flock E fh code s = (t, r) \<Longrightarrow> fuse_step E s t"
| lock_step: "vsfs_lock E fh cmd s = (t, r) \<Longrightarrow> fuse_step E s t"
| fsync_step: "vsfs_fsync E fh s = (t, r) \<Longrightarrow> fuse_step E s t"

section \<open>Descriptors\<close>

text \<open>A handler that neither opens nor closes.\<close>

definition quiet :: "('o \<Rightarrow> int set) \<Rightarrow> ('w, 'o, 'r) fuse_state \<Rightarrow> ('w, 'o, 'r) fuse_state \<Rightarrow> bool" where
  "quiet fds s t \<longleftrightarrow> fs_fuse t = fs_fuse s \<and> fds (fs_os t) = fds (fs_os s)"

lemma quiet_refl: "quiet fds s s"
  by (simp add: quiet_def)

lemma quiet_pair: "quiet fds s (fst p) \<Longrightarrow> p = (t, r) \<Longrightarrow> quiet fds s t"
  by simp

lemma quiet_trans: "quiet fds s t \<Longrightarrow> quiet fds t u \<Longrightarrow> quiet fds s u"
  by (simp add: quiet_def)

lemma quiet_cluster: "quiet fds s (s\<lparr>fs_cluster := w\<rparr>)"
  by (simp add: quiet_def)

lemma quiet_os: "quiet fds s (s\<lparr>fs_os := os\<rparr>) \<longleftrightarrow> fds os = fds (fs_os s)"
  by (simp add: quiet_def)

text \<open>What holds of the result of a call that returns.\<close>

definition post :: "('a \<Rightarrow> bool) \<Rightarrow> 'a outcome \<Rightarrow> bool" where
  "post P r = (case r of Done a \<Rightarrow> P a | Fail _ \<Rightarrow> True)"

lemma post_simps [simp]: "post P (Done a) = P a" "post P (Fail e)"
  by (simp_all add: post_def)

lemma post_bindo: "(\<And>a. r = Done a \<Longrightarrow> post P (f a)) \<Longrightarrow> post P (bindo r f)"
  by (cases r) simp_all

lemma post_mono: "post P r \<Longrightarrow> (\<And>a. P a \<Longrightarrow> Q a) \<Longrightarrow> post Q r"
  by (cases r) simp_all

lemma postD: "post P r \<Longrightarrow> r = Done a \<Longrightarrow> P a"
  by simp

text \<open>
  The front end holds exactly the descriptors of its table, each in a file of its own, besides those there were before.
\<close>

definition held :: "('o \<Rightarrow> int set) \<Rightarrow> int set \<Rightarrow> ('w, 'o, 'r) fuse_state \<Rightarrow> bool" where
  "held fds base s \<longleftrightarrow>
     smap_ok (fh_to_obj_map (fs_fuse s)) \<and> (\<forall>fd f. get_file (fs_fuse s) fd = Some f \<longrightarrow> f = File_new fd \<and> fd \<notin> base) \<and>
     fds (fs_os s) = base \<union> {fd. get_file (fs_fuse s) fd \<noteq> None}"

text \<open>
  The documented behaviour of the system calls on the open descriptors of the process. The locale has what the front end
  relies on and its lemmas. Closing releases the descriptor whatever it reports, as it does on Linux.
\<close>

locale descriptors =
  fixes E :: "('w, 'r, 'o, 'sv) fuse_env" and fds :: "'o \<Rightarrow> int set"
  assumes fds_pos: "fd \<in> fds os \<Longrightarrow> 0 \<le> fd"
    and open_fds: "sys_open (fe_os E) path flags md os = (os', fd, err) \<Longrightarrow>
      if fd < 0 then fds os' = fds os else fd \<notin> fds os \<and> fds os' = insert fd (fds os)"
    and close_fds: "sys_close (fe_os E) fd os = (os', ret, err) \<Longrightarrow> fds os' = fds os - {fd}"
    and dup_fds: "sys_dup E fd os = (os', fd') \<Longrightarrow> if fd' < 0 then fds os' = fds os else fd' \<notin> fds os \<and> fds os' = insert fd' (fds os)"
    and path_fds: "fds (fst (sys_unlink (fe_os E) path os)) = fds os" "fds (fst (sys_mkdir (fe_os E) path mkmode os)) = fds os"
      "fds (fst (sys_rmdir (fe_os E) path os)) = fds os" "fds (fst (sys_symlink (fe_os E) path link os)) = fds os"
      "fds (fst (create_directories (fe_os E) path os)) = fds os"
    and io_fds: "fds (fst (sys_pread (fe_os E) fd n off os)) = fds os" "fds (fst (sys_pwrite (fe_os E) fd buf off os)) = fds os"
      "fds (fst (sys_ioctl E fd cmd os)) = fds os" "fds (fst (sys_flock E fd code os)) = fds os"
      "fds (fst (sys_fcntl E fd cmd os)) = fds os" "fds (fst (sys_fsync E fd os)) = fds os"
begin

lemma checked_fds: "fds (fst (checked r)) = fds (fst r)"
  by (simp add: checked_def split: prod.split)

lemma storage_fds:
  "post (\<lambda>(os', _). fds os' = fds os) (sm_unlink E sm path oid os)" "fds (fst (sm_mkdir E sm path md os)) = fds os"
  "fds (fst (sm_rmdir E sm path os)) = fds os" "post (\<lambda>(os', _). fds os' = fds os) (sm_symlink E sm path link oid os)"
proof -
  have c: "case checked r of (os', _) \<Rightarrow> fds os' = fds os" if "fds (fst r) = fds os" for r os
    using checked_fds [of r] that by (simp add: case_prod_unfold)
  show "post (\<lambda>(os', _). fds os' = fds os) (sm_unlink E sm path oid os)" "post (\<lambda>(os', _). fds os' = fds os) (sm_symlink E sm path link oid os)"
    by (cases sm; simp add: posix_unlink_def object_unlink_def posix_symlink_def object_symlink_def c path_fds post_bindo)+
  show "fds (fst (sm_mkdir E sm path md os)) = fds os" "fds (fst (sm_rmdir E sm path os)) = fds os"
    by (cases sm; simp add: posix_mkdir_def posix_rmdir_def checked_fds path_fds)+
qed

lemma write_fds: "fds (fst (File_write (fe_os E) f buf off os)) = fds os"
  by (simp add: File_write_def handler_write_def io_fds split: option.split)

lemma write_bufs_quiet: "quiet fds s (fst (write_bufs E f bufs off n s))"
proof (induction bufs arbitrary: n s)
  case (Cons buf bufs)
  obtain os k where w: "File_write (fe_os E) f buf off (fs_os s) = (os, k)" by (cases "File_write (fe_os E) f buf off (fs_os s)")
  then have q: "quiet fds s (s\<lparr>fs_os := os\<rparr>)" using write_fds [of f buf off "fs_os s"] by (simp add: quiet_def)
  from quiet_trans [OF q Cons.IH] q w show ?case by (simp add: Let_def)
qed (simp add: quiet_def)

lemma fill_results_quiet: "post (\<lambda>(t, _). quiet fds s t) (fill_results E found entries s)"
proof (induction found arbitrary: entries s)
  case (Cons p found)
  have "post (\<lambda>(t, _). quiet fds s t) (fill_results E found e (s\<lparr>fs_cluster := w\<rparr>))" for e w
    by (rule post_mono [OF Cons.IH]) (auto simp: quiet_def)
  then show ?case by (auto simp: Let_def quiet_cluster intro!: post_bindo split: sum.split)
qed (simp add: quiet_def)

lemma name_handlers_quiet:
  "post (\<lambda>(t, _). quiet fds s t) (vsfs_getattr E path stbuf s)" "post (\<lambda>(t, _). quiet fds s t) (client_status E call s)"
  "post (\<lambda>(t, _). quiet fds s t) (vsfs_readlink E path n s)" "post (\<lambda>(t, _). quiet fds s t) (vsfs_mknod E path md s)"
  by (auto simp: vsfs_getattr_def client_status_def vsfs_readlink_def vsfs_mknod_def Let_def quiet_cluster quiet_refl
      intro!: post_bindo split: sum.split)

lemma storage_handlers_quiet:
  "post (\<lambda>(t, _). quiet fds s t) (vsfs_mkdir E path md s)" "post (\<lambda>(t, _). quiet fds s t) (vsfs_rmdir E path s)"
  "post (\<lambda>(t, _). quiet fds s t) (vsfs_unlink E path s)" "post (\<lambda>(t, _). quiet fds s t) (vsfs_symlink E path link s)"
proof -
  show "post (\<lambda>(t, _). quiet fds s t) (vsfs_mkdir E path md s)" "post (\<lambda>(t, _). quiet fds s t) (vsfs_rmdir E path s)"
    by (auto simp: vsfs_mkdir_def vsfs_rmdir_def Let_def quiet_def storage_fds case_prod_unfold intro!: post_bindo)
  have p: "post (\<lambda>(t, _). quiet fds s t) (bindo r (\<lambda>(os, status). Done (s\<lparr>fs_cluster := w, fs_os := os\<rparr>, g status)))"
    if "post (\<lambda>(os', _). fds os' = fds (fs_os s)) r" for r w and g :: "Status \<Rightarrow> int"
    using that by (cases r) (auto simp: quiet_def)
  show "post (\<lambda>(t, _). quiet fds s t) (vsfs_unlink E path s)" "post (\<lambda>(t, _). quiet fds s t) (vsfs_symlink E path link s)"
    by (auto simp: vsfs_unlink_def vsfs_symlink_def Let_def quiet_cluster intro!: post_bindo p storage_fds split: sum.split)
qed

lemma readdir_quiet: "post (\<lambda>(t, _). quiet fds s t) (vsfs_readdir E path entries s)"
proof -
  have "post (\<lambda>(t, _). quiet fds s t) (fill_results E found e (s\<lparr>fs_cluster := w\<rparr>))" for found e w
    by (rule post_mono [OF fill_results_quiet]) (auto simp: quiet_def)
  then show ?thesis by (auto simp: vsfs_readdir_def Let_def quiet_cluster intro!: post_bindo split: sum.split)
qed

lemma on_descriptor_quiet: "fds (fst (call (fs_os s))) = fds (fs_os s) \<Longrightarrow> quiet fds s (fst (on_descriptor s call))"
  by (simp add: on_descriptor_def quiet_def case_prod_unfold)

lemma flush_fds: "fds (fst (case sys_dup E fh os of (os', fd) \<Rightarrow> sys_close (fe_os E) fd os')) = fds os"
proof -
  obtain os1 fd where d: "sys_dup E fh os = (os1, fd)" by (cases "sys_dup E fh os")
  obtain os2 ret err where c: "sys_close (fe_os E) fd os1 = (os2, ret, err)" by (cases "sys_close (fe_os E) fd os1")
  from dup_fds [OF d] close_fds [OF c] fds_pos [of fd os] d c show ?thesis by (auto split: if_split_asm)
qed

lemma file_handlers_quiet:
  "quiet fds s (fst (vsfs_read E fh n off s))" "quiet fds s (fst (vsfs_write E fh buf off s))"
  "quiet fds s (fst (vsfs_write_buf E bufs off fh s))" "quiet fds s (fst (vsfs_ioctl E cmd fh s))" "quiet fds s (fst (vsfs_flush E fh s))"
  "quiet fds s (fst (vsfs_flock E fh code s))" "quiet fds s (fst (vsfs_lock E fh cmd s))" "quiet fds s (fst (vsfs_fsync E fh s))"
proof -
  show "quiet fds s (fst (vsfs_flush E fh s))" unfolding vsfs_flush_def by (rule on_descriptor_quiet) (rule flush_fds)
qed (simp_all add: vsfs_read_def vsfs_write_def vsfs_write_buf_def vsfs_ioctl_def vsfs_flock_def vsfs_lock_def vsfs_fsync_def
    quiet_refl quiet_os write_fds io_fds write_bufs_quiet on_descriptor_quiet case_prod_unfold split: option.split)

lemma held_quiet: "held fds base s \<Longrightarrow> quiet fds s t \<Longrightarrow> held fds base t"
  by (simp add: held_def quiet_def)

lemma open_at_fds:
  assumes "sm_open E sm path oid flags md os = Done (os', x)"
  shows "case x of Inl _ \<Rightarrow> fds os' = fds os | Inr f \<Rightarrow> \<exists>fd. f = File_new fd \<and> fd \<notin> fds os \<and> fds os' = insert fd (fds os)"
proof -
  obtain q where q: "open_at (fe_os E) q flags md os = (os', x)"
    using assms by (cases sm) (auto simp: posix_open_def object_open_def)
  obtain os1 fd err where o: "sys_open (fe_os E) q flags md os = (os1, fd, err)" by (cases "sys_open (fe_os E) q flags md os")
  from open_fds [OF o] q o show ?thesis by (auto simp: open_at_def split: if_split_asm)
qed

lemma held_cluster: "held fds base (s\<lparr>fs_cluster := w\<rparr>) \<longleftrightarrow> held fds base s"
  by (simp add: held_def)

lemma held_open:
  assumes "held fds base s"
  shows "post (\<lambda>(t, _). held fds base t) (keep_open E s (sm_open E sm path oid flags md (fs_os s)))"
proof (cases "sm_open E sm path oid flags md (fs_os s)")
  case (Done p)
  then obtain os' x where x: "sm_open E sm path oid flags md (fs_os s) = Done (os', x)" by (cases p) simp
  show ?thesis
  proof (cases x)
    case (Inl status)
    with assms x open_at_fds [OF x] show ?thesis by (simp add: keep_open_def held_def Let_def)
  next
    case (Inr f)
    with open_at_fds [OF x] obtain fd where f: "f = File_new fd" "fd \<notin> fds (fs_os s)" "fds os' = insert fd (fds (fs_os s))" by auto
    then have "File_fd f = fd" by (simp add: File_fd_def File_new_def)
    moreover have "get_file (fs_fuse s) fd = None" "fd \<notin> base" using assms(1) f(2) by (auto simp: held_def)
    ultimately have "held fds base (add_file E (File_fd f) f (s\<lparr>fs_os := os'\<rparr>))" using assms f(1,3)
      by (auto simp: held_def get_file_def add_file_def Let_def intro: smap_intros)
    then show ?thesis by (simp add: keep_open_def x Inr Let_def)
  qed
qed (simp add: keep_open_def)

text \<open>Closing a file, and destroying it once or twice, releases its descriptor and no other.\<close>

lemma handler_close_fds: "fds (fst (handler_close (fe_os E) h os)) = fds os - {fh_fd h}"
proof -
  obtain os' ret err where "sys_close (fe_os E) (fh_fd h) os = (os', ret, err)" by (cases "sys_close (fe_os E) (fh_fd h) os")
  with close_fds [OF this] show ?thesis by (simp add: handler_close_def)
qed

lemma handler_destroy_fds: "fds (handler_destroy (fe_os E) h os) = fds os - {fh_fd h}"
  using fds_pos [of "fh_fd h" os] by (auto simp: handler_destroy_def handler_close_fds)

lemma file_close_fds:
  assumes "File_close (fe_os E) (File_new fd) os = (os', f', status)"
  shows "fds os' = fds os - {fd}" "f' = File_new fd \<or> file_handler f' = None"
proof -
  obtain os1 ret err where c: "sys_close (fe_os E) fd os = (os1, ret, err)" by (cases "sys_close (fe_os E) fd os")
  have "fds (handler_destroy (fe_os E) \<lparr>fh_fd = -1\<rparr> os1) = fds os1" by (simp add: handler_destroy_def)
  moreover have "os' = (if ret = 0 then handler_destroy (fe_os E) \<lparr>fh_fd = -1\<rparr> os1 else os1)"
      "f' = (if ret = 0 then (File_new fd)\<lparr>file_handler := None\<rparr> else File_new fd)"
    using assms c by (simp_all add: File_close_def File_new_def handler_close_def split: if_split_asm)
  ultimately show "fds os' = fds os - {fd}" "f' = File_new fd \<or> file_handler f' = None"
    using close_fds [OF c] by simp_all
qed

lemma destroy_new: "fds (File_destroy (fe_os E) (File_new fd) os) = fds os - {fd}"
proof -
  obtain os' f' status where c: "File_close (fe_os E) (File_new fd) os = (os', f', status)"
    by (cases "File_close (fe_os E) (File_new fd) os")
  from file_close_fds(2) [OF c] show ?thesis
  proof
    assume "f' = File_new fd"
    then have "File_destroy (fe_os E) (File_new fd) os = handler_destroy (fe_os E) \<lparr>fh_fd = fd\<rparr> os'"
      using c by (simp add: File_destroy_def) (simp add: File_new_def)
    then show ?thesis using file_close_fds(1) [OF c] by (simp add: handler_destroy_fds)
  next
    assume "file_handler f' = None"
    then show ?thesis using c file_close_fds(1) [OF c] by (simp add: File_destroy_def)
  qed
qed

lemma held_release: "held fds base s \<Longrightarrow> post (\<lambda>(t, _). held fds base t) (close_file E fh s)"
proof (cases "get_file (fs_fuse s) fh")
  case (Some f)
  assume h: "held fds base s"
  with Some have f: "f = File_new fh" "fh \<notin> base" by (auto simp: held_def)
  obtain os' f' status where c: "File_close (fe_os E) (File_new fh) (fs_os s) = (os', f', status)"
    by (cases "File_close (fe_os E) (File_new fh) (fs_os s)")
  let ?os = "File_destroy (fe_os E) f' os'"
  let ?t = "s\<lparr>fs_os := ?os, fs_fuse := (fs_fuse s)\<lparr>fh_to_obj_map := smap_erase fh (fh_to_obj_map (fs_fuse s))\<rparr>\<rparr>"
  have "fds ?os = fds (fs_os s) - {fh}"
  proof (cases "f' = File_new fh")
    case True
    then show ?thesis using file_close_fds(1) [OF c] destroy_new [of fh os'] by simp
  next
    case False
    with file_close_fds [OF c] show ?thesis by (simp add: File_destroy_def File_close_def)
  qed
  then have "held fds base ?t" using h f(2) by (auto simp: held_def get_file_def intro: smap_intros)
  moreover have "close_file E fh s = Done (?t, status)" using Some c f(1) by (simp add: close_file_def get_file_def Let_def)
  ultimately show ?thesis by simp
qed (simp add: close_file_def get_file_def)

lemma held_create: "held fds base s \<Longrightarrow> post (\<lambda>(t, _). held fds base t) (vsfs_create E path md flags s)"
  using held_open [of base "s\<lparr>fs_cluster := w\<rparr>" for w]
  by (auto simp: vsfs_create_def Let_def held_cluster intro!: post_bindo)

lemma held_vsfs_open: "held fds base s \<Longrightarrow> post (\<lambda>(t, _). held fds base t) (vsfs_open E path flags s)"
  using held_open [of base "s\<lparr>fs_cluster := w\<rparr>" for w]
  by (auto simp: vsfs_open_def Let_def held_cluster intro!: post_bindo split: sum.split)

lemmas name_steps = name_handlers_quiet [THEN postD] storage_handlers_quiet [THEN postD] readdir_quiet [THEN postD]

lemmas file_steps = file_handlers_quiet [THEN quiet_pair]

lemma held_step: "fuse_step E s t \<Longrightarrow> held fds base s \<Longrightarrow> held fds base t"
proof (induction rule: fuse_step.induct)
  case (create_step path md flags s t r)
  with held_create [of base s path md flags] show ?case by simp
next
  case (open_step path flags s t r)
  with held_vsfs_open [of base s path flags] show ?case by simp
next
  case (release_step fh s t r)
  with held_release [of base s fh] show ?case by (cases "close_file E fh s") (auto simp: vsfs_release_def)
qed (auto simp: vsfs_utimens_def vsfs_chmod_def vsfs_chown_def dest!: name_steps file_steps intro: held_quiet)

lemma held_run: "(fuse_step E)\<^sup>*\<^sup>* s t \<Longrightarrow> held fds base s \<Longrightarrow> held fds base t"
  by (induction rule: rtranclp_induct) (auto dest: held_step)

lemma sm_init_fds: "fds (fst (sm_init E sm os)) = fds os"
proof -
  have "fds (fst (object_init_loop (fe_os E) P dir ns os)) = fds os" for P dir ns os
  proof (induction ns arbitrary: os)
    case (Cons i ns)
    with path_fds(5) [of "path_join P dir (nat_to_string i)" os] show ?case by (simp add: case_prod_unfold)
  qed simp
  then show ?thesis by (cases sm) (simp_all add: object_init_def)
qed

lemma held_new: "post (\<lambda>(s, _). held fds (fds os) s) (fuse_init E width None dir mnt h p sm w os)"
proof -
  have n: "VsfsFuse_new width b q sm = Done f \<Longrightarrow> fh_to_obj_map f = []" for b q f
    by (auto simp: VsfsFuse_new_def split: if_split_asm)
  show ?thesis
    by (auto simp: fuse_init_def Let_def case_prod_unfold held_def get_file_def sm_init_fds smap_ok_def dest!: n intro!: post_bindo)
qed

text \<open>Destroying the table closes what is in it.\<close>

lemma destroy_table:
  assumes "distinct (map fst table)" "\<forall>(fd, f)\<in>set table. f = File_new fd \<and> fd \<in> fds os"
  shows "fds (foldl (\<lambda>os (fd, f). File_destroy (fe_os E) f os) os table) = fds os - fst ` set table"
  using assms
proof (induction table arbitrary: os)
  case (Cons p table)
  obtain fd f where p: "p = (fd, f)" by (cases p)
  with Cons.prems have f: "f = File_new fd" "fd \<in> fds os" by auto
  let ?os = "File_destroy (fe_os E) f os"
  have d: "fds ?os = fds os - {fd}" using destroy_new f(1) by simp
  have "fd \<notin> fst ` set table" using Cons.prems(1) p by simp
  then have "\<forall>(g, h)\<in>set table. h = File_new g \<and> g \<in> fds ?os" using Cons.prems(2) d by force
  from Cons.IH [OF _ this] Cons.prems(1) p d show ?case by auto
qed simp

lemma held_destroyed:
  assumes "held fds base s"
  shows "post (\<lambda>(inst, _, os'). inst = None \<and> fds os' = base) (fuse_destory E s)"
proof -
  let ?t = "fh_to_obj_map (fs_fuse s)"
  let ?os = "foldl (\<lambda>os (fd, f). File_destroy (fe_os E) f os) (fs_os s) ?t"
  have t: "distinct (map fst ?t)" using assms by (simp add: held_def smap_ok_distinct)
  have g: "get_file (fs_fuse s) fd = Some f" if "(fd, f) \<in> set ?t" for fd f
    unfolding get_file_def by (rule map_of_is_SomeI [OF t that])
  have f: "\<forall>(fd, f)\<in>set ?t. f = File_new fd \<and> fd \<in> fds (fs_os s)" using assms g unfolding held_def by force
  have k: "{fd. get_file (fs_fuse s) fd \<noteq> None} = fst ` set ?t" unfolding get_file_def map_of_eq_None_iff by simp
  have u: "fds (fs_os s) = base \<union> fst ` set ?t" using assms unfolding held_def k by simp
  have d: "base \<inter> fst ` set ?t = {}" using assms unfolding held_def k [symmetric] by auto
  have "fds ?os = fds (fs_os s) - fst ` set ?t" by (rule destroy_table [OF t f])
  also have "\<dots> = base" using u d by blast
  finally show ?thesis unfolding fuse_destory_def Let_def by (intro post_bindo) simp
qed

end

section \<open>A system for examples\<close>

text \<open>
  A system that keeps its open descriptors in a list, gives out the next number, and reports an error for every other
  descriptor it closes.
\<close>

definition fd_set :: "int list \<Rightarrow> int set" where
  "fd_set os = {fd \<in> set os. 0 \<le> fd}"

definition fresh_fd :: "int list \<Rightarrow> int" where
  "fresh_fd os = foldl max 2 os + 1"

definition fd_os :: "(int list, os_stat, unit) os_api" where
  "fd_os =
     \<lparr>sys_open = (\<lambda>p flags md os. (fresh_fd os # os, fresh_fd os, 0)),
      sys_close = (\<lambda>fd os. (filter (\<lambda>g. g \<noteq> fd) os, if fd \<in> fd_set os \<and> even fd then 0 else -1, 5)),
      sys_pread = (\<lambda>fd n off os. (os, 0, [])), sys_pwrite = (\<lambda>fd s off os. (os, int (length s))),
      sys_unlink = (\<lambda>p os. (os, 0, 0)), sys_mkdir = (\<lambda>p md os. (os, 0, 0)), sys_rmdir = (\<lambda>p os. (os, 0, 0)),
      sys_readlink = (\<lambda>p n os. (-1, [], EINVAL)),
      sys_stat = (\<lambda>p os. (-1, \<lparr>os_size = 0, os_ino = 0, os_dev = 0, os_nlink = 0, os_rdev = 0, os_blksize = 0, os_blocks = 0\<rparr>, ENOENT)),
      sys_statvfs = (\<lambda>p os. (0, (), 0)), sys_symlink = (\<lambda>p q os. (os, 0, 0)),
      create_directories = (\<lambda>p os. (os, 0, []))\<rparr>"

definition fd_env where
  "fd_env =
     \<lparr>fe_client = test_client_env, fe_query = demo_env, fe_os = fd_os, fe_absolute = (\<lambda>p. p),
      sys_fstat = (\<lambda>fd os. (-1, \<lparr>fst_stat = \<lparr>st_mode = 0, st_size = 0, st_uid = 0, st_gid = 0, st_atime = 0, st_ctime = 0, st_mtime = 0\<rparr>,
        fst_os = \<lparr>os_size = 0, os_ino = 0, os_dev = 0, os_nlink = 0, os_rdev = 0, os_blksize = 0, os_blocks = 0\<rparr>\<rparr>, EBADF)),
      sys_ioctl = (\<lambda>fd cmd os. (os, 0, 0)), sys_dup = (\<lambda>fd os. (fresh_fd os # os, fresh_fd os)), sys_flock = (\<lambda>fd code os. (os, 0, 0)),
      sys_fcntl = (\<lambda>fd code os. (os, 0, 0)), sys_fsync = (\<lambda>fd os. (os, 0, 0)), sys_errno = (\<lambda>os. 0),
      getuid = 0, getgid = 0, ctx_uid = 0, ctx_gid = 0, ctx_umask = 0\<rparr>"

lemma fresh_fd_above: "2 < fresh_fd os \<and> (\<forall>fd\<in>set os. fd < fresh_fd os)"
proof -
  have "b \<le> foldl max b os \<and> (\<forall>fd\<in>set os. fd \<le> foldl max b os)" for b :: int
    by (induction os arbitrary: b) (auto intro: order_trans, fastforce+)
  then show ?thesis by (force simp: fresh_fd_def)
qed

interpretation fd_example: descriptors fd_env fd_set
proof
  fix path flags md os os' and fd err :: int
  assume "sys_open (fe_os fd_env) path flags md os = (os', fd, err)"
  with fresh_fd_above [of os] show "if fd < 0 then fd_set os' = fd_set os else fd \<notin> fd_set os \<and> fd_set os' = insert fd (fd_set os)"
    by (auto simp: fd_env_def fd_os_def fd_set_def)
next
  fix fd fd' os os'
  assume "sys_dup fd_env fd os = (os', fd')"
  with fresh_fd_above [of os] show "if fd' < 0 then fd_set os' = fd_set os else fd' \<notin> fd_set os \<and> fd_set os' = insert fd' (fd_set os)"
    by (auto simp: fd_env_def fd_set_def)
qed (auto simp: fd_env_def fd_os_def fd_set_def split: if_split_asm)

section \<open>Properties\<close>


lemma cluster_close: "\<exists>w' r. m_close (cluster_rpc CE) a w = (w', r) \<and> (\<forall>ouch. r \<noteq> Refused ouch)"
  by (cases "masters w a") (simp_all add: cluster_rpc_def at_master_def read_only_def deliver_def Let_def)

text \<open>A master that has the file \<open>/f\<close>.\<close>

definition one_file_state where
  "one_file_state = one_master_state\<lparr>masters := [node_a \<mapsto> primary_master\<lparr>mc_namespace :=
     (mc_namespace primary_master)\<lparr>metadata_map := [''/f'' \<mapsto> new_meta 0 0 S_IFREG 0 0], id_to_path_map := [0 \<mapsto> ''/f''], next_obj_id := 1\<rparr>\<rparr>]\<rparr>"

lemma one_file_alive: "node_alive test_cluster_env one_file_state node_a" "node_vacant one_file_state node_a ''/''"
    "node_file one_file_state node_a ''/f'' = Some 0"
proof -
  have f: "\<not> S_ISDIR S_IFREG" by (simp add: S_ISDIR_def mode_defs)
  then show "node_alive test_cluster_env one_file_state node_a"
    using test_accepts_writes
    by (auto simp: node_alive_def one_file_state_def primary_master_def demo_master_def Namespace_new_def ns_inv_split serial_def
        test_cluster_env_def test_mc_env_def test_env_def)
  show "node_vacant one_file_state node_a ''/''" "node_file one_file_state node_a ''/f'' = Some 0"
    using f by (simp_all add: node_vacant_def node_file_def one_file_state_def)
qed

lemma one_file_mounted:
  "\<exists>s. fuse_init fd_env 8192 None ''/d'' ''/mnt'' ''a'' 1 ''posix'' one_file_state [0, 1, 2] = Done (s, OK) \<and>
     cl_open test_client_env (fs_client s) ''/f'' (fs_cluster s) = Done (fs_cluster s, Inr 0)"
proof -
  let ?ms = "[(12 :: int, Some (NodeInfo_default\<lparr>address := node_a\<rparr>))]"
  let ?pm = "primary_master\<lparr>mc_namespace := (mc_namespace primary_master)\<lparr>metadata_map := [''/f'' \<mapsto> new_meta 0 0 S_IFREG 0 0],
    id_to_path_map := [0 \<mapsto> ''/f''], next_obj_id := 1\<rparr>\<rparr>"
  have e: "fe_client fd_env = test_client_env" by (simp add: fd_env_def)
  have r: "mc_ring (ce_master test_cluster_env) = list_ring" by (simp add: test_cluster_env_def test_mc_env_def)
  have m: "masters one_file_state node_a = Some ?pm" "is_primary_node ?pm" "master_server_manager ?pm = Some ?ms" "index_server_manager ?pm = Some []"
    by (simp_all add: one_file_state_def primary_master_def)
  have n: "ring_items list_ring ?ms = [(12, NodeInfo_default\<lparr>address := node_a\<rparr>)]" by (simp add: list_ring_def replay_nodes_def)
  have g: "ring_get_law (cl_ring test_client_env)" by (simp add: test_client_env_def ring_get_law_list)
  have "\<exists>s node fs. fuse_init fd_env 8192 None ''/d'' ''/mnt'' ''a'' 1 ''posix'' one_file_state [0, 1, 2] = Done (s, OK) \<and>
      is_initialized test_client_env (fs_client s) \<and> master_of test_client_env (fs_client s) ''/'' = Inr node \<and>
      node_alive test_cluster_env (fs_cluster s) (address node) \<and> node_dir (fs_cluster s) (address node) ''/'' = Some fs \<and>
      node_file (fs_cluster s) = node_file one_file_state \<and>
      node_alive test_cluster_env (fs_cluster s) = node_alive test_cluster_env one_file_state \<and>
      (\<forall>path. \<exists>node. master_of test_client_env (fs_client s) path = Inr node \<and>
        address node \<in> (\<lambda>(pos, n). address n) ` set [(12 :: int, NodeInfo_default\<lparr>address := node_a\<rparr>)])"
    by (rule front_end_starts [where CE = test_cluster_env and E = fd_env and m = ?pm and ms = ?ms,
          unfolded e r n, OF test_membership(1) [unfolded r] test_membership(3) g test_client_simps(1) test_membership(4)])
      (use m one_file_alive in \<open>auto simp: test_client_simps VsfsFuse_new_def\<close>)
  then obtain s where s: "fuse_init fd_env 8192 None ''/d'' ''/mnt'' ''a'' 1 ''posix'' one_file_state [0, 1, 2] = Done (s, OK)"
      "node_file (fs_cluster s) = node_file one_file_state"
      "node_alive test_cluster_env (fs_cluster s) = node_alive test_cluster_env one_file_state"
      "\<exists>node. master_of test_client_env (fs_client s) ''/f'' = Inr node \<and> address node = node_a" by auto
  then obtain node where d: "master_of test_client_env (fs_client s) ''/f'' = Inr node" "address node = node_a" by blast
  have "m_object_id (cluster_rpc test_cluster_env) node_a ''/f'' (fs_cluster s) = (fs_cluster s, Reply 0)"
    by (rule cluster_object_id [where CE = test_cluster_env]) (simp_all add: s(2,3) one_file_alive)
  with d s(1) show ?thesis by (intro exI [of _ s]) (simp add: cl_open_def test_client_simps transport_caught_def)
qed


end
