(* ===== verification/Lifecycle.thy ===== *)
theory Lifecycle
  imports Vsfs_Prelude
begin

text \<open>
  Starting and stopping a server: \<open>start\<close>, \<open>stop\<close> and \<open>background_task\<close> of \<open>masterd/master_controller.cpp\<close> and \<open>indexd/index_controller.cpp\<close> as
  three threads whose statements interleave. A thread that waits has no step. \<open>stop\<close> is called any given number of times, one call after
  another and not by the background thread. The Thrift server is a parameter.
\<close>

section \<open>The Thrift server\<close>

text \<open>
  \<open>srv_serving\<close> says that \<open>serve\<close> has been entered, \<open>srv_returns\<close> that it will return. What a \<open>stop\<close> before \<open>serve\<close> does is left open.
\<close>

record 'v server_api =
  srv_new :: 'v
  srv_enter :: "'v \<Rightarrow> 'v"
  srv_stop :: "'v \<Rightarrow> 'v"
  srv_serving :: "'v \<Rightarrow> bool"
  srv_returns :: "'v \<Rightarrow> bool"

definition server_laws :: "'v server_api \<Rightarrow> bool" where
  "server_laws V \<longleftrightarrow>
     (\<forall>v. srv_serving V (srv_enter V v)) \<and> \<not> srv_returns V (srv_enter V (srv_new V)) \<and>
     (\<forall>v. srv_serving V v \<longrightarrow> srv_serving V (srv_stop V v) \<and> srv_returns V (srv_stop V v))"

lemma server_lawsD:
  assumes "server_laws V"
  shows "srv_serving V (srv_enter V v)" "\<not> srv_returns V (srv_enter V (srv_new V))"
    and "srv_serving V v \<Longrightarrow> srv_serving V (srv_stop V v)" "srv_serving V v \<Longrightarrow> srv_returns V (srv_stop V v)"
  using assms by (simp_all add: server_laws_def)

section \<open>Threads\<close>

datatype RuntimeStatus = PREPARE | RUNNING | STOPPED

datatype bg_thread = NoThread | BgTask | BgJoined | BgEnded

datatype start_pc = StartServer | StartStatus | StartThread | StartServe | Serving | Quitting | Returned

datatype stop_pc = StopIdle | StopWrite | StopThread | StopJoin | StopServer

record 'v lifecycle =
  lc_status :: RuntimeStatus
  lc_thread :: bg_thread
  lc_server :: "'v option"
  lc_start :: start_pc
  lc_stop :: stop_pc
  lc_stops :: nat
  lc_terminated :: bool

text \<open>The thread object is joinable until it has been joined, and assigning to a joinable one terminates the process.\<close>

abbreviation joinable :: "'v lifecycle \<Rightarrow> bool" where
  "joinable s \<equiv> lc_thread s \<noteq> NoThread"

definition new_thread :: "'v lifecycle \<Rightarrow> 'v lifecycle" where
  "new_thread s = (if joinable s then s\<lparr>lc_terminated := True\<rparr> else s\<lparr>lc_thread := BgTask\<rparr>)"

definition serve_step :: "'v server_api \<Rightarrow> 'v lifecycle \<Rightarrow> 'v lifecycle option" where
  "serve_step V s =
     (case lc_start s of
        Serving \<Rightarrow>
          (case lc_server s of
             None \<Rightarrow> None
           | Some v \<Rightarrow> if srv_returns V v then Some (s\<lparr>lc_start := Quitting\<rparr>) else None)
      | Quitting \<Rightarrow> Some (s\<lparr>lc_start := Returned\<rparr>)
      | _ \<Rightarrow> None)"

text \<open>The end of both \<open>stop\<close> functions. Nobody waits for the condition that is notified.\<close>

definition stop_step :: "'v server_api \<Rightarrow> 'v lifecycle \<Rightarrow> 'v lifecycle option" where
  "stop_step V s =
     (case lc_stop s of
        StopIdle \<Rightarrow> None
      | StopWrite \<Rightarrow> Some (s\<lparr>lc_status := STOPPED, lc_stop := StopThread\<rparr>)
      | StopThread \<Rightarrow> Some (s\<lparr>lc_stop := if joinable s then StopJoin else StopServer\<rparr>)
      | StopJoin \<Rightarrow> if lc_thread s = BgEnded then Some (s\<lparr>lc_thread := NoThread, lc_stop := StopServer\<rparr>) else None
      | StopServer \<Rightarrow> Some (s\<lparr>lc_server := map_option (srv_stop V) (lc_server s), lc_stop := StopIdle\<rparr>))"

section \<open>The master\<close>

text \<open>The constructor leaves the status uninitialised.\<close>

definition controller_new :: "start_pc \<Rightarrow> RuntimeStatus \<Rightarrow> nat \<Rightarrow> 'v lifecycle" where
  "controller_new pc junk stops =
     \<lparr>lc_status = junk, lc_thread = NoThread, lc_server = None, lc_start = pc, lc_stop = StopIdle, lc_stops = stops,
      lc_terminated = False\<rparr>"

definition master_start :: "'v server_api \<Rightarrow> 'v lifecycle \<Rightarrow> 'v lifecycle option" where
  "master_start V s =
     (case lc_start s of
        StartServer \<Rightarrow> Some (s\<lparr>lc_server := Some (srv_new V), lc_start := StartStatus\<rparr>)
      | StartStatus \<Rightarrow> Some (s\<lparr>lc_status := PREPARE, lc_start := StartThread\<rparr>)
      | StartThread \<Rightarrow> Some ((new_thread s)\<lparr>lc_start := StartServe\<rparr>)
      | StartServe \<Rightarrow> Some (s\<lparr>lc_server := map_option (srv_enter V) (lc_server s), lc_start := Serving\<rparr>)
      | _ \<Rightarrow> serve_step V s)"

definition master_stop :: "'v server_api \<Rightarrow> 'v lifecycle \<Rightarrow> 'v lifecycle option" where
  "master_stop V s =
     (if lc_stop s \<noteq> StopIdle then stop_step V s
      else case lc_stops s of
        0 \<Rightarrow> None
      | Suc n \<Rightarrow> if lc_status s = STOPPED then Some (s\<lparr>lc_stops := n\<rparr>) else Some (s\<lparr>lc_stops := n, lc_stop := StopWrite\<rparr>))"

text \<open>The second argument says whether joining the primary succeeded; an exception there leaves the thread.\<close>

definition master_background :: "bool \<Rightarrow> bool \<Rightarrow> 'v lifecycle \<Rightarrow> 'v lifecycle option" where
  "master_background primary joined s =
     (case lc_thread s of
        BgTask \<Rightarrow> if \<not> primary \<and> \<not> joined then Some (s\<lparr>lc_terminated := True\<rparr>) else Some (s\<lparr>lc_thread := BgJoined\<rparr>)
      | BgJoined \<Rightarrow> Some (s\<lparr>lc_status := RUNNING, lc_thread := BgEnded\<rparr>)
      | _ \<Rightarrow> None)"

section \<open>The index server\<close>

definition ictl_start :: "'v server_api \<Rightarrow> 'v lifecycle \<Rightarrow> 'v lifecycle option" where
  "ictl_start V s =
     (case lc_start s of
        StartStatus \<Rightarrow> Some (s\<lparr>lc_status := RUNNING, lc_start := StartServer\<rparr>)
      | StartServer \<Rightarrow> Some (s\<lparr>lc_server := Some (srv_new V), lc_start := StartThread\<rparr>)
      | StartThread \<Rightarrow> Some ((new_thread s)\<lparr>lc_start := StartServe\<rparr>)
      | StartServe \<Rightarrow> Some (s\<lparr>lc_server := map_option (srv_enter V) (lc_server s), lc_start := Serving\<rparr>)
      | _ \<Rightarrow> serve_step V s)"

definition ictl_stop :: "'v server_api \<Rightarrow> 'v lifecycle \<Rightarrow> 'v lifecycle option" where
  "ictl_stop V s =
     (if lc_stop s \<noteq> StopIdle then stop_step V s
      else case lc_stops s of 0 \<Rightarrow> None | Suc n \<Rightarrow> Some (s\<lparr>lc_stops := n, lc_stop := StopWrite\<rparr>))"

definition ictl_background :: "bool \<Rightarrow> 'v lifecycle \<Rightarrow> 'v lifecycle option" where
  "ictl_background joined s =
     (case lc_thread s of
        BgTask \<Rightarrow> if \<not> joined then Some (s\<lparr>lc_terminated := True\<rparr>) else Some (s\<lparr>lc_thread := BgJoined\<rparr>)
      | BgJoined \<Rightarrow> Some (s\<lparr>lc_thread := BgEnded\<rparr>)
      | _ \<Rightarrow> None)"

section \<open>Interleaving\<close>

inductive lifecycle_step ::
  "('v lifecycle \<Rightarrow> 'v lifecycle option) \<Rightarrow> ('v lifecycle \<Rightarrow> 'v lifecycle option) \<Rightarrow> (bool \<Rightarrow> 'v lifecycle \<Rightarrow> 'v lifecycle option) \<Rightarrow>
     'v lifecycle \<Rightarrow> 'v lifecycle \<Rightarrow> bool" for start stop bg where
  main_thread: "\<not> lc_terminated s \<Longrightarrow> start s = Some t \<Longrightarrow> lifecycle_step start stop bg s t"
| stopping_thread: "\<not> lc_terminated s \<Longrightarrow> stop s = Some t \<Longrightarrow> lifecycle_step start stop bg s t"
| background_thread: "\<not> lc_terminated s \<Longrightarrow> bg joined s = Some t \<Longrightarrow> lifecycle_step start stop bg s t"

inductive_simps lifecycle_step_iff: "lifecycle_step start stop bg s t"

definition master_step :: "'v server_api \<Rightarrow> bool \<Rightarrow> 'v lifecycle \<Rightarrow> 'v lifecycle \<Rightarrow> bool" where
  "master_step V primary = lifecycle_step (master_start V) (master_stop V) (master_background primary)"

definition ictl_step :: "'v server_api \<Rightarrow> 'v lifecycle \<Rightarrow> 'v lifecycle \<Rightarrow> bool" where
  "ictl_step V = lifecycle_step (ictl_start V) (ictl_stop V) ictl_background"

text \<open>What is left to do, for an order of the statements of \<open>start\<close>.\<close>

fun thread_rank :: "bg_thread \<Rightarrow> nat" where
  "thread_rank NoThread = 0"
| "thread_rank BgEnded = 0"
| "thread_rank BgJoined = 1"
| "thread_rank BgTask = 2"

fun stop_rank :: "stop_pc \<Rightarrow> nat" where
  "stop_rank StopIdle = 0"
| "stop_rank StopServer = 1"
| "stop_rank StopJoin = 2"
| "stop_rank StopThread = 3"
| "stop_rank StopWrite = 4"

definition work :: "(start_pc \<Rightarrow> nat) \<Rightarrow> 'v lifecycle \<Rightarrow> nat" where
  "work rank s = 3 * rank (lc_start s) + thread_rank (lc_thread s) + stop_rank (lc_stop s) + 5 * lc_stops s + (if lc_terminated s then 0 else 1)"

section \<open>The contract of a controller\<close>

definition in_serve :: "'v server_api \<Rightarrow> 'v lifecycle \<Rightarrow> bool" where
  "in_serve V s \<longleftrightarrow> lc_start s \<in> {Serving, Quitting, Returned} \<and> (\<exists>v. lc_server s = Some v \<and> srv_serving V v)"

text \<open>Once the server serves: a stop is to come that will not be turned away, or is under way, or has been carried out.\<close>

definition stop_due :: "'v server_api \<Rightarrow> 'v lifecycle \<Rightarrow> bool" where
  "stop_due V s \<longleftrightarrow> in_serve V s \<and> (lc_stop s = StopJoin \<longrightarrow> joinable s) \<and> (lc_stop s = StopServer \<longrightarrow> \<not> joinable s) \<and>
     (lc_stop s = StopIdle \<and> lc_status s \<noteq> STOPPED \<and> 0 < lc_stops s \<or> lc_stop s \<noteq> StopIdle \<or>
      \<not> joinable s \<and> (\<exists>v. lc_server s = Some v \<and> srv_returns V v))"

text \<open>What the calls of \<open>stop\<close> and the background thread do not touch.\<close>

definition same_rest :: "'v lifecycle \<Rightarrow> 'v lifecycle \<Rightarrow> bool" where
  "same_rest t s \<longleftrightarrow> lc_start t = lc_start s \<and> lc_server t = lc_server s"

locale controller =
  fixes V :: "'v server_api" and start stop :: "'v lifecycle \<Rightarrow> 'v lifecycle option"
    and bg :: "bool \<Rightarrow> 'v lifecycle \<Rightarrow> 'v lifecycle option" and rank :: "start_pc \<Rightarrow> nat"
  assumes server: "server_laws V"
    and start_serving: "lc_start s \<in> {Serving, Quitting, Returned} \<Longrightarrow> start s = serve_step V s"
    and start_work: "start s = Some t \<Longrightarrow> work rank t < work rank s"
    and stop_running: "lc_stop s \<noteq> StopIdle \<Longrightarrow> stop s = stop_step V s"
    and stop_call: "lc_stop s = StopIdle \<Longrightarrow> 0 < lc_stops s \<Longrightarrow> \<exists>t. stop s = Some t \<and> lc_stops t = lc_stops s - 1 \<and> same_rest t s \<and>
      (lc_stop t = StopWrite \<or> lc_stop t = StopIdle \<and> lc_status s = STOPPED) \<and> lc_status t = lc_status s \<and> lc_thread t = lc_thread s \<and>
      lc_terminated t = lc_terminated s"
    and stop_none: "lc_stop s = StopIdle \<Longrightarrow> lc_stops s = 0 \<Longrightarrow> stop s = None"
    and bg_runs: "bg joined s \<noteq> None \<longleftrightarrow> thread_rank (lc_thread s) \<noteq> 0"
    and bg_step: "bg joined s = Some t \<Longrightarrow> same_rest t s \<and> lc_stop t = lc_stop s \<and> lc_stops t = lc_stops s \<and> joinable t \<and>
      (lc_terminated t \<or> thread_rank (lc_thread t) < thread_rank (lc_thread s) \<and> lc_terminated t = lc_terminated s) \<and>
      thread_rank (lc_thread t) \<le> thread_rank (lc_thread s) \<and> lc_status t \<in> {lc_status s, RUNNING}"
begin

lemma stop_work:
  assumes "stop s = Some t"
  shows "work rank t < work rank s"
proof (cases "lc_stop s = StopIdle")
  case True
  with assms stop_none have "0 < lc_stops s" by (cases "lc_stops s") auto
  with stop_call [OF True] assms True show ?thesis by (auto simp: work_def same_rest_def)
next
  case False
  with assms stop_running show ?thesis by (auto simp: work_def stop_step_def split: stop_pc.splits if_splits)
qed

lemma bg_work: "bg joined s = Some t \<Longrightarrow> \<not> lc_terminated s \<Longrightarrow> work rank t < work rank s"
  using bg_step [of joined s t] by (auto simp: work_def same_rest_def)

lemma step_work: "lifecycle_step start stop bg s t \<Longrightarrow> work rank t < work rank s"
  by (auto simp: lifecycle_step_iff start_work stop_work bg_work)

lemma no_endless_run: "\<nexists>f. \<forall>i. lifecycle_step start stop bg (f i) (f (Suc i))"
  using wf_measure [of "work rank"] step_work by (fastforce simp: wf_iff_no_infinite_down_chain)

lemma stop_due_start: "start s = Some t \<Longrightarrow> stop_due V s \<Longrightarrow> stop_due V t"
  by (auto simp: stop_due_def in_serve_def start_serving serve_step_def split: start_pc.splits if_splits)

lemma stop_due_stop:
  assumes "stop s = Some t" "stop_due V s"
  shows "stop_due V t"
proof (cases "lc_stop s = StopIdle")
  case True
  with assms stop_none have "0 < lc_stops s" by (cases "lc_stops s") auto
  with stop_call [OF True] assms True show ?thesis by (auto simp: stop_due_def in_serve_def same_rest_def)
next
  case False
  with assms stop_running show ?thesis
    by (auto simp: stop_due_def in_serve_def stop_step_def server_lawsD(3,4) [OF server] split: stop_pc.splits if_splits)
qed

lemma stop_due_bg:
  assumes "bg joined s = Some t" "stop_due V s"
  shows "lc_terminated t \<or> stop_due V t"
proof -
  have "thread_rank (lc_thread s) \<noteq> 0" using bg_runs [of joined s] assms(1) by simp
  then have "joinable s" by auto
  with bg_step [OF assms(1)] assms(2) show ?thesis by (auto simp: stop_due_def in_serve_def same_rest_def)
qed

lemma stop_due_run:
  assumes "(lifecycle_step start stop bg)\<^sup>*\<^sup>* s t" "stop_due V s"
  shows "lc_terminated t \<or> stop_due V t"
  using assms
  by induction (auto simp: lifecycle_step_iff dest: stop_due_start stop_due_stop stop_due_bg)

lemma stuck_stopped:
  assumes "stop_due V t" "\<nexists>u. lifecycle_step start stop bg t u" "\<not> lc_terminated t"
  shows "lc_start t = Returned \<and> lc_stop t = StopIdle \<and> lc_stops t = 0 \<and> lc_thread t = NoThread"
proof -
  have stuck: "start t = None" "stop t = None" "\<And>joined. bg joined t = None"
    using assms(2,3) unfolding lifecycle_step_iff by (metis not_None_eq)+
  have thr: "lc_thread t = NoThread \<or> lc_thread t = BgEnded" using bg_runs [of True t] stuck(3) by (cases "lc_thread t") auto
  have idle: "lc_stop t = StopIdle"
  proof (rule ccontr)
    assume "lc_stop t \<noteq> StopIdle"
    with stop_running stuck(2) thr assms(1) show False
      by (auto simp: stop_step_def stop_due_def split: stop_pc.splits if_splits)
  qed
  moreover have "lc_stops t = 0" using stop_call [OF idle] stuck(2) by (cases "lc_stops t") auto
  ultimately show ?thesis using assms(1) stuck(1)
    by (auto simp: stop_due_def in_serve_def start_serving serve_step_def split: start_pc.splits if_splits)
qed

text \<open>A controller that serves and will be stopped ends, with its background thread joined, unless the process terminates.\<close>

lemma stopped_ends:
  assumes "in_serve V s" "lc_stop s = StopIdle" "lc_status s \<noteq> STOPPED" "0 < lc_stops s"
    and "(lifecycle_step start stop bg)\<^sup>*\<^sup>* s t" "\<nexists>u. lifecycle_step start stop bg t u"
  shows "lc_terminated t \<or> lc_start t = Returned \<and> lc_stop t = StopIdle \<and> lc_stops t = 0 \<and> lc_thread t = NoThread"
proof -
  have "stop_due V s" using assms(1-4) by (simp add: stop_due_def)
  from stop_due_run [OF assms(5) this] stuck_stopped [OF _ assms(6)] show ?thesis by blast
qed

end

section \<open>Both controllers keep it\<close>

fun master_rank :: "start_pc \<Rightarrow> nat" where
  "master_rank StartServer = 6"
| "master_rank StartStatus = 5"
| "master_rank StartThread = 4"
| "master_rank StartServe = 3"
| "master_rank Serving = 2"
| "master_rank Quitting = 1"
| "master_rank Returned = 0"

fun ictl_rank :: "start_pc \<Rightarrow> nat" where
  "ictl_rank StartStatus = 6"
| "ictl_rank StartServer = 5"
| "ictl_rank pc = master_rank pc"

lemmas controller_defs = master_start_def master_stop_def master_background_def ictl_start_def ictl_stop_def ictl_background_def
  new_thread_def serve_step_def work_def same_rest_def

lemma controller_master:
  assumes "server_laws V"
  shows "controller V (master_start V) (master_stop V) (master_background primary) master_rank"
proof (rule controller.intro [OF assms])
  show "master_start V s = serve_step V s" if "lc_start s \<in> {Serving, Quitting, Returned}" for s
    using that by (auto simp: master_start_def)
  show "work master_rank t < work master_rank s" if "master_start V s = Some t" for s t
    using that by (cases "lc_start s") (auto simp: controller_defs split: option.splits if_splits)
  show "\<exists>t. master_stop V s = Some t \<and> lc_stops t = lc_stops s - 1 \<and> same_rest t s \<and>
      (lc_stop t = StopWrite \<or> lc_stop t = StopIdle \<and> lc_status s = STOPPED) \<and> lc_status t = lc_status s \<and> lc_thread t = lc_thread s \<and>
      lc_terminated t = lc_terminated s" if "lc_stop s = StopIdle" "0 < lc_stops s" for s
    using that by (cases "lc_stops s") (simp_all add: master_stop_def same_rest_def)
qed (auto simp: master_stop_def master_background_def same_rest_def split: bg_thread.splits if_splits)

lemma controller_ictl:
  assumes "server_laws V"
  shows "controller V (ictl_start V) (ictl_stop V) ictl_background ictl_rank"
proof (rule controller.intro [OF assms])
  show "ictl_start V s = serve_step V s" if "lc_start s \<in> {Serving, Quitting, Returned}" for s
    using that by (auto simp: ictl_start_def)
  show "work ictl_rank t < work ictl_rank s" if "ictl_start V s = Some t" for s t
    using that by (cases "lc_start s") (auto simp: controller_defs split: option.splits if_splits)
  show "\<exists>t. ictl_stop V s = Some t \<and> lc_stops t = lc_stops s - 1 \<and> same_rest t s \<and>
      (lc_stop t = StopWrite \<or> lc_stop t = StopIdle \<and> lc_status s = STOPPED) \<and> lc_status t = lc_status s \<and> lc_thread t = lc_thread s \<and>
      lc_terminated t = lc_terminated s" if "lc_stop s = StopIdle" "0 < lc_stops s" for s
    using that by (cases "lc_stops s") (simp_all add: ictl_stop_def same_rest_def)
qed (auto simp: ictl_stop_def ictl_background_def same_rest_def split: bg_thread.splits if_splits)

text \<open>What \<open>start\<close> has done when it gets to \<open>serve\<close>; \<open>made\<close> are its places between making the server and entering it.\<close>

definition prepared :: "'v server_api \<Rightarrow> start_pc set \<Rightarrow> 'v lifecycle \<Rightarrow> bool" where
  "prepared V made s \<longleftrightarrow>
     (lc_start s \<in> made \<longrightarrow> lc_server s \<noteq> None) \<and>
     (lc_start s \<in> {Serving, Quitting, Returned} \<longrightarrow> (\<exists>v. lc_server s = Some v \<and> srv_serving V v))"

lemma prepared_same: "same_rest t s \<Longrightarrow> prepared V made s \<Longrightarrow> prepared V made t"
  by (simp add: prepared_def same_rest_def)

lemma prepared_stop_step:
  assumes "server_laws V" "stop_step V s = Some t" "prepared V made s"
  shows "prepared V made t"
  using assms(2,3) server_lawsD(3) [OF assms(1)]
  by (cases "lc_stop s") (auto simp: prepared_def stop_step_def split: if_splits)

context controller
begin

lemma prepared_run:
  assumes "(lifecycle_step start stop bg)\<^sup>*\<^sup>* s t" "prepared V made s"
    and "\<And>s t. start s = Some t \<Longrightarrow> prepared V made s \<Longrightarrow> prepared V made t"
  shows "prepared V made t"
  using assms(1,2)
proof induction
  case (step s t)
  have "prepared V made t" if "stop s = Some t"
  proof (cases "lc_stop s = StopIdle")
    case True
    with that stop_none have "0 < lc_stops s" by (cases "lc_stops s") auto
    with stop_call [OF True] that step show ?thesis by (auto intro: prepared_same)
  qed (use that step prepared_stop_step [OF server] stop_running in auto)
  moreover have "prepared V made t" if "bg joined s = Some t" for joined
    using bg_step [OF that] step by (auto intro: prepared_same)
  ultimately show ?case using step assms(3) by (auto simp: lifecycle_step_iff)
qed

end

lemma master_prepared:
  assumes "server_laws V" "(master_step V primary)\<^sup>*\<^sup>* (controller_new StartServer junk n) s" "lc_start s = Serving"
  shows "in_serve V s"
proof -
  have "prepared V {StartStatus, StartThread, StartServe} s"
  proof (rule controller.prepared_run [OF controller_master [OF assms(1)] assms(2) [unfolded master_step_def]])
    show "prepared V {StartStatus, StartThread, StartServe} t"
      if "master_start V s = Some t" "prepared V {StartStatus, StartThread, StartServe} s" for s t
      using that server_lawsD(1) [OF assms(1)]
      by (cases "lc_start s") (auto simp: prepared_def controller_defs split: option.splits if_splits)
  qed (simp add: prepared_def controller_new_def)
  with assms(3) show ?thesis by (simp add: prepared_def in_serve_def)
qed

lemma ictl_prepared:
  assumes "server_laws V" "(ictl_step V)\<^sup>*\<^sup>* (controller_new StartStatus junk n) s" "lc_start s = Serving"
  shows "in_serve V s"
proof -
  have "prepared V {StartThread, StartServe} s"
  proof (rule controller.prepared_run [OF controller_ictl [OF assms(1)] assms(2) [unfolded ictl_step_def]])
    show "prepared V {StartThread, StartServe} t"
      if "ictl_start V s = Some t" "prepared V {StartThread, StartServe} s" for s t
      using that server_lawsD(1) [OF assms(1)]
      by (cases "lc_start s") (auto simp: prepared_def controller_defs split: option.splits if_splits)
  qed (simp add: prepared_def controller_new_def)
  with assms(3) show ?thesis by (simp add: prepared_def in_serve_def)
qed

text \<open>Only joining the cluster can terminate the process, and a primary does not join.\<close>

lemma primary_not_terminated:
  assumes "(master_step V True)\<^sup>*\<^sup>* (controller_new StartServer junk n) s"
  shows "\<not> lc_terminated s \<and> (lc_start s \<in> {StartServer, StartStatus, StartThread} \<longrightarrow> \<not> joinable s)"
  using assms
proof induction
  case (step s t)
  have "\<not> lc_terminated t \<and> (lc_start t \<in> {StartServer, StartStatus, StartThread} \<longrightarrow> \<not> joinable t)" if "master_start V s = Some t"
    using that step.IH by (cases "lc_start s") (auto simp: controller_defs split: option.splits if_splits)
  moreover have "lc_terminated t = lc_terminated s" "lc_start t = lc_start s" "joinable t \<longrightarrow> joinable s" if "master_stop V s = Some t"
    using that by (cases "lc_stop s"; auto simp: master_stop_def stop_step_def split: nat.splits if_splits)+
  moreover have "\<not> lc_terminated t \<and> (lc_start t \<in> {StartServer, StartStatus, StartThread} \<longrightarrow> \<not> joinable t)"
    if "master_background True joined s = Some t" for joined
    using that step.IH by (cases "lc_thread s") (auto simp: master_background_def)
  ultimately show ?case using step by (auto simp: master_step_def lifecycle_step_iff)
qed (simp add: controller_new_def)

section \<open>Properties\<close>

text \<open>Every run from a state is finite, and where it can go no further something holds.\<close>

definition runs_end :: "('s \<Rightarrow> 's \<Rightarrow> bool) \<Rightarrow> 's \<Rightarrow> ('s \<Rightarrow> bool) \<Rightarrow> bool" where
  "runs_end step s Q \<longleftrightarrow> (\<nexists>f. f 0 = s \<and> (\<forall>i. step (f i) (f (Suc i)))) \<and> (\<forall>t. step\<^sup>*\<^sup>* s t \<and> (\<nexists>u. step t u) \<longrightarrow> Q t)"

definition all_returned :: "'v lifecycle \<Rightarrow> bool" where
  "all_returned t \<longleftrightarrow> lc_start t = Returned \<and> lc_stop t = StopIdle \<and> lc_stops t = 0 \<and> lc_thread t = NoThread"

lemma controller_runs_end:
  assumes "controller V start stop bg rank" "in_serve V s" "lc_stop s = StopIdle" "lc_status s \<noteq> STOPPED" "0 < lc_stops s"
  shows "runs_end (lifecycle_step start stop bg) s (\<lambda>t. lc_terminated t \<or> all_returned t)"
  using controller.no_endless_run [OF assms(1)] controller.stopped_ends [OF assms]
  unfolding runs_end_def all_returned_def by blast

text \<open>
  C16: Stopping a server that serves. From every state a master or an index server can get to in which \<open>serve\<close> has been entered, no
  call of \<open>stop\<close> is under way, the status is not that of a stopped server and \<open>stop\<close> will be called, every interleaving of \<open>start\<close>, \<open>stop\<close> and the
  background thread ends. Then \<open>start\<close> and every \<open>stop\<close> have returned and the background thread has been joined, or the process
  was terminated because the background thread could not join the cluster, which does not happen to a primary.\<close>

theorem stop_ends:
  assumes "server_laws V"
  shows "(\<forall>s. (master_step V primary)\<^sup>*\<^sup>* (controller_new StartServer junk n) s \<and> lc_start s = Serving \<and> lc_stop s = StopIdle \<and>
      lc_status s \<noteq> STOPPED \<and> 0 < lc_stops s \<longrightarrow>
      runs_end (master_step V primary) s (\<lambda>t. \<not> primary \<and> lc_terminated t \<or> all_returned t)) \<and>
    (\<forall>s. (ictl_step V)\<^sup>*\<^sup>* (controller_new StartStatus junk n) s \<and> lc_start s = Serving \<and> lc_stop s = StopIdle \<and>
      lc_status s \<noteq> STOPPED \<and> 0 < lc_stops s \<longrightarrow>
      runs_end (ictl_step V) s (\<lambda>t. lc_terminated t \<or> all_returned t))"
proof (intro conjI allI impI)
  fix s
  assume s: "(master_step V primary)\<^sup>*\<^sup>* (controller_new StartServer junk n) s \<and> lc_start s = Serving \<and> lc_stop s = StopIdle \<and>
      lc_status s \<noteq> STOPPED \<and> 0 < lc_stops s"
  have "in_serve V s" using master_prepared [OF assms] s by blast
  from controller_runs_end [OF controller_master [OF assms] this] s
  have r: "runs_end (master_step V primary) s (\<lambda>t. lc_terminated t \<or> all_returned t)" unfolding master_step_def by blast
  have "\<not> lc_terminated t" if "primary" "(master_step V primary)\<^sup>*\<^sup>* s t" for t
    using primary_not_terminated [of V junk n t] s that rtranclp_trans [of "master_step V True"] by simp metis
  with r show "runs_end (master_step V primary) s (\<lambda>t. \<not> primary \<and> lc_terminated t \<or> all_returned t)"
    unfolding runs_end_def by blast
next
  fix s
  assume s: "(ictl_step V)\<^sup>*\<^sup>* (controller_new StartStatus junk n) s \<and> lc_start s = Serving \<and> lc_stop s = StopIdle \<and>
      lc_status s \<noteq> STOPPED \<and> 0 < lc_stops s"
  have "in_serve V s" using ictl_prepared [OF assms] s by blast
  from controller_runs_end [OF controller_ictl [OF assms] this] s
  show "runs_end (ictl_step V) s (\<lambda>t. lc_terminated t \<or> all_returned t)" unfolding ictl_step_def by simp
qed

text \<open>A server that forgets a stop that comes before it serves.\<close>

definition forgetful_server :: "(bool \<times> bool) server_api" where
  "forgetful_server =
     \<lparr>srv_new = (False, False), srv_enter = (\<lambda>v. (True, False)), srv_stop = (\<lambda>v. (fst v, True)), srv_serving = fst, srv_returns = snd\<rparr>"

lemma server_laws_forgetful: "server_laws forgetful_server"
  by (simp add: server_laws_def forgetful_server_def)

interpretation test_master: controller forgetful_server "master_start forgetful_server" "master_stop forgetful_server"
  "master_background primary" master_rank for primary
  by (rule controller_master [OF server_laws_forgetful])

interpretation test_ictl: controller forgetful_server "ictl_start forgetful_server" "ictl_stop forgetful_server"
  ictl_background ictl_rank
  by (rule controller_ictl [OF server_laws_forgetful])

text \<open>One thread running alone for a number of steps.\<close>

fun alone :: "('v lifecycle \<Rightarrow> 'v lifecycle option) \<Rightarrow> nat \<Rightarrow> 'v lifecycle \<Rightarrow> 'v lifecycle option" where
  "alone thread 0 s = Some s"
| "alone thread (Suc n) s = (if lc_terminated s then None else Option.bind (thread s) (alone thread n))"

lemma alone_run:
  assumes "alone thread n s = Some t" "\<And>s t. \<not> lc_terminated s \<Longrightarrow> thread s = Some t \<Longrightarrow> step s t"
  shows "step\<^sup>*\<^sup>* s t"
  using assms(1)
proof (induction n arbitrary: s)
  case (Suc n)
  then obtain u where "\<not> lc_terminated s" "thread s = Some u" "alone thread n u = Some t"
    by (auto simp: bind_eq_Some_conv split: if_splits)
  with Suc.IH assms(2) show ?case by (blast intro: converse_rtranclp_into_rtranclp)
qed simp

lemma master_alone:
  "alone (master_start V) n s = Some t \<Longrightarrow> (master_step V primary)\<^sup>*\<^sup>* s t"
  "alone (master_stop V) n s = Some t \<Longrightarrow> (master_step V primary)\<^sup>*\<^sup>* s t"
  "alone (master_background primary True) n s = Some t \<Longrightarrow> (master_step V primary)\<^sup>*\<^sup>* s t"
  unfolding master_step_def by (erule alone_run, blast intro: lifecycle_step.intros)+

lemma ictl_alone:
  "alone (ictl_start V) n s = Some t \<Longrightarrow> (ictl_step V)\<^sup>*\<^sup>* s t"
  "alone (ictl_stop V) n s = Some t \<Longrightarrow> (ictl_step V)\<^sup>*\<^sup>* s t"
  "alone (ictl_background True) n s = Some t \<Longrightarrow> (ictl_step V)\<^sup>*\<^sup>* s t"
  unfolding ictl_step_def by (erule alone_run, blast intro: lifecycle_step.intros)+

lemma started_alone:
  "alone (master_start V) 4 (controller_new StartServer status n) =
     Some ((controller_new Serving PREPARE n)\<lparr>lc_thread := BgTask, lc_server := Some (srv_enter V (srv_new V))\<rparr>)"
  "alone (ictl_start V) 4 (controller_new StartStatus status n) =
     Some ((controller_new Serving RUNNING n)\<lparr>lc_thread := BgTask, lc_server := Some (srv_enter V (srv_new V))\<rparr>)"
  by (simp_all add: numeral_eq_Suc master_start_def ictl_start_def new_thread_def controller_new_def)

theorem stop_ends_witness:
  "\<exists>s. (master_step forgetful_server True)\<^sup>*\<^sup>* (controller_new StartServer PREPARE 2) s \<and> lc_stops s = 2 \<and>
     runs_end (master_step forgetful_server True) s all_returned"
proof -
  let ?s = "(controller_new Serving PREPARE 2)\<lparr>lc_thread := BgTask, lc_server := Some (srv_enter forgetful_server (srv_new forgetful_server))\<rparr>"
  have "(master_step forgetful_server True)\<^sup>*\<^sup>* (controller_new StartServer PREPARE 2) ?s"
    by (rule master_alone(1) [OF started_alone(1)])
  with stop_ends [OF server_laws_forgetful, of True PREPARE 2] show ?thesis
    by (intro exI [of _ ?s]) (simp add: controller_new_def)
qed

text \<open>
  A stop that comes before the start is lost. Whatever value the uninitialised status has, there is an interleaving in which the
  only call of \<open>stop\<close> returns before \<open>start\<close> begins, and from there the server serves for ever, without the process being
  terminated: a signal between the making of the controller and its start does not stop the server.\<close>

theorem early_stop_lost:
  assumes "server_laws V"
  shows "(\<exists>t. (master_step V primary)\<^sup>*\<^sup>* (controller_new StartServer junk 1) t \<and> (\<nexists>u. master_step V primary t u) \<and>
      \<not> lc_terminated t \<and> lc_stops t = 0 \<and> lc_stop t = StopIdle \<and> lc_start t = Serving) \<and>
    (\<exists>t. (ictl_step V)\<^sup>*\<^sup>* (controller_new StartStatus junk 1) t \<and> (\<nexists>u. ictl_step V t u) \<and>
      \<not> lc_terminated t \<and> lc_stops t = 0 \<and> lc_stop t = StopIdle \<and> lc_start t = Serving)"
proof
  let ?t = "(controller_new Serving RUNNING 0)\<lparr>lc_thread := BgEnded, lc_server := Some (srv_enter V (srv_new V))\<rparr>"
  have stuck: "\<nexists>u. master_step V primary ?t u" "\<nexists>u. ictl_step V ?t u" and "end": "\<not> lc_terminated ?t" "lc_stops ?t = 0"
    "lc_stop ?t = StopIdle" "lc_start ?t = Serving"
    using server_lawsD(2) [OF assms]
    by (auto simp: master_step_def ictl_step_def lifecycle_step_iff controller_defs controller_new_def)
  have m: "(master_step V primary)\<^sup>*\<^sup>* (controller_new StartServer junk 1) (controller_new StartServer STOPPED 0)"
    by (rule master_alone(2) [of _ "if junk = STOPPED then 1 else 4"])
      (auto simp: numeral_eq_Suc master_stop_def stop_step_def controller_new_def)
  have i: "(ictl_step V)\<^sup>*\<^sup>* (controller_new StartStatus junk 1) (controller_new StartStatus STOPPED 0)"
    by (rule ictl_alone(2) [of _ 4]) (simp add: numeral_eq_Suc ictl_stop_def stop_step_def controller_new_def)
  have "(master_step V primary)\<^sup>*\<^sup>* (controller_new StartServer STOPPED 0) ?t"
    by (rule rtranclp_trans [OF master_alone(1) [OF started_alone(1)] master_alone(3) [of _ 2]])
      (simp add: numeral_eq_Suc master_background_def controller_new_def)
  with m stuck "end" show "\<exists>t. (master_step V primary)\<^sup>*\<^sup>* (controller_new StartServer junk 1) t \<and> (\<nexists>u. master_step V primary t u) \<and>
      \<not> lc_terminated t \<and> lc_stops t = 0 \<and> lc_stop t = StopIdle \<and> lc_start t = Serving"
    by (blast intro: rtranclp_trans)
  have "(ictl_step V)\<^sup>*\<^sup>* (controller_new StartStatus STOPPED 0) ?t"
    by (rule rtranclp_trans [OF ictl_alone(1) [OF started_alone(2)] ictl_alone(3) [of 2]])
      (simp add: numeral_eq_Suc ictl_background_def controller_new_def)
  with i stuck "end" show "\<exists>t. (ictl_step V)\<^sup>*\<^sup>* (controller_new StartStatus junk 1) t \<and> (\<nexists>u. ictl_step V t u) \<and>
      \<not> lc_terminated t \<and> lc_stops t = 0 \<and> lc_stop t = StopIdle \<and> lc_start t = Serving"
    by (blast intro: rtranclp_trans)
qed

end
