(* ===== verification/Rpc_Connection.thy ===== *)
theory Rpc_Connection
  imports Client
begin

text \<open>
  The connections of remote calls: \<open>rpc/rpc_client.h\<close> and \<open>rpc/rpc_client_factory.h\<close>. The Thrift transport is a parameter on a state \<open>'n\<close> of
  the network. The client opens a connection, calls and closes it inside one block; the block as a whole is what the
  record \<open>rpc_api\<close> has for each call.
\<close>

section \<open>Transports\<close>

record ('x, 'n) transport_api =
  tr_new :: "string \<Rightarrow> int \<Rightarrow> 'x"
  tr_open :: "'x \<Rightarrow> 'n \<Rightarrow> 'x \<times> 'n \<times> (int \<times> string) option"
  tr_close :: "'x \<Rightarrow> 'n \<Rightarrow> 'x \<times> 'n"
  tr_is_open :: "'x \<Rightarrow> bool"
  tr_connections :: "'n \<Rightarrow> int"

text \<open>\<open>tr_connections\<close> counts what is open. Opening a transport opens one connection or raises an exception, and closing closes it.\<close>

definition opened :: "('x, 'n) transport_api \<Rightarrow> 'x \<Rightarrow> int" where
  "opened T x = (if tr_is_open T x then 1 else 0)"

definition balanced :: "('x, 'n) transport_api \<Rightarrow> 'x \<Rightarrow> 'n \<Rightarrow> 'x \<Rightarrow> 'n \<Rightarrow> bool" where
  "balanced T x n x' n' \<longleftrightarrow> tr_connections T n' + opened T x = tr_connections T n + opened T x'"

definition transport_laws :: "('x, 'n) transport_api \<Rightarrow> bool" where
  "transport_laws T \<longleftrightarrow>
     (\<forall>h p. \<not> tr_is_open T (tr_new T h p)) \<and>
     (\<forall>x n x' n' e. tr_open T x n = (x', n', e) \<longrightarrow> balanced T x n x' n' \<and> (e = None \<longrightarrow> tr_is_open T x')) \<and>
     (\<forall>x n x' n'. tr_close T x n = (x', n') \<longrightarrow> balanced T x n x' n' \<and> \<not> tr_is_open T x')"

section \<open>Clients\<close>

text \<open>A client made of a handler alone, for tests, has no transport.\<close>

record 'x RpcClient =
  rc_addr :: string
  rc_port :: int
  rc_transport :: "'x option"
  rc_client :: bool

definition RpcClient_new :: "('x, 'n) transport_api \<Rightarrow> string \<Rightarrow> int \<Rightarrow> 'x RpcClient" where
  "RpcClient_new T addr prt = \<lparr>rc_addr = addr, rc_port = prt, rc_transport = Some (tr_new T addr prt), rc_client = True\<rparr>"

definition RpcClient_injected :: "bool \<Rightarrow> 'x RpcClient" where
  "RpcClient_injected client = \<lparr>rc_addr = [], rc_port = 0, rc_transport = None, rc_client = client\<rparr>"

definition rc_open :: "('x, 'n) transport_api \<Rightarrow> 'x RpcClient \<Rightarrow> 'n \<Rightarrow> 'x RpcClient \<times> 'n \<times> (int \<times> string) option" where
  "rc_open T c n =
     (case rc_transport c of
        None \<Rightarrow> (c, n, None)
      | Some x \<Rightarrow> (case tr_open T x n of (x', n', e) \<Rightarrow> (c\<lparr>rc_transport := Some x'\<rparr>, n', e)))"

definition rc_close :: "('x, 'n) transport_api \<Rightarrow> 'x RpcClient \<Rightarrow> 'n \<Rightarrow> 'x RpcClient \<times> 'n" where
  "rc_close T c n =
     (case rc_transport c of
        None \<Rightarrow> (c, n)
      | Some x \<Rightarrow> (case tr_close T x n of (x', n') \<Rightarrow> (c\<lparr>rc_transport := Some x'\<rparr>, n')))"

definition rc_is_open :: "('x, 'n) transport_api \<Rightarrow> 'x RpcClient \<Rightarrow> bool" where
  "rc_is_open T c = (case rc_transport c of Some x \<Rightarrow> tr_is_open T x | None \<Rightarrow> rc_client c)"

definition RpcClient_destroy :: "('x, 'n) transport_api \<Rightarrow> 'x RpcClient \<Rightarrow> 'n \<Rightarrow> 'n" where
  "RpcClient_destroy T c n = (if rc_is_open T c then snd (rc_close T c n) else n)"

section \<open>The factory and the block of a call\<close>

text \<open>An exception of \<open>open\<close> destroys the client on its way out.\<close>

definition factory_open ::
  "('x, 'n) transport_api \<Rightarrow> string \<Rightarrow> int \<Rightarrow> 'n \<Rightarrow> 'n \<times> ((int \<times> string) + 'x RpcClient)" where
  "factory_open T h p n =
     (case rc_open T (RpcClient_new T h p) n of (c, n', e) \<Rightarrow>
        (case e of None \<Rightarrow> (n', Inr c) | Some err \<Rightarrow> (RpcClient_destroy T c n', Inl err)))"

definition factory_open_address ::
  "('x, 'n) transport_api \<Rightarrow> RpcNodeAddress \<Rightarrow> 'n \<Rightarrow> 'n \<times> ((int \<times> string) + 'x RpcClient)" where
  "factory_open_address T addr n = factory_open T (host addr) (port addr) n"

definition factory_close :: "('x, 'n) transport_api \<Rightarrow> 'x RpcClient \<Rightarrow> 'n \<Rightarrow> 'x RpcClient \<times> 'n" where
  "factory_close T c n = rc_close T c n"

text \<open>The handler may raise; then the shared pointer destroys the client without \<open>close\<close>.\<close>

definition rpc_block ::
  "('x, 'n) transport_api \<Rightarrow> RpcNodeAddress \<Rightarrow> ('x RpcClient \<Rightarrow> 'n \<Rightarrow> 'x RpcClient \<times> 'n \<times> 'a rpc_result) \<Rightarrow> 'n \<Rightarrow> 'n \<times> 'a rpc_result" where
  "rpc_block T addr handler n =
     (case factory_open_address T addr n of
        (n1, Inl (t, m)) \<Rightarrow> (n1, TransportError t m)
      | (n1, Inr c) \<Rightarrow>
          (case handler c n1 of (c2, n2, r) \<Rightarrow>
             (case r of
                Reply a \<Rightarrow> (case factory_close T c2 n2 of (c3, n3) \<Rightarrow> (RpcClient_destroy T c3 n3, r))
              | _ \<Rightarrow> (RpcClient_destroy T c2 n2, r))))"

section \<open>Lemmas\<close>

lemma transport_lawsD:
  assumes "transport_laws T"
  shows "\<not> tr_is_open T (tr_new T h p)" "tr_open T x n = (x', n', e) \<Longrightarrow> balanced T x n x' n'"
    and "tr_open T x n = (x', n', None) \<Longrightarrow> tr_is_open T x'"
    and "tr_close T x n = (x', n') \<Longrightarrow> balanced T x n x' n'" "tr_close T x n = (x', n') \<Longrightarrow> \<not> tr_is_open T x'"
  using assms unfolding transport_laws_def by blast+

lemma destroy_closes:
  assumes "transport_laws T" "rc_transport c = Some x"
  shows "tr_connections T (RpcClient_destroy T c n) + opened T x = tr_connections T n"
  using transport_lawsD(4,5) [OF assms(1), of x n] assms(2)
  by (cases "tr_close T x n") (auto simp: RpcClient_destroy_def rc_is_open_def rc_close_def opened_def balanced_def)

lemma factory_open_cases:
  assumes "transport_laws T"
  obtains (fails) n' t m where "factory_open_address T addr n = (n', Inl (t, m))" "tr_connections T n' = tr_connections T n"
  | (opens) n' c x where "factory_open_address T addr n = (n', Inr c)" "rc_transport c = Some x" "tr_is_open T x"
      "tr_connections T n' = tr_connections T n + 1"
proof -
  let ?x = "tr_new T (host addr) (port addr)"
  obtain x' n' e where o: "tr_open T ?x n = (x', n', e)" by (cases "tr_open T ?x n") auto
  have b: "tr_connections T n' = tr_connections T n + opened T x'"
    using transport_lawsD(1) [OF assms, of "host addr" "port addr"] transport_lawsD(2) [OF assms o] by (auto simp: balanced_def opened_def)
  let ?c = "(RpcClient_new T (host addr) (port addr))\<lparr>rc_transport := Some x'\<rparr>"
  have c: "rc_open T (RpcClient_new T (host addr) (port addr)) n = (?c, n', e)"
    using o by (simp add: rc_open_def RpcClient_new_def)
  show thesis
  proof (cases e)
    case None
    with o transport_lawsD(3) [OF assms] have "tr_is_open T x'" by blast
    with None b c show thesis by (intro opens [of n' ?c x']) (simp_all add: factory_open_address_def factory_open_def opened_def)
  next
    case (Some err)
    with b c destroy_closes [OF assms, of ?c x' n'] show thesis
      by (cases err, intro fails [of "RpcClient_destroy T ?c n'"]) (simp_all add: factory_open_address_def factory_open_def)
  qed
qed

section \<open>Properties\<close>

text \<open>
  No block of a remote call leaves a connection open, whether it answers, is refused, or loses its connection in opening or
  in the call: after it as many connections are open as before, and the result is the handler's or the exception of \<open>open\<close>.\<close>

theorem rpc_block_closes:
  assumes "transport_laws T"
    and "\<And>c n c' n' r x. handler c n = (c', n', r) \<Longrightarrow> rc_transport c = Some x \<Longrightarrow> \<exists>x'. rc_transport c' = Some x' \<and> balanced T x n x' n'"
  shows "\<exists>n' r. rpc_block T addr handler n = (n', r) \<and> tr_connections T n' = tr_connections T n \<and>
    (case factory_open_address T addr n of (n1, Inl (t, m)) \<Rightarrow> r = TransportError t m | (n1, Inr c) \<Rightarrow> r = snd (snd (handler c n1)))"
  using assms(1)
proof (cases rule: factory_open_cases [where addr = addr and n = n])
  case (opens n1 c x)
  obtain c2 n2 r where h: "handler c n1 = (c2, n2, r)" by (cases "handler c n1") auto
  from assms(2) [OF this opens(2)] obtain x2 where x2: "rc_transport c2 = Some x2" "balanced T x n1 x2 n2" by blast
  obtain x3 n3 where k: "tr_close T x2 n2 = (x3, n3)" by (cases "tr_close T x2 n2") auto
  have b: "tr_connections T n2 = tr_connections T n + opened T x2" using x2(2) opens(3,4) by (simp add: balanced_def opened_def)
  have close: "rc_close T c2 n2 = (c2\<lparr>rc_transport := Some x3\<rparr>, n3)" using x2(1) k by (simp add: rc_close_def)
  have "tr_connections T (RpcClient_destroy T (c2\<lparr>rc_transport := Some x3\<rparr>) n3) = tr_connections T n"
    using destroy_closes [OF assms(1), of "c2\<lparr>rc_transport := Some x3\<rparr>" x3 n3] transport_lawsD(4,5) [OF assms(1) k] b
    by (simp add: balanced_def opened_def)
  moreover have "tr_connections T (RpcClient_destroy T c2 n2) = tr_connections T n"
    using destroy_closes [OF assms(1) x2(1), of n2] b by simp
  ultimately show ?thesis using opens(1) h close by (cases r) (simp_all add: rpc_block_def factory_close_def)
qed (simp add: rpc_block_def)

text \<open>A network that counts its connections and refuses those to port zero.\<close>

definition counting_transport :: "(int \<times> bool, int) transport_api" where
  "counting_transport =
     \<lparr>tr_new = (\<lambda>h p. (p, False)),
      tr_open = (\<lambda>x n. if fst x = 0 \<or> snd x then (x, n, Some (1, ''open'')) else ((fst x, True), n + 1, None)),
      tr_close = (\<lambda>x n. ((fst x, False), if snd x then n - 1 else n)), tr_is_open = snd, tr_connections = (\<lambda>n. n)\<rparr>"

lemma transport_laws_counting: "transport_laws counting_transport"
  by (auto simp: transport_laws_def counting_transport_def balanced_def opened_def split: if_splits)

theorem rpc_block_closes_witness:
  "\<exists>r. rpc_block counting_transport \<lparr>host = ''a'', port = 1\<rparr> (\<lambda>c n. (c, n, Refused \<lparr>what = 1, why = []\<rparr> :: unit rpc_result)) 5 = (5, r)"
  using rpc_block_closes [OF transport_laws_counting, of "\<lambda>c n. (c, n, Refused \<lparr>what = 1, why = []\<rparr> :: unit rpc_result)"
      "\<lparr>host = ''a'', port = 1\<rparr>" 5]
  by (auto simp: balanced_def counting_transport_def)

end
