(* ===== verification/Spec2Isabelle.thy ===== *)
theory Spec2Isabelle
  imports Kv_Store Path_Util Complex_Query Server_Map Namespace_Store Index_Namespace
    Partition_Manager MT_Hashmap Index Log_Manager Index_Manager Master_Controller Query_Ast Storage
    Client Client_Index Cluster Search Membership Fuse Mount Commands Api
    Hash_Index Directories Index_Creation Flusher Unmount Lifecycle Rpc_Connection
begin

text \<open>
  VSFS is a distributed file system that can be searched: files carry records in indices, and a path such as
  \<open>/a/?size>1m\<close> names the files below \<open>/a\<close> whose records match. This development models its C++ sources
  (\<open>src/vsfs\<close>) and proves what its components do, alone and together.

  \<^bold>\<open>The program.\<close> Master servers (\<open>masterd\<close>) keep the files, the directories and the list of indices; each path belongs
  to the master that a consistent-hash ring gives for the hash of the path. Index servers (\<open>indexd\<close>) keep the
  records of the indices, in memory with a log. The client (\<open>client\<close>) caches the rings of both, sends every operation to
  the servers it concerns, and parses queries (\<open>common/complex_query\<close>). Servers persist through a key-value store
  (\<open>common/leveldb_store\<close>); files' contents live in a storage manager (\<open>common\<close>).

  \<^bold>\<open>How code becomes definitions.\<close> A class is a record, its methods are functions that return the new record. A call
  either returns, \<^const>\<open>Done\<close>, or does not, \<^const>\<open>Fail\<close>: a failed \<open>CHECK\<close>, an uncaught exception, an endless loop, or a call
  the C++ standard gives no meaning. \<open>Status\<close> values are results like any other. Object ids are 64-bit words,
  modes and owners 32-bit words, ring positions integers with the overflow of each addition written out.
  \<open>std::map\<close> is a sorted association list, \<open>unordered_map\<close> a partial map where its order is not seen. What is not
  in the sources is a parameter: LevelDB, the consistent-hash ring of vobla, Boost's paths, MD5, the clock, Thrift's
  serialisation and the system calls. The documented behaviour that a theorem needs of them is one of
  its hypotheses, and a concrete function with that behaviour is in the theory that uses it.

  \<^bold>\<open>The theories.\<close>

  \<^item> \<open>Vsfs_Prelude\<close>: statuses and faults, \<open>std::string\<close>, \<open>std::map\<close> and \<open>std::set\<close>, decimal numbers, and a locale for
    dictionaries that the hash map and the ordered map interpret.
  \<^item> \<open>Rpc_Types\<close>: the structures of the Thrift files and \<open>rpc/thrift_utils.cpp\<close>. \<open>Codec\<close>: a serialisation used for examples.
  \<^item> \<open>Kv_Store\<close>: \<open>common/leveldb_store.cpp\<close> with its iterator and prefix search, and the in-memory \<open>test_leveldb_store.cpp\<close>.
    The locale \<open>kv_store\<close> is their contract; both interpret it. A prefix search visits exactly the keys with the prefix.
  \<^item> \<open>Path_Util\<close>: \<open>common/path_util.cpp\<close>, \<open>common/posix_path.cpp\<close>. Index paths split back into root and name.
  \<^item> \<open>Complex_Query\<close>: the query parser \<open>common/complex_query.cpp\<close>. It returns on every string without leaving its bounds, and a
    conjunction of comparisons parses to the ranges it describes.
  \<^item> \<open>Hash_Ring\<close>, \<open>Server_Map\<close>: the ring's laws and \<open>common/server_map.cpp\<close>; a new server's position lies inside the widest
    range unless the sum overflows.
  \<^item> \<open>Namespace\<close>, \<open>Namespace_Store\<close>: \<open>masterd/namespace.cpp\<close>. The first has the operations and their invariant, the second the
    agreement with the store (locale \<open>stored_namespace\<close>) and the properties: the invariant over every sequence of calls, failed
    writes included; recovery after a restart; fresh ids; no aborts; errors that change nothing.
  \<^item> \<open>Index_Namespace\<close>: \<open>masterd/index_namespace.cpp\<close>, which refines a set of pairs of root and name and survives a restart.
  \<^item> \<open>Partition_Manager\<close>: \<open>masterd/partition_manager.cpp\<close>, which refines a map of index paths to partitions.
  \<^item> \<open>MT_Hashmap\<close>: the striped hash map \<open>masterd/mt_hashmap.h\<close>, which refines a map and iterates over all of it.
  \<^item> \<open>Master_Controller\<close>: \<open>masterd/master_controller.cpp\<close> and the handlers of \<open>master_server.cpp\<close> over the components
    above. Creating an index is all or nothing, and a created index is located.
  \<^item> \<open>Index\<close>: \<open>index/index_impl.h\<close>, \<open>range_index.h\<close>, \<open>index_info.cpp\<close>. A range search is exact; replaying a batch of
    updates changes nothing.
  \<^item> \<open>Typed_Index\<close>: the typed interface of \<open>range_index.h\<close> at integer keys, with the sizes and signs of the types. Every key in an
    index is a value of its type, whatever types the callers use.
  \<^item> \<open>Hash_Index\<close>: \<open>hash_index.h\<close>. A key of another type fails a check, and the records are those the calls describe.
  \<^item> \<open>Log_Manager\<close>: \<open>common/log_manager.h\<close>. What forced flushes wrote is what a load reads.
  \<^item> \<open>Index_Manager\<close>: \<open>indexd/index_manager.cpp\<close> and the handlers of \<open>index_server.cpp\<close>. Updates, searches and background
    flushes in any order answer every search with exactly the records the updates describe.
  \<^item> \<open>Flusher\<close>: the background thread and the destructor of \<open>IndexManager\<close> as interleaved threads. Destroying a manager ends in every
    interleaving, and loses the logs that are below the limit.
  \<^item> \<open>Storage\<close>: \<open>common/file.cpp\<close>, \<open>posix_file_handler.cpp\<close>, \<open>posix_storage_manager.cpp\<close>, \<open>object_storage_manager.cpp\<close>. Objects do not
    share files.
  \<^item> \<open>Query_Ast\<close>: \<open>query/ast.cpp\<close>.
  \<^item> \<open>Client\<close>, \<open>Client_Index\<close>: \<open>client/vsfs_rpc_client.cpp\<close>. The remote calls are a parameter; the locale \<open>file_service\<close> says
    what the client relies on, and the client's lemmas are proved in it.
  \<^item> \<open>Rpc_Connection\<close>: \<open>rpc/rpc_client.h\<close> and \<open>rpc_client_factory.h\<close>. The block of a remote call leaves no connection open, however it ends.
  \<^item> \<open>Cluster\<close>: the remote calls are the handlers of the modelled servers. The masters of a cluster are shown to be a \<open>file_service\<close>, which
    gives the properties of client and servers together: a created file is seen and can be unlinked again, paths
    resolve to the ids their masters have, a search is sent to the servers that keep the partitions.
  \<^item> \<open>Search\<close>: a search from the client to the records and back. It finds exactly the paths of the objects that the updates
    of the indices leave with a key in the range, however much of the updates was merged before.
  \<^item> \<open>Membership\<close>: the constructors and background tasks of \<open>indexd/index_controller.cpp\<close> and \<open>masterd/master_controller.cpp\<close>. Servers
    that start join the primary master, and a client that connects caches exactly the rings the primary has.
  \<^item> \<open>Lifecycle\<close>: \<open>start\<close>, \<open>stop\<close> and the background thread of both controllers as interleaved threads; the locale \<open>controller\<close> has what
    they share. A stop of a serving server ends in every interleaving, one that comes before the start is lost.
  \<^item> \<open>Fuse\<close>, \<open>Mount\<close>: the handlers of \<open>fuse/vsfs_ops.cpp\<close>, alone and on a cluster. Creating and unlinking a file through the mount point
    is complete down to the disk, descriptors are closed once, the links of a query lead to the files found.
  \<^item> \<open>Directories\<close>: the locale \<open>directory_service\<close> extends \<open>file_service\<close> by directories, and the masters of a cluster keep it: a new
    directory is seen, and removing it restores the cluster.
  \<^item> \<open>Index_Creation\<close>: an index that a client creates is there for the client, the masters and the index servers, and a search
    that is led to it succeeds.
  \<^item> \<open>Programs\<close>: the mains of \<open>fuse/vsfs.cpp\<close>, \<open>masterd/masterd.cpp\<close> and \<open>indexd/indexd.cpp\<close>. The mount command makes the root directory
    before it serves.
  \<^item> \<open>Unmount\<close>: the destruction of the front end and of the client. The locale \<open>descriptors\<close> has the system calls that open and close; over
    every sequence of handlers the front end holds exactly the descriptors of its table, and unmounting closes them.
  \<^item> \<open>Commands\<close>: the command line, \<open>ui/cli/commands.cpp\<close> and \<open>vsfs.cpp\<close>. Records from the standard input are sent in batches, none lost or
    repeated; those of the command line in one update; listing indices returns on every cluster. The locale \<open>bounded_listing\<close>
    has the recursion of the listing, \<open>listed_cluster\<close> the cluster that bounds it.
  \<^item> \<open>Api\<close>: the C++ interface \<open>api/cpp/vsfs.cpp\<close>. The text of a range query gives the same, exact files through the interface and
    through the command line.

  \<^bold>\<open>Loops.\<close> Loops that always end are recursive functions with a measure. The client's retry loops and its climb to the
  root of a path may not end; they are partial functions into options, \<^const>\<open>NoReturn\<close> is the fault of a call that does
  not return, and it is proved exactly when the retries end. No definition has fuel.

  \<^bold>\<open>Order and interleaving.\<close> A server's operation runs under its lock and is one step; sequences of steps are inductive
  relations or lists of operations. The order in which threads of one update run is an argument. The threads of a
  controller's start and stop, and those of an index manager and its flusher, interleave statement by statement. Interleavings inside another operation that holds no
  lock are not modelled.

  \<^bold>\<open>Transaction ids.\<close> Clients leave the transaction ids of updates and searches at zero. \<open>Index_Manager\<close> treats any ids;
  \<open>Search\<close> is about the id zero, and one theorem shows what a background flush then loses.

  \<^bold>\<open>Not modelled.\<close> The thread pools, signal handlers and pid files of the servers are I/O around the modelled operations; sockets and the
  serialisation of \<open>rpc/thrift_utils.h\<close> are Thrift's. Of the front ends, \<open>vsfs_init\<close>, which only logs, the help
  texts and the Python module, which only exposes \<open>Status\<close>, are left out, as are the mocks of the tests and the constructors that
  take them. The typed interface of indices is modelled for integer keys; keys of \<open>float\<close>, \<open>double\<close> and \<open>string\<close> go through the textual one.
  \<open>IndexImpl::split\<close> and \<open>MTHashMap::swap\<close> are templates that do not compile when used.
\<close>

end
